(* ===== verification/Prelude.thy ===== *)
theory Prelude
  imports Main "HOL-Library.Word" "HOL-Library.AList"
begin

text \<open>
  What the components share: the names of the program's types (Go's \<open>uint64\<close>, byte slices,
  error values), the collections of rewrite rules the component proofs use, and generic lemmas
  on machine words, prefixes of lists, association lists (Go maps) and majorities.
\<close>

section \<open>Types\<close>

type_synonym u64 = "64 word"
type_synonym byte = "8 word"
type_synonym bytes = "byte list"

text \<open>
  A Go error is modelled by its message; \<open>nil\<close> is \<^const>\<open>None\<close> where a function returns an
  error only.  A Go map is an association list with distinct keys: \<^const>\<open>AList.update\<close> is
  the assignment \<open>m[k] = v\<close>, \<^const>\<open>AList.delete\<close> the built-in \<open>delete\<close>,
  \<^const>\<open>map_of\<close> the lookup and \<^const>\<open>length\<close> the built-in \<open>len\<close>.
\<close>

datatype go_error = Err string

abbreviation (input) keys :: "('k \<times> 'v) list \<Rightarrow> 'k list" where
  "keys m \<equiv> map fst m"

text \<open>The read \<open>m[k]\<close> of a Go map whose values have zero value \<open>z\<close>.\<close>

definition map_get :: "'v \<Rightarrow> ('k \<times> 'v) list \<Rightarrow> 'k \<Rightarrow> 'v" where
  "map_get z m k = (case map_of m k of None \<Rightarrow> z | Some v \<Rightarrow> v)"

text \<open>Decimal rendering of an unsigned number, Go's \<open>%d\<close>.\<close>

fun decimal :: "nat \<Rightarrow> string" where
  "decimal n = (if n < 10 then [char_of (48 + n)] else decimal (n div 10) @ [char_of (48 + n mod 10)])"

declare decimal.simps [simp del]

text \<open>Conversions between Go strings and byte slices.\<close>

definition string_to_bytes :: "string \<Rightarrow> bytes" where
  "string_to_bytes s = map (\<lambda>c. of_nat (of_char c)) s"

definition bytes_to_string :: "bytes \<Rightarrow> string" where
  "bytes_to_string b = map (\<lambda>x. char_of (unat x)) b"

section \<open>Collections\<close>

named_theorems frame \<open>fields an operation leaves unchanged\<close>
named_theorems effects \<open>the value of a field after an operation\<close>

section \<open>Strings and bytes\<close>

lemma string_to_bytes_Nil [simp]: "string_to_bytes [] = []"
  by (simp add: string_to_bytes_def)

lemma bytes_to_string_to_bytes [simp]: "bytes_to_string (string_to_bytes s) = s"
proof -
  have "char_of (unat (of_nat (of_char c) :: byte)) = c" for c :: char
  proof -
    have "unat (of_nat (of_char c) :: byte) = of_char c"
      using of_char_of [of "of_char c :: nat"] nat_of_char_less_256 [of c]
      by (simp add: unat_of_nat take_bit_eq_mod)
    then show ?thesis by simp
  qed
  then show ?thesis
    by (simp add: string_to_bytes_def bytes_to_string_def map_idI)
qed

section \<open>Machine words\<close>

lemma unat_plus1 [simp]: "unat (x :: u64) < 2 ^ 64 - 1 \<Longrightarrow> unat (x + 1) = unat x + 1"
  by (simp add: unat_word_ariths)

lemma unat_inc: "(x :: u64) < - 1 \<Longrightarrow> unat (x + 1) = Suc (unat x)"
  using unatSuc [of x] by (metis add.commute add.inverse_unique order_less_irrefl)

lemma unat_word_bound: "unat (x :: u64) < 2 ^ 64"
  using unsigned_less [of x] by simp

lemma unat_of_nat_u64: "n < 2 ^ 64 \<Longrightarrow> unat (of_nat n :: u64) = n"
  by (simp add: unat_of_nat take_bit_eq_mod)

lemma u64_eq_iff: "x = y \<longleftrightarrow> unat (x :: u64) = unat y"
  by (simp add: word_unat_eq_iff)

lemma unat_le_u64: "x \<le> y \<longleftrightarrow> unat (x :: u64) \<le> unat y"
  by (simp add: word_le_nat_alt)

lemma unat_less_u64: "x < y \<longleftrightarrow> unat (x :: u64) < unat y"
  by (simp add: word_less_nat_alt)

lemmas u64_arith = unat_le_u64 unat_less_u64

section \<open>Prefixes\<close>

lemma take_mono_eq: "take m xs = take m ys \<Longrightarrow> n \<le> m \<Longrightarrow> take n xs = take n ys"
  by (metis min.absorb1 take_take)

lemma take_Suc_eq_nth:
  assumes "take (Suc m) xs = take (Suc m) ys" and "i \<le> m"
    and "i < length xs" and "i < length ys"
  shows "xs ! i = ys ! i"
proof -
  from assms(2) have "xs ! i = take (Suc m) xs ! i" and "ys ! i = take (Suc m) ys ! i"
    by simp_all
  with assms(1) show ?thesis by simp
qed

lemma take_Suc_eq_length:
  assumes "take (Suc m) xs = take (Suc m) ys" and "m < length ys"
  shows "m < length xs"
proof -
  have "length (take (Suc m) xs) = length (take (Suc m) ys)"
    using assms(1) by simp
  with assms(2) show ?thesis by simp
qed

lemma take_extend_eq:
  assumes "xs = take (length xs) ys" and "m < length xs" and "length xs \<le> j"
  shows "take (Suc m) xs = take (Suc m) (take j ys)"
proof -
  have "take (Suc m) (take (length xs) ys) = take (Suc m) (take j ys)"
    using assms(2,3) by simp
  with assms(1) show ?thesis by simp
qed

section \<open>Association lists\<close>

lemma map_get_update [simp]:
  "map_get z (AList.update k v m) k' = (if k' = k then v else map_get z m k')"
  by (simp add: map_get_def update_conv')

lemma set_keys_update [simp]: "fst ` set (AList.update k v m) = insert k (fst ` set m)"
  by (simp add: dom_update)

lemma keys_update_same: "k \<in> fst ` set m \<Longrightarrow> keys (AList.update k v m) = keys m"
  by (induction m) auto

lemma map_get_Some: "map_of m k = Some v \<Longrightarrow> map_get z m k = v"
  by (simp add: map_get_def)

lemma map_get_in_set:
  "distinct (keys m) \<Longrightarrow> (k, v) \<in> set m \<Longrightarrow> map_get z m k = v"
  by (simp add: map_get_def)

section \<open>Majorities\<close>

definition majority :: "'n set \<Rightarrow> 'n set \<Rightarrow> bool" where
  "majority N Q \<longleftrightarrow> Q \<subseteq> N \<and> card N < 2 * card Q"

lemma majority_intersect:
  assumes "finite N" and "majority N P" and "majority N Q"
  obtains v where "v \<in> P" and "v \<in> Q"
proof -
  have sub: "P \<union> Q \<subseteq> N" and fin: "finite P" "finite Q"
    using assms by (auto simp: majority_def intro: finite_subset)
  have "card (P \<union> Q) \<le> card N"
    using assms(1) sub by (rule card_mono)
  moreover have "card N < card P + card Q"
    using assms(2,3) by (simp add: majority_def)
  moreover have "card (P \<union> Q) + card (P \<inter> Q) = card P + card Q"
    using card_Un_Int [OF fin] by simp
  ultimately have "card (P \<inter> Q) \<noteq> 0" by linarith
  then have "P \<inter> Q \<noteq> {}" by auto
  with that show thesis by blast
qed

lemma majority_nonempty: "majority N Q \<Longrightarrow> Q \<noteq> {}"
  by (auto simp: majority_def)

lemma majority_all: "finite N \<Longrightarrow> N \<noteq> {} \<Longrightarrow> majority N N"
  by (simp add: majority_def card_gt_0_iff)

text \<open>The code's threshold: \<open>total / 2 + 1\<close> out of \<open>total\<close>.\<close>

lemma majority_threshold: "t div 2 + 1 \<le> k \<longleftrightarrow> t < 2 * (k :: nat)"
  by presburger

end
