(* ===== verification/Messages.thy ===== *)
theory Messages
  imports Prelude
begin

text \<open>
  The protocol messages of \<open>proto/raft.proto\<close>, as the structs \<open>proto/raft.pb.go\<close> generates
  for them (without the runtime's bookkeeping fields).
\<close>

section \<open>Raft messages\<close>

record log_entry =
  le_index :: u64
  le_term :: u64
  le_command :: bytes

record request_vote_request =
  rv_term :: u64
  rv_candidate_id :: string
  rv_last_log_index :: u64
  rv_last_log_term :: u64
  rv_pre_vote :: bool

record request_vote_response =
  rvr_term :: u64
  rvr_vote_granted :: bool

record append_entries_request =
  ae_term :: u64
  ae_leader_id :: string
  ae_prev_log_index :: u64
  ae_prev_log_term :: u64
  ae_entries :: "log_entry list"
  ae_leader_commit :: u64

record append_entries_response =
  aer_term :: u64
  aer_success :: bool

section \<open>Client messages\<close>

record set_request =
  sq_key :: string
  sq_value :: string

record set_response =
  sr_success :: bool
  sr_error :: string
  sr_leader_hint :: string

record get_request =
  gq_key :: string

record get_response =
  gr_value :: string
  gr_found :: bool
  gr_error :: string

record delete_request =
  dq_key :: string

record delete_response =
  dr_success :: bool
  dr_error :: string
  dr_leader_hint :: string

section \<open>Logs\<close>

text \<open>The sentinel entry at index 0 of every log.\<close>

definition sentinel :: log_entry where
  "sentinel = \<lparr>le_index = 0, le_term = 0, le_command = []\<rparr>"

lemma sentinel_simps [simp]:
  "le_index sentinel = 0" "le_term sentinel = 0" "le_command sentinel = []"
  by (simp_all add: sentinel_def)

text \<open>Entries whose index fields number consecutive positions from \<open>i\<close> on.\<close>

definition numbered :: "nat \<Rightarrow> log_entry list \<Rightarrow> bool" where
  "numbered i es \<longleftrightarrow> (\<forall>k < length es. le_index (es ! k) = of_nat (i + k))"

lemma numbered_Nil [simp]: "numbered i []"
  by (simp add: numbered_def)

lemma numbered_append:
  "numbered i (xs @ ys) \<longleftrightarrow> numbered i xs \<and> numbered (i + length xs) ys"
proof
  assume n: "numbered i (xs @ ys)"
  have "le_index (xs ! k) = of_nat (i + k)" if "k < length xs" for k
    using n that by (auto simp: numbered_def nth_append dest: spec [of _ k])
  moreover have "le_index (ys ! k) = of_nat (i + length xs + k)" if "k < length ys" for k
    using n that by (auto simp: numbered_def nth_append add.assoc dest: spec [of _ "length xs + k"])
  ultimately show "numbered i xs \<and> numbered (i + length xs) ys" by (simp add: numbered_def)
next
  assume n: "numbered i xs \<and> numbered (i + length xs) ys"
  then show "numbered i (xs @ ys)"
    by (auto simp: numbered_def nth_append)
qed

lemma numbered_take: "numbered i xs \<Longrightarrow> numbered i (take k xs)"
  by (simp add: numbered_def)

lemma numbered_drop: "numbered i xs \<Longrightarrow> numbered (i + k) (drop k xs)"
  by (simp add: numbered_def add.assoc)

lemma numbered_single: "numbered i [e] \<longleftrightarrow> le_index e = of_nat i"
  by (simp add: numbered_def)

end
