(* ===== verification/Storage.thy ===== *)
theory Storage
  imports Messages
begin

text \<open>
  The persistence interface \<open>internal/storage/persistence.go\<close>.  A Go interface value is a
  record of its methods, so the consensus engine is modelled over any backend, as it is
  written; the locale states what the engine relies on, and the theories of the two backends
  interpret it.
\<close>

section \<open>The interface\<close>

text \<open>
  Methods that change the state return it with Go's error value; a pair of a value and an error
  is a sum where every caller looks at the error first, and a pair where some caller uses the
  value without looking at the error (\<open>lastIndex, _ :=\<close>).
\<close>

record 's storage_backend =
  SaveTerm :: "u64 \<Rightarrow> 's \<Rightarrow> go_error option \<times> 's"
  LoadTerm :: "'s \<Rightarrow> go_error + u64"
  SaveVotedFor :: "string \<Rightarrow> 's \<Rightarrow> go_error option \<times> 's"
  LoadVotedFor :: "'s \<Rightarrow> go_error + string"
  AppendEntries :: "log_entry list \<Rightarrow> 's \<Rightarrow> go_error option \<times> 's"
  GetEntry :: "u64 \<Rightarrow> 's \<Rightarrow> go_error + log_entry"
  GetEntriesFrom :: "u64 \<Rightarrow> 's \<Rightarrow> log_entry list \<times> go_error option"
  TruncateFrom :: "u64 \<Rightarrow> 's \<Rightarrow> go_error option \<times> 's"
  LastIndex :: "'s \<Rightarrow> u64 \<times> go_error option"
  LastTerm :: "'s \<Rightarrow> u64 \<times> go_error option"
  LoadAllEntries :: "'s \<Rightarrow> go_error + log_entry list"

section \<open>The contract\<close>

text \<open>
  A working backend: on its valid states it holds a term, a vote and a log that starts with the
  sentinel and whose entries carry their position as index, every operation succeeds, and reads
  return what was written.  The laws for the log's size bound exclude only logs of
  \<open>2 ^ 64\<close> entries, and \<open>fits\<close> names the commands within the backend's value size limit.
\<close>

definition log_ok :: "log_entry list \<Rightarrow> bool" where
  "log_ok L \<longleftrightarrow> L \<noteq> [] \<and> hd L = sentinel \<and> numbered 0 L \<and> length L < 2 ^ 64"

lemma log_okD:
  assumes "log_ok L"
  shows "L \<noteq> []" "hd L = sentinel" "L ! 0 = sentinel" "numbered 0 L" "length L < 2 ^ 64" "0 < length L"
  using assms by (auto simp: log_ok_def hd_conv_nth)

lemma log_ok_take: "log_ok L \<Longrightarrow> 0 < i \<Longrightarrow> log_ok (take i L)"
  by (auto simp: log_ok_def numbered_take hd_take)

lemma log_ok_append:
  "log_ok L \<Longrightarrow> numbered (length L) es \<Longrightarrow> length L + length es < 2 ^ 64 \<Longrightarrow> log_ok (L @ es)"
  by (auto simp: log_ok_def numbered_append)

locale storage =
  fixes B :: "'s storage_backend"
    and ok :: "'s \<Rightarrow> bool"
    and term_of :: "'s \<Rightarrow> u64"
    and vote_of :: "'s \<Rightarrow> string"
    and log_of :: "'s \<Rightarrow> log_entry list"
    and fits :: "bytes \<Rightarrow> bool"
  assumes fits_Nil: "fits []"
    and ok_log: "ok s \<Longrightarrow> log_ok (log_of s)"
    and SaveTerm_ok: "ok s \<Longrightarrow> \<exists>s'. SaveTerm B t s = (None, s') \<and> ok s' \<and>
      term_of s' = t \<and> vote_of s' = vote_of s \<and> log_of s' = log_of s"
    and SaveVotedFor_ok: "ok s \<Longrightarrow> fits (string_to_bytes v) \<Longrightarrow> \<exists>s'. SaveVotedFor B v s = (None, s') \<and> ok s' \<and>
      term_of s' = term_of s \<and> vote_of s' = v \<and> log_of s' = log_of s"
    and AppendEntries_ok: "ok s \<Longrightarrow> numbered (length (log_of s)) es \<Longrightarrow>
      length (log_of s) + length es < 2 ^ 64 \<Longrightarrow> (\<forall>e\<in>set es. fits (le_command e)) \<Longrightarrow>
      \<exists>s'. AppendEntries B es s = (None, s') \<and> ok s' \<and>
        term_of s' = term_of s \<and> vote_of s' = vote_of s \<and> log_of s' = log_of s @ es"
    and TruncateFrom_ok: "ok s \<Longrightarrow> 0 < i \<Longrightarrow> \<exists>s'. TruncateFrom B i s = (None, s') \<and> ok s' \<and>
        term_of s' = term_of s \<and> vote_of s' = vote_of s \<and> log_of s' = take (unat i) (log_of s)"
    and LoadTerm_ok: "ok s \<Longrightarrow> LoadTerm B s = Inr (term_of s)"
    and LoadVotedFor_ok: "ok s \<Longrightarrow> LoadVotedFor B s = Inr (vote_of s)"
    and LoadAllEntries_ok: "ok s \<Longrightarrow> LoadAllEntries B s = Inr (log_of s)"
    and GetEntry_in: "ok s \<Longrightarrow> unat i < length (log_of s) \<Longrightarrow> GetEntry B i s = Inr (log_of s ! unat i)"
    and GetEntry_out: "ok s \<Longrightarrow> length (log_of s) \<le> unat i \<Longrightarrow> \<exists>e. GetEntry B i s = Inl e"
    and GetEntriesFrom_ok: "ok s \<Longrightarrow> GetEntriesFrom B i s = (drop (unat i) (log_of s), None)"
    and LastIndex_ok: "ok s \<Longrightarrow> LastIndex B s = (of_nat (length (log_of s) - 1), None)"
    and LastTerm_ok: "ok s \<Longrightarrow> LastTerm B s = (le_term (last (log_of s)), None)"
begin

lemmas ok_facts = log_okD [OF ok_log]

lemma SaveTerm_simps:
  assumes "ok s"
  shows "fst (SaveTerm B t s) = None" "ok (snd (SaveTerm B t s))"
    "term_of (snd (SaveTerm B t s)) = t" "vote_of (snd (SaveTerm B t s)) = vote_of s"
    "log_of (snd (SaveTerm B t s)) = log_of s"
  using SaveTerm_ok [OF assms, of t] by auto

lemma SaveVotedFor_simps:
  assumes "ok s" and "fits (string_to_bytes v)"
  shows "fst (SaveVotedFor B v s) = None" "ok (snd (SaveVotedFor B v s))"
    "term_of (snd (SaveVotedFor B v s)) = term_of s" "vote_of (snd (SaveVotedFor B v s)) = v"
    "log_of (snd (SaveVotedFor B v s)) = log_of s"
  using SaveVotedFor_ok [OF assms] by auto

lemmas save_simps = SaveTerm_simps SaveVotedFor_simps

lemma LastIndex_unat: "ok s \<Longrightarrow> unat (fst (LastIndex B s)) = length (log_of s) - 1"
  using ok_facts(5) [of s] by (simp add: LastIndex_ok unat_of_nat_u64)

lemma LastIndex_Suc: "ok s \<Longrightarrow> unat (fst (LastIndex B s) + 1) = length (log_of s)"
  using ok_facts(5,6) [of s] LastIndex_unat [of s] by simp

lemma GetEntry_Inr_iff:
  "ok s \<Longrightarrow> GetEntry B i s = Inr e \<longleftrightarrow> unat i < length (log_of s) \<and> e = log_of s ! unat i"
  using GetEntry_in [of s i] GetEntry_out [of s i] by (cases "unat i < length (log_of s)") auto

end

end
