(* ===== verification/Memory_Store.thy ===== *)
theory Memory_Store
  imports Storage
begin

text \<open>
  The in-memory backend \<open>internal/storage/memory_store.go\<close>: a term, a vote and a slice of
  entries indexed by position.
\<close>

record memory_store =
  ms_term :: u64
  ms_votedFor :: string
  ms_entries :: "log_entry list"

definition NewMemoryStore :: memory_store where
  "NewMemoryStore = \<lparr>ms_term = 0, ms_votedFor = '''', ms_entries = [sentinel]\<rparr>"

definition ms_SaveTerm :: "u64 \<Rightarrow> memory_store \<Rightarrow> go_error option \<times> memory_store" where
  "ms_SaveTerm t m = (None, m\<lparr>ms_term := t\<rparr>)"

definition ms_LoadTerm :: "memory_store \<Rightarrow> go_error + u64" where
  "ms_LoadTerm m = Inr (ms_term m)"

definition ms_SaveVotedFor :: "string \<Rightarrow> memory_store \<Rightarrow> go_error option \<times> memory_store" where
  "ms_SaveVotedFor c m = (None, m\<lparr>ms_votedFor := c\<rparr>)"

definition ms_LoadVotedFor :: "memory_store \<Rightarrow> go_error + string" where
  "ms_LoadVotedFor m = Inr (ms_votedFor m)"

definition ms_AppendEntries :: "log_entry list \<Rightarrow> memory_store \<Rightarrow> go_error option \<times> memory_store" where
  "ms_AppendEntries es m = (None, m\<lparr>ms_entries := ms_entries m @ es\<rparr>)"

definition ms_GetEntry :: "u64 \<Rightarrow> memory_store \<Rightarrow> go_error + log_entry" where
  "ms_GetEntry i m =
     (if of_nat (length (ms_entries m)) \<le> i
      then Inl (Err (''entry index '' @ decimal (unat i) @ '' out of bounds''))
      else Inr (ms_entries m ! unat i))"

definition ms_GetEntriesFrom :: "u64 \<Rightarrow> memory_store \<Rightarrow> log_entry list \<times> go_error option" where
  "ms_GetEntriesFrom i m =
     (if of_nat (length (ms_entries m)) \<le> i then ([], None)
      else (drop (unat i) (ms_entries m), None))"

definition ms_TruncateFrom :: "u64 \<Rightarrow> memory_store \<Rightarrow> go_error option \<times> memory_store" where
  "ms_TruncateFrom i m =
     (if i < of_nat (length (ms_entries m))
      then (None, m\<lparr>ms_entries := take (unat i) (ms_entries m)\<rparr>) else (None, m))"

text \<open>\<open>uint64(len - 1)\<close> of an empty slice wraps to the largest index.\<close>

definition ms_LastIndex :: "memory_store \<Rightarrow> u64 \<times> go_error option" where
  "ms_LastIndex m = (of_int (int (length (ms_entries m)) - 1), None)"

definition ms_LastTerm :: "memory_store \<Rightarrow> u64 \<times> go_error option" where
  "ms_LastTerm m =
     (if length (ms_entries m) = 0 then (0, None)
      else (le_term (ms_entries m ! (length (ms_entries m) - 1)), None))"

definition ms_LoadAllEntries :: "memory_store \<Rightarrow> go_error + log_entry list" where
  "ms_LoadAllEntries m = Inr (ms_entries m)"

definition memory_backend :: "memory_store storage_backend" where
  "memory_backend =
     \<lparr>SaveTerm = ms_SaveTerm, LoadTerm = ms_LoadTerm, SaveVotedFor = ms_SaveVotedFor,
      LoadVotedFor = ms_LoadVotedFor, AppendEntries = ms_AppendEntries, GetEntry = ms_GetEntry,
      GetEntriesFrom = ms_GetEntriesFrom, TruncateFrom = ms_TruncateFrom, LastIndex = ms_LastIndex,
      LastTerm = ms_LastTerm, LoadAllEntries = ms_LoadAllEntries\<rparr>"

section \<open>The contract\<close>

lemmas memory_store_defs =
  memory_backend_def ms_SaveTerm_def ms_LoadTerm_def ms_SaveVotedFor_def ms_LoadVotedFor_def
  ms_AppendEntries_def ms_GetEntry_def ms_GetEntriesFrom_def ms_TruncateFrom_def ms_LastIndex_def
  ms_LastTerm_def ms_LoadAllEntries_def

definition ms_ok :: "memory_store \<Rightarrow> bool" where
  "ms_ok m \<longleftrightarrow> log_ok (ms_entries m)"

lemma of_nat_le_iff_u64: "n < 2 ^ 64 \<Longrightarrow> of_nat n \<le> (i :: u64) \<longleftrightarrow> n \<le> unat i"
  by (simp add: unat_le_u64 unat_of_nat_u64)

lemma ms_TruncateFrom_entries:
  "log_ok (ms_entries m) \<Longrightarrow> ms_TruncateFrom i m = (None, m\<lparr>ms_entries := take (unat i) (ms_entries m)\<rparr>)"
  using of_nat_le_iff_u64 [of "length (ms_entries m)" i] log_okD(5) [of "ms_entries m"]
  by (auto simp: ms_TruncateFrom_def not_less [symmetric])

interpretation memory: storage memory_backend ms_ok ms_term ms_votedFor ms_entries "\<lambda>_. True"
proof unfold_locales
  fix m i assume ok: "ms_ok m"
  have l: "log_ok (ms_entries m)" using ok by (simp add: ms_ok_def)
  show "LastIndex memory_backend m = (of_nat (length (ms_entries m) - 1), None)"
    using log_okD(1) [OF l] by (cases "ms_entries m") (simp_all add: memory_store_defs)
  show "LastTerm memory_backend m = (le_term (last (ms_entries m)), None)"
    using log_okD(1) [OF l] by (simp add: memory_store_defs last_conv_nth)
  show "GetEntriesFrom memory_backend i m = (drop (unat i) (ms_entries m), None)"
    using log_okD(5) [OF l] by (simp add: memory_store_defs of_nat_le_iff_u64)
  show "unat i < length (ms_entries m) \<Longrightarrow> GetEntry memory_backend i m = Inr (ms_entries m ! unat i)"
    and "length (ms_entries m) \<le> unat i \<Longrightarrow> \<exists>e. GetEntry memory_backend i m = Inl e"
    using log_okD(5) [OF l] by (simp_all add: memory_store_defs of_nat_le_iff_u64)
  show "0 < i \<Longrightarrow> \<exists>m'. TruncateFrom memory_backend i m = (None, m') \<and> ms_ok m' \<and>
      ms_term m' = ms_term m \<and> ms_votedFor m' = ms_votedFor m \<and>
      ms_entries m' = take (unat i) (ms_entries m)"
    using l ms_TruncateFrom_entries [OF l, of i] log_ok_take [OF l, of "unat i"]
    by (simp add: memory_backend_def ms_ok_def unat_gt_0 word_gt_0)
qed (auto simp: memory_store_defs ms_ok_def intro: log_ok_append)

lemma ms_ok_New: "ms_ok NewMemoryStore"
  by (simp add: ms_ok_def NewMemoryStore_def log_ok_def numbered_def)

end
