(* ===== verification/Byte_Order.thy ===== *)
theory Byte_Order
  imports Prelude "HOL-Library.List_Lexorder"
begin

text \<open>
  The keys of the log bucket, \<open>uint64ToBytes\<close> and \<open>bytesToUint64\<close> of
  \<open>internal/storage/bbolt_store.go\<close>: eight bytes, most significant first.  Byte strings are
  compared as bbolt compares them, lexicographically, and that order is the order of the
  numbers.
\<close>

unbundle bit_operations_syntax

definition uint64ToBytes :: "u64 \<Rightarrow> bytes" where
  "uint64ToBytes n = map (\<lambda>k. ucast (drop_bit k n)) [56, 48, 40, 32, 24, 16, 8, 0]"

definition bytesToUint64 :: "bytes \<Rightarrow> u64" where
  "bytesToUint64 b =
     (if length b < 8 then 0
      else push_bit 56 (ucast (b ! 0)) OR push_bit 48 (ucast (b ! 1)) OR push_bit 40 (ucast (b ! 2)) OR
        push_bit 32 (ucast (b ! 3)) OR push_bit 24 (ucast (b ! 4)) OR push_bit 16 (ucast (b ! 5)) OR
        push_bit 8 (ucast (b ! 6)) OR ucast (b ! 7))"

lemma length_uint64ToBytes [simp]: "length (uint64ToBytes n) = 8"
  by (simp add: uint64ToBytes_def)

lemma bit_byte_of:
  "bit (push_bit k (ucast (ucast (drop_bit k n) :: byte)) :: u64) i \<longleftrightarrow> k \<le> i \<and> i < k + 8 \<and> i < 64 \<and> bit (n :: u64) i"
  by (auto simp: bit_push_bit_iff bit_ucast_iff bit_drop_bit_eq possible_bit_def)

lemma bytesToUint64_uint64ToBytes [simp]: "bytesToUint64 (uint64ToBytes n) = n"
proof (rule bit_word_eqI)
  fix i assume "i < LENGTH(64)"
  then have i: "i < 64" by simp
  have d: "push_bit 0 x = x" for x :: u64 by simp
  have "bytesToUint64 (uint64ToBytes n) =
      (foldr (\<lambda>k a. push_bit k (ucast (ucast (drop_bit k n) :: byte)) OR a) [56, 48, 40, 32, 24, 16, 8, 0] 0)"
    by (simp add: bytesToUint64_def uint64ToBytes_def)
  then have "bit (bytesToUint64 (uint64ToBytes n)) i \<longleftrightarrow>
      (\<exists>k \<in> {56, 48, 40, 32, 24, 16, 8, 0}. k \<le> i \<and> i < k + 8) \<and> bit n i"
    using i bit_byte_of [of 0 n i] by (simp add: bit_or_iff bit_byte_of) blast
  moreover have "\<exists>k \<in> {56, 48, 40, 32, 24, 16, 8, 0}. k \<le> i \<and> i < k + 8"
    using i by (simp; presburger)
  ultimately show "bit (bytesToUint64 (uint64ToBytes n)) i = bit n i" by blast
qed

lemma uint64ToBytes_inject [simp]: "uint64ToBytes n = uint64ToBytes m \<longleftrightarrow> n = m"
  by (metis bytesToUint64_uint64ToBytes)

section \<open>The order of the keys\<close>

text \<open>The digits of a number below \<open>256 ^ k\<close>, as bytes.\<close>

fun big_endian :: "nat \<Rightarrow> nat \<Rightarrow> bytes" where
  "big_endian 0 n = []"
| "big_endian (Suc k) n = of_nat (n div 256 ^ k) # big_endian k (n mod 256 ^ k)"

lemma big_endian_less: "n < 256 ^ k \<Longrightarrow> m < 256 ^ k \<Longrightarrow> big_endian k n < big_endian k m \<longleftrightarrow> n < m"
proof (induction k arbitrary: n m)
  case (Suc k)
  let ?q = "(256 :: nat) ^ k"
  have d: "n div ?q < 256" "m div ?q < 256" using Suc.prems by (simp_all add: less_mult_imp_div_less mult.commute)
  then have u: "unat (of_nat (n div ?q) :: byte) = n div ?q" "unat (of_nat (m div ?q) :: byte) = m div ?q"
    by (simp_all add: unat_of_nat take_bit_eq_mod)
  have ih: "big_endian k (n mod ?q) < big_endian k (m mod ?q) \<longleftrightarrow> n mod ?q < m mod ?q"
    by (rule Suc.IH) simp_all
  have "n < m \<longleftrightarrow> n div ?q < m div ?q \<or> n div ?q = m div ?q \<and> n mod ?q < m mod ?q"
  proof
    assume "n < m"
    then have "n div ?q \<le> m div ?q" by (simp add: div_le_mono)
    with \<open>n < m\<close> show "n div ?q < m div ?q \<or> n div ?q = m div ?q \<and> n mod ?q < m mod ?q"
      by (metis div_mult_mod_eq nat_add_left_cancel_less order_le_less)
  next
    assume "n div ?q < m div ?q \<or> n div ?q = m div ?q \<and> n mod ?q < m mod ?q"
    then show "n < m"
      by (metis div_mult_mod_eq div_le_mono linorder_not_le nat_add_left_cancel_less)
  qed
  with u ih show ?case by (simp add: word_less_nat_alt word_unat_eq_iff)
qed simp

lemma of_nat_mod_div:
  assumes "j < k"
  shows "(of_nat (n mod 256 ^ k div 256 ^ j) :: byte) = of_nat (n div 256 ^ j)"
proof -
  have "(256 :: nat) ^ k = 256 ^ j * 256 ^ (k - j)"
    using assms by (simp add: power_add [symmetric])
  then have "n mod 256 ^ k div 256 ^ j = n div 256 ^ j mod 256 ^ (k - j)"
    by (simp add: mod_mult2_eq)
  moreover have "(256 :: nat) dvd 256 ^ (k - j)" using assms by (simp add: dvd_power)
  ultimately show ?thesis
    by (simp add: word_unat_eq_iff unat_of_nat take_bit_eq_mod mod_mod_cancel)
qed

lemma big_endian_map: "big_endian k n = map (\<lambda>j. of_nat (n div 256 ^ j)) (rev [0..<k])"
proof (induction k arbitrary: n)
  case (Suc k)
  have "map (\<lambda>j. of_nat (n mod 256 ^ k div 256 ^ j) :: byte) (rev [0..<k]) =
      map (\<lambda>j. of_nat (n div 256 ^ j)) (rev [0..<k])"
    by (simp add: of_nat_mod_div)
  with Suc show ?case by simp
qed simp

lemma ucast_drop_bit: "(ucast (drop_bit (8 * j) n) :: byte) = of_nat (unat (n :: u64) div 256 ^ j)"
proof -
  have "(256 :: nat) ^ j = 2 ^ (8 * j)" by (simp add: power_mult)
  moreover have "unat (drop_bit (8 * j) n) = unat n div 2 ^ (8 * j)"
    by (metis drop_bit_eq_div unat_drop_bit_eq)
  ultimately show ?thesis
    by (simp only: word_unat_eq_iff unsigned_ucast_eq unat_of_nat take_bit_eq_mod)
qed

lemma uint64ToBytes_big_endian: "uint64ToBytes n = big_endian 8 (unat n)"
proof -
  have "rev [0..<8] = [7, 6, 5, 4, 3, 2, 1, 0 :: nat]" by code_simp
  moreover have "uint64ToBytes n = map (\<lambda>j. ucast (drop_bit (8 * j) n)) [7, 6, 5, 4, 3, 2, 1, 0]"
    by (simp add: uint64ToBytes_def)
  ultimately show ?thesis by (simp only: big_endian_map ucast_drop_bit)
qed

lemma uint64ToBytes_less: "uint64ToBytes n < uint64ToBytes m \<longleftrightarrow> n < m"
proof -
  have "unat n < 256 ^ 8" "unat m < 256 ^ 8" using unat_word_bound [of n] unat_word_bound [of m] by simp_all
  from big_endian_less [OF this] show ?thesis
    by (simp add: uint64ToBytes_big_endian word_less_nat_alt)
qed

end
