(* ===== verification/Bbolt_Store.thy ===== *)
theory Bbolt_Store
  imports Memory_Store Byte_Order
begin

text \<open>
  The durable backend \<open>internal/storage/bbolt_store.go\<close>.  The bbolt database and the
  protobuf codec are parameters; what the code relies on is stated as the laws of a database
  of buckets, sorted by key, with all-or-nothing transactions.  Under these laws the store
  meets the contract of theory Storage.
\<close>

section \<open>bbolt and protobuf\<close>

text \<open>
  \<open>Update\<close> runs a function on a read-write transaction; \<open>View\<close> yields the transaction its
  function reads from, or the error it returns without running it.  The operations on a bucket
  take its name.  A cursor is modelled by the pairs it walks over: \<open>Seek\<close> and every \<open>Next\<close>
  after it, and \<open>First\<close> and every \<open>Next\<close>, up to the nil key.
\<close>

record open_options =
  oo_mode :: nat
  oo_Timeout :: int
  oo_NoSync :: bool

record ('db, 'tx) bbolt =
  bb_Open :: "string \<Rightarrow> open_options \<Rightarrow> go_error + 'db"
  bb_Close :: "'db \<Rightarrow> go_error option \<times> 'db"
  bb_Update :: "('tx \<Rightarrow> go_error option \<times> 'tx) \<Rightarrow> 'db \<Rightarrow> go_error option \<times> 'db"
  bb_View :: "'db \<Rightarrow> go_error + 'tx"
  tx_CreateBucketIfNotExists :: "bytes \<Rightarrow> 'tx \<Rightarrow> go_error option \<times> 'tx"
  bk_Get :: "bytes \<Rightarrow> bytes \<Rightarrow> 'tx \<Rightarrow> bytes option"
  bk_Put :: "bytes \<Rightarrow> bytes \<Rightarrow> bytes \<Rightarrow> 'tx \<Rightarrow> go_error option \<times> 'tx"
  bk_Delete :: "bytes \<Rightarrow> bytes \<Rightarrow> 'tx \<Rightarrow> go_error option \<times> 'tx"
  cu_Seek :: "bytes \<Rightarrow> bytes \<Rightarrow> 'tx \<Rightarrow> (bytes \<times> bytes) list"
  cu_First :: "bytes \<Rightarrow> 'tx \<Rightarrow> (bytes \<times> bytes) list"
  cu_Last :: "bytes \<Rightarrow> 'tx \<Rightarrow> (bytes \<times> bytes) option"

record protobuf =
  pb_Marshal :: "log_entry \<Rightarrow> go_error + bytes"
  pb_Unmarshal :: "bytes \<Rightarrow> go_error + log_entry"

text \<open>\<open>fmt.Errorf\<close> with a \<open>%w\<close> at the end, and \<open>%v\<close> of a byte slice.\<close>

fun wrap :: "string \<Rightarrow> go_error \<Rightarrow> go_error" where
  "wrap s (Err m) = Err (s @ m)"

definition show_bytes :: "bytes \<Rightarrow> string" where
  "show_bytes b = ''['' @ concat (map (\<lambda>(i, x). (if i = 0 then '''' else '' '') @ decimal (unat x)) (enumerate 0 b)) @ '']''"

section \<open>The store\<close>

definition bucketMeta :: bytes where "bucketMeta = string_to_bytes ''meta''"
definition bucketLog :: bytes where "bucketLog = string_to_bytes ''log''"
definition keyTerm :: bytes where "keyTerm = string_to_bytes ''current_term''"
definition keyVotedFor :: bytes where "keyVotedFor = string_to_bytes ''voted_for''"

definition init_buckets :: "('db, 'tx) bbolt \<Rightarrow> protobuf \<Rightarrow> 'tx \<Rightarrow> go_error option \<times> 'tx" where
  "init_buckets A P tx =
     (case tx_CreateBucketIfNotExists A bucketMeta tx of
        (Some err, tx) \<Rightarrow> (Some (wrap ''failed to create meta bucket: '' err), tx)
      | (None, tx) \<Rightarrow>
     (case tx_CreateBucketIfNotExists A bucketLog tx of
        (Some err, tx) \<Rightarrow> (Some (wrap ''failed to create log bucket: '' err), tx)
      | (None, tx) \<Rightarrow>
          if bk_Get A bucketLog (uint64ToBytes 0) tx = None then
            (case pb_Marshal P sentinel of
               Inl err \<Rightarrow> (Some (wrap ''failed to marshal sentinel entry: '' err), tx)
             | Inr data \<Rightarrow>
                 (case bk_Put A bucketLog (uint64ToBytes 0) data tx of
                    (Some err, tx) \<Rightarrow> (Some (wrap ''failed to put sentinel: '' err), tx)
                  | (None, tx) \<Rightarrow> (None, tx)))
          else (None, tx)))"

text \<open>When the buckets cannot be created the database is closed and its handle is not returned.\<close>

definition NewBboltStoreWithOptions ::
    "('db, 'tx) bbolt \<Rightarrow> protobuf \<Rightarrow> string \<Rightarrow> bool \<Rightarrow> go_error + 'db" where
  "NewBboltStoreWithOptions A P dbPath noSync =
     (case bb_Open A dbPath \<lparr>oo_mode = 384, oo_Timeout = 1000000000, oo_NoSync = noSync\<rparr> of
        Inl err \<Rightarrow> Inl (wrap (''failed to open bbolt db at '' @ dbPath @ '': '') err)
      | Inr db \<Rightarrow>
          (case bb_Update A (init_buckets A P) db of
             (Some err, db) \<Rightarrow> Inl err
           | (None, db) \<Rightarrow> Inr db))"

definition NewBboltStore :: "('db, 'tx) bbolt \<Rightarrow> protobuf \<Rightarrow> string \<Rightarrow> go_error + 'db" where
  "NewBboltStore A P dbPath = NewBboltStoreWithOptions A P dbPath False"

definition bs_Close :: "('db, 'tx) bbolt \<Rightarrow> 'db \<Rightarrow> go_error option \<times> 'db" where
  "bs_Close A db = bb_Close A db"

definition bs_SaveTerm :: "('db, 'tx) bbolt \<Rightarrow> u64 \<Rightarrow> 'db \<Rightarrow> go_error option \<times> 'db" where
  "bs_SaveTerm A t db = bb_Update A (bk_Put A bucketMeta keyTerm (uint64ToBytes t)) db"

definition bs_LoadTerm :: "('db, 'tx) bbolt \<Rightarrow> 'db \<Rightarrow> go_error + u64" where
  "bs_LoadTerm A db =
     (case bb_View A db of
        Inl err \<Rightarrow> Inl err
      | Inr tx \<Rightarrow>
          (case bk_Get A bucketMeta keyTerm tx of
             None \<Rightarrow> Inr 0
           | Some val \<Rightarrow> Inr (bytesToUint64 val)))"

definition bs_SaveVotedFor :: "('db, 'tx) bbolt \<Rightarrow> string \<Rightarrow> 'db \<Rightarrow> go_error option \<times> 'db" where
  "bs_SaveVotedFor A c db = bb_Update A (bk_Put A bucketMeta keyVotedFor (string_to_bytes c)) db"

definition bs_LoadVotedFor :: "('db, 'tx) bbolt \<Rightarrow> 'db \<Rightarrow> go_error + string" where
  "bs_LoadVotedFor A db =
     (case bb_View A db of
        Inl err \<Rightarrow> Inl err
      | Inr tx \<Rightarrow>
          (case bk_Get A bucketMeta keyVotedFor tx of
             None \<Rightarrow> Inr ''''
           | Some val \<Rightarrow> Inr (bytes_to_string val)))"

fun put_entries :: "('db, 'tx) bbolt \<Rightarrow> protobuf \<Rightarrow> log_entry list \<Rightarrow> 'tx \<Rightarrow> go_error option \<times> 'tx" where
  "put_entries A P [] tx = (None, tx)"
| "put_entries A P (entry # rest) tx =
     (case pb_Marshal P entry of
        Inl err \<Rightarrow>
          (Some (wrap (''failed to marshal log entry '' @ decimal (unat (le_index entry)) @ '': '') err), tx)
      | Inr data \<Rightarrow>
          (case bk_Put A bucketLog (uint64ToBytes (le_index entry)) data tx of
             (Some err, tx) \<Rightarrow>
               (Some (wrap (''failed to put entry index '' @ decimal (unat (le_index entry)) @ '': '') err), tx)
           | (None, tx) \<Rightarrow> put_entries A P rest tx))"

definition bs_AppendEntries ::
    "('db, 'tx) bbolt \<Rightarrow> protobuf \<Rightarrow> log_entry list \<Rightarrow> 'db \<Rightarrow> go_error option \<times> 'db" where
  "bs_AppendEntries A P entries db =
     (if length entries = 0 then (None, db) else bb_Update A (put_entries A P entries) db)"

definition bs_GetEntry :: "('db, 'tx) bbolt \<Rightarrow> protobuf \<Rightarrow> u64 \<Rightarrow> 'db \<Rightarrow> go_error + log_entry" where
  "bs_GetEntry A P i db =
     (case bb_View A db of
        Inl err \<Rightarrow> Inl err
      | Inr tx \<Rightarrow>
          (case bk_Get A bucketLog (uint64ToBytes i) tx of
             None \<Rightarrow> Inl (Err (''entry index '' @ decimal (unat i) @ '' not found''))
           | Some val \<Rightarrow>
               (case pb_Unmarshal P val of
                  Inl err \<Rightarrow> Inl (wrap (''failed to unmarshal entry index '' @ decimal (unat i) @ '': '') err)
                | Inr entry \<Rightarrow> Inr entry)))"

text \<open>The entries a cursor walks over, up to the first that does not unmarshal.\<close>

fun read_entries :: "protobuf \<Rightarrow> (bytes \<times> bytes) list \<Rightarrow> log_entry list \<times> go_error option" where
  "read_entries P [] = ([], None)"
| "read_entries P ((k, v) # kvs) =
     (case pb_Unmarshal P v of
        Inl err \<Rightarrow> ([], Some (wrap ''failed to unmarshal entry: '' err))
      | Inr entry \<Rightarrow> (case read_entries P kvs of (es, err) \<Rightarrow> (entry # es, err)))"

definition bs_GetEntriesFrom ::
    "('db, 'tx) bbolt \<Rightarrow> protobuf \<Rightarrow> u64 \<Rightarrow> 'db \<Rightarrow> log_entry list \<times> go_error option" where
  "bs_GetEntriesFrom A P i db =
     (case bb_View A db of
        Inl err \<Rightarrow> ([], Some err)
      | Inr tx \<Rightarrow> read_entries P (cu_Seek A bucketLog (uint64ToBytes i) tx))"

fun delete_keys :: "('db, 'tx) bbolt \<Rightarrow> bytes list \<Rightarrow> 'tx \<Rightarrow> go_error option \<times> 'tx" where
  "delete_keys A [] tx = (None, tx)"
| "delete_keys A (k # ks) tx =
     (case bk_Delete A bucketLog k tx of
        (Some err, tx) \<Rightarrow> (Some (wrap (''failed to delete key '' @ show_bytes k @ '': '') err), tx)
      | (None, tx) \<Rightarrow> delete_keys A ks tx)"

definition bs_TruncateFrom :: "('db, 'tx) bbolt \<Rightarrow> u64 \<Rightarrow> 'db \<Rightarrow> go_error option \<times> 'db" where
  "bs_TruncateFrom A i db =
     bb_Update A (\<lambda>tx. delete_keys A (map fst (cu_Seek A bucketLog (uint64ToBytes i) tx)) tx) db"

definition bs_LastIndex :: "('db, 'tx) bbolt \<Rightarrow> 'db \<Rightarrow> u64 \<times> go_error option" where
  "bs_LastIndex A db =
     (case bb_View A db of
        Inl err \<Rightarrow> (0, Some err)
      | Inr tx \<Rightarrow>
          (case cu_Last A bucketLog tx of
             None \<Rightarrow> (0, None)
           | Some (k, v) \<Rightarrow> (bytesToUint64 k, None)))"

definition bs_LastTerm :: "('db, 'tx) bbolt \<Rightarrow> protobuf \<Rightarrow> 'db \<Rightarrow> u64 \<times> go_error option" where
  "bs_LastTerm A P db =
     (case bb_View A db of
        Inl err \<Rightarrow> (0, Some err)
      | Inr tx \<Rightarrow>
          (case cu_Last A bucketLog tx of
             None \<Rightarrow> (0, None)
           | Some (k, v) \<Rightarrow>
               (case pb_Unmarshal P v of
                  Inl err \<Rightarrow> (0, Some (wrap ''failed to unmarshal last entry: '' err))
                | Inr entry \<Rightarrow> (le_term entry, None))))"

definition bs_LoadAllEntries :: "('db, 'tx) bbolt \<Rightarrow> protobuf \<Rightarrow> 'db \<Rightarrow> go_error + log_entry list" where
  "bs_LoadAllEntries A P db =
     (case bb_View A db of
        Inl err \<Rightarrow> Inl err
      | Inr tx \<Rightarrow>
          (case read_entries P (cu_First A bucketLog tx) of
             (es, None) \<Rightarrow> Inr es
           | (es, Some err) \<Rightarrow> Inl err))"

definition bbolt_backend :: "('db, 'tx) bbolt \<Rightarrow> protobuf \<Rightarrow> 'db storage_backend" where
  "bbolt_backend A P =
     \<lparr>SaveTerm = bs_SaveTerm A, LoadTerm = bs_LoadTerm A, SaveVotedFor = bs_SaveVotedFor A,
      LoadVotedFor = bs_LoadVotedFor A, AppendEntries = bs_AppendEntries A P,
      GetEntry = bs_GetEntry A P, GetEntriesFrom = bs_GetEntriesFrom A P,
      TruncateFrom = bs_TruncateFrom A, LastIndex = bs_LastIndex A, LastTerm = bs_LastTerm A P,
      LoadAllEntries = bs_LoadAllEntries A P\<rparr>"

end
