(* ===== verification/Bbolt_Contract.thy ===== *)
theory Bbolt_Contract
  imports Bbolt_Store
begin

text \<open>
  The bbolt store meets the storage contract: under the documented behaviour of bbolt and
  protobuf, its log bucket holds the log, entry \<open>i\<close> under the key of \<open>i\<close>, and its meta bucket
  the term and the vote.
\<close>

section \<open>What bbolt and protobuf promise\<close>

text \<open>
  \<open>up\<close> are the open databases, \<open>state\<close> the transaction that sees the last commit, and \<open>sem\<close>
  the buckets a transaction sees, by name.  A function that returns no error is committed, one
  that returns an error is rolled back; keys are non-empty and at most 32768 bytes long, values
  at most \<open>2 ^ 31 - 2\<close> bytes; a cursor walks over the keys in their byte order.
\<close>

definition bbolt_laws ::
    "('db, 'tx) bbolt \<Rightarrow> ('db \<Rightarrow> bool) \<Rightarrow> ('db \<Rightarrow> 'tx) \<Rightarrow> ('tx \<Rightarrow> bytes \<Rightarrow> (bytes \<Rightarrow> bytes option) option) \<Rightarrow> bool" where
  "bbolt_laws A up state sem \<longleftrightarrow>
     (\<forall>db. up db \<longrightarrow> bb_View A db = Inr (state db)) \<and>
     (\<forall>db f tx. up db \<and> f (state db) = (None, tx) \<longrightarrow>
        (\<exists>db'. bb_Update A f db = (None, db') \<and> up db' \<and> sem (state db') = sem tx)) \<and>
     (\<forall>db f e tx. up db \<and> f (state db) = (Some e, tx) \<longrightarrow>
        (\<exists>db'. bb_Update A f db = (Some e, db') \<and> up db' \<and> sem (state db') = sem (state db))) \<and>
     (\<forall>b tx. b \<noteq> [] \<longrightarrow> (\<exists>tx'. tx_CreateBucketIfNotExists A b tx = (None, tx') \<and>
        sem tx' = (if sem tx b = None then (sem tx)(b \<mapsto> Map.empty) else sem tx))) \<and>
     (\<forall>b tx m. sem tx b = Some m \<longrightarrow> finite (dom m) \<and>
        (\<forall>k. bk_Get A b k tx = m k) \<and>
        (\<forall>k v. k \<noteq> [] \<and> length k \<le> 32768 \<and> length v \<le> 2 ^ 31 - 2 \<longrightarrow>
           (\<exists>tx'. bk_Put A b k v tx = (None, tx') \<and> sem tx' = (sem tx)(b \<mapsto> m(k \<mapsto> v)))) \<and>
        (\<forall>k. \<exists>tx'. bk_Delete A b k tx = (None, tx') \<and> sem tx' = (sem tx)(b \<mapsto> m(k := None))) \<and>
        (\<forall>k. cu_Seek A b k tx = map (\<lambda>k'. (k', the (m k'))) (sorted_list_of_set {k' \<in> dom m. k \<le> k'})) \<and>
        cu_First A b tx = map (\<lambda>k'. (k', the (m k'))) (sorted_list_of_set (dom m)) \<and>
        cu_Last A b tx = (if dom m = {} then None else Some (Max (dom m), the (m (Max (dom m))))))"

lemma bbolt_lawsD:
  assumes "bbolt_laws A up state sem"
  shows View: "up db \<Longrightarrow> bb_View A db = Inr (state db)"
    and Update: "up db \<Longrightarrow> f (state db) = (None, tx) \<Longrightarrow>
      \<exists>db'. bb_Update A f db = (None, db') \<and> up db' \<and> sem (state db') = sem tx"
    and Create: "b \<noteq> [] \<Longrightarrow> \<exists>tx'. tx_CreateBucketIfNotExists A b tx = (None, tx') \<and>
      sem tx' = (if sem tx b = None then (sem tx)(b \<mapsto> Map.empty) else sem tx)"
    and Get: "sem tx b = Some m \<Longrightarrow> bk_Get A b k tx = m k"
    and Put: "sem tx b = Some m \<Longrightarrow> k \<noteq> [] \<Longrightarrow> length k \<le> 32768 \<Longrightarrow> length v \<le> 2 ^ 31 - 2 \<Longrightarrow>
      \<exists>tx'. bk_Put A b k v tx = (None, tx') \<and> sem tx' = (sem tx)(b \<mapsto> m(k \<mapsto> v))"
    and Delete: "sem tx b = Some m \<Longrightarrow>
      \<exists>tx'. bk_Delete A b k tx = (None, tx') \<and> sem tx' = (sem tx)(b \<mapsto> m(k := None))"
    and Seek: "sem tx b = Some m \<Longrightarrow>
      cu_Seek A b k tx = map (\<lambda>k'. (k', the (m k'))) (sorted_list_of_set {k' \<in> dom m. k \<le> k'})"
    and First: "sem tx b = Some m \<Longrightarrow>
      cu_First A b tx = map (\<lambda>k'. (k', the (m k'))) (sorted_list_of_set (dom m))"
    and Last: "sem tx b = Some m \<Longrightarrow>
      cu_Last A b tx = (if dom m = {} then None else Some (Max (dom m), the (m (Max (dom m)))))"
  using assms unfolding bbolt_laws_def by meson+

text \<open>An entry round-trips if its command is of at most \<open>2 ^ 30\<close> bytes.\<close>

definition command_fits :: "bytes \<Rightarrow> bool" where
  "command_fits c \<longleftrightarrow> length c \<le> 2 ^ 30"

definition protobuf_laws :: "protobuf \<Rightarrow> bool" where
  "protobuf_laws P \<longleftrightarrow> (\<forall>e. command_fits (le_command e) \<longrightarrow>
     (\<exists>b. pb_Marshal P e = Inr b \<and> length b \<le> 2 ^ 31 - 2 \<and> pb_Unmarshal P b = Inr e))"

definition encoded :: "protobuf \<Rightarrow> log_entry \<Rightarrow> bytes" where
  "encoded P e = (case pb_Marshal P e of Inl _ \<Rightarrow> [] | Inr b \<Rightarrow> b)"

lemma encoded:
  assumes "protobuf_laws P" and "command_fits (le_command e)"
  shows "pb_Marshal P e = Inr (encoded P e)" "length (encoded P e) \<le> 2 ^ 31 - 2" "pb_Unmarshal P (encoded P e) = Inr e"
  using assms unfolding protobuf_laws_def encoded_def by fastforce+

section \<open>The log bucket\<close>

definition log_map :: "protobuf \<Rightarrow> log_entry list \<Rightarrow> bytes \<Rightarrow> bytes option" where
  "log_map P L k =
     (let i = unat (bytesToUint64 k) in
      if k = uint64ToBytes (bytesToUint64 k) \<and> i < length L then Some (encoded P (L ! i)) else None)"

lemma log_map_key: "log_map P L (uint64ToBytes i) = (if unat i < length L then Some (encoded P (L ! unat i)) else None)"
  by (simp add: log_map_def)

lemma log_map_None: "(\<And>i. k \<noteq> uint64ToBytes i) \<Longrightarrow> log_map P L k = None"
  by (simp add: log_map_def)

lemma log_map_cases: obtains i where "k = uint64ToBytes i" | "\<And>i. k \<noteq> uint64ToBytes i"
  by blast

lemma log_map_sentinel: "log_map P [e] = Map.empty(uint64ToBytes 0 \<mapsto> encoded P e)"
proof
  fix k
  show "log_map P [e] k = (Map.empty(uint64ToBytes 0 \<mapsto> encoded P e)) k"
    by (rule log_map_cases [of k]) (auto simp: log_map_key log_map_None unat_eq_0)
qed

lemma log_map_snoc:
  assumes "length L < 2 ^ 64"
  shows "(log_map P L)(uint64ToBytes (of_nat (length L)) \<mapsto> encoded P e) = log_map P (L @ [e])"
proof
  fix k
  show "((log_map P L)(uint64ToBytes (of_nat (length L)) \<mapsto> encoded P e)) k = log_map P (L @ [e]) k"
  proof (rule log_map_cases [of k])
    fix i assume "k = uint64ToBytes i"
    moreover have "i = of_nat (length L) \<longleftrightarrow> unat i = length L"
      using assms by (simp add: unat_of_nat_u64 u64_eq_iff)
    ultimately show ?thesis by (auto simp: log_map_key nth_append)
  qed (auto simp: log_map_None)
qed

lemma log_map_take: "(\<lambda>k. if uint64ToBytes i \<le> k then None else log_map P L k) = log_map P (take (unat i) L)"
proof
  fix k
  show "(if uint64ToBytes i \<le> k then None else log_map P L k) = log_map P (take (unat i) L) k"
    by (rule log_map_cases [of k])
      (auto simp: log_map_key log_map_None not_less [symmetric] uint64ToBytes_less unat_less_u64)
qed

lemma dom_log_map:
  assumes "length L \<le> 2 ^ 64"
  shows "{k \<in> dom (log_map P L). uint64ToBytes i \<le> k} = (\<lambda>j. uint64ToBytes (of_nat j)) ` {unat i ..< length L}"
proof (intro set_eqI iffI)
  fix k
  assume "k \<in> {k \<in> dom (log_map P L). uint64ToBytes i \<le> k}"
  then obtain j where "k = uint64ToBytes j" "unat j < length L" "i \<le> j"
    by (cases rule: log_map_cases [of k])
      (auto simp: log_map_key log_map_None not_less [symmetric] uint64ToBytes_less split: if_splits)
  then show "k \<in> (\<lambda>j. uint64ToBytes (of_nat j)) ` {unat i ..< length L}"
    by (intro image_eqI [of _ _ "unat j"]) (auto simp: unat_le_u64)
next
  fix k
  assume "k \<in> (\<lambda>j. uint64ToBytes (of_nat j)) ` {unat i ..< length L}"
  then obtain j where j: "k = uint64ToBytes (of_nat j)" "unat i \<le> j" "j < length L" by auto
  then have "unat (of_nat j :: u64) = j" using assms by (intro unat_of_nat_u64) simp
  with j show "k \<in> {k \<in> dom (log_map P L). uint64ToBytes i \<le> k}"
    by (auto simp: log_map_key not_less [symmetric] uint64ToBytes_less unat_less_u64)
qed

lemma sorted_keys:
  assumes "n \<le> 2 ^ 64"
  shows "sorted_list_of_set ((\<lambda>j. uint64ToBytes (of_nat j)) ` {i ..< n}) = map (\<lambda>j. uint64ToBytes (of_nat j)) [i ..< n]"
proof -
  have "sorted_wrt (\<lambda>x y. uint64ToBytes (of_nat x) < uint64ToBytes (of_nat y)) [i ..< n]"
    using assms by (intro sorted_wrt_upt [THEN sorted_wrt_mono_rel [rotated]])
      (auto simp: uint64ToBytes_less unat_less_u64 unat_of_nat_u64)
  then have "sorted_wrt (<) (map (\<lambda>j. uint64ToBytes (of_nat j)) [i ..< n])"
    by (simp add: sorted_wrt_map)
  then show ?thesis by (intro strict_sorted_equal) simp_all
qed

section \<open>Reading and writing it\<close>

lemma read_entries_encoded:
  "protobuf_laws P \<Longrightarrow> \<forall>e\<in>set es. command_fits (le_command e) \<Longrightarrow> map snd kvs = map (encoded P) es \<Longrightarrow>
   read_entries P kvs = (es, None)"
proof (induction es arbitrary: kvs)
  case (Cons e es)
  then obtain k kvs' where "kvs = (k, encoded P e) # kvs'" "map snd kvs' = map (encoded P) es"
    by (cases kvs) auto
  with Cons encoded(3) [of P e] show ?case by simp
qed simp

text \<open>The open databases that hold a log, with the log, and the contents of the meta bucket.\<close>

definition bs_holds ::
    "protobuf \<Rightarrow> ('db \<Rightarrow> bool) \<Rightarrow> ('db \<Rightarrow> 'tx) \<Rightarrow> ('tx \<Rightarrow> bytes \<Rightarrow> (bytes \<Rightarrow> bytes option) option) \<Rightarrow>
     log_entry list \<Rightarrow> (bytes \<Rightarrow> bytes option) \<Rightarrow> 'db \<Rightarrow> bool" where
  "bs_holds P up state sem L meta db \<longleftrightarrow> up db \<and> log_ok L \<and> (\<forall>e\<in>set L. command_fits (le_command e)) \<and>
     sem (state db) bucketLog = Some (log_map P L) \<and> sem (state db) bucketMeta = Some meta"

lemma bucket_names [simp]: "bucketLog \<noteq> bucketMeta" "bucketMeta \<noteq> bucketLog" "bucketLog \<noteq> []" "bucketMeta \<noteq> []"
  by (simp_all add: bucketLog_def bucketMeta_def string_to_bytes_def)

lemma meta_keys [simp]: "keyTerm \<noteq> keyVotedFor" "keyVotedFor \<noteq> keyTerm"
  "keyTerm \<noteq> []" "keyVotedFor \<noteq> []" "length keyTerm \<le> 32768" "length keyVotedFor \<le> 32768"
  by (simp_all add: keyTerm_def keyVotedFor_def string_to_bytes_def)

lemma key_length [simp]: "uint64ToBytes i \<noteq> []"
  using length_uint64ToBytes [of i] by (metis length_0_conv zero_neq_numeral)

lemma put_entries_log:
  assumes A: "bbolt_laws A up state sem" and P: "protobuf_laws P"
  shows "sem tx bucketLog = Some (log_map P L) \<Longrightarrow> numbered (length L) es \<Longrightarrow>
    length L + length es < 2 ^ 64 \<Longrightarrow> \<forall>e\<in>set es. command_fits (le_command e) \<Longrightarrow>
    \<exists>tx'. put_entries A P es tx = (None, tx') \<and> sem tx' = (sem tx)(bucketLog \<mapsto> log_map P (L @ es))"
proof (induction es arbitrary: L tx)
  case Nil
  then show ?case by (simp add: fun_upd_idem)
next
  case (Cons e es)
  have i: "le_index e = of_nat (length L)" and n: "numbered (length (L @ [e])) es"
    using Cons.prems(2) numbered_append [of "length L" "[e]" es] by (simp_all add: numbered_single)
  note enc = encoded [OF P, of e]
  from Put [OF A Cons.prems(1), of "uint64ToBytes (le_index e)" "encoded P e"] enc Cons.prems(4)
  obtain tx1 where t: "bk_Put A bucketLog (uint64ToBytes (le_index e)) (encoded P e) tx = (None, tx1)"
    and s: "sem tx1 = (sem tx)(bucketLog \<mapsto> (log_map P L)(uint64ToBytes (le_index e) \<mapsto> encoded P e))" by auto
  have "(log_map P L)(uint64ToBytes (le_index e) \<mapsto> encoded P e) = log_map P (L @ [e])"
    unfolding i using Cons.prems(3) by (intro log_map_snoc) simp
  with s have s1: "sem tx1 = (sem tx)(bucketLog \<mapsto> log_map P (L @ [e]))" by simp
  then have s2: "sem tx1 bucketLog = Some (log_map P (L @ [e]))" by simp
  have "length (L @ [e]) + length es < 2 ^ 64" "\<forall>e\<in>set es. command_fits (le_command e)" using Cons.prems by simp_all
  from Cons.IH [OF s2 n this] obtain tx' where t': "put_entries A P es tx1 = (None, tx')"
    and s': "sem tx' = (sem tx1)(bucketLog \<mapsto> log_map P ((L @ [e]) @ es))" by blast
  have "sem tx' = (sem tx)(bucketLog \<mapsto> log_map P (L @ e # es))" unfolding s' s1 by simp
  moreover have "put_entries A P (e # es) tx = (None, tx')" using t t' enc(1) Cons.prems(4) by simp
  ultimately show ?case by blast
qed

lemma delete_keys_sem:
  assumes A: "bbolt_laws A up state sem"
  shows "sem tx bucketLog = Some m \<Longrightarrow>
    \<exists>tx'. delete_keys A ks tx = (None, tx') \<and>
      sem tx' = (sem tx)(bucketLog \<mapsto> (\<lambda>k. if k \<in> set ks then None else m k))"
proof (induction ks arbitrary: m tx)
  case Nil
  then show ?case by (simp add: fun_upd_idem)
next
  case (Cons k ks)
  from Delete [OF A Cons.prems, of k] obtain tx1 where t: "bk_Delete A bucketLog k tx = (None, tx1)"
    and s: "sem tx1 = (sem tx)(bucketLog \<mapsto> m(k := None))" by auto
  then have "sem tx1 bucketLog = Some (m(k := None))" by simp
  from Cons.IH [OF this] obtain tx' where t': "delete_keys A ks tx1 = (None, tx')"
    and s': "sem tx' = (sem tx1)(bucketLog \<mapsto> (\<lambda>k'. if k' \<in> set ks then None else (m(k := None)) k'))" by blast
  have "(\<lambda>k'. if k' \<in> set ks then None else (m(k := None)) k') = (\<lambda>k'. if k' \<in> set (k # ks) then None else m k')"
    by auto
  then have "sem tx' = (sem tx)(bucketLog \<mapsto> (\<lambda>k'. if k' \<in> set (k # ks) then None else m k'))"
    unfolding s' s by simp
  moreover have "delete_keys A (k # ks) tx = (None, tx')" using t t' by simp
  ultimately show ?case by blast
qed

section \<open>The operations on a store that holds a log\<close>

lemma cursor_from:
  assumes A: "bbolt_laws A up state sem" and h: "bs_holds P up state sem L meta db"
  shows "cu_Seek A bucketLog (uint64ToBytes i) (state db) =
    map (\<lambda>j. (uint64ToBytes (of_nat j), encoded P (L ! j))) [unat i ..< length L]"
proof -
  have l: "length L \<le> 2 ^ 64" using h log_okD(5) [of L] by (simp add: bs_holds_def)
  have m: "sem (state db) bucketLog = Some (log_map P L)" using h by (simp add: bs_holds_def)
  have "\<forall>j\<in>set [unat i ..< length L]. log_map P L (uint64ToBytes (of_nat j)) = Some (encoded P (L ! j))"
    using l by (simp add: log_map_key unat_of_nat_u64)
  with Seek [OF A m, of "uint64ToBytes i"] show ?thesis
    unfolding dom_log_map [OF l] sorted_keys [OF l] by simp
qed

lemma cursor_all:
  assumes A: "bbolt_laws A up state sem" and h: "bs_holds P up state sem L meta db"
  shows "cu_First A bucketLog (state db) = cu_Seek A bucketLog (uint64ToBytes 0) (state db)"
    "cu_Last A bucketLog (state db) = Some (uint64ToBytes (of_nat (length L - 1)), encoded P (last L))"
proof -
  have ok: "log_ok L" and m: "sem (state db) bucketLog = Some (log_map P L)" using h by (simp_all add: bs_holds_def)
  then have l: "length L \<le> 2 ^ 64" and ne: "0 < length L" "L \<noteq> []" using log_okD(5,6,1) [of L] by simp_all
  have le: "k \<in> dom (log_map P L) \<Longrightarrow> uint64ToBytes 0 \<le> k" for k
    by (rule log_map_cases [of k]) (auto simp: log_map_None not_less [symmetric] uint64ToBytes_less)
  then have all: "{k \<in> dom (log_map P L). uint64ToBytes 0 \<le> k} = dom (log_map P L)" by blast
  then show "cu_First A bucketLog (state db) = cu_Seek A bucketLog (uint64ToBytes 0) (state db)"
    using First [OF A m] Seek [OF A m, of "uint64ToBytes 0"] by simp
  let ?k = "uint64ToBytes (of_nat (length L - 1))"
  have u: "unat (of_nat (length L - 1) :: u64) = length L - 1" using l ne by (intro unat_of_nat_u64) simp
  have d: "dom (log_map P L) = (\<lambda>j. uint64ToBytes (of_nat j)) ` {0 ..< length L}"
    using dom_log_map [OF l, of P 0] all by simp
  have "Max (dom (log_map P L)) = ?k"
  proof (rule Max_eqI)
    fix k assume "k \<in> dom (log_map P L)"
    then obtain j where "k = uint64ToBytes (of_nat j)" "j < length L" using d by auto
    then show "k \<le> ?k" using l u
      by (auto simp: not_less [symmetric] uint64ToBytes_less unat_less_u64 unat_of_nat_u64)
  qed (use d ne in auto)
  moreover have "log_map P L ?k = Some (encoded P (last L))" using u ne
    by (simp add: log_map_key last_conv_nth del: of_nat_diff)
  moreover have "dom (log_map P L) \<noteq> {}" using d ne by simp
  ultimately show "cu_Last A bucketLog (state db) = Some (?k, encoded P (last L))"
    using Last [OF A m] by simp
qed

lemma bs_reads:
  assumes A: "bbolt_laws A up state sem" and P: "protobuf_laws P" and h: "bs_holds P up state sem L meta db"
  shows "bs_LoadTerm A db = Inr (case meta keyTerm of None \<Rightarrow> 0 | Some v \<Rightarrow> bytesToUint64 v)"
    "bs_LoadVotedFor A db = Inr (case meta keyVotedFor of None \<Rightarrow> '''' | Some v \<Rightarrow> bytes_to_string v)"
    "bs_LoadAllEntries A P db = Inr L"
    "bs_GetEntriesFrom A P i db = (drop (unat i) L, None)"
    "unat i < length L \<Longrightarrow> bs_GetEntry A P i db = Inr (L ! unat i)"
    "length L \<le> unat i \<Longrightarrow> \<exists>e. bs_GetEntry A P i db = Inl e"
    "bs_LastIndex A db = (of_nat (length L - 1), None)"
    "bs_LastTerm A P db = (le_term (last L), None)"
proof -
  have up: "up db" and ok: "log_ok L" and fit: "\<forall>e\<in>set L. command_fits (le_command e)"
    and log: "sem (state db) bucketLog = Some (log_map P L)" and mt: "sem (state db) bucketMeta = Some meta"
    using h by (simp_all add: bs_holds_def)
  note v = View [OF A up]
  show "bs_LoadTerm A db = Inr (case meta keyTerm of None \<Rightarrow> 0 | Some v \<Rightarrow> bytesToUint64 v)"
    "bs_LoadVotedFor A db = Inr (case meta keyVotedFor of None \<Rightarrow> '''' | Some v \<Rightarrow> bytes_to_string v)"
    by (simp_all add: bs_LoadTerm_def bs_LoadVotedFor_def v Get [OF A mt] split: option.split)
  have rd: "read_entries P (cu_Seek A bucketLog (uint64ToBytes j) (state db)) = (drop (unat j) L, None)" for j
  proof (rule read_entries_encoded [OF P])
    show "\<forall>e\<in>set (drop (unat j) L). command_fits (le_command e)" using fit by (blast dest: in_set_dropD)
    show "map snd (cu_Seek A bucketLog (uint64ToBytes j) (state db)) = map (encoded P) (drop (unat j) L)"
      unfolding cursor_from [OF A h] by (simp add: list_eq_iff_nth_eq)
  qed
  show "bs_GetEntriesFrom A P i db = (drop (unat i) L, None)" by (simp add: bs_GetEntriesFrom_def v rd)
  show "bs_LoadAllEntries A P db = Inr L"
    using rd [of 0] by (simp add: bs_LoadAllEntries_def v cursor_all(1) [OF A h])
  show "unat i < length L \<Longrightarrow> bs_GetEntry A P i db = Inr (L ! unat i)"
    using fit encoded(3) [OF P] by (simp add: bs_GetEntry_def v Get [OF A log] log_map_key)
  show "length L \<le> unat i \<Longrightarrow> \<exists>e. bs_GetEntry A P i db = Inl e"
    by (simp add: bs_GetEntry_def v Get [OF A log] log_map_key)
  show "bs_LastIndex A db = (of_nat (length L - 1), None)"
    by (simp add: bs_LastIndex_def v cursor_all(2) [OF A h])
  show "bs_LastTerm A P db = (le_term (last L), None)"
    using fit log_okD(1) [OF ok] encoded(3) [OF P] by (simp add: bs_LastTerm_def v cursor_all(2) [OF A h])
qed

lemma bs_holds_log:
  assumes "bs_holds P up state sem L meta db" and "up db'"
    and "sem (state db') = (sem (state db))(bucketLog \<mapsto> log_map P L')"
    and "log_ok L'" and "\<forall>e\<in>set L'. command_fits (le_command e)"
  shows "bs_holds P up state sem L' meta db'"
  using assms by (simp add: bs_holds_def)

lemma bs_put_meta:
  assumes A: "bbolt_laws A up state sem" and h: "bs_holds P up state sem L meta db"
    and k: "k \<noteq> []" "length k \<le> 32768" and v: "length v \<le> 2 ^ 31 - 2"
  shows "\<exists>db'. bb_Update A (bk_Put A bucketMeta k v) db = (None, db') \<and> bs_holds P up state sem L (meta(k \<mapsto> v)) db'"
proof -
  have up: "up db" and mt: "sem (state db) bucketMeta = Some meta" using h by (simp_all add: bs_holds_def)
  from Put [OF A mt k v] obtain tx where t: "bk_Put A bucketMeta k v (state db) = (None, tx)"
    and s: "sem tx = (sem (state db))(bucketMeta \<mapsto> meta(k \<mapsto> v))" by blast
  from Update [OF A up, of "bk_Put A bucketMeta k v", OF t] obtain db' where u: "bb_Update A (bk_Put A bucketMeta k v) db = (None, db')" "up db'"
    "sem (state db') = sem tx" by blast
  have "bs_holds P up state sem L (meta(k \<mapsto> v)) db'"
    using h u(2) unfolding bs_holds_def u(3) s by simp
  with u(1) show ?thesis by blast
qed

lemma bs_append:
  assumes A: "bbolt_laws A up state sem" and P: "protobuf_laws P" and h: "bs_holds P up state sem L meta db"
    and n: "numbered (length L) es" "length L + length es < 2 ^ 64" and f: "\<forall>e\<in>set es. command_fits (le_command e)"
  shows "\<exists>db'. bs_AppendEntries A P es db = (None, db') \<and> bs_holds P up state sem (L @ es) meta db'"
proof (cases "es = []")
  case True
  with h show ?thesis by (simp add: bs_AppendEntries_def)
next
  case False
  have up: "up db" and ok: "log_ok L" and fit: "\<forall>e\<in>set L. command_fits (le_command e)"
    and log: "sem (state db) bucketLog = Some (log_map P L)"
    using h by (simp_all add: bs_holds_def)
  from put_entries_log [OF A P log n f] obtain tx where t: "put_entries A P es (state db) = (None, tx)"
    and s: "sem tx = (sem (state db))(bucketLog \<mapsto> log_map P (L @ es))" by blast
  from Update [OF A up, of "put_entries A P es", OF t] obtain db' where u: "bb_Update A (put_entries A P es) db = (None, db')" "up db'"
    "sem (state db') = sem tx" by blast
  have "bs_holds P up state sem (L @ es) meta db'"
    using bs_holds_log [OF h u(2) u(3) [unfolded s] log_ok_append [OF ok n]] fit f by auto
  with u(1) False show ?thesis by (simp add: bs_AppendEntries_def)
qed

lemma bs_truncate:
  assumes A: "bbolt_laws A up state sem" and h: "bs_holds P up state sem L meta db" and i: "0 < i"
  shows "\<exists>db'. bs_TruncateFrom A i db = (None, db') \<and> bs_holds P up state sem (take (unat i) L) meta db'"
proof -
  have up: "up db" and ok: "log_ok L" and fit: "\<forall>e\<in>set L. command_fits (le_command e)"
    and log: "sem (state db) bucketLog = Some (log_map P L)"
    using h by (simp_all add: bs_holds_def)
  have l: "length L \<le> 2 ^ 64" using log_okD(5) [OF ok] by simp
  let ?f = "\<lambda>tx. delete_keys A (map fst (cu_Seek A bucketLog (uint64ToBytes i) tx)) tx"
  from delete_keys_sem [OF A log] obtain tx where t: "?f (state db) = (None, tx)"
    and s: "sem tx = (sem (state db))(bucketLog \<mapsto>
      (\<lambda>k. if k \<in> set (map fst (cu_Seek A bucketLog (uint64ToBytes i) (state db))) then None else log_map P L k))"
    by blast
  have "set (map fst (cu_Seek A bucketLog (uint64ToBytes i) (state db))) = {k \<in> dom (log_map P L). uint64ToBytes i \<le> k}"
    unfolding dom_log_map [OF l] cursor_from [OF A h] by (simp add: image_image)
  then have "(\<lambda>k. if k \<in> set (map fst (cu_Seek A bucketLog (uint64ToBytes i) (state db))) then None else log_map P L k) =
      log_map P (take (unat i) L)"
    unfolding log_map_take [symmetric] by (auto simp: fun_eq_iff domIff)
  with s have s': "sem tx = (sem (state db))(bucketLog \<mapsto> log_map P (take (unat i) L))" by simp
  from Update [OF A up, of ?f, OF t] obtain db' where u: "bb_Update A ?f db = (None, db')" "up db'"
    "sem (state db') = sem tx" by blast
  have "0 < unat i" using i by (simp add: unat_gt_0 word_gt_0)
  then have "bs_holds P up state sem (take (unat i) L) meta db'"
    using bs_holds_log [OF h u(2) u(3) [unfolded s'] log_ok_take [OF ok]] fit by (auto dest: in_set_takeD)
  with u(1) show ?thesis by (simp add: bs_TruncateFrom_def)
qed

section \<open>The contract\<close>

definition bs_ok ::
    "protobuf \<Rightarrow> ('db \<Rightarrow> bool) \<Rightarrow> ('db \<Rightarrow> 'tx) \<Rightarrow> ('tx \<Rightarrow> bytes \<Rightarrow> (bytes \<Rightarrow> bytes option) option) \<Rightarrow> 'db \<Rightarrow> bool" where
  "bs_ok P up state sem db \<longleftrightarrow> (\<exists>L meta. bs_holds P up state sem L meta db)"

definition bs_term :: "('db, 'tx) bbolt \<Rightarrow> 'db \<Rightarrow> u64" where
  "bs_term A db = projr (bs_LoadTerm A db)"

definition bs_vote :: "('db, 'tx) bbolt \<Rightarrow> 'db \<Rightarrow> string" where
  "bs_vote A db = projr (bs_LoadVotedFor A db)"

definition bs_log :: "('db, 'tx) bbolt \<Rightarrow> protobuf \<Rightarrow> 'db \<Rightarrow> log_entry list" where
  "bs_log A P db = projr (bs_LoadAllEntries A P db)"

lemma bs_view:
  assumes "bbolt_laws A up state sem" and "protobuf_laws P" and "bs_holds P up state sem L meta db"
  shows "bs_term A db = (case meta keyTerm of None \<Rightarrow> 0 | Some v \<Rightarrow> bytesToUint64 v)"
    "bs_vote A db = (case meta keyVotedFor of None \<Rightarrow> '''' | Some v \<Rightarrow> bytes_to_string v)"
    "bs_log A P db = L" "bs_ok P up state sem db"
  using assms by (auto simp: bs_term_def bs_vote_def bs_log_def bs_ok_def bs_reads)

lemma length_string_to_bytes [simp]: "length (string_to_bytes s) = length s"
  by (simp add: string_to_bytes_def)

lemma bbolt_meets_contract:
  assumes A: "bbolt_laws A up state sem" and P: "protobuf_laws P"
  shows "storage (bbolt_backend A P) (bs_ok P up state sem) (bs_term A) (bs_vote A) (bs_log A P) command_fits"
proof
  show "command_fits []" by (simp add: command_fits_def)
next
  fix db t v es i
  assume "bs_ok P up state sem db"
  then obtain L meta where h: "bs_holds P up state sem L meta db" by (auto simp: bs_ok_def)
  note rd = bs_reads [OF A P h] and vw = bs_view [OF A P h]
  show "log_ok (bs_log A P db)" using h by (simp add: vw(3) bs_holds_def)
  show "LoadTerm (bbolt_backend A P) db = Inr (bs_term A db)"
    "LoadVotedFor (bbolt_backend A P) db = Inr (bs_vote A db)"
    "LoadAllEntries (bbolt_backend A P) db = Inr (bs_log A P db)"
    "GetEntriesFrom (bbolt_backend A P) i db = (drop (unat i) (bs_log A P db), None)"
    "LastIndex (bbolt_backend A P) db = (of_nat (length (bs_log A P db) - 1), None)"
    "LastTerm (bbolt_backend A P) db = (le_term (last (bs_log A P db)), None)"
    by (simp_all add: bbolt_backend_def rd vw)
  show "unat i < length (bs_log A P db) \<Longrightarrow> GetEntry (bbolt_backend A P) i db = Inr (bs_log A P db ! unat i)"
    "length (bs_log A P db) \<le> unat i \<Longrightarrow> \<exists>e. GetEntry (bbolt_backend A P) i db = Inl e"
    using rd(5,6) [of i] by (simp_all add: bbolt_backend_def vw)
  have "length (uint64ToBytes t) \<le> 2 ^ 31 - 2" by simp
  from bs_put_meta [OF A h meta_keys(3,5) this] obtain db1 where
    1: "bs_SaveTerm A t db = (None, db1)" "bs_holds P up state sem L (meta(keyTerm \<mapsto> uint64ToBytes t)) db1"
    unfolding bs_SaveTerm_def by blast
  show "\<exists>db'. SaveTerm (bbolt_backend A P) t db = (None, db') \<and> bs_ok P up state sem db' \<and> bs_term A db' = t \<and>
      bs_vote A db' = bs_vote A db \<and> bs_log A P db' = bs_log A P db"
    using 1(1) bs_view [OF A P 1(2)] vw by (intro exI [of _ db1]) (simp add: bbolt_backend_def)
  show "\<exists>db'. SaveVotedFor (bbolt_backend A P) v db = (None, db') \<and> bs_ok P up state sem db' \<and>
      bs_term A db' = bs_term A db \<and> bs_vote A db' = v \<and> bs_log A P db' = bs_log A P db"
    if f: "command_fits (string_to_bytes v)"
  proof -
    have "length (string_to_bytes v) \<le> 2 ^ 31 - 2" using f by (simp add: command_fits_def)
    from bs_put_meta [OF A h meta_keys(4,6) this] obtain db2 where
      2: "bs_SaveVotedFor A v db = (None, db2)" "bs_holds P up state sem L (meta(keyVotedFor \<mapsto> string_to_bytes v)) db2"
      unfolding bs_SaveVotedFor_def by blast
    show ?thesis using 2(1) bs_view [OF A P 2(2)] vw by (intro exI [of _ db2]) (simp add: bbolt_backend_def)
  qed
  show "\<exists>db'. AppendEntries (bbolt_backend A P) es db = (None, db') \<and> bs_ok P up state sem db' \<and>
      bs_term A db' = bs_term A db \<and> bs_vote A db' = bs_vote A db \<and> bs_log A P db' = bs_log A P db @ es"
    if "numbered (length (bs_log A P db)) es" "length (bs_log A P db) + length es < 2 ^ 64"
      "\<forall>e\<in>set es. command_fits (le_command e)"
  proof -
    from bs_append [OF A P h that [unfolded vw(3)]] obtain db3 where
      3: "bs_AppendEntries A P es db = (None, db3)" "bs_holds P up state sem (L @ es) meta db3" by blast
    show ?thesis using 3(1) bs_view [OF A P 3(2)] vw by (intro exI [of _ db3]) (simp add: bbolt_backend_def)
  qed
  show "\<exists>db'. TruncateFrom (bbolt_backend A P) i db = (None, db') \<and> bs_ok P up state sem db' \<and>
      bs_term A db' = bs_term A db \<and> bs_vote A db' = bs_vote A db \<and> bs_log A P db' = take (unat i) (bs_log A P db)"
    if "0 < i"
  proof -
    from bs_truncate [OF A h that] obtain db4 where
      4: "bs_TruncateFrom A i db = (None, db4)" "bs_holds P up state sem (take (unat i) L) meta db4" by blast
    show ?thesis using 4(1) bs_view [OF A P 4(2)] vw by (intro exI [of _ db4]) (simp add: bbolt_backend_def)
  qed
qed

section \<open>Opening a store\<close>

text \<open>On an empty database the buckets and the sentinel are created.\<close>

lemma init_buckets_new:
  assumes A: "bbolt_laws A up state sem" and P: "protobuf_laws P" and new: "sem tx = Map.empty"
  shows "\<exists>tx'. init_buckets A P tx = (None, tx') \<and>
    sem tx' = [bucketMeta \<mapsto> Map.empty, bucketLog \<mapsto> log_map P [sentinel]]"
proof -
  from Create [OF A bucket_names(4), of tx] new obtain tx1 where
    1: "tx_CreateBucketIfNotExists A bucketMeta tx = (None, tx1)" "sem tx1 = [bucketMeta \<mapsto> Map.empty]" by auto
  from Create [OF A bucket_names(3), of tx1] 1(2) obtain tx2 where
    2: "tx_CreateBucketIfNotExists A bucketLog tx1 = (None, tx2)"
    "sem tx2 = [bucketMeta \<mapsto> Map.empty, bucketLog \<mapsto> Map.empty]" by auto
  have lg: "sem tx2 bucketLog = Some Map.empty" by (simp add: 2(2))
  have f: "command_fits (le_command sentinel)" by (simp add: command_fits_def)
  note enc = encoded [OF P f]
  from Put [OF A lg key_length _ enc(2)] obtain tx3 where
    3: "bk_Put A bucketLog (uint64ToBytes 0) (encoded P sentinel) tx2 = (None, tx3)"
    "sem tx3 = (sem tx2)(bucketLog \<mapsto> [uint64ToBytes 0 \<mapsto> encoded P sentinel])" by fastforce
  have "init_buckets A P tx = (None, tx3)"
    by (simp add: init_buckets_def 1(1) 2(1) 3(1) Get [OF A lg] enc(1))
  moreover have "sem tx3 = [bucketMeta \<mapsto> Map.empty, bucketLog \<mapsto> log_map P [sentinel]]"
    unfolding 3(2) 2(2) log_map_sentinel by simp
  ultimately show ?thesis by blast
qed

text \<open>On a store that holds a log nothing changes.\<close>

lemma init_buckets_again:
  assumes A: "bbolt_laws A up state sem" and log: "sem tx bucketLog = Some (log_map P L)"
    and mt: "sem tx bucketMeta = Some meta" and L: "log_ok L"
  shows "\<exists>tx'. init_buckets A P tx = (None, tx') \<and> sem tx' = sem tx"
proof -
  from Create [OF A bucket_names(4), of tx] mt obtain tx1 where
    1: "tx_CreateBucketIfNotExists A bucketMeta tx = (None, tx1)" "sem tx1 = sem tx" by auto
  from Create [OF A bucket_names(3), of tx1] 1(2) log obtain tx2 where
    2: "tx_CreateBucketIfNotExists A bucketLog tx1 = (None, tx2)" "sem tx2 = sem tx" by auto
  have "sem tx2 bucketLog = Some (log_map P L)" using 2(2) log by simp
  from Get [OF A this, of "uint64ToBytes 0"] log_okD(6) [OF L]
  have "bk_Get A bucketLog (uint64ToBytes 0) tx2 = Some (encoded P (L ! 0))" by (simp add: log_map_key)
  then have "init_buckets A P tx = (None, tx2)" by (simp add: init_buckets_def 1(1) 2(1))
  with 2(2) show ?thesis by blast
qed

end
