(* ===== verification/Raft_State.thy ===== *)
theory Raft_State
  imports Prelude
begin

text \<open>
  The role of a node (\<open>internal/raft/state.go\<close>), shared by the abstract protocol and by the
  model of the code.
\<close>

section \<open>Roles\<close>

datatype node_role = Follower | Candidate | Leader

text \<open>\<open>NodeRole.String\<close>; the \<open>default\<close> branch is for integers that are no role.\<close>

fun role_String :: "node_role \<Rightarrow> string" where
  "role_String Follower = ''Follower''"
| "role_String Candidate = ''Candidate''"
| "role_String Leader = ''Leader''"

text \<open>The integer value of a role (\<open>iota\<close>), as the role gauge shows it.\<close>

fun role_int :: "node_role \<Rightarrow> int" where
  "role_int Follower = 0"
| "role_int Candidate = 1"
| "role_int Leader = 2"

lemma role_int_inject [simp]: "role_int a = role_int b \<longleftrightarrow> a = b"
  by (cases a; cases b) simp_all

end
