(* ===== verification/Raft_Spec.thy ===== *)
theory Raft_Spec
  imports Raft_State
begin

text \<open>
  The abstract Raft protocol: what a cluster of nodes promises, with unbounded terms and logs
  and with history variables in place of the network.  The model of the code refines it
  (theory Cluster\_Refinement), and the safety properties of the cluster come from its
  invariants (theory Raft\_Safety).

  A log is a list of (term, content) pairs whose position 0 is the sentinel.  The history
  variables record every vote ever cast with the voter's log (\<open>a_votes\<close>, \<open>a_vlog\<close>), the
  log every candidate campaigned with (\<open>a_clog\<close>), the log of the leader of every term with
  the leader and the quorum that elected it (\<open>a_llog\<close>, \<open>a_lead\<close>, \<open>a_quor\<close>), which node
  acknowledged which prefix of which leader's log (\<open>a_acks\<close>), and the commit indices leaders
  have held (\<open>a_lcommits\<close>).
\<close>

section \<open>States\<close>

type_synonym 'c alog = "(nat \<times> 'c) list"

record ('n, 'c) spec =
  a_term :: "'n \<Rightarrow> nat"
  a_vote :: "'n \<Rightarrow> 'n option"
  a_log :: "'n \<Rightarrow> 'c alog"
  a_commit :: "'n \<Rightarrow> nat"
  a_role :: "'n \<Rightarrow> node_role"
  a_votes :: "(nat \<times> 'n \<times> 'n) set"
  a_vlog :: "nat \<times> 'n \<Rightarrow> 'c alog"
  a_clog :: "nat \<times> 'n \<Rightarrow> 'c alog option"
  a_llog :: "nat \<Rightarrow> 'c alog option"
  a_lead :: "nat \<Rightarrow> 'n"
  a_quor :: "nat \<Rightarrow> 'n set"
  a_acks :: "(nat \<times> 'n \<times> nat) set"
  a_lcommits :: "(nat \<times> nat) set"

text \<open>Section 5.4.1 of the paper: a later last term wins, then the longer log.\<close>

definition up_to_date :: "'c alog \<Rightarrow> 'c alog \<Rightarrow> bool" where
  "up_to_date L V \<longleftrightarrow>
     (if fst (last L) \<noteq> fst (last V) then fst (last V) < fst (last L)
      else length V \<le> length L)"

definition spec_init :: "'n set \<Rightarrow> 'c \<Rightarrow> ('n, 'c) spec \<Rightarrow> bool" where
  "spec_init N c0 s \<longleftrightarrow>
     a_term s = (\<lambda>_. 0) \<and> a_vote s = (\<lambda>_. None) \<and> a_log s = (\<lambda>_. [(0, c0)]) \<and>
     a_commit s = (\<lambda>_. 0) \<and> a_role s = (\<lambda>_. Follower) \<and> a_votes s = {} \<and>
     a_clog s = (\<lambda>_. None) \<and> a_llog s = [0 \<mapsto> [(0, c0)]] \<and>
     a_acks s = {(0, v, 0) | v. v \<in> N} \<and> a_lcommits s = {(0, 0)}"

section \<open>Steps\<close>

text \<open>The leader of the node's current term counts index \<open>i\<close> as replicated on a majority.\<close>

definition quorum_acked :: "'n set \<Rightarrow> ('n, 'c) spec \<Rightarrow> nat \<Rightarrow> nat \<Rightarrow> bool" where
  "quorum_acked N s t i \<longleftrightarrow>
     (\<exists>Q. majority N Q \<and> (\<forall>v\<in>Q. (t, v, i) \<in> a_acks s))"

inductive spec_step :: "'n set \<Rightarrow> ('n, 'c) spec \<Rightarrow> ('n, 'c) spec \<Rightarrow> bool" for N where
  campaign: "n \<in> N \<Longrightarrow> a_role s n \<noteq> Leader \<Longrightarrow> t = Suc (a_term s n) \<Longrightarrow>
     spec_step N s (s\<lparr>a_term := (a_term s)(n := t), a_vote := (a_vote s)(n := Some n),
       a_role := (a_role s)(n := Candidate), a_clog := (a_clog s)((t, n) := Some (a_log s n)),
       a_votes := insert (t, n, n) (a_votes s), a_vlog := (a_vlog s)((t, n) := a_log s n)\<rparr>)"
| observe: "n \<in> N \<Longrightarrow> a_term s n < t \<Longrightarrow>
     spec_step N s (s\<lparr>a_term := (a_term s)(n := t), a_vote := (a_vote s)(n := None),
       a_role := (a_role s)(n := Follower)\<rparr>)"
| torn: "n \<in> N \<Longrightarrow> a_term s n < t \<Longrightarrow>
     spec_step N s (s\<lparr>a_term := (a_term s)(n := t), a_role := (a_role s)(n := Follower),
       a_commit := (a_commit s)(n := 0)\<rparr>)"
| restart: "n \<in> N \<Longrightarrow>
     spec_step N s (s\<lparr>a_role := (a_role s)(n := Follower), a_commit := (a_commit s)(n := 0)\<rparr>)"
| stepdown: "n \<in> N \<Longrightarrow> a_role s n = Candidate \<Longrightarrow>
     spec_step N s (s\<lparr>a_role := (a_role s)(n := Follower)\<rparr>)"
| grant: "n \<in> N \<Longrightarrow> c \<in> N \<Longrightarrow> t = a_term s n \<Longrightarrow> a_vote s n = None \<or> a_vote s n = Some c \<Longrightarrow>
     a_clog s (t, c) = Some L \<Longrightarrow> up_to_date L (a_log s n) \<Longrightarrow> (t, n, c) \<notin> a_votes s \<Longrightarrow>
     spec_step N s (s\<lparr>a_vote := (a_vote s)(n := Some c),
       a_votes := insert (t, n, c) (a_votes s), a_vlog := (a_vlog s)((t, n) := a_log s n)\<rparr>)"
| become_leader: "n \<in> N \<Longrightarrow> a_role s n = Candidate \<Longrightarrow> t = a_term s n \<Longrightarrow> majority N Q \<Longrightarrow>
     (\<forall>v\<in>Q. (t, v, n) \<in> a_votes s) \<Longrightarrow>
     spec_step N s (s\<lparr>a_role := (a_role s)(n := Leader), a_llog := (a_llog s)(t := Some (a_log s n)),
       a_lead := (a_lead s)(t := n), a_quor := (a_quor s)(t := Q),
       a_acks := {(t, n, j) | j. j < length (a_log s n)} \<union> a_acks s,
       a_lcommits := insert (t, a_commit s n) (a_lcommits s)\<rparr>)"
| append: "n \<in> N \<Longrightarrow> a_role s n = Leader \<Longrightarrow> t = a_term s n \<Longrightarrow> L = a_log s n @ [(t, c)] \<Longrightarrow>
     spec_step N s (s\<lparr>a_log := (a_log s)(n := L), a_llog := (a_llog s)(t := Some L),
       a_acks := insert (t, n, length L - 1) (a_acks s)\<rparr>)"
| trunc: "n \<in> N \<Longrightarrow> a_role s n = Follower \<Longrightarrow> a_llog s (a_term s n) = Some L \<Longrightarrow>
     i < length (a_log s n) \<Longrightarrow> i < length L \<Longrightarrow> fst (a_log s n ! i) \<noteq> fst (L ! i) \<Longrightarrow>
     spec_step N s (s\<lparr>a_log := (a_log s)(n := take i (a_log s n))\<rparr>)"
| extend: "n \<in> N \<Longrightarrow> a_role s n = Follower \<Longrightarrow> a_llog s (a_term s n) = Some L \<Longrightarrow>
     a_log s n = take (length (a_log s n)) L \<Longrightarrow> length (a_log s n) \<le> j \<Longrightarrow>
     spec_step N s (s\<lparr>a_log := (a_log s)(n := take j L)\<rparr>)"
| ack: "n \<in> N \<Longrightarrow> a_role s n = Follower \<Longrightarrow> a_llog s (a_term s n) = Some L \<Longrightarrow>
     m < length L \<Longrightarrow> take (Suc m) (a_log s n) = take (Suc m) L \<Longrightarrow>
     spec_step N s (s\<lparr>a_acks := insert (a_term s n, n, m) (a_acks s)\<rparr>)"
| follower_commit: "n \<in> N \<Longrightarrow> a_role s n = Follower \<Longrightarrow> (a_term s n, n, m) \<in> a_acks s \<Longrightarrow>
     (a_term s n, c) \<in> a_lcommits s \<Longrightarrow> i \<le> m \<Longrightarrow> i \<le> c \<Longrightarrow>
     spec_step N s (s\<lparr>a_commit := (a_commit s)(n := i)\<rparr>)"
| leader_commit: "n \<in> N \<Longrightarrow> a_role s n = Leader \<Longrightarrow> t = a_term s n \<Longrightarrow>
     i < length (a_log s n) \<Longrightarrow> fst (a_log s n ! i) = t \<Longrightarrow> quorum_acked N s t i \<Longrightarrow>
     spec_step N s (s\<lparr>a_commit := (a_commit s)(n := i),
       a_lcommits := insert (t, i) (a_lcommits s)\<rparr>)"

inductive spec_reach :: "'n set \<Rightarrow> 'c \<Rightarrow> ('n, 'c) spec \<Rightarrow> bool" for N c0 where
  init: "spec_init N c0 s \<Longrightarrow> spec_reach N c0 s"
| step: "spec_reach N c0 s \<Longrightarrow> spec_step N s s' \<Longrightarrow> spec_reach N c0 s'"

lemma spec_reach_steps: "(spec_step N)\<^sup>*\<^sup>* s s' \<Longrightarrow> spec_reach N c0 s \<Longrightarrow> spec_reach N c0 s'"
  by (induction rule: rtranclp_induct) (auto intro: spec_reach.step)

end
