(* ===== verification/Raft_Safety.thy ===== *)
theory Raft_Safety
  imports Raft_Spec
begin

text \<open>
  The invariants of the abstract protocol and the five safety properties of the Raft paper:
  election safety, leader append-only, log matching, leader completeness and state machine
  safety, each as a theorem on reachable states.
\<close>

section \<open>Coherence of logs with the leaders' logs\<close>

text \<open>
  A log is coherent when every entry pins the whole prefix up to it: an entry of term \<open>t\<close> at
  position \<open>i\<close> means that the log agrees with the log of the leader of \<open>t\<close> up to \<open>i\<close>.
\<close>

definition coh :: "(nat \<Rightarrow> 'c alog option) \<Rightarrow> 'c alog \<Rightarrow> bool" where
  "coh ll L \<longleftrightarrow> (\<forall>i < length L. \<exists>M. ll (fst (L ! i)) = Some M \<and> i < length M \<and>
     take (Suc i) L = take (Suc i) M)"

definition grows :: "(nat \<Rightarrow> 'c alog option) \<Rightarrow> (nat \<Rightarrow> 'c alog option) \<Rightarrow> bool" where
  "grows ll ll' \<longleftrightarrow> (\<forall>t L. ll t = Some L \<longrightarrow> (\<exists>X. ll' t = Some (L @ X)))"

lemma grows_refl [simp]: "grows ll ll"
  by (simp add: grows_def)

lemma grows_new: "ll t = None \<Longrightarrow> grows ll (ll(t := Some L))"
  by (auto simp: grows_def)

lemma grows_append: "ll t = Some L \<Longrightarrow> grows ll (ll(t := Some (L @ X)))"
  by (auto simp: grows_def)

lemma coh_grows: "coh ll L \<Longrightarrow> grows ll ll' \<Longrightarrow> coh ll' L"
  unfolding coh_def grows_def
proof (intro allI impI)
  fix i assume c: "\<forall>i<length L. \<exists>M. ll (fst (L ! i)) = Some M \<and> i < length M \<and>
      take (Suc i) L = take (Suc i) M"
    and g: "\<forall>t L. ll t = Some L \<longrightarrow> (\<exists>X. ll' t = Some (L @ X))" and i: "i < length L"
  from c i obtain M where M: "ll (fst (L ! i)) = Some M" "i < length M" "take (Suc i) L = take (Suc i) M"
    by blast
  from g M(1) obtain X where "ll' (fst (L ! i)) = Some (M @ X)" by blast
  with M(2,3) show "\<exists>M. ll' (fst (L ! i)) = Some M \<and> i < length M \<and> take (Suc i) L = take (Suc i) M"
    by (intro exI [of _ "M @ X"]) simp
qed

lemma coh_take: "coh ll L \<Longrightarrow> coh ll (take j L)"
  unfolding coh_def by (auto simp: min_def)

lemma coh_snoc:
  assumes "coh ll L" and "ll t = Some (L @ [(t, c)])"
  shows "coh ll (L @ [(t, c)])"
  unfolding coh_def
proof (intro allI impI)
  fix i assume "i < length (L @ [(t, c)])"
  then consider "i < length L" | "i = length L" by fastforce
  then show "\<exists>M. ll (fst ((L @ [(t, c)]) ! i)) = Some M \<and> i < length M \<and>
      take (Suc i) (L @ [(t, c)]) = take (Suc i) M"
  proof cases
    case 1
    with assms(1) show ?thesis by (auto simp: coh_def nth_append)
  next
    case 2
    with assms(2) show ?thesis by (auto simp: nth_append)
  qed
qed

lemma coh_last:
  assumes "coh ll L" and "L \<noteq> []"
  obtains M where "ll (fst (last L)) = Some M" and "length L \<le> length M" and "L = take (length L) M"
proof -
  have "length L - 1 < length L" using assms(2) by simp
  with assms(1) obtain M where "ll (fst (L ! (length L - 1))) = Some M" "length L - 1 < length M"
      "take (Suc (length L - 1)) L = take (Suc (length L - 1)) M"
    unfolding coh_def by blast
  with assms(2) show thesis
    by (intro that [of M]) (simp_all add: last_conv_nth)
qed

text \<open>Two coherent logs that agree on the term at a position agree up to it (log matching).\<close>

lemma coh_match:
  assumes "coh ll L" and "coh ll M" and "i < length L" and "i < length M"
    and "fst (L ! i) = fst (M ! i)"
  shows "take (Suc i) L = take (Suc i) M"
proof -
  from assms(1,3) obtain A where A: "ll (fst (L ! i)) = Some A" "take (Suc i) L = take (Suc i) A"
    unfolding coh_def by blast
  from assms(2,4) obtain B where B: "ll (fst (M ! i)) = Some B" "take (Suc i) M = take (Suc i) B"
    unfolding coh_def by blast
  from A B assms(5) show ?thesis by simp
qed

section \<open>The invariant\<close>

abbreviation terms_le :: "nat \<Rightarrow> 'c alog \<Rightarrow> bool" where
  "terms_le t L \<equiv> \<forall>e\<in>set L. fst e \<le> t"

definition wf_log :: "('n, 'c) spec \<Rightarrow> 'c alog \<Rightarrow> bool" where
  "wf_log s L \<longleftrightarrow> L \<noteq> [] \<and> fst (L ! 0) = 0 \<and> coh (a_llog s) L"

definition inv_votes :: "'n set \<Rightarrow> ('n, 'c) spec \<Rightarrow> bool" where
  "inv_votes N s \<longleftrightarrow> (\<forall>t v c. (t, v, c) \<in> a_votes s \<longrightarrow>
      v \<in> N \<and> c \<in> N \<and> t \<le> a_term s v \<and> (t = a_term s v \<longrightarrow> a_vote s v = Some c) \<and>
      (\<forall>c'. (t, v, c') \<in> a_votes s \<longrightarrow> c' = c) \<and>
      (\<exists>L. a_clog s (t, c) = Some L \<and> up_to_date L (a_vlog s (t, v))) \<and>
      wf_log s (a_vlog s (t, v)))"

definition inv_cand :: "('n, 'c) spec \<Rightarrow> bool" where
  "inv_cand s \<longleftrightarrow>
     (\<forall>t c L. a_clog s (t, c) = Some L \<longrightarrow>
        0 < t \<and> t \<le> a_term s c \<and> wf_log s L \<and> (\<forall>e\<in>set L. fst e < t)) \<and>
     (\<forall>n. a_role s n = Candidate \<longrightarrow>
        a_clog s (a_term s n, n) = Some (a_log s n) \<and>
        (a_llog s (a_term s n) = None \<or> a_lead s (a_term s n) \<noteq> n))"

definition elected :: "'n set \<Rightarrow> ('n, 'c) spec \<Rightarrow> nat \<Rightarrow> 'c alog \<Rightarrow> bool" where
  "elected N s t L \<longleftrightarrow> a_lead s t \<in> N \<and> majority N (a_quor s t) \<and>
     (\<forall>v\<in>a_quor s t. (t, v, a_lead s t) \<in> a_votes s) \<and>
     (\<exists>E. a_clog s (t, a_lead s t) = Some E \<and> take (length E) L = E \<and>
        (\<forall>i. length E \<le> i \<and> i < length L \<longrightarrow> fst (L ! i) = t))"

definition inv_lead :: "'n set \<Rightarrow> ('n, 'c) spec \<Rightarrow> bool" where
  "inv_lead N s \<longleftrightarrow>
     (\<forall>t L. a_llog s t = Some L \<longrightarrow> wf_log s L \<and> terms_le t L \<and> (t \<noteq> 0 \<longrightarrow> elected N s t L)) \<and>
     (\<exists>e. a_llog s 0 = Some [e]) \<and>
     (\<forall>n. a_role s n = Leader \<longrightarrow>
        a_term s n \<noteq> 0 \<and> a_llog s (a_term s n) = Some (a_log s n) \<and> a_lead s (a_term s n) = n)"

definition inv_log :: "('n, 'c) spec \<Rightarrow> bool" where
  "inv_log s \<longleftrightarrow> (\<forall>n. wf_log s (a_log s n) \<and> terms_le (a_term s n) (a_log s n))"

definition contains :: "('n, 'c) spec \<Rightarrow> 'c alog \<Rightarrow> nat \<Rightarrow> nat \<Rightarrow> bool" where
  "contains s X t m \<longleftrightarrow> m < length X \<and>
     (\<exists>L. a_llog s t = Some L \<and> m < length L \<and> take (Suc m) X = take (Suc m) L)"

text \<open>A leader of a term in the given range whose log lacks the prefix.\<close>

definition lost :: "('n, 'c) spec \<Rightarrow> nat \<Rightarrow> nat \<Rightarrow> nat \<Rightarrow> bool" where
  "lost s t u m \<longleftrightarrow> (\<exists>r R. t < r \<and> r \<le> u \<and> a_llog s r = Some R \<and> \<not> contains s R t m)"

definition inv_ack :: "('n, 'c) spec \<Rightarrow> bool" where
  "inv_ack s \<longleftrightarrow> (\<forall>t v m. (t, v, m) \<in> a_acks s \<longrightarrow>
     t \<le> a_term s v \<and> (\<exists>L. a_llog s t = Some L \<and> m < length L) \<and>
     (contains s (a_log s v) t m \<or> lost s t (a_term s v) m) \<and>
     (\<forall>u c. (u, v, c) \<in> a_votes s \<and> t < u \<longrightarrow> contains s (a_vlog s (u, v)) t m \<or> lost s t u m) \<and>
     (\<forall>u. 0 < u \<and> v \<in> a_quor s u \<and> t < u \<and> a_llog s u \<noteq> None \<longrightarrow>
        contains s (a_vlog s (u, v)) t m \<or> lost s t (u - 1) m))"

definition committed :: "'n set \<Rightarrow> ('n, 'c) spec \<Rightarrow> nat \<Rightarrow> nat \<Rightarrow> bool" where
  "committed N s t m \<longleftrightarrow> quorum_acked N s t m \<and>
     (\<exists>L. a_llog s t = Some L \<and> m < length L \<and> fst (L ! m) = t)"

definition safe_upto :: "'n set \<Rightarrow> ('n, 'c) spec \<Rightarrow> 'c alog \<Rightarrow> nat \<Rightarrow> nat \<Rightarrow> bool" where
  "safe_upto N s X u i \<longleftrightarrow> (\<exists>t m. committed N s t m \<and> t \<le> u \<and> i \<le> m \<and> contains s X t i)"

definition inv_commit :: "'n set \<Rightarrow> ('n, 'c) spec \<Rightarrow> bool" where
  "inv_commit N s \<longleftrightarrow>
     (\<forall>n\<in>N. safe_upto N s (a_log s n) (a_term s n) (a_commit s n)) \<and>
     (\<forall>t c. (t, c) \<in> a_lcommits s \<longrightarrow> (\<exists>L. a_llog s t = Some L \<and> safe_upto N s L t c)) \<and>
     (\<forall>n. a_role s n = Leader \<longrightarrow> (a_term s n, a_commit s n) \<in> a_lcommits s)"

section \<open>The structural invariant is kept\<close>

definition inv_core :: "'n set \<Rightarrow> ('n, 'c) spec \<Rightarrow> bool" where
  "inv_core N s \<longleftrightarrow> inv_votes N s \<and> inv_cand s \<and> inv_lead N s \<and> inv_log s"

lemma wf_log_grows: "wf_log s L \<Longrightarrow> grows (a_llog s) (a_llog s') \<Longrightarrow> wf_log s' L"
  by (auto simp: wf_log_def intro: coh_grows)

lemma votesD:
  assumes "inv_votes N s" and "(t, v, c) \<in> a_votes s"
  shows "v \<in> N" "c \<in> N" "t \<le> a_term s v" "t = a_term s v \<Longrightarrow> a_vote s v = Some c"
    "(t, v, c') \<in> a_votes s \<Longrightarrow> c' = c"
    "\<exists>L. a_clog s (t, c) = Some L \<and> up_to_date L (a_vlog s (t, v))"
    "wf_log s (a_vlog s (t, v))"
  using assms unfolding inv_votes_def by blast+

lemma candD:
  assumes "inv_cand s" and "a_clog s (t, c) = Some L"
  shows "0 < t" "t \<le> a_term s c" "wf_log s L" "e \<in> set L \<Longrightarrow> fst e < t"
  using assms unfolding inv_cand_def by blast+

lemma leadD:
  assumes "inv_lead N s" and "a_llog s t = Some L"
  shows "wf_log s L" "e \<in> set L \<Longrightarrow> fst e \<le> t" "t \<noteq> 0 \<Longrightarrow> elected N s t L"
  using assms unfolding inv_lead_def by blast+

lemma leaderD:
  assumes "inv_lead N s" and "a_role s n = Leader"
  shows "a_term s n \<noteq> 0" "a_llog s (a_term s n) = Some (a_log s n)" "a_lead s (a_term s n) = n"
  using assms unfolding inv_lead_def by blast+

lemma logD:
  assumes "inv_log s"
  shows "wf_log s (a_log s n)" "e \<in> set (a_log s n) \<Longrightarrow> fst e \<le> a_term s n"
  using assms unfolding inv_log_def by blast+

text \<open>A candidate with a majority of votes finds its term without a leader.\<close>

lemma fresh_election:
  assumes core: "inv_core N s" and fin: "finite N" and cand: "a_role s n = Candidate"
    and Q: "majority N Q" "\<forall>v\<in>Q. (a_term s n, v, n) \<in> a_votes s"
  shows "a_llog s (a_term s n) = None"
proof (rule ccontr)
  assume "a_llog s (a_term s n) \<noteq> None"
  then obtain L where L: "a_llog s (a_term s n) = Some L" by blast
  from core cand have c: "a_clog s (a_term s n, n) = Some (a_log s n)"
    and ne: "a_llog s (a_term s n) = None \<or> a_lead s (a_term s n) \<noteq> n"
    by (auto simp: inv_core_def inv_cand_def)
  from core have "inv_cand s" by (simp add: inv_core_def)
  from candD(1) [OF this c] have "a_term s n \<noteq> 0" by simp
  with core L have el: "elected N s (a_term s n) L"
    by (auto simp: inv_core_def dest: leadD(3))
  then obtain v where "v \<in> Q" "v \<in> a_quor s (a_term s n)"
    using majority_intersect [OF fin Q(1)] by (metis elected_def)
  with Q(2) el have "(a_term s n, v, n) \<in> a_votes s" "(a_term s n, v, a_lead s (a_term s n)) \<in> a_votes s"
    by (auto simp: elected_def)
  with core have "a_lead s (a_term s n) = n"
    unfolding inv_core_def by (blast dest: votesD(5))
  with ne L show False by simp
qed

lemma step_grows:
  assumes "spec_step N s s'" and "inv_core N s" and "finite N"
  shows "grows (a_llog s) (a_llog s')"
  using assms(1)
proof cases
  case (become_leader n t Q)
  with assms(2,3) show ?thesis
    by (simp add: fresh_election grows_new)
next
  case (append n t L c)
  moreover have "a_llog s (a_term s n) = Some (a_log s n)"
    using assms(2) append by (auto simp: inv_core_def dest: leaderD(2))
  ultimately show ?thesis
    by (simp add: grows_append)
qed simp_all

lemma step_term_mono: "spec_step N s s' \<Longrightarrow> a_term s v \<le> a_term s' v"
  by (cases rule: spec_step.cases) auto

text \<open>What a step has to respect for the recorded votes to stay good.\<close>

lemma inv_votes_keep:
  assumes "inv_votes N s" and "grows (a_llog s) (a_llog s')"
    and "\<And>v. a_term s v \<le> a_term s' v"
    and "\<And>p L. a_clog s p = Some L \<Longrightarrow> a_clog s' p = Some L"
    and "a_votes s' = a_votes s" and "a_vlog s' = a_vlog s"
    and "\<And>v. a_term s' v = a_term s v \<Longrightarrow> a_vote s' v = a_vote s v"
  shows "inv_votes N s'"
  unfolding inv_votes_def
proof (intro allI impI)
  fix t v c assume "(t, v, c) \<in> a_votes s'"
  then have v: "(t, v, c) \<in> a_votes s" using assms(5) by simp
  note d = votesD [OF assms(1) v]
  have "t \<le> a_term s' v" using d(3) assms(3) [of v] by simp
  moreover have "t = a_term s' v \<longrightarrow> a_vote s' v = Some c"
    using d(3,4) assms(3) [of v] assms(7) [of v] by auto
  moreover have "\<exists>L. a_clog s' (t, c) = Some L \<and> up_to_date L (a_vlog s' (t, v))"
    using d(6) assms(4,6) by fastforce
  ultimately show "v \<in> N \<and> c \<in> N \<and> t \<le> a_term s' v \<and> (t = a_term s' v \<longrightarrow> a_vote s' v = Some c) \<and>
      (\<forall>c'. (t, v, c') \<in> a_votes s' \<longrightarrow> c' = c) \<and>
      (\<exists>L. a_clog s' (t, c) = Some L \<and> up_to_date L (a_vlog s' (t, v))) \<and>
      wf_log s' (a_vlog s' (t, v))"
    using d(1,2,5,7) assms(2,5,6) by (auto intro: wf_log_grows)
qed

text \<open>A new vote, by a node that has cast no other vote in its current term.\<close>

lemma inv_votes_new:
  assumes I: "inv_votes N s" and ll: "a_llog s' = a_llog s"
    and tm: "\<And>v. a_term s v \<le> a_term s' v" "a_term s' n = t"
    and cl: "\<And>p L. a_clog s p = Some L \<Longrightarrow> a_clog s' p = Some L"
    and vs: "a_votes s' = insert (t, n, c) (a_votes s)"
    and vl: "a_vlog s' = (a_vlog s)((t, n) := V)"
    and vt: "a_vote s' n = Some c" "\<And>v. v \<noteq> n \<Longrightarrow> a_vote s' v = a_vote s v \<and> a_term s' v = a_term s v"
    and new: "\<And>c'. (t, n, c') \<notin> a_votes s" and N: "n \<in> N" "c \<in> N"
    and L: "a_clog s' (t, c) = Some L" "up_to_date L V" and V: "wf_log s V"
  shows "inv_votes N s'"
  unfolding inv_votes_def
proof (intro allI impI)
  fix t' v c1 assume v: "(t', v, c1) \<in> a_votes s'"
  have wf: "wf_log s' X = wf_log s X" for X by (simp add: wf_log_def ll)
  show "v \<in> N \<and> c1 \<in> N \<and> t' \<le> a_term s' v \<and> (t' = a_term s' v \<longrightarrow> a_vote s' v = Some c1) \<and>
      (\<forall>c'. (t', v, c') \<in> a_votes s' \<longrightarrow> c' = c1) \<and>
      (\<exists>L. a_clog s' (t', c1) = Some L \<and> up_to_date L (a_vlog s' (t', v))) \<and>
      wf_log s' (a_vlog s' (t', v))"
  proof (cases "t' = t \<and> v = n")
    case True
    with v new vs have "c1 = c" by auto
    with True tm vt N L V new vs vl show ?thesis by (auto simp: wf)
  next
    case False
    with v vs have old: "(t', v, c1) \<in> a_votes s" by auto
    note d = votesD [OF I old]
    have "t' \<le> a_term s' v" using d(3) tm(1) [of v] by simp
    moreover have "t' = a_term s' v \<longrightarrow> a_vote s' v = Some c1"
      using d(4) vt(2) [of v] False tm(2) by (cases "v = n") auto
    moreover have "\<exists>L. a_clog s' (t', c1) = Some L \<and> up_to_date L (a_vlog s' (t', v))"
      using d(6) cl vl False by auto
    moreover have "\<forall>c'. (t', v, c') \<in> a_votes s' \<longrightarrow> c' = c1"
      using d(5) vs False by auto
    ultimately show ?thesis using d(1,2,7) vl False by (auto simp: wf)
  qed
qed

lemma up_to_date_refl [simp]: "up_to_date L L"
  by (simp add: up_to_date_def)

lemma inv_votes_step:
  assumes "spec_step N s s'" and core: "inv_core N s" and fin: "finite N"
  shows "inv_votes N s'"
proof -
  have g: "grows (a_llog s) (a_llog s')"
    using assms by (rule step_grows)
  have V: "inv_votes N s" and L: "inv_log s" and C: "inv_cand s"
    using core by (simp_all add: inv_core_def)
  note keep = inv_votes_keep [OF V g step_term_mono [OF assms(1)]]
  from assms(1) show ?thesis
  proof cases
    case (campaign n t)
    have "a_clog s (t, n) = None"
      using candD(2) [OF C, of t n] campaign(4) by (cases "a_clog s (t, n)") auto
    moreover have "(t, n, c') \<notin> a_votes s" for c'
      using votesD(3) [OF V, of t n c'] campaign(4) by auto
    ultimately show ?thesis
      using campaign logD(1) [OF L, of n]
      by (intro inv_votes_new [OF V, where n = n and t = t and c = n and L = "a_log s n" and V = "a_log s n"])
        auto
  next
    case (grant n c t X)
    have "(t, n, c') \<notin> a_votes s" for c'
      using votesD(4) [OF V, of t n c'] grant(4,5,8) by auto
    then show ?thesis
      using grant logD(1) [OF L, of n]
      by (intro inv_votes_new [OF V, where n = n and t = t and c = c and L = X and V = "a_log s n"]) auto
  qed (rule keep; force)+
qed

lemma wf_log_take: "wf_log s L \<Longrightarrow> 0 < j \<Longrightarrow> wf_log s (take j L)"
  by (auto simp: wf_log_def intro: coh_take)

lemma inv_cand_step:
  assumes step: "spec_step N s s'" and core: "inv_core N s" and fin: "finite N"
  shows "inv_cand s'"
proof -
  have g: "grows (a_llog s) (a_llog s')"
    using assms by (rule step_grows)
  have C: "inv_cand s" and L: "inv_log s" and D: "inv_lead N s"
    using core by (simp_all add: inv_core_def)
  have "0 < t \<and> t \<le> a_term s' c \<and> wf_log s' X \<and> (\<forall>e\<in>set X. fst e < t)"
    if X: "a_clog s' (t, c) = Some X" for t c X
  proof (cases "a_clog s (t, c) = Some X")
    case True
    from candD [OF C True] step_term_mono [OF step, of c] show ?thesis
      by (auto intro: wf_log_grows [OF _ g])
  next
    case False
    from step False X obtain "t = Suc (a_term s c)" "X = a_log s c" "a_term s' c = t"
      by (cases rule: spec_step.cases) (auto split: if_splits)
    with logD [OF L, where n = c] show ?thesis
      by (auto intro: wf_log_grows [OF _ g] simp: less_Suc_eq_le)
  qed
  moreover have "a_clog s' (a_term s' n, n) = Some (a_log s' n) \<and>
      (a_llog s' (a_term s' n) = None \<or> a_lead s' (a_term s' n) \<noteq> n)"
    if n: "a_role s' n = Candidate" for n
  proof -
    have keep: "a_role s n = Candidate \<Longrightarrow> a_clog s (a_term s n, n) = Some (a_log s n) \<and>
        (a_llog s (a_term s n) = None \<or> a_lead s (a_term s n) \<noteq> n)"
      using C by (simp add: inv_cand_def)
    from step show ?thesis
    proof cases
      case (campaign k t)
      have "a_llog s t = None \<or> a_lead s t \<noteq> k"
      proof (rule ccontr)
        assume "\<not> (a_llog s t = None \<or> a_lead s t \<noteq> k)"
        then obtain X where "a_llog s t = Some X" "a_lead s t = k" by auto
        with leadD(3) [OF D, of t X] campaign(4) obtain E where "a_clog s (t, k) = Some E"
          by (auto simp: elected_def)
        with candD(2) [OF C] campaign(4) show False by fastforce
      qed
      with campaign n keep show ?thesis by (cases "n = k") auto
    next
      case (append k t X c)
      with leaderD [OF D, of k] keep n show ?thesis by (cases "n = k") auto
    qed (use n keep in \<open>auto split: if_splits\<close>)
  qed
  ultimately show ?thesis by (auto simp: inv_cand_def)
qed

lemma elected_keep:
  assumes "elected N s t L" and "a_lead s' t = a_lead s t" and "a_quor s' t = a_quor s t"
    and "a_votes s \<subseteq> a_votes s'" and "\<And>p X. a_clog s p = Some X \<Longrightarrow> a_clog s' p = Some X"
  shows "elected N s' t L"
  using assms unfolding elected_def by auto

lemma clog_keep:
  assumes "spec_step N s s'" and "inv_cand s" and "a_clog s p = Some X"
  shows "a_clog s' p = Some X"
  using assms(1)
proof cases
  case (campaign n t)
  with candD(2) [OF assms(2), of t n] assms(3) show ?thesis by (cases p) auto
qed (use assms(3) in simp_all)

lemma elected_snoc:
  assumes "elected N s t L"
  shows "elected N s t (L @ [(t, c)])"
proof -
  from assms obtain E where E: "a_clog s (t, a_lead s t) = Some E" "take (length E) L = E"
      "\<forall>i. length E \<le> i \<and> i < length L \<longrightarrow> fst (L ! i) = t"
    by (auto simp: elected_def)
  then have "length E \<le> length L" by (metis nat_le_linear take_all_iff take_all)
  with E have "take (length E) (L @ [(t, c)]) = E"
      "\<forall>i. length E \<le> i \<and> i < length (L @ [(t, c)]) \<longrightarrow> fst ((L @ [(t, c)]) ! i) = t"
    by (auto simp: nth_append less_Suc_eq)
  with E assms show ?thesis by (auto simp: elected_def)
qed

text \<open>The log of a leader stays one that its election allows.\<close>

lemma leader_logs_step:
  assumes step: "spec_step N s s'" and core: "inv_core N s" and fin: "finite N" and X: "a_llog s' t = Some X"
  shows "wf_log s' X \<and> terms_le t X \<and> (t \<noteq> 0 \<longrightarrow> elected N s' t X)"
proof -
  have g: "grows (a_llog s) (a_llog s')" using step core fin by (rule step_grows)
  have C: "inv_cand s" and L: "inv_log s" and D: "inv_lead N s"
    using core by (simp_all add: inv_core_def)
  have sub: "a_votes s \<subseteq> a_votes s'" using step by cases auto
  note wf = wf_log_grows [OF _ g] and ck = clog_keep [OF step C]
  have old: "wf_log s' X \<and> terms_le t X \<and> (t \<noteq> 0 \<longrightarrow> elected N s' t X)"
    if "a_llog s t = Some X" "a_lead s' t = a_lead s t" "a_quor s' t = a_quor s t" for t X
    using leadD [OF D that(1)] that(2,3) sub ck by (auto intro: wf elected_keep)
  show ?thesis
    using step
  proof cases
    case (become_leader n u Q)
    show ?thesis
    proof (cases "t = u")
      case True
      have c: "a_clog s (u, n) = Some (a_log s n)"
        using C become_leader by (auto simp: inv_cand_def)
      with True X become_leader wf [OF logD(1) [OF L, of n]] logD(2) [OF L, where n = n] show ?thesis
        by (auto simp: elected_def)
    qed (use X become_leader old in auto)
  next
    case (append n u Y c)
    show ?thesis
    proof (cases "t = u")
      case True
      have l: "a_llog s u = Some (a_log s n)" "a_term s n \<noteq> 0"
        using leaderD [OF D] append by auto
      have "coh (a_llog s') (a_log s n)"
        using logD(1) [OF L, of n] g by (auto simp: wf_log_def intro: coh_grows)
      then have "wf_log s' (a_log s n @ [(u, c)])"
        using append logD(1) [OF L, of n] by (auto simp: wf_log_def nth_append intro: coh_snoc)
      with True X append l old [OF l(1)] logD(2) [OF L, of _ n] show ?thesis
        by (auto intro: elected_snoc)
    qed (use X append old in auto)
  qed (use X old in auto)
qed

lemma term_zero_step:
  assumes step: "spec_step N s s'" and core: "inv_core N s"
  shows "\<exists>e. a_llog s' 0 = Some [e]"
proof -
  have C: "inv_cand s" and D: "inv_lead N s" using core by (simp_all add: inv_core_def)
  have z: "\<exists>e. a_llog s 0 = Some [e]" using D by (simp add: inv_lead_def)
  from step show ?thesis
  proof cases
    case (become_leader n u Q)
    then have "u \<noteq> 0" using C candD(1) [OF C, of u n] by (auto simp: inv_cand_def)
    with z become_leader show ?thesis by simp
  next
    case (append n u Y c)
    from leaderD(1) [OF D append(3)] append(4) have "u \<noteq> 0" by simp
    with z append(1) show ?thesis by simp
  qed (use z in auto)
qed

lemma leader_holds_step:
  assumes step: "spec_step N s s'" and core: "inv_core N s" and fin: "finite N" and n: "a_role s' n = Leader"
  shows "a_term s' n \<noteq> 0 \<and> a_llog s' (a_term s' n) = Some (a_log s' n) \<and> a_lead s' (a_term s' n) = n"
proof -
  have C: "inv_cand s" and D: "inv_lead N s" using core by (simp_all add: inv_core_def)
  from step show ?thesis
  proof cases
    case (become_leader k u Q)
    then have u: "a_llog s u = None" "u \<noteq> 0"
      using fresh_election [OF core fin] C candD(1) [OF C, of u k] by (auto simp: inv_cand_def)
    show ?thesis
    proof (cases "n = k")
      case False
      with n become_leader leaderD [OF D, of n] u show ?thesis by auto
    qed (use become_leader u in auto)
  next
    case (append k u Y c)
    with n leaderD [OF D, of n] leaderD [OF D, of k] show ?thesis by (cases "n = k") auto
  qed (use n leaderD [OF D, of n] in \<open>auto split: if_splits\<close>)
qed

lemma inv_lead_step:
  assumes "spec_step N s s'" and "inv_core N s" and "finite N"
  shows "inv_lead N s'"
  using leader_logs_step [OF assms] term_zero_step [OF assms(1,2)] leader_holds_step [OF assms]
  by (auto simp: inv_lead_def)

lemma inv_log_step:
  assumes step: "spec_step N s s'" and core: "inv_core N s" and fin: "finite N"
  shows "inv_log s'"
proof -
  have g: "grows (a_llog s) (a_llog s')"
    using assms by (rule step_grows)
  have L: "inv_log s" and D: "inv_lead N s"
    using core by (simp_all add: inv_core_def)
  have old: "wf_log s' (a_log s n) \<and> terms_le (a_term s' n) (a_log s n)" for n
    using logD [OF L, where n = n] step_term_mono [OF step, of n]
    by (auto intro: wf_log_grows [OF _ g] order_trans)
  have "wf_log s' (a_log s' n) \<and> terms_le (a_term s' n) (a_log s' n)" for n
  proof (cases "a_log s' n = a_log s n")
    case True
    with old show ?thesis by simp
  next
    case False
    from step show ?thesis
    proof cases
      case (append k u Y c)
      then have "a_llog s' u = Some Y" by simp
      with inv_lead_step [OF assms] have "wf_log s' Y" by (rule leadD(1))
      with append False old [of n] show ?thesis by (auto split: if_splits)
    next
      case (trunc k X i)
      with False have k: "n = k" by (auto split: if_splits)
      have "fst (a_log s k ! 0) = 0" "fst (X ! 0) = 0"
        using logD(1) [OF L, of k] leadD(1) [OF D trunc(4)] by (auto simp: wf_log_def)
      with trunc(7) have "0 < i" by (cases i) auto
      with old [of k] trunc k show ?thesis
        by (auto intro: wf_log_take dest: in_set_takeD)
    next
      case (extend k X j)
      with False have k: "n = k" by (auto split: if_splits)
      have "a_log s k \<noteq> []" using logD(1) [OF L, of k] by (simp add: wf_log_def)
      then have "0 < length (a_log s k)" by simp
      with extend(6) have j: "0 < j" by linarith
      have "wf_log s' X" using leadD(1) [OF D extend(4)] g by (rule wf_log_grows)
      with j have "wf_log s' (take j X)" by (simp add: wf_log_take)
      with extend k leadD(2) [OF D extend(4)] show ?thesis
        by (auto dest: in_set_takeD)
    qed (use False in auto)
  qed
  then show ?thesis by (auto simp: inv_log_def)
qed

lemma inv_core_step:
  "spec_step N s s' \<Longrightarrow> inv_core N s \<Longrightarrow> finite N \<Longrightarrow> inv_core N s'"
  using inv_votes_step inv_cand_step inv_lead_step inv_log_step
  unfolding inv_core_def by (metis inv_core_def)

lemma inv_core_init: "spec_init N c0 s \<Longrightarrow> inv_core N s"
  by (auto simp: spec_init_def inv_core_def inv_votes_def inv_cand_def inv_lead_def inv_log_def
      wf_log_def coh_def)

section \<open>Acknowledged prefixes survive, or a later leader lacked them\<close>

lemma vlog_keep:
  assumes "spec_step N s s'" and "inv_core N s" and "(u, v, c) \<in> a_votes s"
  shows "a_vlog s' (u, v) = a_vlog s (u, v)"
proof -
  have V: "inv_votes N s" using assms(2) by (simp add: inv_core_def)
  note d = votesD(3,4) [OF V assms(3)]
  from assms(1) show ?thesis
  proof cases
    case (campaign n t)
    with d(1) show ?thesis by auto
  next
    case (grant n c' t L)
    with d(2) assms(3) show ?thesis by auto
  qed simp_all
qed

lemma llog_step:
  assumes "spec_step N s s'" and "inv_core N s" and "finite N" and "a_llog s r = Some R"
  shows "a_llog s' r = Some R \<or> (\<exists>c. a_llog s' r = Some (R @ [(r, c)]))"
  using assms(1)
proof cases
  case (become_leader n t Q)
  with fresh_election [OF assms(2,3)] assms(4) show ?thesis by auto
next
  case (append n t L c)
  with assms(2,4) leaderD(2) [of N s n] show ?thesis by (auto simp: inv_core_def)
qed (use assms(4) in simp_all)

lemma contains_grows:
  assumes "grows (a_llog s) (a_llog s')" and "contains s X t m"
  shows "contains s' X t m"
  using assms unfolding contains_def grows_def by fastforce

lemma contains_grows_iff:
  assumes "grows (a_llog s) (a_llog s')" and "a_llog s t = Some L" and "m < length L"
  shows "contains s' X t m \<longleftrightarrow> contains s X t m"
proof -
  from assms obtain Y where "a_llog s' t = Some (L @ Y)" by (auto simp: grows_def)
  with assms show ?thesis by (auto simp: contains_def)
qed

lemma contains_self: "a_llog s t = Some L \<Longrightarrow> m < length L \<Longrightarrow> contains s L t m"
  by (simp add: contains_def)

lemma contains_appendI: "contains s X t m \<Longrightarrow> contains s (X @ Y) t m"
  by (auto simp: contains_def)

lemma contains_takeI: "contains s X t m \<Longrightarrow> m < i \<Longrightarrow> contains s (take i X) t m"
  by (auto simp: contains_def min_def)

lemma lost_step:
  assumes step: "spec_step N s s'" and core: "inv_core N s" and fin: "finite N"
    and L: "a_llog s t = Some L" "m < length L" and lost: "lost s t u m" and "u \<le> u'"
  shows "lost s' t u' m"
proof -
  have g: "grows (a_llog s) (a_llog s')" using step core fin by (rule step_grows)
  note iff = contains_grows_iff [OF g L]
  from lost obtain r R where r: "t < r" "r \<le> u" "a_llog s r = Some R" "\<not> contains s R t m"
    by (auto simp: lost_def)
  have "\<not> contains s (R @ [(r, c)]) t m" for c
  proof
    assume c: "contains s (R @ [(r, c)]) t m"
    then have le: "m \<le> length R" by (simp add: contains_def)
    show False
    proof (cases "m < length R")
      case True
      with c r(4) show False by (auto simp: contains_def)
    next
      case False
      with le have m: "m = length R" by simp
      from c L have "take (Suc m) (R @ [(r, c)]) = take (Suc m) L"
        by (auto simp: contains_def)
      from take_Suc_eq_nth [OF this, of m] L m have "L ! m = (r, c)" by simp
      with L(2) have "(r, c) \<in> set L" by (metis nth_mem)
      with core L(1) r(1) show False by (auto simp: inv_core_def dest: leadD(2))
    qed
  qed
  with llog_step [OF step core fin r(3)] r(4) iff obtain R' where
    "a_llog s' r = Some R'" "\<not> contains s' R' t m" by blast
  with r(1,2) assms(7) show ?thesis
    unfolding lost_def by (intro exI [of _ r] exI [of _ R']) simp
qed

lemma ackD:
  assumes "inv_ack s" and "(t, v, m) \<in> a_acks s"
  shows "t \<le> a_term s v" "\<exists>L. a_llog s t = Some L \<and> m < length L"
    "contains s (a_log s v) t m \<or> lost s t (a_term s v) m"
    "(u, v, c) \<in> a_votes s \<Longrightarrow> t < u \<Longrightarrow> contains s (a_vlog s (u, v)) t m \<or> lost s t u m"
    "0 < u \<Longrightarrow> v \<in> a_quor s u \<Longrightarrow> t < u \<Longrightarrow> a_llog s u \<noteq> None \<Longrightarrow>
      contains s (a_vlog s (u, v)) t m \<or> lost s t (u - 1) m"
  using assms unfolding inv_ack_def by blast+

text \<open>The log of a node that acknowledged a prefix, after one more step.\<close>

text \<open>
  A follower whose log is cut below an acknowledged index has a leader that does not hold the
  index; one whose log is extended keeps it.
\<close>

lemma trunc_contains_or_lost:
  assumes A: "inv_ack s" and a: "(t, v, m) \<in> a_acks s" and c: "contains s (a_log s v) t m"
    and X: "a_llog s (a_term s v) = Some X"
    and i: "i < length (a_log s v)" "i < length X" "fst (a_log s v ! i) \<noteq> fst (X ! i)"
  shows "contains s (take i (a_log s v)) t m \<or> lost s t (a_term s v) m"
proof (cases "m < i")
  case True
  with c show ?thesis by (simp add: contains_takeI)
next
  case False
  from ackD(2) [OF A a] obtain L where L: "a_llog s t = Some L" "m < length L" by blast
  have "a_log s v ! i = L ! i"
    using c L i(1) False by (intro take_Suc_eq_nth) (auto simp: contains_def)
  with i(3) have ne: "L ! i \<noteq> X ! i" by auto
  have "\<not> contains s X t m"
  proof
    assume "contains s X t m"
    with L have "take (Suc m) X = take (Suc m) L" by (auto simp: contains_def)
    from take_Suc_eq_nth [OF this, of i] False i(2) L ne show False by auto
  qed
  moreover have "t < a_term s v" using ackD(1) [OF A a] L X ne by (cases "t = a_term s v") auto
  ultimately show ?thesis using X by (auto simp: lost_def)
qed

lemma extend_contains:
  assumes c: "contains s (a_log s v) t m" and X: "a_log s v = take (length (a_log s v)) X" and j: "length (a_log s v) \<le> j"
  shows "contains s (take j X) t m"
proof -
  from c have m: "m < length (a_log s v)" by (simp add: contains_def)
  have "take (Suc m) (a_log s v) = take (Suc m) X" using m by (subst X) simp
  moreover have "m < length X" using X m by (metis length_take min_less_iff_conj)
  ultimately have "contains s X t m" using c by (auto simp: contains_def)
  with j m show ?thesis by (auto intro: contains_takeI)
qed

lemma ack_log_step:
  assumes step: "spec_step N s s'" and core: "inv_core N s" and fin: "finite N"
    and A: "inv_ack s" and a: "(t, v, m) \<in> a_acks s"
  shows "contains s' (a_log s' v) t m \<or> lost s' t (a_term s' v) m"
proof -
  note grow = contains_grows [OF step_grows [OF step core fin]]
  from ackD(2) [OF A a] obtain L where L: "a_llog s t = Some L" "m < length L" by blast
  note ls = lost_step [OF step core fin L _ step_term_mono [OF step]]
  from ackD(3) [OF A a] show ?thesis
  proof
    assume "lost s t (a_term s v) m"
    then show ?thesis by (blast intro: ls)
  next
    assume c: "contains s (a_log s v) t m"
    have "contains s (a_log s' v) t m \<or> lost s t (a_term s v) m"
    proof (cases "a_log s' v = a_log s v")
      case False
      from step show ?thesis
      proof cases
        case (append n u Y e)
        with False c show ?thesis by (auto split: if_splits intro: contains_appendI)
      next
        case (trunc n X i)
        with False have "n = v" by (auto split: if_splits)
        with trunc trunc_contains_or_lost [OF A a c] show ?thesis by simp
      next
        case (extend n X j)
        with False have "n = v" by (auto split: if_splits)
        with extend extend_contains [OF c] show ?thesis by simp
      qed (use False in auto)
    qed (use c in simp)
    then show ?thesis by (blast intro: ls grow)
  qed
qed

lemma quorum_voted:
  assumes "inv_core N s" and "0 < u" and "v \<in> a_quor s u" and "a_llog s u \<noteq> None"
  obtains c where "(u, v, c) \<in> a_votes s"
proof -
  from assms(4) obtain L where "a_llog s u = Some L" by blast
  with assms(1,2) have "elected N s u L" by (auto simp: inv_core_def dest: leadD(3))
  with assms(3) that show thesis by (auto simp: elected_def)
qed

text \<open>
  An acknowledged index and the elections after it: every vote, and every member of an electing
  quorum, was cast with a log that holds the index, unless a leader between has lost it.
\<close>

lemma ack_vote_step:
  assumes step: "spec_step N s s'" and core: "inv_core N s" and fin: "finite N"
    and A: "inv_ack s" and a: "(t, v, m) \<in> a_acks s" and u: "(u, v, c) \<in> a_votes s'" "t < u"
  shows "contains s' (a_vlog s' (u, v)) t m \<or> lost s' t u m"
proof (cases "(u, v, c) \<in> a_votes s")
  case True
  from ackD(2) [OF A a] obtain L where L: "a_llog s t = Some L" "m < length L" by blast
  from ackD(4) [OF A a True u(2)] vlog_keep [OF step core True] show ?thesis
    using contains_grows [OF step_grows [OF step core fin]] lost_step [OF step core fin L] by auto
next
  case False
  with step u(1) have "a_vlog s' (u, v) = a_log s v" "a_log s' v = a_log s v" "u = a_term s' v"
    by (cases rule: spec_step.cases; auto)+
  with ack_log_step [OF step core fin A a] show ?thesis by simp
qed

lemma lost_before:
  assumes "lost s t u m" and "a_llog s u = None"
  shows "lost s t (u - 1) m"
proof -
  from assms(1) obtain r R where r: "t < r" "r \<le> u" "a_llog s r = Some R" "\<not> contains s R t m"
    by (auto simp: lost_def)
  with assms(2) have "r \<noteq> u" by auto
  with r show ?thesis unfolding lost_def by (intro exI [of _ r] exI [of _ R]) simp
qed

lemma new_quorum:
  assumes step: "spec_step N s s'" and core: "inv_core N s" and fin: "finite N"
    and u: "v \<in> a_quor s' u" "a_llog s' u \<noteq> None" and new: "\<not> (a_quor s' u = a_quor s u \<and> a_llog s u \<noteq> None)"
  shows "a_llog s u = None \<and> (\<exists>n. (u, v, n) \<in> a_votes s) \<and> a_vlog s' = a_vlog s"
  using step
proof cases
  case (become_leader n w Q)
  with new u have "u = w" by (auto split: if_splits)
  with become_leader u fresh_election [OF core fin] show ?thesis by auto
next
  case (append n w Y c)
  with new u leaderD(2) [of N s n] core show ?thesis by (auto simp: inv_core_def split: if_splits)
qed (use new u in auto)

lemma ack_quorum_step:
  assumes step: "spec_step N s s'" and core: "inv_core N s" and fin: "finite N"
    and A: "inv_ack s" and a: "(t, v, m) \<in> a_acks s"
    and u: "0 < u" "v \<in> a_quor s' u" "t < u" "a_llog s' u \<noteq> None"
  shows "contains s' (a_vlog s' (u, v)) t m \<or> lost s' t (u - 1) m"
proof -
  note grow = contains_grows [OF step_grows [OF step core fin]]
  from ackD(2) [OF A a] obtain L where L: "a_llog s t = Some L" "m < length L" by blast
  note ls = lost_step [OF step core fin L _ order_refl]
  show ?thesis
  proof (cases "a_quor s' u = a_quor s u \<and> a_llog s u \<noteq> None")
    case True
    with u quorum_voted [OF core u(1)] obtain c where "(u, v, c) \<in> a_votes s" by metis
    with ackD(5) [OF A a u(1) _ u(3)] True u(2) vlog_keep [OF step core] show ?thesis
      using grow ls by auto
  next
    case False
    from new_quorum [OF step core fin u(2,4) False] obtain n
      where e: "a_llog s u = None" "(u, v, n) \<in> a_votes s" "a_vlog s' = a_vlog s" by blast
    from ackD(4) [OF A a e(2) u(3)] lost_before [OF _ e(1)]
    have "contains s (a_vlog s (u, v)) t m \<or> lost s t (u - 1) m" by blast
    then show ?thesis unfolding e(3) by (blast intro: grow ls)
  qed
qed

text \<open>A new acknowledgement is of the current term, so no election has come after it.\<close>

lemma new_ack:
  assumes step: "spec_step N s s'" and core': "inv_core N s'" and a: "(t, v, m) \<in> a_acks s'" "(t, v, m) \<notin> a_acks s"
  shows "t = a_term s' v" and "contains s' (a_log s' v) t m"
proof -
  have L': "inv_log s'" using core' by (simp add: inv_core_def)
  have "t = a_term s' v \<and> contains s' (a_log s' v) t m"
    using step
  proof cases
    case (become_leader n w Q)
    with a logD(1) [OF L', of n] show ?thesis by (auto simp: contains_def wf_log_def)
  next
    case (append n w Y c)
    with a show ?thesis by (auto simp: contains_def)
  next
    case (ack n X k)
    with a take_Suc_eq_length [OF ack(6,5)] show ?thesis by (auto simp: contains_def)
  qed (use a in auto)
  then show "t = a_term s' v" "contains s' (a_log s' v) t m" by blast+
qed

lemma inv_ack_step:
  assumes step: "spec_step N s s'" and core: "inv_core N s" and fin: "finite N" and A: "inv_ack s"
  shows "inv_ack s'"
  unfolding inv_ack_def
proof (intro allI impI)
  fix t v m assume a': "(t, v, m) \<in> a_acks s'"
  have core': "inv_core N s'" using step core fin by (rule inv_core_step)
  show "t \<le> a_term s' v \<and> (\<exists>L. a_llog s' t = Some L \<and> m < length L) \<and>
      (contains s' (a_log s' v) t m \<or> lost s' t (a_term s' v) m) \<and>
      (\<forall>u c. (u, v, c) \<in> a_votes s' \<and> t < u \<longrightarrow> contains s' (a_vlog s' (u, v)) t m \<or> lost s' t u m) \<and>
      (\<forall>u. 0 < u \<and> v \<in> a_quor s' u \<and> t < u \<and> a_llog s' u \<noteq> None \<longrightarrow>
        contains s' (a_vlog s' (u, v)) t m \<or> lost s' t (u - 1) m)"
  proof (cases "(t, v, m) \<in> a_acks s")
    case True
    from ackD(2) [OF A True] obtain L where L: "a_llog s t = Some L" "m < length L" by blast
    have "t \<le> a_term s' v"
      using ackD(1) [OF A True] step_term_mono [OF step, of v] by simp
    moreover have "\<exists>L. a_llog s' t = Some L \<and> m < length L"
      using L step_grows [OF step core fin] by (fastforce simp: grows_def)
    ultimately show ?thesis
      using ack_log_step [OF assms True] ack_vote_step [OF assms True] ack_quorum_step [OF assms True] by blast
  next
    case False
    note new = new_ack [OF step core' a' False]
    have V': "inv_votes N s'" using core' by (simp add: inv_core_def)
    have nv: "\<not> t < u" if "(u, v, c) \<in> a_votes s'" for u c
      using votesD(3) [OF V' that] new(1) by simp
    have "\<not> t < u" if "0 < u" "v \<in> a_quor s' u" "a_llog s' u \<noteq> None" for u
      using quorum_voted [OF core' that] nv by metis
    moreover have "\<exists>L. a_llog s' t = Some L \<and> m < length L"
      using new(2) by (auto simp: contains_def)
    ultimately show ?thesis using new nv by blast
  qed
qed

lemma inv_ack_init: "spec_init N c0 s \<Longrightarrow> inv_ack s"
  by (auto simp: spec_init_def inv_ack_def contains_def)

section \<open>Leader completeness\<close>

lemma contains_take_eq:
  assumes "a_llog s t = Some L" and "m < length L"
  shows "contains s X t m \<longleftrightarrow> take (Suc m) X = take (Suc m) L"
  using assms take_Suc_eq_length [of m X L] by (auto simp: contains_def)

lemma contains_last_term:
  assumes core: "inv_core N s" and X: "wf_log s X" and c: "contains s X t m"
    and L: "a_llog s t = Some L" "fst (L ! m) = t"
  shows "t \<le> fst (last X)"
proof -
  from X obtain M where M: "a_llog s (fst (last X)) = Some M" "X = take (length X) M"
    by (auto simp: wf_log_def elim: coh_last)
  from c L have "m < length X" "X ! m = L ! m"
    by (auto simp: contains_def intro: take_Suc_eq_nth)
  with M(2) have "L ! m \<in> set M" by (metis in_set_takeD nth_mem)
  with core M(1) L(2) show ?thesis
    by (auto simp: inv_core_def dest: leadD(2))
qed

text \<open>The heart of section 5.4.3: an up-to-date candidate inherits the committed prefix.\<close>

lemma up_to_date_contains:
  assumes core: "inv_core N s" and E: "wf_log s E" "\<forall>e\<in>set E. fst e < u" and V: "wf_log s V"
    and utd: "up_to_date E V" and c: "contains s V t m"
    and L: "a_llog s t = Some L" "m < length L" "fst (L ! m) = t"
    and IH: "\<And>r R. r < u \<Longrightarrow> t < r \<Longrightarrow> a_llog s r = Some R \<Longrightarrow> contains s R t m"
  shows "contains s E t m"
proof -
  note iff = contains_take_eq [OF L(1,2)]
  from E(1) obtain M where M: "a_llog s (fst (last E)) = Some M" "E = take (length E) M"
    by (auto simp: wf_log_def elim: coh_last)
  from V obtain W where W: "a_llog s (fst (last V)) = Some W" "V = take (length V) W"
    by (auto simp: wf_log_def elim: coh_last)
  have tV: "t \<le> fst (last V)" using core V c L(1,3) by (rule contains_last_term)
  have mV: "m < length V" using c by (simp add: contains_def)
  have E0: "E \<noteq> []" using E(1) by (simp add: wf_log_def)
  show ?thesis
  proof (cases "fst (last E) = fst (last V)")
    case True
    with utd have le: "length V \<le> length E" by (simp add: up_to_date_def)
    from True M W have "M = W" by simp
    with M(2) W(2) have "take (Suc m) E = take (Suc m) V"
      using mV le by (metis Suc_leI min.absorb1 order_trans take_take)
    with c iff show ?thesis by simp
  next
    case False
    with utd have gt: "fst (last V) < fst (last E)" by (simp add: up_to_date_def split: if_splits)
    have "fst (last E) < u" using E(2) E0 by simp
    with gt tV M(1) have cM: "contains s M t m" by (intro IH) auto
    show ?thesis
    proof (cases "m < length E")
      case True
      have "take (Suc m) E = take (Suc m) M"
        using True by (subst M(2)) simp
      with cM iff show ?thesis by simp
    next
      case short: False
      from cM have tM: "take (Suc m) M = take (Suc m) L" using iff by simp
      have "E = take (length E) L"
        using M(2) take_mono_eq [OF tM, of "length E"] short by simp
      with E0 have "last E \<in> set L" by (metis in_set_takeD last_in_set)
      with core L(1) have "fst (last E) \<le> t" by (auto simp: inv_core_def dest: leadD(2))
      with gt tV show ?thesis by simp
    qed
  qed
qed

lemma leader_complete:
  assumes core: "inv_core N s" and fin: "finite N" and A: "inv_ack s"
    and com: "committed N s t m" and "a_llog s u = Some X" and "t < u"
  shows "contains s X t m"
  using assms(5,6)
proof (induction u arbitrary: X rule: less_induct)
  case (less u)
  from com obtain Q L where Q: "majority N Q" "\<forall>v\<in>Q. (t, v, m) \<in> a_acks s"
    and L: "a_llog s t = Some L" "m < length L" "fst (L ! m) = t"
    by (auto simp: committed_def quorum_acked_def)
  from core have V: "inv_votes N s" and C: "inv_cand s" and D: "inv_lead N s"
    by (simp_all add: inv_core_def)
  have el: "elected N s u X" using leadD(3) [OF D less.prems(1)] less.prems(2) by simp
  then obtain E where E: "a_clog s (u, a_lead s u) = Some E" "take (length E) X = E"
    by (auto simp: elected_def)
  from el fin Q(1) obtain v where v: "v \<in> Q" "v \<in> a_quor s u"
    using majority_intersect by (metis elected_def)
  with el have vote: "(u, v, a_lead s u) \<in> a_votes s" by (simp add: elected_def)
  have "\<not> lost s t (u - 1) m"
  proof
    assume "lost s t (u - 1) m"
    then obtain r R where "t < r" "r \<le> u - 1" "a_llog s r = Some R" "\<not> contains s R t m"
      by (auto simp: lost_def)
    moreover from this less.prems(2) have "r < u" by linarith
    ultimately show False using less.IH by blast
  qed
  with ackD(5) [OF A, of t v m u] Q(2) v less.prems have cV: "contains s (a_vlog s (u, v)) t m"
    by auto
  have "contains s E t m"
  proof (rule up_to_date_contains [OF core _ _ _ _ cV L])
    show "wf_log s E" "\<forall>e\<in>set E. fst e < u"
      using candD [OF C E(1)] by auto
    show "wf_log s (a_vlog s (u, v))" using votesD(7) [OF V vote] .
    show "up_to_date E (a_vlog s (u, v))" using votesD(6) [OF V vote] E(1) by simp
  qed (use less.IH in blast)
  moreover from this have "m < length E" by (simp add: contains_def)
  ultimately show ?case
    using E(2) contains_take_eq [OF L(1,2)] by (metis Suc_leI min.absorb1 take_take)
qed

section \<open>Committed prefixes\<close>

lemma committed_step:
  assumes step: "spec_step N s s'" and core: "inv_core N s" and fin: "finite N"
    and "committed N s t m"
  shows "committed N s' t m"
proof -
  have "a_acks s \<subseteq> a_acks s'" using step by cases auto
  moreover have "grows (a_llog s) (a_llog s')" using step core fin by (rule step_grows)
  ultimately show ?thesis
    using assms(4) unfolding committed_def quorum_acked_def grows_def
    by (fastforce simp: nth_append)
qed

lemma safe_upto_step:
  assumes "spec_step N s s'" and "inv_core N s" and "finite N"
    and "safe_upto N s X u i" and "u \<le> u'"
  shows "safe_upto N s' X u' i"
  using assms(4,5) committed_step [OF assms(1-3)] contains_grows [OF step_grows [OF assms(1-3)]]
  unfolding safe_upto_def by (meson order_trans)

lemma safe_upto_appendI: "safe_upto N s X u i \<Longrightarrow> safe_upto N s (X @ Y) u i"
  unfolding safe_upto_def by (blast intro: contains_appendI)

lemma contains_le: "contains s X t m \<Longrightarrow> i \<le> m \<Longrightarrow> contains s X t i"
  unfolding contains_def by (auto intro: take_mono_eq [of "Suc m"])

lemma safe_upto_le: "safe_upto N s X u i \<Longrightarrow> j \<le> i \<Longrightarrow> safe_upto N s X u j"
  unfolding safe_upto_def by (meson contains_le order_trans)

lemma safe_upto_prefix:
  assumes "safe_upto N s X u i" and "take (Suc i) X = take (Suc i) Y"
  shows "safe_upto N s Y u i"
proof -
  from assms(1) obtain t m where tm: "committed N s t m" "t \<le> u" "i \<le> m" "contains s X t i"
    by (auto simp: safe_upto_def)
  then obtain L where L: "a_llog s t = Some L" "i < length L" by (auto simp: contains_def)
  with tm(4) assms(2) have "contains s Y t i" by (simp add: contains_take_eq [OF L])
  with tm show ?thesis by (auto simp: safe_upto_def)
qed

text \<open>Every leader from the given term on has the safe prefix, and two safe prefixes agree.\<close>

lemma safe_upto_leader:
  assumes core: "inv_core N s" and fin: "finite N" and A: "inv_ack s"
    and X: "safe_upto N s X u i" and L: "a_llog s r = Some R" and "u \<le> r"
  shows "take (Suc i) X = take (Suc i) R \<and> i < length R"
proof -
  from X obtain t m where tm: "committed N s t m" "t \<le> u" "i \<le> m" "contains s X t i"
    by (auto simp: safe_upto_def)
  have "contains s R t m"
  proof (cases "t = r")
    case True
    with tm(1) L show ?thesis by (auto simp: committed_def contains_def)
  next
    case False
    with tm(2) assms(6) show ?thesis
      by (intro leader_complete [OF core fin A tm(1) L]) simp
  qed
  then have "contains s R t i" using tm(3) by (rule contains_le)
  with tm(4) show ?thesis by (auto simp: contains_def)
qed

lemma safe_upto_agree:
  assumes core: "inv_core N s" and fin: "finite N" and A: "inv_ack s"
    and X: "safe_upto N s X u i" and Y: "safe_upto N s Y w j" and "i \<le> j"
  shows "take (Suc i) X = take (Suc i) Y"
proof -
  from X obtain t m where tm: "committed N s t m" "i \<le> m" "contains s X t i"
    by (auto simp: safe_upto_def)
  from Y obtain r k where rk: "committed N s r k" "j \<le> k" "contains s Y r j"
    by (auto simp: safe_upto_def)
  then have Yi: "contains s Y r i" using assms(6) by (blast intro: contains_le)
  from tm(1) obtain L where L: "a_llog s t = Some L" by (auto simp: committed_def)
  from rk(1) obtain R where R: "a_llog s r = Some R" by (auto simp: committed_def)
  consider "t = r" | "t < r" | "r < t" by linarith
  then show ?thesis
  proof cases
    case 1
    with tm(3) Yi show ?thesis by (auto simp: contains_def)
  next
    case 2
    from leader_complete [OF core fin A tm(1) R 2] tm(2) have "contains s R t i"
      by (rule contains_le)
    with tm(3) Yi R show ?thesis by (auto simp: contains_def)
  next
    case 3
    have "contains s L r i"
      using leader_complete [OF core fin A rk(1) L 3] rk(2) assms(6) by (auto intro: contains_le)
    with tm(3) Yi L show ?thesis by (auto simp: contains_def)
  qed
qed

lemma commitD:
  assumes "inv_commit N s"
  shows "n \<in> N \<Longrightarrow> safe_upto N s (a_log s n) (a_term s n) (a_commit s n)"
    "(t, c) \<in> a_lcommits s \<Longrightarrow> \<exists>L. a_llog s t = Some L \<and> safe_upto N s L t c"
    "a_role s n = Leader \<Longrightarrow> (a_term s n, a_commit s n) \<in> a_lcommits s"
  using assms unfolding inv_commit_def by blast+

text \<open>What the four steps that move a log or a commit index keep of the committed prefix.\<close>

lemma safe_trunc:
  assumes core: "inv_core N s" and fin: "finite N" and A: "inv_ack s"
    and old: "safe_upto N s (a_log s n) (a_term s n) c" and L: "a_llog s (a_term s n) = Some L"
    and i: "i < length (a_log s n)" "i < length L" "fst (a_log s n ! i) \<noteq> fst (L ! i)"
  shows "take (Suc c) (a_log s n) = take (Suc c) (take i (a_log s n))"
proof -
  from safe_upto_leader [OF core fin A old L]
  have eq: "take (Suc c) (a_log s n) = take (Suc c) L" by simp
  have "c < i"
  proof (rule ccontr)
    assume "\<not> c < i"
    with take_Suc_eq_nth [OF eq, of i] i show False by auto
  qed
  then show ?thesis by (simp add: min_def)
qed

lemma safe_extend:
  assumes old: "safe_upto N s (a_log s n) t c"
    and X: "a_log s n = take (length (a_log s n)) L" "length (a_log s n) \<le> j"
  shows "take (Suc c) (a_log s n) = take (Suc c) (take j L)"
proof -
  have len: "c < length (a_log s n)"
    using old by (auto simp: safe_upto_def contains_def)
  show ?thesis using X len by (intro take_extend_eq) simp_all
qed

lemma safe_follower_commit:
  assumes A: "inv_ack s" and I: "inv_commit N s"
    and a: "(a_term s n, n, m) \<in> a_acks s" and c: "(a_term s n, c) \<in> a_lcommits s" and i: "i \<le> m" "i \<le> c"
  shows "safe_upto N s (a_log s n) (a_term s n) i"
proof -
  from commitD(2) [OF I c] obtain L where
    L: "a_llog s (a_term s n) = Some L" "safe_upto N s L (a_term s n) c" by auto
  have "contains s (a_log s n) (a_term s n) m"
    using ackD(3) [OF A a] by (auto simp: lost_def)
  then have "contains s (a_log s n) (a_term s n) i" using i(1) by (rule contains_le)
  with L(1) have "take (Suc i) L = take (Suc i) (a_log s n)" by (auto simp: contains_def)
  with safe_upto_le [OF L(2) i(2)] show ?thesis by (rule safe_upto_prefix)
qed

lemma safe_leader_commit:
  assumes core: "inv_core N s" and L: "a_role s n = Leader"
    and i: "i < length (a_log s n)" "fst (a_log s n ! i) = a_term s n" "quorum_acked N s (a_term s n) i"
  shows "safe_upto N s (a_log s n) (a_term s n) i"
proof -
  have "a_llog s (a_term s n) = Some (a_log s n)"
    using core L by (auto simp: inv_core_def dest: leaderD(2))
  with i show ?thesis
    unfolding safe_upto_def committed_def
    by (intro exI [of _ "a_term s n"] exI [of _ i]) (auto intro: contains_self)
qed

lemma inv_commit_log_step:
  assumes step: "spec_step N s s'" and core: "inv_core N s" and fin: "finite N"
    and A: "inv_ack s" and I: "inv_commit N s" and n: "n \<in> N"
  shows "safe_upto N s' (a_log s' n) (a_term s' n) (a_commit s' n)"
proof -
  note ss = safe_upto_step [OF step core fin _ step_term_mono [OF step]]
  have old: "safe_upto N s (a_log s n) (a_term s n) (a_commit s n)" using commitD(1) [OF I n] .
  have old': "safe_upto N s' (a_log s n) (a_term s' n) (a_commit s n)" using old by (rule ss)
  from step show ?thesis
  proof cases
    case (torn k t)
    with old' safe_upto_le [OF old', of 0] show ?thesis by (cases "k = n") auto
  next
    case (restart k)
    with old' safe_upto_le [OF old', of 0] show ?thesis by (cases "k = n") auto
  next
    case (append k t L c)
    with old' show ?thesis by (cases "k = n") (auto intro: safe_upto_appendI)
  next
    case (trunc k L i)
    with old' safe_upto_prefix [OF old' safe_trunc [OF core fin A old]] show ?thesis by (cases "k = n") auto
  next
    case (extend k L j)
    with old' safe_upto_prefix [OF old' safe_extend [OF old]] show ?thesis by (cases "k = n") auto
  next
    case (follower_commit k m c i)
    with old' ss [OF safe_follower_commit [OF A I]] show ?thesis by (cases "k = n") auto
  next
    case (leader_commit k t i)
    with old' ss [OF safe_leader_commit [OF core]] show ?thesis by (cases "k = n") auto
  qed (use old' in auto)
qed

lemma inv_commit_step:
  assumes step: "spec_step N s s'" and core: "inv_core N s" and fin: "finite N"
    and A: "inv_ack s" and I: "inv_commit N s"
  shows "inv_commit N s'"
proof -
  note ss = safe_upto_step [OF step core fin _ order_refl]
  have core': "inv_core N s'" using step core fin by (rule inv_core_step)
  have D: "inv_lead N s" and D': "inv_lead N s'" using core core' by (simp_all add: inv_core_def)
  have logs: "safe_upto N s' (a_log s' n) (a_term s' n) (a_commit s' n)" if "n \<in> N" for n
    using assms that by (rule inv_commit_log_step)
  have "\<exists>L. a_llog s' t = Some L \<and> safe_upto N s' L t c" if tc: "(t, c) \<in> a_lcommits s'" for t c
  proof (cases "(t, c) \<in> a_lcommits s")
    case True
    with commitD(2) [OF I] obtain L where L: "a_llog s t = Some L" "safe_upto N s L t c" by blast
    from llog_step [OF step core fin L(1)] show ?thesis
      using ss [OF L(2)] by (auto intro: safe_upto_appendI)
  next
    case False
    with step tc obtain n where n: "n \<in> N" "a_role s' n = Leader" "t = a_term s' n" "c = a_commit s' n"
      by (cases rule: spec_step.cases) auto
    with logs [OF n(1)] leaderD(2) [OF D' n(2)] show ?thesis by auto
  qed
  moreover have "(a_term s' n, a_commit s' n) \<in> a_lcommits s'" if "a_role s' n = Leader" for n
    using step that commitD(3) [OF I, of n]
    by (cases rule: spec_step.cases) (auto split: if_splits)
  ultimately show ?thesis using logs by (auto simp: inv_commit_def)
qed

lemma inv_commit_init:
  assumes "spec_init N c0 s" and "finite N" and "N \<noteq> {}"
  shows "inv_commit N s"
proof -
  have "committed N s 0 0"
    using assms majority_all [OF assms(2,3)]
    by (auto simp: spec_init_def committed_def quorum_acked_def)
  then have "safe_upto N s [(0, c0)] 0 0"
    unfolding safe_upto_def using assms(1)
    by (intro exI [of _ 0]) (auto simp: spec_init_def contains_def)
  with assms(1) show ?thesis by (auto simp: spec_init_def inv_commit_def)
qed

definition spec_inv :: "'n set \<Rightarrow> ('n, 'c) spec \<Rightarrow> bool" where
  "spec_inv N s \<longleftrightarrow> inv_core N s \<and> inv_ack s \<and> inv_commit N s"

lemma spec_inv_step: "spec_step N s s' \<Longrightarrow> spec_inv N s \<Longrightarrow> finite N \<Longrightarrow> spec_inv N s'"
  unfolding spec_inv_def using inv_core_step inv_ack_step inv_commit_step by blast

lemma spec_inv_steps: "(spec_step N)\<^sup>*\<^sup>* s s' \<Longrightarrow> spec_inv N s \<Longrightarrow> finite N \<Longrightarrow> spec_inv N s'"
  by (induction rule: rtranclp_induct) (auto intro: spec_inv_step)

lemma spec_inv_init: "spec_init N c0 s \<Longrightarrow> finite N \<Longrightarrow> N \<noteq> {} \<Longrightarrow> spec_inv N s"
  by (simp add: spec_inv_def inv_core_init inv_ack_init inv_commit_init)

lemma spec_reach_inv: "spec_reach N c0 s \<Longrightarrow> finite N \<Longrightarrow> N \<noteq> {} \<Longrightarrow> spec_inv N s"
  by (induction rule: spec_reach.induct) (auto intro: spec_inv_init spec_inv_step)

section \<open>The safety properties\<close>

lemma spec_election_safety:
  assumes "spec_inv N s" and "a_role s n = Leader" and "a_role s k = Leader"
    and "a_term s n = a_term s k"
  shows "n = k"
proof -
  have "inv_lead N s" using assms(1) by (simp add: spec_inv_def inv_core_def)
  from leaderD(3) [OF this assms(2)] leaderD(3) [OF this assms(3)] show ?thesis
    unfolding assms(4) by (rule trans [OF sym])
qed

lemma spec_log_matching:
  assumes "spec_inv N s" and "i < length (a_log s n)" and "i < length (a_log s k)"
    and "fst (a_log s n ! i) = fst (a_log s k ! i)"
  shows "take (Suc i) (a_log s n) = take (Suc i) (a_log s k)"
proof -
  have "coh (a_llog s) (a_log s n)" "coh (a_llog s) (a_log s k)"
    using assms(1) logD(1) [of s n] logD(1) [of s k]
    by (simp_all add: spec_inv_def inv_core_def wf_log_def)
  then show ?thesis using assms(2-4) by (rule coh_match)
qed

lemma spec_state_machine_safety:
  assumes "spec_inv N s" and "finite N" and "n \<in> N" and "k \<in> N" and "a_commit s n \<le> a_commit s k"
  shows "take (Suc (a_commit s n)) (a_log s n) = take (Suc (a_commit s n)) (a_log s k)"
proof -
  have I: "inv_core N s" "inv_ack s" "inv_commit N s"
    using assms(1) by (simp_all add: spec_inv_def)
  show ?thesis
    using safe_upto_agree [OF I(1) assms(2) I(2) commitD(1) [OF I(3) assms(3)] commitD(1) [OF I(3) assms(4)] assms(5)] .
qed

lemma spec_commit_bound:
  "spec_inv N s \<Longrightarrow> n \<in> N \<Longrightarrow> a_commit s n < length (a_log s n)"
  by (auto simp: spec_inv_def safe_upto_def contains_def dest: commitD(1))

text \<open>A leader of a term not older than the node's has everything the node has committed.\<close>

lemma spec_leader_has_committed:
  assumes "spec_inv N s" and "finite N" and "n \<in> N" and "a_role s k = Leader"
    and "a_term s n \<le> a_term s k"
  shows "take (Suc (a_commit s n)) (a_log s n) = take (Suc (a_commit s n)) (a_log s k)"
    and "a_commit s n < length (a_log s k)"
proof -
  have I: "inv_core N s" "inv_ack s" "inv_commit N s"
    using assms(1) by (simp_all add: spec_inv_def)
  then have "a_llog s (a_term s k) = Some (a_log s k)"
    using assms(4) by (auto simp: inv_core_def dest: leaderD(2))
  from safe_upto_leader [OF I(1) assms(2) I(2) commitD(1) [OF I(3) assms(3)] this assms(5)]
  show "take (Suc (a_commit s n)) (a_log s n) = take (Suc (a_commit s n)) (a_log s k)"
    and "a_commit s n < length (a_log s k)" by simp_all
qed

end
