(* ===== verification/Raft_Steps.thy ===== *)
theory Raft_Steps
  imports Raft_Safety
begin

text \<open>
  Steps of one node of the abstract protocol: they leave the other nodes alone, the history only
  grows along them, and the committed prefix of a log never changes.
\<close>

section \<open>Growth of the history\<close>

definition hist_le :: "('n, 'c) spec \<Rightarrow> ('n, 'c) spec \<Rightarrow> bool" where
  "hist_le s s' \<longleftrightarrow> a_votes s \<subseteq> a_votes s' \<and> a_acks s \<subseteq> a_acks s' \<and> a_lcommits s \<subseteq> a_lcommits s' \<and>
     (\<forall>p L. a_clog s p = Some L \<longrightarrow> a_clog s' p = Some L) \<and>
     (\<forall>t L. a_llog s t = Some L \<longrightarrow> (\<exists>X. a_llog s' t = Some (L @ X)) \<and> a_lead s' t = a_lead s t)"

lemma hist_le_refl [simp]: "hist_le s s"
  by (simp add: hist_le_def)

lemma hist_le_trans: "hist_le a b \<Longrightarrow> hist_le b c \<Longrightarrow> hist_le a c"
  unfolding hist_le_def by (fastforce simp: subset_iff)

lemma hist_leD:
  assumes "hist_le s s'"
  shows "v \<in> a_votes s \<Longrightarrow> v \<in> a_votes s'" "x \<in> a_acks s \<Longrightarrow> x \<in> a_acks s'"
    "y \<in> a_lcommits s \<Longrightarrow> y \<in> a_lcommits s'" "a_clog s p = Some L \<Longrightarrow> a_clog s' p = Some L"
    "a_llog s t = Some M \<Longrightarrow> \<exists>X. a_llog s' t = Some (M @ X)"
    "a_llog s t = Some M \<Longrightarrow> a_lead s' t = a_lead s t"
  using assms unfolding hist_le_def by blast+

lemma step_hist_le:
  assumes "spec_step N s s'" and I: "spec_inv N s" and fin: "finite N"
  shows "hist_le s s'"
proof -
  have core: "inv_core N s" using I by (simp add: spec_inv_def)
  then have C: "inv_cand s" by (simp add: inv_core_def)
  have g: "grows (a_llog s) (a_llog s')" using assms(1) core fin by (rule step_grows)
  have "a_lead s' t = a_lead s t" if "a_llog s t \<noteq> None" for t
    using assms(1)
  proof cases
    case (become_leader n u Q)
    with that fresh_election [OF core fin] show ?thesis by auto
  qed simp_all
  moreover have "a_votes s \<subseteq> a_votes s' \<and> a_acks s \<subseteq> a_acks s' \<and> a_lcommits s \<subseteq> a_lcommits s'"
    using assms(1) by cases auto
  ultimately show ?thesis
    using g clog_keep [OF assms(1) C] unfolding hist_le_def grows_def by blast
qed

section \<open>Steps of one node\<close>

definition same_at :: "'n \<Rightarrow> ('n, 'c) spec \<Rightarrow> ('n, 'c) spec \<Rightarrow> bool" where
  "same_at k s s' \<longleftrightarrow> a_term s' k = a_term s k \<and> a_vote s' k = a_vote s k \<and> a_log s' k = a_log s k \<and>
     a_role s' k = a_role s k \<and> a_commit s' k = a_commit s k"

definition local_step :: "'n set \<Rightarrow> 'n \<Rightarrow> ('n, 'c) spec \<Rightarrow> ('n, 'c) spec \<Rightarrow> bool" where
  "local_step N n s s' \<longleftrightarrow> spec_step N s s' \<and> (\<forall>k. k \<noteq> n \<longrightarrow> same_at k s s')"

abbreviation node_steps :: "'n set \<Rightarrow> 'n \<Rightarrow> ('n, 'c) spec \<Rightarrow> ('n, 'c) spec \<Rightarrow> bool" where
  "node_steps N n \<equiv> (local_step N n)\<^sup>*\<^sup>*"

lemma same_at_refl [simp]: "same_at k s s"
  by (simp add: same_at_def)

lemma same_at_trans: "same_at k a b \<Longrightarrow> same_at k b c \<Longrightarrow> same_at k a c"
  by (simp add: same_at_def)

lemma node_steps_spec: "node_steps N n s s' \<Longrightarrow> (spec_step N)\<^sup>*\<^sup>* s s'"
  by (induction rule: rtranclp_induct) (auto simp: local_step_def)

lemma node_steps_same: "node_steps N n s s' \<Longrightarrow> k \<noteq> n \<Longrightarrow> same_at k s s'"
  by (induction rule: rtranclp_induct) (auto simp: local_step_def intro: same_at_trans)

lemma node_steps_inv: "node_steps N n s s' \<Longrightarrow> spec_inv N s \<Longrightarrow> finite N \<Longrightarrow> spec_inv N s'"
  by (blast dest: node_steps_spec intro: spec_inv_steps)

lemma node_steps_hist:
  "node_steps N n s s' \<Longrightarrow> spec_inv N s \<Longrightarrow> finite N \<Longrightarrow> hist_le s s'"
proof (induction rule: rtranclp_induct)
  case (step y z)
  then have "spec_inv N y" by (blast intro: node_steps_inv)
  with step show ?case
    by (auto simp: local_step_def intro: hist_le_trans step_hist_le)
qed simp

lemma local_stepI: "spec_step N s s' \<Longrightarrow> (\<And>k. k \<noteq> n \<Longrightarrow> same_at k s s') \<Longrightarrow> local_step N n s s'"
  by (simp add: local_step_def)

section \<open>The committed prefix is never rewritten\<close>

text \<open>The truncation of a conflict falls above every index that is safe.\<close>

lemma conflict_above_safe:
  assumes I: "spec_inv N s" and fin: "finite N" and safe: "safe_upto N s (a_log s n) (a_term s n) c"
    and L: "a_llog s (a_term s n) = Some L" and i: "i < length (a_log s n)" "i < length L"
    and ne: "fst (a_log s n ! i) \<noteq> fst (L ! i)"
  shows "c < i"
proof (rule ccontr)
  assume a: "\<not> c < i"
  have core: "inv_core N s" and A: "inv_ack s"
    using I by (simp_all add: spec_inv_def)
  from safe_upto_leader [OF core fin A safe L]
  have eq: "take (Suc c) (a_log s n) = take (Suc c) L" by simp
  from take_Suc_eq_nth [OF eq _ i] a ne show False by auto
qed

lemma conflict_above_commit:
  assumes I: "spec_inv N s" and fin: "finite N" and n: "n \<in> N"
    and L: "a_llog s (a_term s n) = Some L" and i: "i < length (a_log s n)" "i < length L"
    and ne: "fst (a_log s n ! i) \<noteq> fst (L ! i)"
  shows "a_commit s n < i"
  by (rule conflict_above_safe [OF I fin _ L i ne]) (use I n in \<open>auto simp: spec_inv_def dest: commitD(1)\<close>)

lemma safe_prefix_step:
  assumes step: "spec_step N s s'" and I: "spec_inv N s" and fin: "finite N"
    and safe: "safe_upto N s (a_log s n) (a_term s n) c"
  shows "take (Suc c) (a_log s' n) = take (Suc c) (a_log s n) \<and> safe_upto N s' (a_log s' n) (a_term s' n) c"
proof -
  have len: "c < length (a_log s n)" using safe by (auto simp: safe_upto_def contains_def)
  have eq: "take (Suc c) (a_log s' n) = take (Suc c) (a_log s n)"
    using step
  proof cases
    case (append k t L c)
    with len show ?thesis by auto
  next
    case (trunc k L i)
    show ?thesis
    proof (cases "k = n")
      case True
      have "c < i"
        by (rule conflict_above_safe [OF I fin safe, of L]) (use trunc True in auto)
      with trunc True show ?thesis by (simp add: min_def)
    qed (use trunc in simp)
  next
    case (extend k L j)
    show ?thesis
    proof (cases "k = n")
      case True
      have "take (Suc c) (a_log s n) = take (Suc c) (take j L)"
        using extend(5,6) len True by (intro take_extend_eq) simp_all
      with extend True show ?thesis by simp
    qed (use extend in simp)
  qed simp_all
  have "inv_core N s" using I by (simp add: spec_inv_def)
  from safe_upto_step [OF step this fin safe step_term_mono [OF step]]
  have "safe_upto N s' (a_log s n) (a_term s' n) c" .
  from safe_upto_prefix [OF this eq [symmetric]] eq show ?thesis by blast
qed

lemma safe_prefix_steps:
  assumes "(spec_step N)\<^sup>*\<^sup>* s s'" and I: "spec_inv N s" and fin: "finite N"
    and safe: "safe_upto N s (a_log s n) (a_term s n) c"
  shows "take (Suc c) (a_log s' n) = take (Suc c) (a_log s n) \<and> safe_upto N s' (a_log s' n) (a_term s' n) c"
  using assms(1)
proof (induction rule: rtranclp_induct)
  case (step y z)
  have "spec_inv N y" using step(1) I fin by (rule spec_inv_steps)
  with safe_prefix_step [OF step(2) _ fin] step.IH show ?case by simp
qed (use safe in simp)

end
