(* ===== verification/Kvstore.thy ===== *)
theory Kvstore
  imports Prelude
begin

text \<open>
  The replicated state machine, \<open>internal/kvstore/command.go\<close> and
  \<open>internal/kvstore/kvstore.go\<close>: the commands, their encoding, and the key-value map they
  are applied to.
\<close>

section \<open>Commands\<close>

text \<open>\<open>CommandType\<close> is a \<open>uint8\<close>, so a decoded command may carry any byte.\<close>

definition CmdSet :: byte where "CmdSet = 0"
definition CmdDelete :: byte where "CmdDelete = 1"

record command =
  cmd_type :: byte
  cmd_key :: string
  cmd_value :: string

text \<open>
  \<open>encoding/gob\<close> is a parameter: what \<open>Encoder.Encode\<close> leaves in a fresh buffer and what
  \<open>Decoder.Decode\<close> reads from one.
\<close>

record gob =
  gob_encode :: "command \<Rightarrow> go_error + bytes"
  gob_decode :: "bytes \<Rightarrow> go_error + command"

definition Encode :: "gob \<Rightarrow> command \<Rightarrow> go_error + bytes" where
  "Encode G c = (case gob_encode G c of Inl e \<Rightarrow> Inl e | Inr b \<Rightarrow> Inr b)"

definition DecodeCommand :: "gob \<Rightarrow> bytes \<Rightarrow> go_error + command" where
  "DecodeCommand G b = (case gob_decode G b of Inl e \<Rightarrow> Inl e | Inr c \<Rightarrow> Inr c)"

text \<open>
  What the code relies on: a command encodes to a non-empty message that decodes to the same
  command.
\<close>

definition gob_roundtrip :: "gob \<Rightarrow> bool" where
  "gob_roundtrip G \<longleftrightarrow> (\<forall>c. \<exists>b. gob_encode G c = Inr b \<and> b \<noteq> [] \<and> gob_decode G b = Inr c)"

section \<open>The store\<close>

type_synonym kv_store = "(string \<times> string) list"

definition NewKVStore :: kv_store where
  "NewKVStore = []"

definition kv_Apply :: "command \<Rightarrow> kv_store \<Rightarrow> kv_store" where
  "kv_Apply c kv =
     (if cmd_type c = CmdSet then AList.update (cmd_key c) (cmd_value c) kv
      else if cmd_type c = CmdDelete then AList.delete (cmd_key c) kv
      else kv)"

definition kv_Get :: "kv_store \<Rightarrow> string \<Rightarrow> string \<times> bool" where
  "kv_Get kv k = (case map_of kv k of None \<Rightarrow> ('''', False) | Some v \<Rightarrow> (v, True))"

definition kv_Size :: "kv_store \<Rightarrow> nat" where
  "kv_Size kv = length kv"

section \<open>Lemmas\<close>

definition kv_wf :: "kv_store \<Rightarrow> bool" where
  "kv_wf kv \<longleftrightarrow> distinct (keys kv)"

lemma kv_wf_New [simp]: "kv_wf NewKVStore"
  by (simp add: kv_wf_def NewKVStore_def)

lemma kv_wf_Apply: "kv_wf kv \<Longrightarrow> kv_wf (kv_Apply c kv)"
  by (simp add: kv_wf_def kv_Apply_def distinct_update distinct_delete)

text \<open>The map the store represents, and its update by a command.\<close>

lemma kv_Apply_map_of:
  "map_of (kv_Apply c kv) =
     (if cmd_type c = CmdSet then (map_of kv)(cmd_key c \<mapsto> cmd_value c)
      else if cmd_type c = CmdDelete then (map_of kv)(cmd_key c := None)
      else map_of kv)"
  by (simp add: kv_Apply_def update_conv' delete_conv')

lemma kv_Size_card: "kv_wf kv \<Longrightarrow> kv_Size kv = card (dom (map_of kv))"
  by (simp add: kv_wf_def kv_Size_def dom_map_of_conv_image_fst card_image distinct_map distinct_card
      flip: distinct_card [of "keys kv"])

lemma EncodeD:
  "gob_roundtrip G \<Longrightarrow> \<exists>b. Encode G c = Inr b \<and> b \<noteq> [] \<and> DecodeCommand G b = Inr c"
  unfolding gob_roundtrip_def Encode_def DecodeCommand_def by (metis sum.simps(6))

end
