(* ===== verification/Metrics.thy ===== *)
theory Metrics
  imports Prelude
begin

text \<open>
  The collectors of \<open>internal/metrics/metrics.go\<close>.  Prometheus itself is outside: a gauge is
  modelled by the number the code last passed to its \<open>Set\<close>, a counter by the number of its
  increments, a histogram by the values observed (newest first), before their conversion to a
  float.  Every method returns at once on a nil receiver.
\<close>

record metrics =
  m_CurrentTerm :: u64
  m_NodeRole :: int
  m_LeaderElectionsTotal :: nat
  m_CommitIndex :: u64
  m_LastApplied :: u64
  m_LogEntriesTotal :: int
  m_ReplicationLatency :: "int list"
  m_AppendEntriesTotal :: nat
  m_RequestVoteTotal :: nat
  m_KVRequestsTotal :: "(string \<times> nat) list"
  m_KVRequestDuration :: "(string \<times> int) list"
  m_KVStoreSize :: int

definition newMetrics :: metrics where
  "newMetrics = \<lparr>m_CurrentTerm = 0, m_NodeRole = 0, m_LeaderElectionsTotal = 0, m_CommitIndex = 0,
     m_LastApplied = 0, m_LogEntriesTotal = 0, m_ReplicationLatency = [], m_AppendEntriesTotal = 0,
     m_RequestVoteTotal = 0, m_KVRequestsTotal = [], m_KVRequestDuration = [], m_KVStoreSize = 0\<rparr>"

definition SetCurrentTerm :: "u64 \<Rightarrow> metrics option \<Rightarrow> metrics option" where
  "SetCurrentTerm t = map_option (m_CurrentTerm_update (\<lambda>_. t))"

definition SetNodeRole :: "int \<Rightarrow> metrics option \<Rightarrow> metrics option" where
  "SetNodeRole r = map_option (m_NodeRole_update (\<lambda>_. r))"

definition IncLeaderElections :: "metrics option \<Rightarrow> metrics option" where
  "IncLeaderElections = map_option (m_LeaderElectionsTotal_update Suc)"

definition SetCommitIndex :: "u64 \<Rightarrow> metrics option \<Rightarrow> metrics option" where
  "SetCommitIndex i = map_option (m_CommitIndex_update (\<lambda>_. i))"

definition SetLastApplied :: "u64 \<Rightarrow> metrics option \<Rightarrow> metrics option" where
  "SetLastApplied i = map_option (m_LastApplied_update (\<lambda>_. i))"

definition SetLogEntriesTotal :: "int \<Rightarrow> metrics option \<Rightarrow> metrics option" where
  "SetLogEntriesTotal n = map_option (m_LogEntriesTotal_update (\<lambda>_. n))"

definition ObserveReplicationLatency :: "int \<Rightarrow> metrics option \<Rightarrow> metrics option" where
  "ObserveReplicationLatency d = map_option (m_ReplicationLatency_update (Cons d))"

definition IncAppendEntriesTotal :: "metrics option \<Rightarrow> metrics option" where
  "IncAppendEntriesTotal = map_option (m_AppendEntriesTotal_update Suc)"

definition IncRequestVoteTotal :: "metrics option \<Rightarrow> metrics option" where
  "IncRequestVoteTotal = map_option (m_RequestVoteTotal_update Suc)"

definition IncKVRequests :: "string \<Rightarrow> metrics option \<Rightarrow> metrics option" where
  "IncKVRequests op =
     map_option (m_KVRequestsTotal_update (\<lambda>m. AList.update op (Suc (map_get 0 m op)) m))"

definition ObserveKVRequestDuration :: "string \<Rightarrow> int \<Rightarrow> metrics option \<Rightarrow> metrics option" where
  "ObserveKVRequestDuration op d = map_option (m_KVRequestDuration_update (Cons (op, d)))"

definition SetKVStoreSize :: "int \<Rightarrow> metrics option \<Rightarrow> metrics option" where
  "SetKVStoreSize n = map_option (m_KVStoreSize_update (\<lambda>_. n))"

end
