(* ===== verification/Raft_Node.thy ===== *)
theory Raft_Node
  imports Raft_State Storage Kvstore Metrics
begin

text \<open>
  One node of the consensus engine: its configuration (\<open>internal/raft/config.go\<close>), its state
  (\<open>internal/raft/state.go\<close>), and its construction, timers and accessors
  (\<open>internal/raft/raft.go\<close>).  Every operation that holds the node's mutex is one function on
  the node's state; time and randomness are arguments.
\<close>

section \<open>Time\<close>

text \<open>
  Instants and durations are nanoseconds.  \<open>Time.Sub\<close> saturates to the range of an
  \<open>int64\<close>; the zero \<open>Time\<close> is January 1 of year 1.
\<close>

definition zero_time :: int where
  "zero_time = - 62135596800 * 1000000000"

definition time_sub :: "int \<Rightarrow> int \<Rightarrow> int" where
  "time_sub a b = max (- (2 ^ 63)) (min (2 ^ 63 - 1) (a - b))"

definition millisecond :: int where
  "millisecond = 1000000"

text \<open>
  What a handler reads from the outside: the clock when it records a contact or checks a
  deadline, the clock when it computes a new election deadline, the later instant at which the
  timer is armed, and \<open>rand.Int63n\<close>.
\<close>

record env =
  now :: int
  now_deadline :: int
  now_armed :: int
  Int63n :: "int \<Rightarrow> int"

text \<open>What Go promises of them: the clock does not go back, and \<open>Int63n n\<close> is below \<open>n\<close>.\<close>

definition env_ok :: "env \<Rightarrow> bool" where
  "env_ok e \<longleftrightarrow> now e \<le> now_deadline e \<and> now_deadline e \<le> now_armed e \<and>
     (\<forall>n > 0. 0 \<le> Int63n e n \<and> Int63n e n < n)"

section \<open>Configuration\<close>

record peer_config =
  pc_ID :: string
  pc_Address :: string

record config =
  NodeID :: string
  Peers :: "peer_config list"
  ElectionTimeoutMin :: int
  ElectionTimeoutMax :: int
  HeartbeatInterval :: int
  DataDir :: string

definition DefaultConfig :: "string \<Rightarrow> peer_config list \<Rightarrow> config" where
  "DefaultConfig i ps = \<lparr>NodeID = i, Peers = ps, ElectionTimeoutMin = 150 * millisecond,
     ElectionTimeoutMax = 300 * millisecond, HeartbeatInterval = 50 * millisecond,
     DataDir = ''./data''\<rparr>"

section \<open>State\<close>

record persistent_state =
  ps_CurrentTerm :: u64
  ps_VotedFor :: string
  ps_Log :: "log_entry list"

record volatile_state =
  vs_CommitIndex :: u64
  vs_LastApplied :: u64

record leader_state =
  ls_NextIndex :: "(string \<times> u64) list"
  ls_MatchIndex :: "(string \<times> u64) list"

text \<open>
  A \<open>time.Timer\<close>: when it is due, if it is running, and whether its channel holds a fire.
\<close>

record timer =
  tm_due :: "int option"
  tm_fired :: bool

definition NewTimer :: "int \<Rightarrow> int \<Rightarrow> timer" where
  "NewTimer at d = \<lparr>tm_due = Some (at + d), tm_fired = False\<rparr>"

definition timer_Stop :: "timer \<Rightarrow> bool \<times> timer" where
  "timer_Stop tm = (tm_due tm \<noteq> None, tm\<lparr>tm_due := None\<rparr>)"

definition timer_Drain :: "timer \<Rightarrow> timer" where
  "timer_Drain tm = tm\<lparr>tm_fired := False\<rparr>"

definition timer_Reset :: "int \<Rightarrow> int \<Rightarrow> timer \<Rightarrow> timer" where
  "timer_Reset at d tm = tm\<lparr>tm_due := Some (at + d)\<rparr>"

text \<open>
  The variables the goroutines of an election share through their closures: one record per
  pre-vote round and one per campaign, addressed by a fresh number.
\<close>

record prevote_round =
  pv_term :: u64
  pv_votes :: nat
  pv_majority :: nat
  pv_started :: int
  pv_campaigned :: bool

record campaign_round =
  cp_term :: u64
  cp_votes :: nat
  cp_majority :: nat

text \<open>
  The node.  A commit channel is a number; \<open>rn_chans\<close> holds the messages sent into channels
  and not yet received.
\<close>

record 's raft_node =
  rn_config :: config
  rn_role :: node_role
  rn_peers :: "(string \<times> peer_config) list"
  rn_persistent :: persistent_state
  rn_volatile :: volatile_state
  rn_leader :: "leader_state option"
  rn_leaderID :: string
  rn_lastLeaderContact :: int
  rn_kvStore :: kv_store
  rn_storage :: 's
  rn_metrics :: "metrics option"
  rn_stopped :: bool
  rn_electionTimer :: "timer option"
  rn_heartbeatTimer :: "timer option"
  rn_electionDeadline :: int
  rn_pendingCommits :: "(u64 \<times> nat) list"
  rn_chans :: "(nat \<times> go_error option) list"
  rn_nextChan :: nat
  rn_preVotes :: "(nat \<times> prevote_round) list"
  rn_campaigns :: "(nat \<times> campaign_round) list"
  rn_nextClosure :: nat

abbreviation "CurrentTerm rn \<equiv> ps_CurrentTerm (rn_persistent rn)"
abbreviation "VotedFor rn \<equiv> ps_VotedFor (rn_persistent rn)"
abbreviation "Log rn \<equiv> ps_Log (rn_persistent rn)"
abbreviation "commitIndex rn \<equiv> vs_CommitIndex (rn_volatile rn)"
abbreviation "lastApplied rn \<equiv> vs_LastApplied (rn_volatile rn)"
abbreviation "node_id rn \<equiv> NodeID (rn_config rn)"

abbreviation set_commitIndex :: "u64 \<Rightarrow> 's raft_node \<Rightarrow> 's raft_node" where
  "set_commitIndex i rn \<equiv> rn\<lparr>rn_volatile := (rn_volatile rn)\<lparr>vs_CommitIndex := i\<rparr>\<rparr>"

abbreviation set_Log :: "log_entry list \<Rightarrow> 's raft_node \<Rightarrow> 's raft_node" where
  "set_Log l rn \<equiv> rn\<lparr>rn_persistent := (rn_persistent rn)\<lparr>ps_Log := l\<rparr>\<rparr>"

text \<open>What a node is built on: its storage backend and the gob codec.\<close>

record 's deps =
  d_backend :: "'s storage_backend"
  d_gob :: gob

section \<open>Construction\<close>

definition peer_map :: "peer_config list \<Rightarrow> (string \<times> peer_config) list" where
  "peer_map ps = foldl (\<lambda>m p. AList.update (pc_ID p) p m) [] ps"

definition NewRaftNode :: "'s deps \<Rightarrow> config \<Rightarrow> 's \<Rightarrow> kv_store \<Rightarrow> go_error + 's raft_node" where
  "NewRaftNode D cfg s kv =
     (case LoadTerm (d_backend D) s of Inl e \<Rightarrow> Inl e | Inr t \<Rightarrow>
      case LoadVotedFor (d_backend D) s of Inl e \<Rightarrow> Inl e | Inr v \<Rightarrow>
      case LoadAllEntries (d_backend D) s of Inl e \<Rightarrow> Inl e | Inr es \<Rightarrow>
      Inr \<lparr>rn_config = cfg, rn_role = Follower, rn_peers = peer_map (Peers cfg),
        rn_persistent = \<lparr>ps_CurrentTerm = t, ps_VotedFor = v, ps_Log = es\<rparr>,
        rn_volatile = \<lparr>vs_CommitIndex = 0, vs_LastApplied = 0\<rparr>,
        rn_leader = None, rn_leaderID = '''', rn_lastLeaderContact = zero_time,
        rn_kvStore = kv, rn_storage = s, rn_metrics = None, rn_stopped = False,
        rn_electionTimer = None, rn_heartbeatTimer = None, rn_electionDeadline = zero_time,
        rn_pendingCommits = [], rn_chans = [], rn_nextChan = 0,
        rn_preVotes = [], rn_campaigns = [], rn_nextClosure = 0\<rparr>)"

section \<open>Timers\<close>

definition randomizedElectionTimeout :: "env \<Rightarrow> config \<Rightarrow> int" where
  "randomizedElectionTimeout e cfg =
     (let diff = ElectionTimeoutMax cfg - ElectionTimeoutMin cfg in
      if diff \<le> 0 then ElectionTimeoutMin cfg
      else ElectionTimeoutMin cfg + Int63n e diff)"

definition Start :: "env \<Rightarrow> 's raft_node \<Rightarrow> 's raft_node" where
  "Start e rn =
     (let timeout = randomizedElectionTimeout e (rn_config rn) in
      rn\<lparr>rn_electionDeadline := now_deadline e + timeout,
         rn_electionTimer := Some (NewTimer (now_armed e) timeout),
         rn_heartbeatTimer := Some (NewTimer (now_armed e) (HeartbeatInterval (rn_config rn)))\<rparr>)"

definition Stop :: "'s raft_node \<Rightarrow> 's raft_node" where
  "Stop rn =
     (if rn_stopped rn then rn
      else rn\<lparr>rn_stopped := True,
              rn_electionTimer := map_option (snd \<circ> timer_Stop) (rn_electionTimer rn),
              rn_heartbeatTimer := map_option (snd \<circ> timer_Stop) (rn_heartbeatTimer rn)\<rparr>)"

text \<open>Stop the timer, drain its channel if it had fired, and arm it again.\<close>

definition rearm :: "int \<Rightarrow> int \<Rightarrow> timer \<Rightarrow> timer" where
  "rearm at d tm =
     (case timer_Stop tm of (running, tm') \<Rightarrow>
        timer_Reset at d (if running then tm' else timer_Drain tm'))"

definition resetElectionTimer :: "env \<Rightarrow> 's raft_node \<Rightarrow> 's raft_node" where
  "resetElectionTimer e rn =
     (case rn_electionTimer rn of None \<Rightarrow> rn
      | Some tm \<Rightarrow>
          let timeout = randomizedElectionTimeout e (rn_config rn) in
          rn\<lparr>rn_electionDeadline := now_deadline e + timeout,
             rn_electionTimer := Some (rearm (now_armed e) timeout tm)\<rparr>)"

definition resetHeartbeatTimer :: "env \<Rightarrow> 's raft_node \<Rightarrow> 's raft_node" where
  "resetHeartbeatTimer e rn =
     (case rn_heartbeatTimer rn of None \<Rightarrow> rn
      | Some tm \<Rightarrow>
          rn\<lparr>rn_heartbeatTimer := Some (rearm (now_armed e) (HeartbeatInterval (rn_config rn)) tm)\<rparr>)"

section \<open>Accessors\<close>

definition Role :: "'s raft_node \<Rightarrow> node_role" where
  "Role rn = rn_role rn"

definition Term :: "'s raft_node \<Rightarrow> u64" where
  "Term rn = CurrentTerm rn"

definition LeaderID :: "'s raft_node \<Rightarrow> string" where
  "LeaderID rn = (if rn_role rn = Leader then node_id rn else rn_leaderID rn)"

definition ID :: "'s raft_node \<Rightarrow> string" where
  "ID rn = node_id rn"

definition Get :: "'s raft_node \<Rightarrow> string \<Rightarrow> string \<times> bool" where
  "Get rn k = kv_Get (rn_kvStore rn) k"

definition KVStoreSize :: "'s raft_node \<Rightarrow> nat" where
  "KVStoreSize rn = kv_Size (rn_kvStore rn)"

definition IsLeader :: "'s raft_node \<Rightarrow> bool" where
  "IsLeader rn \<longleftrightarrow> rn_role rn = Leader"

definition CommitIndex :: "'s raft_node \<Rightarrow> u64" where
  "CommitIndex rn = commitIndex rn"

definition LastApplied :: "'s raft_node \<Rightarrow> u64" where
  "LastApplied rn = lastApplied rn"

definition SetMetrics :: "'s deps \<Rightarrow> metrics option \<Rightarrow> 's raft_node \<Rightarrow> 's raft_node" where
  "SetMetrics D m rn =
     rn\<lparr>rn_metrics :=
        (case m of None \<Rightarrow> None | Some _ \<Rightarrow>
           SetLogEntriesTotal (sint (fst (LastIndex (d_backend D) (rn_storage rn))))
             (SetLastApplied (lastApplied rn) (SetCommitIndex (commitIndex rn)
                (SetNodeRole (role_int (rn_role rn)) (SetCurrentTerm (CurrentTerm rn) m)))))\<rparr>"

section \<open>Lemmas\<close>

lemma randomizedElectionTimeout_bounds:
  assumes "env_ok e" and "ElectionTimeoutMin cfg < ElectionTimeoutMax cfg"
  shows "ElectionTimeoutMin cfg \<le> randomizedElectionTimeout e cfg \<and>
    randomizedElectionTimeout e cfg < ElectionTimeoutMax cfg"
proof -
  have d: "0 < ElectionTimeoutMax cfg - ElectionTimeoutMin cfg" using assms(2) by simp
  with assms(1) have "0 \<le> Int63n e (ElectionTimeoutMax cfg - ElectionTimeoutMin cfg)"
      "Int63n e (ElectionTimeoutMax cfg - ElectionTimeoutMin cfg) < ElectionTimeoutMax cfg - ElectionTimeoutMin cfg"
    by (auto simp: env_ok_def)
  with d show ?thesis by (simp add: randomizedElectionTimeout_def Let_def)
qed

text \<open>Resetting the timers touches nothing but the timers.\<close>

lemma resetElectionTimer_frame [frame]:
  "rn_config (resetElectionTimer e rn) = rn_config rn"
  "rn_role (resetElectionTimer e rn) = rn_role rn"
  "rn_peers (resetElectionTimer e rn) = rn_peers rn"
  "rn_persistent (resetElectionTimer e rn) = rn_persistent rn"
  "rn_volatile (resetElectionTimer e rn) = rn_volatile rn"
  "rn_leader (resetElectionTimer e rn) = rn_leader rn"
  "rn_leaderID (resetElectionTimer e rn) = rn_leaderID rn"
  "rn_lastLeaderContact (resetElectionTimer e rn) = rn_lastLeaderContact rn"
  "rn_kvStore (resetElectionTimer e rn) = rn_kvStore rn"
  "rn_storage (resetElectionTimer e rn) = rn_storage rn"
  "rn_metrics (resetElectionTimer e rn) = rn_metrics rn"
  "rn_pendingCommits (resetElectionTimer e rn) = rn_pendingCommits rn"
  "rn_chans (resetElectionTimer e rn) = rn_chans rn"
  "rn_nextChan (resetElectionTimer e rn) = rn_nextChan rn"
  "rn_preVotes (resetElectionTimer e rn) = rn_preVotes rn"
  "rn_campaigns (resetElectionTimer e rn) = rn_campaigns rn"
  "rn_nextClosure (resetElectionTimer e rn) = rn_nextClosure rn"
  by (simp_all add: resetElectionTimer_def Let_def split: option.split)

lemma resetHeartbeatTimer_frame [frame]:
  "rn_config (resetHeartbeatTimer e rn) = rn_config rn"
  "rn_role (resetHeartbeatTimer e rn) = rn_role rn"
  "rn_peers (resetHeartbeatTimer e rn) = rn_peers rn"
  "rn_persistent (resetHeartbeatTimer e rn) = rn_persistent rn"
  "rn_volatile (resetHeartbeatTimer e rn) = rn_volatile rn"
  "rn_leader (resetHeartbeatTimer e rn) = rn_leader rn"
  "rn_leaderID (resetHeartbeatTimer e rn) = rn_leaderID rn"
  "rn_lastLeaderContact (resetHeartbeatTimer e rn) = rn_lastLeaderContact rn"
  "rn_kvStore (resetHeartbeatTimer e rn) = rn_kvStore rn"
  "rn_storage (resetHeartbeatTimer e rn) = rn_storage rn"
  "rn_metrics (resetHeartbeatTimer e rn) = rn_metrics rn"
  "rn_pendingCommits (resetHeartbeatTimer e rn) = rn_pendingCommits rn"
  "rn_chans (resetHeartbeatTimer e rn) = rn_chans rn"
  "rn_nextChan (resetHeartbeatTimer e rn) = rn_nextChan rn"
  "rn_preVotes (resetHeartbeatTimer e rn) = rn_preVotes rn"
  "rn_campaigns (resetHeartbeatTimer e rn) = rn_campaigns rn"
  "rn_nextClosure (resetHeartbeatTimer e rn) = rn_nextClosure rn"
  by (simp_all add: resetHeartbeatTimer_def Let_def split: option.split)

lemma peer_map_distinct: "distinct (keys (peer_map ps))"
proof -
  have "distinct (keys m) \<Longrightarrow> distinct (keys (foldl (\<lambda>m p. AList.update (pc_ID p) p m) m ps))" for m
    by (induction ps arbitrary: m) (simp_all add: distinct_update)
  then show ?thesis by (simp add: peer_map_def)
qed

lemma peer_map_keys: "fst ` set (peer_map ps) = pc_ID ` set ps"
proof -
  have "fst ` set (foldl (\<lambda>m p. AList.update (pc_ID p) p m) m ps) = fst ` set m \<union> pc_ID ` set ps" for m
    by (induction ps arbitrary: m) auto
  then show ?thesis by (simp add: peer_map_def)
qed

end
