(* ===== verification/Term_Check.thy ===== *)
theory Term_Check
  imports Raft_Node
begin

text \<open>
  Stepping down on a higher term, \<open>checkTerm\<close> of \<open>internal/raft/election.go\<close>, and the
  errors of \<open>internal/raft/replication.go\<close>.
\<close>

definition ErrNotLeader :: go_error where
  "ErrNotLeader = Err ''node is not a leader''"

definition ErrCommitTimeout :: go_error where
  "ErrCommitTimeout = Err ''commit timeout: cluster failed to reach majority consensus''"

text \<open>Every in-flight proposal is told that leadership was lost.\<close>

definition abort_pending :: "'s raft_node \<Rightarrow> 's raft_node" where
  "abort_pending rn =
     rn\<lparr>rn_chans := rn_chans rn @ map (\<lambda>(i, ch). (ch, Some ErrNotLeader)) (rn_pendingCommits rn),
        rn_pendingCommits := []\<rparr>"

definition checkTerm :: "'s deps \<Rightarrow> u64 \<Rightarrow> 's raft_node \<Rightarrow> bool \<times> 's raft_node" where
  "checkTerm D t rn =
     (if CurrentTerm rn < t then
        let rn = rn\<lparr>rn_persistent := (rn_persistent rn)\<lparr>ps_CurrentTerm := t, ps_VotedFor := ''''\<rparr>,
                    rn_role := Follower, rn_leader := None,
                    rn_metrics := SetCurrentTerm t (SetNodeRole 0 (rn_metrics rn))\<rparr>;
            rn = abort_pending rn;
            st = snd (SaveTerm (d_backend D) t (rn_storage rn));
            st = snd (SaveVotedFor (d_backend D) '''' st)
        in (True, rn\<lparr>rn_storage := st\<rparr>)
      else (False, rn))"

lemma checkTerm_True_iff: "fst (checkTerm D t rn) \<longleftrightarrow> CurrentTerm rn < t"
  by (simp add: checkTerm_def Let_def)

lemma checkTerm_id: "\<not> CurrentTerm rn < t \<Longrightarrow> snd (checkTerm D t rn) = rn"
  by (simp add: checkTerm_def)

lemma checkTerm_frame [frame]:
  "rn_config (snd (checkTerm D t rn)) = rn_config rn"
  "rn_peers (snd (checkTerm D t rn)) = rn_peers rn"
  "rn_volatile (snd (checkTerm D t rn)) = rn_volatile rn"
  "rn_kvStore (snd (checkTerm D t rn)) = rn_kvStore rn"
  "rn_leaderID (snd (checkTerm D t rn)) = rn_leaderID rn"
  "rn_lastLeaderContact (snd (checkTerm D t rn)) = rn_lastLeaderContact rn"
  "rn_nextChan (snd (checkTerm D t rn)) = rn_nextChan rn"
  "rn_preVotes (snd (checkTerm D t rn)) = rn_preVotes rn"
  "rn_campaigns (snd (checkTerm D t rn)) = rn_campaigns rn"
  "rn_nextClosure (snd (checkTerm D t rn)) = rn_nextClosure rn"
  "Log (snd (checkTerm D t rn)) = Log rn"
  by (simp_all add: checkTerm_def abort_pending_def Let_def)

lemma checkTerm_effects [effects]:
  "CurrentTerm (snd (checkTerm D t rn)) = (if CurrentTerm rn < t then t else CurrentTerm rn)"
  "VotedFor (snd (checkTerm D t rn)) = (if CurrentTerm rn < t then '''' else VotedFor rn)"
  "rn_role (snd (checkTerm D t rn)) = (if CurrentTerm rn < t then Follower else rn_role rn)"
  "rn_leader (snd (checkTerm D t rn)) = (if CurrentTerm rn < t then None else rn_leader rn)"
  "rn_pendingCommits (snd (checkTerm D t rn)) = (if CurrentTerm rn < t then [] else rn_pendingCommits rn)"
  by (simp_all add: checkTerm_def abort_pending_def Let_def)

end
