(* ===== verification/Replication.thy ===== *)
theory Replication
  imports Term_Check
begin

text \<open>
  Log replication, \<open>internal/raft/replication.go\<close>: proposals, the AppendEntries a leader
  sends and the answers it gets, the commit rule, and the application of committed entries.
  A goroutine that makes an RPC is a call: the peer and what the goroutine carries in its
  closure.  The handlers return the calls they start; the cluster delivers them.
\<close>

section \<open>RPC goroutines\<close>

datatype rpc_call =
    PreVoteCall nat request_vote_request
  | VoteCall nat request_vote_request
  | AppendCall append_entries_request nat

type_synonym calls = "(string \<times> rpc_call) list"

section \<open>Applying committed entries\<close>

text \<open>One iteration of the loop of \<open>applyCommittedEntriesLocked\<close>.\<close>

definition apply_one :: "'s deps \<Rightarrow> 's raft_node \<Rightarrow> 's raft_node" where
  "apply_one D rn0 =
     (let i = lastApplied rn0 + 1;
          rn = rn0\<lparr>rn_volatile := (rn_volatile rn0)\<lparr>vs_LastApplied := i\<rparr>\<rparr>
      in case GetEntry (d_backend D) i (rn_storage rn) of
           Inl _ \<Rightarrow> rn
         | Inr entry \<Rightarrow>
             if length (le_command entry) = 0 then rn
             else case DecodeCommand (d_gob D) (le_command entry) of
                Inl _ \<Rightarrow> rn
              | Inr cmd \<Rightarrow>
                  let rn = rn\<lparr>rn_kvStore := kv_Apply cmd (rn_kvStore rn),
                              rn_metrics := SetLastApplied i (rn_metrics rn)\<rparr>
                  in case map_of (rn_pendingCommits rn) i of
                       None \<Rightarrow> rn
                     | Some ch \<Rightarrow>
                         rn\<lparr>rn_chans := rn_chans rn @ [(ch, None)],
                            rn_pendingCommits := AList.delete i (rn_pendingCommits rn)\<rparr>)"

lemma apply_one_volatile [effects]:
  "rn_volatile (apply_one D rn) = (rn_volatile rn)\<lparr>vs_LastApplied := lastApplied rn + 1\<rparr>"
  by (auto simp: apply_one_def Let_def split: sum.split option.split)

function applyCommittedEntriesLocked :: "'s deps \<Rightarrow> 's raft_node \<Rightarrow> 's raft_node" where
  "applyCommittedEntriesLocked D rn =
     (if lastApplied rn < commitIndex rn
      then applyCommittedEntriesLocked D (apply_one D rn) else rn)"
  by pat_completeness auto
termination
proof (relation "measure (\<lambda>(D, rn). unat (commitIndex rn) - unat (lastApplied rn))", goal_cases)
  case (2 D rn)
  then have "unat (lastApplied rn) < unat (commitIndex rn)" by (simp add: unat_less_u64)
  moreover have "unat (commitIndex rn) < 2 ^ 64" by (rule unat_word_bound)
  ultimately show ?case by (simp add: apply_one_volatile)
qed simp

declare applyCommittedEntriesLocked.simps [simp del]

section \<open>The commit rule\<close>

text \<open>The body of the loop of \<open>checkAndUpdateCommitIndexLocked\<close> at index \<open>n\<close>.\<close>

definition commit_at :: "'s deps \<Rightarrow> leader_state \<Rightarrow> nat \<Rightarrow> 's raft_node \<Rightarrow> u64 \<Rightarrow> 's raft_node" where
  "commit_at D ls maj rn n =
     (case GetEntry (d_backend D) n (rn_storage rn) of
        Inl _ \<Rightarrow> rn
      | Inr entry \<Rightarrow>
          if le_term entry \<noteq> CurrentTerm rn then rn
          else if maj \<le> 1 + length (filter (\<lambda>(p, m). n \<le> m) (ls_MatchIndex ls))
          then (set_commitIndex n rn)\<lparr>rn_metrics := SetCommitIndex n (rn_metrics rn)\<rparr>
          else rn)"

text \<open>The loop variable runs from \<open>commitIndex + 1\<close> to the last index.\<close>

definition index_range :: "u64 \<Rightarrow> u64 \<Rightarrow> u64 list" where
  "index_range a b = map of_nat [unat a ..< Suc (unat b)]"

definition checkAndUpdateCommitIndexLocked :: "'s deps \<Rightarrow> 's raft_node \<Rightarrow> 's raft_node" where
  "checkAndUpdateCommitIndexLocked D rn =
     (if rn_role rn \<noteq> Leader then rn
      else case rn_leader rn of
        None \<Rightarrow> rn
      | Some ls \<Rightarrow>
          let lastLogIndex = fst (LastIndex (d_backend D) (rn_storage rn));
              totalNodes = length (rn_peers rn) + 1;
              majority = totalNodes div 2 + 1;
              rn = foldl (commit_at D ls majority) rn (index_range (commitIndex rn + 1) lastLogIndex)
          in applyCommittedEntriesLocked D rn)"

section \<open>Sending AppendEntries\<close>

definition maxEntriesPerAppend :: nat where
  "maxEntriesPerAppend = 256"

definition sendAppendEntriesToPeerLocked ::
    "'s deps \<Rightarrow> string \<Rightarrow> 's raft_node \<Rightarrow> 's raft_node \<times> calls" where
  "sendAppendEntriesToPeerLocked D peer rn =
     (if rn_role rn \<noteq> Leader then (rn, [])
      else case rn_leader rn of
        None \<Rightarrow> (rn, [])
      | Some ls \<Rightarrow>
          let next0 = map_get 0 (ls_NextIndex ls) peer;
              nextIdx = (if next0 = 0 then 1 else next0);
              ls = (if next0 = 0 then ls\<lparr>ls_NextIndex := AList.update peer 1 (ls_NextIndex ls)\<rparr> else ls);
              prevLogIndex = nextIdx - 1;
              prevLogTerm = (case GetEntry (d_backend D) prevLogIndex (rn_storage rn) of
                               Inl _ \<Rightarrow> 0 | Inr prev \<Rightarrow> le_term prev);
              entries = take maxEntriesPerAppend (fst (GetEntriesFrom (d_backend D) nextIdx (rn_storage rn)));
              req = \<lparr>ae_term = CurrentTerm rn, ae_leader_id = node_id rn,
                     ae_prev_log_index = prevLogIndex, ae_prev_log_term = prevLogTerm,
                     ae_entries = entries, ae_leader_commit = commitIndex rn\<rparr>
          in (rn\<lparr>rn_leader := Some ls, rn_metrics := IncAppendEntriesTotal (rn_metrics rn)\<rparr>,
              [(peer, AppendCall req (length entries))]))"

fun send_to_all :: "'s deps \<Rightarrow> string list \<Rightarrow> 's raft_node \<Rightarrow> 's raft_node \<times> calls" where
  "send_to_all D [] rn = (rn, [])"
| "send_to_all D (p # ps) rn =
     (case sendAppendEntriesToPeerLocked D p rn of (rn, c) \<Rightarrow>
      case send_to_all D ps rn of (rn, cs) \<Rightarrow> (rn, c @ cs))"

definition broadcastAppendEntriesLocked :: "'s deps \<Rightarrow> 's raft_node \<Rightarrow> 's raft_node \<times> calls" where
  "broadcastAppendEntriesLocked D rn =
     (if rn_role rn \<noteq> Leader then (rn, []) else send_to_all D (keys (rn_peers rn)) rn)"

section \<open>The answer to an AppendEntries\<close>

text \<open>
  The rest of the goroutine, once the RPC has returned a response.  \<^const>\<open>None\<close> is the panic on
  the nil leader state.
\<close>

definition on_append_response ::
    "'s deps \<Rightarrow> env \<Rightarrow> string \<Rightarrow> append_entries_request \<Rightarrow> nat \<Rightarrow> append_entries_response \<Rightarrow>
     's raft_node \<Rightarrow> ('s raft_node \<times> calls) option" where
  "on_append_response D e peer r numEntries resp rn =
     (case checkTerm D (aer_term resp) rn of
        (True, rn) \<Rightarrow> Some (resetElectionTimer e rn, [])
      | (False, rn) \<Rightarrow>
          if rn_role rn \<noteq> Leader \<or> CurrentTerm rn \<noteq> ae_term r then Some (rn, [])
          else case rn_leader rn of
            None \<Rightarrow> None
          | Some ls \<Rightarrow>
              if aer_success resp then
                let newNext = ae_prev_log_index r + of_nat numEntries + 1;
                    newMatch = newNext - 1;
                    ls = (if map_get 0 (ls_NextIndex ls) peer < newNext
                          then ls\<lparr>ls_NextIndex := AList.update peer newNext (ls_NextIndex ls)\<rparr> else ls);
                    ls = (if map_get 0 (ls_MatchIndex ls) peer < newMatch
                          then ls\<lparr>ls_MatchIndex := AList.update peer newMatch (ls_MatchIndex ls)\<rparr> else ls)
                in Some (checkAndUpdateCommitIndexLocked D (rn\<lparr>rn_leader := Some ls\<rparr>), [])
              else if 1 < map_get 0 (ls_NextIndex ls) peer then
                let ls = ls\<lparr>ls_NextIndex :=
                           AList.update peer (map_get 0 (ls_NextIndex ls) peer - 1) (ls_NextIndex ls)\<rparr>
                in Some (sendAppendEntriesToPeerLocked D peer (rn\<lparr>rn_leader := Some ls\<rparr>))
              else Some (rn, []))"

section \<open>Proposals\<close>

text \<open>
  \<open>ProposeCommand\<close> up to the point where it releases the mutex: it returns an error, the
  committed index (single node), or the index and the channel it then waits on.
\<close>

datatype propose_result =
    ProposeError go_error
  | ProposeDone u64
  | ProposeWait u64 nat

definition ProposeCommand :: "'s deps \<Rightarrow> bytes \<Rightarrow> 's raft_node \<Rightarrow> propose_result \<times> 's raft_node \<times> calls" where
  "ProposeCommand D cmd rn =
     (if rn_role rn \<noteq> Leader then (ProposeError ErrNotLeader, rn, [])
      else
        let newIndex = fst (LastIndex (d_backend D) (rn_storage rn)) + 1;
            entry = \<lparr>le_index = newIndex, le_term = CurrentTerm rn, le_command = cmd\<rparr>
        in case AppendEntries (d_backend D) [entry] (rn_storage rn) of
             (Some err, st) \<Rightarrow> (ProposeError err, rn\<lparr>rn_storage := st\<rparr>, [])
           | (None, st) \<Rightarrow>
               let rn = (set_Log (Log rn @ [entry]) rn)\<lparr>rn_storage := st\<rparr>
               in if length (rn_peers rn) = 0 then
                    (ProposeDone newIndex, applyCommittedEntriesLocked D (set_commitIndex newIndex rn), [])
                  else
                    let ch = rn_nextChan rn;
                        rn = rn\<lparr>rn_nextChan := Suc ch,
                                rn_pendingCommits := AList.update newIndex ch (rn_pendingCommits rn)\<rparr>
                    in case broadcastAppendEntriesLocked D rn of
                         (rn, cs) \<Rightarrow> (ProposeWait newIndex ch, rn, cs))"

text \<open>
  The three ways out of its \<open>select\<close>: a message in the channel, five seconds on the clock, or
  a closed stop channel.
\<close>

definition propose_receive ::
    "u64 \<Rightarrow> nat \<Rightarrow> int \<Rightarrow> 's raft_node \<Rightarrow> ((u64 \<times> go_error option) \<times> 's raft_node) option" where
  "propose_receive newIndex ch elapsed rn =
     (case map_of (rn_chans rn) ch of
        None \<Rightarrow> None
      | Some err \<Rightarrow>
          let rn = rn\<lparr>rn_chans := filter (\<lambda>m. fst m \<noteq> ch) (rn_chans rn)\<rparr>
          in Some ((newIndex, err),
               if err = None
               then rn\<lparr>rn_metrics := ObserveReplicationLatency elapsed
                         (SetLogEntriesTotal (sint newIndex) (rn_metrics rn))\<rparr>
               else rn))"

definition propose_timeout :: "u64 \<Rightarrow> 's raft_node \<Rightarrow> (u64 \<times> go_error option) \<times> 's raft_node" where
  "propose_timeout newIndex rn =
     ((0, Some ErrCommitTimeout), rn\<lparr>rn_pendingCommits := AList.delete newIndex (rn_pendingCommits rn)\<rparr>)"

definition propose_stopped :: "'s raft_node \<Rightarrow> (u64 \<times> go_error option) option" where
  "propose_stopped rn = (if rn_stopped rn then Some (0, Some (Err ''node Stopped'')) else None)"

end
