(* ===== verification/Election.thy ===== *)
theory Election
  imports Replication
begin

text \<open>
  Elections and the RPC handlers of \<open>internal/raft/election.go\<close>, and the event loop of
  \<open>internal/raft/raft.go\<close> that drives them.
\<close>

section \<open>Winning an election\<close>

definition becomeLeader :: "'s deps \<Rightarrow> env \<Rightarrow> 's raft_node \<Rightarrow> 's raft_node \<times> calls" where
  "becomeLeader D e rn =
     (if rn_role rn \<noteq> Candidate then (rn, [])
      else
        let lastLogIndex = fst (LastIndex (d_backend D) (rn_storage rn));
            ls = \<lparr>ls_NextIndex = map (\<lambda>p. (p, lastLogIndex + 1)) (keys (rn_peers rn)),
                  ls_MatchIndex = map (\<lambda>p. (p, 0)) (keys (rn_peers rn))\<rparr>;
            rn = rn\<lparr>rn_role := Leader, rn_metrics := SetNodeRole 2 (rn_metrics rn), rn_leader := Some ls\<rparr>;
            noop = \<lparr>le_index = lastLogIndex + 1, le_term = CurrentTerm rn, le_command = []\<rparr>;
            rn = (case AppendEntries (d_backend D) [noop] (rn_storage rn) of
                    (Some err, st) \<Rightarrow> rn\<lparr>rn_storage := st\<rparr>
                  | (None, st) \<Rightarrow> (set_Log (Log rn @ [noop]) rn)\<lparr>rn_storage := st\<rparr>);
            rn = checkAndUpdateCommitIndexLocked D rn
        in case broadcastAppendEntriesLocked D rn of
             (rn, cs) \<Rightarrow> (resetHeartbeatTimer e rn, cs))"

section \<open>Campaigns\<close>

definition campaignLocked :: "'s deps \<Rightarrow> env \<Rightarrow> 's raft_node \<Rightarrow> 's raft_node \<times> calls" where
  "campaignLocked D e rn =
     (let currentTerm = CurrentTerm rn + 1;
          candidateID = node_id rn;
          rn = rn\<lparr>rn_persistent := (rn_persistent rn)\<lparr>ps_CurrentTerm := currentTerm, ps_VotedFor := candidateID\<rparr>,
                  rn_role := Candidate, rn_leader := None,
                  rn_metrics := IncLeaderElections (SetCurrentTerm currentTerm (SetNodeRole 1 (rn_metrics rn)))\<rparr>;
          st = snd (SaveTerm (d_backend D) currentTerm (rn_storage rn));
          st = snd (SaveVotedFor (d_backend D) candidateID st);
          rn = resetElectionTimer e (rn\<lparr>rn_storage := st\<rparr>);
          req = \<lparr>rv_term = currentTerm, rv_candidate_id = candidateID,
                 rv_last_log_index = fst (LastIndex (d_backend D) (rn_storage rn)),
                 rv_last_log_term = fst (LastTerm (d_backend D) (rn_storage rn)),
                 rv_pre_vote = False\<rparr>;
          votesReceived = 1;
          totalNodes = length (rn_peers rn) + 1;
          majority = totalNodes div 2 + 1
      in if majority \<le> votesReceived then becomeLeader D e rn
         else
           let k = rn_nextClosure rn;
               rn = rn\<lparr>rn_nextClosure := Suc k,
                       rn_campaigns := AList.update k
                         \<lparr>cp_term = currentTerm, cp_votes = votesReceived, cp_majority = majority\<rparr>
                         (rn_campaigns rn),
                       rn_metrics := (IncRequestVoteTotal ^^ length (rn_peers rn)) (rn_metrics rn)\<rparr>
           in (rn, map (\<lambda>p. (p, VoteCall k req)) (keys (rn_peers rn))))"

text \<open>The goroutine of a campaign, once the RPC has returned a response.\<close>

definition on_vote_response ::
    "'s deps \<Rightarrow> env \<Rightarrow> nat \<Rightarrow> request_vote_response \<Rightarrow> 's raft_node \<Rightarrow> ('s raft_node \<times> calls) option" where
  "on_vote_response D e k res rn =
     (case map_of (rn_campaigns rn) k of
        None \<Rightarrow> None
      | Some cp \<Rightarrow>
         (case checkTerm D (rvr_term res) rn of
            (True, rn) \<Rightarrow> Some (resetElectionTimer e rn, [])
          | (False, rn) \<Rightarrow>
              if rn_role rn \<noteq> Candidate \<or> CurrentTerm rn \<noteq> cp_term cp then Some (rn, [])
              else if rvr_vote_granted res then
                let votesReceived = cp_votes cp + 1;
                    rn = rn\<lparr>rn_campaigns := AList.update k (cp\<lparr>cp_votes := votesReceived\<rparr>) (rn_campaigns rn)\<rparr>;
                    hasMajority = (cp_majority cp \<le> votesReceived)
                in if hasMajority \<and> rn_role rn = Candidate then Some (becomeLeader D e rn)
                   else Some (rn, [])
              else Some (rn, [])))"

section \<open>Pre-votes\<close>

text \<open>
  \<open>startElection\<close> resets the election timer once itself and, in a single-node cluster, a
  second time in the campaign: two readings of the clock.
\<close>

definition startElection :: "'s deps \<Rightarrow> env \<Rightarrow> env \<Rightarrow> 's raft_node \<Rightarrow> 's raft_node \<times> calls" where
  "startElection D e e' rn =
     (if now e < rn_electionDeadline rn \<or> rn_role rn = Leader then (rn, [])
      else
        let rn = resetElectionTimer e rn
        in if length (rn_peers rn) = 0 then campaignLocked D e' rn
           else
             let term = CurrentTerm rn;
                 req = \<lparr>rv_term = term + 1, rv_candidate_id = node_id rn,
                        rv_last_log_index = fst (LastIndex (d_backend D) (rn_storage rn)),
                        rv_last_log_term = fst (LastTerm (d_backend D) (rn_storage rn)),
                        rv_pre_vote = True\<rparr>;
                 k = rn_nextClosure rn;
                 rn = rn\<lparr>rn_nextClosure := Suc k,
                         rn_preVotes := AList.update k
                           \<lparr>pv_term = term, pv_votes = 1, pv_majority = (length (rn_peers rn) + 1) div 2 + 1,
                            pv_started = now e', pv_campaigned = False\<rparr> (rn_preVotes rn),
                         rn_metrics := (IncRequestVoteTotal ^^ length (rn_peers rn)) (rn_metrics rn)\<rparr>
             in (rn, map (\<lambda>p. (p, PreVoteCall k req)) (keys (rn_peers rn))))"

definition on_prevote_response ::
    "'s deps \<Rightarrow> env \<Rightarrow> nat \<Rightarrow> request_vote_response \<Rightarrow> 's raft_node \<Rightarrow> ('s raft_node \<times> calls) option" where
  "on_prevote_response D e k res rn =
     (case map_of (rn_preVotes rn) k of
        None \<Rightarrow> None
      | Some pv \<Rightarrow>
         (case checkTerm D (rvr_term res) rn of
            (True, rn) \<Rightarrow> Some (resetElectionTimer e rn, [])
          | (False, rn) \<Rightarrow>
              if pv_campaigned pv \<or> rn_role rn = Leader \<or> CurrentTerm rn \<noteq> pv_term pv
                \<or> pv_started pv < rn_lastLeaderContact rn then Some (rn, [])
              else if rvr_vote_granted res then
                let votes = pv_votes pv + 1;
                    pv = pv\<lparr>pv_votes := votes\<rparr>
                in if pv_majority pv \<le> votes
                   then Some (campaignLocked D e
                     (rn\<lparr>rn_preVotes := AList.update k (pv\<lparr>pv_campaigned := True\<rparr>) (rn_preVotes rn)\<rparr>))
                   else Some (rn\<lparr>rn_preVotes := AList.update k pv (rn_preVotes rn)\<rparr>, [])
              else Some (rn, [])))"

section \<open>Answering vote requests\<close>

definition candidateLogUpToDateLocked :: "'s deps \<Rightarrow> request_vote_request \<Rightarrow> 's raft_node \<Rightarrow> bool" where
  "candidateLogUpToDateLocked D req rn =
     (let lastLogIndex = fst (LastIndex (d_backend D) (rn_storage rn));
          lastLogTerm = fst (LastTerm (d_backend D) (rn_storage rn))
      in if rv_last_log_term req \<noteq> lastLogTerm then lastLogTerm < rv_last_log_term req
         else lastLogIndex \<le> rv_last_log_index req)"

definition handlePreVoteLocked ::
    "'s deps \<Rightarrow> env \<Rightarrow> request_vote_request \<Rightarrow> 's raft_node \<Rightarrow> request_vote_response" where
  "handlePreVoteLocked D e req rn =
     (let leaderIsAlive = (rn_role rn = Leader \<or>
            time_sub (now e) (rn_lastLeaderContact rn) < ElectionTimeoutMin (rn_config rn));
          grant = (CurrentTerm rn < rv_term req \<and> \<not> leaderIsAlive \<and> candidateLogUpToDateLocked D req rn)
      in \<lparr>rvr_term = CurrentTerm rn, rvr_vote_granted = grant\<rparr>)"

definition HandleRequestVote ::
    "'s deps \<Rightarrow> env \<Rightarrow> request_vote_request \<Rightarrow> 's raft_node \<Rightarrow> request_vote_response \<times> 's raft_node" where
  "HandleRequestVote D e req rn =
     (if rv_pre_vote req then (handlePreVoteLocked D e req rn, rn)
      else if rv_term req < CurrentTerm rn
      then (\<lparr>rvr_term = CurrentTerm rn, rvr_vote_granted = False\<rparr>, rn)
      else
        let rn = (if CurrentTerm rn < rv_term req then snd (checkTerm D (rv_term req) rn) else rn);
            canVote = (VotedFor rn = '''' \<or> VotedFor rn = rv_candidate_id req);
            logsUpToDate = candidateLogUpToDateLocked D req rn
        in if canVote \<and> logsUpToDate then
             let rn = rn\<lparr>rn_persistent := (rn_persistent rn)\<lparr>ps_VotedFor := rv_candidate_id req\<rparr>,
                         rn_storage := snd (SaveVotedFor (d_backend D) (rv_candidate_id req) (rn_storage rn))\<rparr>;
                 rn = resetElectionTimer e rn
             in (\<lparr>rvr_term = CurrentTerm rn, rvr_vote_granted = True\<rparr>, rn)
           else (\<lparr>rvr_term = CurrentTerm rn, rvr_vote_granted = False\<rparr>, rn))"

section \<open>Answering AppendEntries\<close>

text \<open>
  The loop over the new entries, from position \<open>i\<close> of the request on; it reports whether every
  storage operation succeeded.
\<close>

fun append_loop ::
    "'s deps \<Rightarrow> append_entries_request \<Rightarrow> nat \<Rightarrow> log_entry list \<Rightarrow> 's raft_node \<Rightarrow> bool \<times> 's raft_node" where
  "append_loop D req i [] rn = (True, rn)"
| "append_loop D req i (newEntry # rest) rn =
     (let existingIndex = ae_prev_log_index req + 1 + of_nat i;
          toAppend = newEntry # rest
      in case GetEntry (d_backend D) existingIndex (rn_storage rn) of
           Inl _ \<Rightarrow>
             (case AppendEntries (d_backend D) toAppend (rn_storage rn) of
                (Some err, st) \<Rightarrow> (False, rn\<lparr>rn_storage := st\<rparr>)
              | (None, st) \<Rightarrow> (True, (set_Log (Log rn @ toAppend) rn)\<lparr>rn_storage := st\<rparr>))
         | Inr existing \<Rightarrow>
             if le_term existing \<noteq> le_term newEntry then
               (case TruncateFrom (d_backend D) existingIndex (rn_storage rn) of
                  (Some err, st) \<Rightarrow> (False, rn\<lparr>rn_storage := st\<rparr>)
                | (None, st) \<Rightarrow>
                    let log = (if existingIndex < of_nat (length (Log rn))
                               then take (unat existingIndex) (Log rn) else Log rn);
                        rn = (set_Log log rn)\<lparr>rn_storage := st\<rparr>
                    in case AppendEntries (d_backend D) toAppend (rn_storage rn) of
                         (Some err, st) \<Rightarrow> (False, rn\<lparr>rn_storage := st\<rparr>)
                       | (None, st) \<Rightarrow> (True, (set_Log (Log rn @ toAppend) rn)\<lparr>rn_storage := st\<rparr>))
             else append_loop D req (Suc i) rest rn)"

text \<open>The consistency check at \<open>PrevLogIndex\<close>.\<close>

definition prev_matches :: "'s deps \<Rightarrow> append_entries_request \<Rightarrow> 's raft_node \<Rightarrow> bool" where
  "prev_matches D req rn =
     (if 0 < ae_prev_log_index req then
        (case GetEntry (d_backend D) (ae_prev_log_index req) (rn_storage rn) of
           Inl _ \<Rightarrow> False
         | Inr entry \<Rightarrow> le_term entry = ae_prev_log_term req)
      else True)"

text \<open>Step 5 and 6 of the handler.\<close>

definition follower_commit :: "'s deps \<Rightarrow> append_entries_request \<Rightarrow> 's raft_node \<Rightarrow> 's raft_node" where
  "follower_commit D req rn =
     (if commitIndex rn < ae_leader_commit req then
        let lastNewIndex = ae_prev_log_index req + of_nat (length (ae_entries req));
            newCommitIndex = (if lastNewIndex < ae_leader_commit req then lastNewIndex
                              else ae_leader_commit req)
        in if commitIndex rn < newCommitIndex
           then applyCommittedEntriesLocked D (set_commitIndex newCommitIndex rn)
           else rn
      else rn)"

definition HandleAppendEntries ::
    "'s deps \<Rightarrow> env \<Rightarrow> append_entries_request \<Rightarrow> 's raft_node \<Rightarrow> append_entries_response \<times> 's raft_node" where
  "HandleAppendEntries D e req rn =
     (if ae_term req < CurrentTerm rn
      then (\<lparr>aer_term = CurrentTerm rn, aer_success = False\<rparr>, rn)
      else
        let rn = (if CurrentTerm rn < ae_term req then snd (checkTerm D (ae_term req) rn) else rn);
            rn = (if rn_role rn = Candidate \<and> ae_term req = CurrentTerm rn
                  then rn\<lparr>rn_role := Follower\<rparr> else rn);
            rn = rn\<lparr>rn_leaderID := ae_leader_id req, rn_lastLeaderContact := now e\<rparr>;
            rn = resetElectionTimer e rn
        in if \<not> prev_matches D req rn
           then (\<lparr>aer_term = CurrentTerm rn, aer_success = False\<rparr>, rn)
           else case append_loop D req 0 (ae_entries req) rn of
                  (False, rn) \<Rightarrow> (\<lparr>aer_term = CurrentTerm rn, aer_success = False\<rparr>, rn)
                | (True, rn) \<Rightarrow>
                    let rn = follower_commit D req rn
                    in (\<lparr>aer_term = CurrentTerm rn, aer_success = True\<rparr>, rn))"

section \<open>The event loop\<close>

text \<open>
  What \<open>run\<close> does when it takes a fire from one of the two timers: the first argument is the
  role it read, in a critical section of its own.
\<close>

definition on_election_timer :: "'s deps \<Rightarrow> node_role \<Rightarrow> env \<Rightarrow> env \<Rightarrow> 's raft_node \<Rightarrow> 's raft_node \<times> calls" where
  "on_election_timer D r e e' rn =
     (if r \<noteq> Leader then startElection D e e' rn else (resetElectionTimer e rn, []))"

definition sendHeartbeats :: "'s deps \<Rightarrow> 's raft_node \<Rightarrow> 's raft_node \<times> calls" where
  "sendHeartbeats D rn = broadcastAppendEntriesLocked D rn"

definition on_heartbeat_timer :: "'s deps \<Rightarrow> node_role \<Rightarrow> env \<Rightarrow> 's raft_node \<Rightarrow> 's raft_node \<times> calls" where
  "on_heartbeat_timer D r e rn =
     (if r = Leader
      then (case sendHeartbeats D rn of (rn, cs) \<Rightarrow> (resetHeartbeatTimer e rn, cs))
      else (resetHeartbeatTimer e rn, []))"

end
