(* ===== verification/Cluster.thy ===== *)
theory Cluster
  imports Election
begin

text \<open>
  A cluster of nodes over an asynchronous, unreliable network: the nodes, the RPC goroutines in
  flight, the responses handlers have produced, and the proposals clients wait on.  One event is
  one critical section of one node (a handler, a timer, the rest of an RPC goroutine, a
  proposal), a lost RPC, or a crash.  The critical sections that write more than once may also be
  cut off between their writes: a step down or a campaign after it has saved the term, or the term
  and the vote, and a conflict resolution between the truncation and the append.  A request may
  reach its peer any number of times and at any later moment; a goroutine receives at most one
  response.
\<close>

section \<open>States\<close>

datatype reply = VoteReply request_vote_response | AppendReply append_entries_response

text \<open>
  A waiter is a \<open>ProposeCommand\<close> in its \<open>select\<close>: the node, the channel, the index and the
  command.  \<open>c_acked\<close> lists the index and command of every proposal that returned success.
\<close>

record 's cluster =
  c_nodes :: "string \<Rightarrow> 's raft_node"
  c_calls :: "(nat \<times> string \<times> string \<times> rpc_call) list"
  c_waiting :: "nat list"
  c_replies :: "(nat \<times> reply) list"
  c_next :: nat
  c_waiters :: "(string \<times> nat \<times> u64 \<times> bytes) list"
  c_acked :: "(u64 \<times> bytes) list"

abbreviation set_node :: "string \<Rightarrow> 's raft_node \<Rightarrow> 's cluster \<Rightarrow> 's cluster" where
  "set_node n rn c \<equiv> c\<lparr>c_nodes := (c_nodes c)(n := rn)\<rparr>"

text \<open>Starting the goroutines of a handler.\<close>

fun spawn :: "string \<Rightarrow> calls \<Rightarrow> 's cluster \<Rightarrow> 's cluster" where
  "spawn n [] c = c"
| "spawn n ((p, k) # cs) c =
     spawn n cs (c\<lparr>c_calls := (c_next c, n, p, k) # c_calls c,
                   c_waiting := c_next c # c_waiting c, c_next := Suc (c_next c)\<rparr>)"

text \<open>A process start, as \<open>main\<close> does it on an opened store.\<close>

definition boot :: "'s deps \<Rightarrow> config \<Rightarrow> 's \<Rightarrow> metrics option \<Rightarrow> env \<Rightarrow> go_error + 's raft_node" where
  "boot D cfg st m e =
     (case NewRaftNode D cfg st NewKVStore of
        Inl err \<Rightarrow> Inl err
      | Inr rn \<Rightarrow> Inr (Start e (SetMetrics D m rn)))"

text \<open>A crash of a node and its restart on what its disk holds: its goroutines die with it.\<close>

definition reboot :: "'s deps \<Rightarrow> string \<Rightarrow> 's \<Rightarrow> metrics option \<Rightarrow> env \<Rightarrow> 's cluster \<Rightarrow> 's cluster option" where
  "reboot D n st m e c =
     (case boot D (rn_config (c_nodes c n)) st m e of
        Inl err \<Rightarrow> None
      | Inr rn \<Rightarrow>
          Some ((set_node n rn c)\<lparr>
            c_waiting := filter (\<lambda>i. map_option fst (map_of (c_calls c) i) \<noteq> Some n) (c_waiting c),
            c_waiters := filter (\<lambda>w. fst w \<noteq> n) (c_waiters c)\<rparr>))"

text \<open>The store after the truncation of a conflict, before the append that follows it.\<close>

fun truncated_store :: "'s deps \<Rightarrow> append_entries_request \<Rightarrow> nat \<Rightarrow> log_entry list \<Rightarrow> 's \<Rightarrow> 's option" where
  "truncated_store D req i [] st = None"
| "truncated_store D req i (newEntry # rest) st =
     (let existingIndex = ae_prev_log_index req + 1 + of_nat i
      in case GetEntry (d_backend D) existingIndex st of
           Inl _ \<Rightarrow> None
         | Inr existing \<Rightarrow>
             if le_term existing \<noteq> le_term newEntry
             then Some (snd (TruncateFrom (d_backend D) existingIndex st))
             else truncated_store D req (Suc i) rest st)"

text \<open>
  The store in the middle of a critical section that begins with a change of term, by \<open>checkTerm\<close>,
  which clears the vote, or by \<open>campaignLocked\<close>, which votes for the node itself: after \<open>SaveTerm\<close>
  alone, or after \<open>SaveVotedFor\<close> too and before whatever the section writes next (a vote, the
  entries of a leader, the no-op of a single node).
\<close>

definition term_change :: "u64 \<Rightarrow> string option \<Rightarrow> 's raft_node \<Rightarrow> bool" where
  "term_change t v rn \<longleftrightarrow> CurrentTerm rn < t \<and>
     (v = None \<or> v = Some '''' \<or> v = Some (node_id rn) \<and> t = CurrentTerm rn + 1 \<and> rn_role rn \<noteq> Leader)"

definition term_store :: "'s deps \<Rightarrow> u64 \<Rightarrow> string option \<Rightarrow> 's \<Rightarrow> 's" where
  "term_store D t v st =
     (let st = snd (SaveTerm (d_backend D) t st)
      in case v of None \<Rightarrow> st | Some v \<Rightarrow> snd (SaveVotedFor (d_backend D) v st))"

section \<open>Events\<close>

datatype event =
    ElectionTimer string node_role env env
  | HeartbeatTimer string node_role env
  | Deliver nat env
  | Reply nat reply env
  | RpcError nat
  | Propose string bytes
  | ProposeReturn string nat int
  | ProposeTimeout string nat
  | Crash string "metrics option" env
  | CrashInTermChange string u64 "string option" "metrics option" env
  | CrashInTruncate nat "metrics option" env

definition deliver :: "'s deps \<Rightarrow> nat \<Rightarrow> env \<Rightarrow> 's cluster \<Rightarrow> 's cluster option" where
  "deliver D i e c =
     (case map_of (c_calls c) i of
        None \<Rightarrow> None
      | Some (n, p, PreVoteCall k req) \<Rightarrow>
          (case HandleRequestVote D e req (c_nodes c p) of
             (res, rn) \<Rightarrow> Some ((set_node p rn c)\<lparr>c_replies := (i, VoteReply res) # c_replies c\<rparr>))
      | Some (n, p, VoteCall k req) \<Rightarrow>
          (case HandleRequestVote D e req (c_nodes c p) of
             (res, rn) \<Rightarrow> Some ((set_node p rn c)\<lparr>c_replies := (i, VoteReply res) # c_replies c\<rparr>))
      | Some (n, p, AppendCall req k) \<Rightarrow>
          (case HandleAppendEntries D e req (c_nodes c p) of
             (res, rn) \<Rightarrow> Some ((set_node p rn c)\<lparr>c_replies := (i, AppendReply res) # c_replies c\<rparr>)))"

text \<open>The rest of the goroutine of a call, on its response.\<close>

fun continuation ::
    "'s deps \<Rightarrow> env \<Rightarrow> string \<Rightarrow> rpc_call \<Rightarrow> reply \<Rightarrow> 's raft_node \<Rightarrow> ('s raft_node \<times> calls) option" where
  "continuation D e p (PreVoteCall k req) (VoteReply res) rn = on_prevote_response D e k res rn"
| "continuation D e p (VoteCall k req) (VoteReply res) rn = on_vote_response D e k res rn"
| "continuation D e p (AppendCall req k) (AppendReply res) rn = on_append_response D e p req k res rn"
| "continuation D e p _ _ rn = None"

definition receive :: "'s deps \<Rightarrow> nat \<Rightarrow> reply \<Rightarrow> env \<Rightarrow> 's cluster \<Rightarrow> 's cluster option" where
  "receive D i r e c =
     (if i \<in> set (c_waiting c) \<and> (i, r) \<in> set (c_replies c) then
        (case map_of (c_calls c) i of
           None \<Rightarrow> None
         | Some (n, p, call) \<Rightarrow>
             (case continuation D e p call r (c_nodes c n) of
                None \<Rightarrow> None
              | Some (rn, cs) \<Rightarrow>
                  Some (spawn n cs ((set_node n rn c)\<lparr>c_waiting := removeAll i (c_waiting c)\<rparr>))))
      else None)"

definition propose :: "'s deps \<Rightarrow> string \<Rightarrow> bytes \<Rightarrow> 's cluster \<Rightarrow> 's cluster" where
  "propose D n cmd c =
     (case ProposeCommand D cmd (c_nodes c n) of
        (res, rn, cs) \<Rightarrow>
          let c = set_node n rn c;
              c = (case res of
                     ProposeError err \<Rightarrow> c
                   | ProposeDone i \<Rightarrow> c\<lparr>c_acked := (i, cmd) # c_acked c\<rparr>
                   | ProposeWait i ch \<Rightarrow> c\<lparr>c_waiters := (n, ch, i, cmd) # c_waiters c\<rparr>)
          in spawn n cs c)"

definition find_waiter :: "string \<Rightarrow> nat \<Rightarrow> 's cluster \<Rightarrow> (u64 \<times> bytes) option" where
  "find_waiter n ch c = map_option (\<lambda>w. snd (snd w)) (List.find (\<lambda>w. fst w = n \<and> fst (snd w) = ch) (c_waiters c))"

definition drop_waiter :: "string \<Rightarrow> nat \<Rightarrow> 's cluster \<Rightarrow> 's cluster" where
  "drop_waiter n ch c = c\<lparr>c_waiters := filter (\<lambda>w. \<not> (fst w = n \<and> fst (snd w) = ch)) (c_waiters c)\<rparr>"

fun exec :: "'s deps \<Rightarrow> string set \<Rightarrow> event \<Rightarrow> 's cluster \<Rightarrow> 's cluster option" where
  "exec D N (ElectionTimer n r e e') c =
     (if n \<in> N then case on_election_timer D r e e' (c_nodes c n) of
        (rn, cs) \<Rightarrow> Some (spawn n cs (set_node n rn c)) else None)"
| "exec D N (HeartbeatTimer n r e) c =
     (if n \<in> N then case on_heartbeat_timer D r e (c_nodes c n) of
        (rn, cs) \<Rightarrow> Some (spawn n cs (set_node n rn c)) else None)"
| "exec D N (Deliver i e) c = deliver D i e c"
| "exec D N (Reply i r e) c = receive D i r e c"
| "exec D N (RpcError i) c = Some (c\<lparr>c_waiting := removeAll i (c_waiting c)\<rparr>)"
| "exec D N (Propose n cmd) c = (if n \<in> N then Some (propose D n cmd c) else None)"
| "exec D N (ProposeReturn n ch t) c =
     (case find_waiter n ch c of
        None \<Rightarrow> None
      | Some (i, cmd) \<Rightarrow>
          (case propose_receive i ch t (c_nodes c n) of
             None \<Rightarrow> None
           | Some ((j, err), rn) \<Rightarrow>
               let c = drop_waiter n ch (set_node n rn c) in
               Some (if err = None then c\<lparr>c_acked := (j, cmd) # c_acked c\<rparr> else c)))"
| "exec D N (ProposeTimeout n ch) c =
     (case find_waiter n ch c of
        None \<Rightarrow> None
      | Some (i, cmd) \<Rightarrow>
          Some (drop_waiter n ch (set_node n (snd (propose_timeout i (c_nodes c n))) c)))"
| "exec D N (Crash n m e) c = (if n \<in> N then reboot D n (rn_storage (c_nodes c n)) m e c else None)"
| "exec D N (CrashInTermChange n t v m e) c =
     (if n \<in> N \<and> term_change t v (c_nodes c n) then reboot D n (term_store D t v (rn_storage (c_nodes c n))) m e c else None)"
| "exec D N (CrashInTruncate i m e) c =
     (case map_of (c_calls c) i of
        Some (n, p, AppendCall req k) \<Rightarrow>
          let rn = c_nodes c p;
              rn' = (if CurrentTerm rn < ae_term req then snd (checkTerm D (ae_term req) rn) else rn)
          in if CurrentTerm rn \<le> ae_term req \<and> prev_matches D req rn' then
            (case truncated_store D req 0 (ae_entries req) (rn_storage rn') of
               None \<Rightarrow> None
             | Some st \<Rightarrow> reboot D p st m e c)
          else None
      | _ \<Rightarrow> None)"

fun run :: "'s deps \<Rightarrow> string set \<Rightarrow> event list \<Rightarrow> 's cluster \<Rightarrow> 's cluster option" where
  "run D N [] c = Some c"
| "run D N (ev # evs) c = (case exec D N ev c of None \<Rightarrow> None | Some c \<Rightarrow> run D N evs c)"

section \<open>Reachable clusters\<close>

text \<open>
  A cluster starts with every node booted on a fresh store, configured with all other nodes as
  its peers.  The counters of a reachable cluster have not reached the end of \<open>uint64\<close>, and the
  commands proposed to it fit the store.
\<close>

definition cluster_init :: "'s deps \<Rightarrow> ('s \<Rightarrow> bool) \<Rightarrow> string set \<Rightarrow> 's cluster \<Rightarrow> bool" where
  "cluster_init D fresh N c \<longleftrightarrow>
     (\<forall>n\<in>N. \<exists>cfg st m e. fresh st \<and> NodeID cfg = n \<and> pc_ID ` set (Peers cfg) = N - {n} \<and>
        boot D cfg st m e = Inr (c_nodes c n)) \<and>
     c_calls c = [] \<and> c_waiting c = [] \<and> c_replies c = [] \<and> c_waiters c = [] \<and> c_acked c = []"

definition no_wrap :: "string set \<Rightarrow> 's cluster \<Rightarrow> bool" where
  "no_wrap N c \<longleftrightarrow> (\<forall>n\<in>N. CurrentTerm (c_nodes c n) < - 1 \<and> length (Log (c_nodes c n)) < 2 ^ 64 - 1)"

fun event_ok :: "(bytes \<Rightarrow> bool) \<Rightarrow> event \<Rightarrow> bool" where
  "event_ok fits (Propose n cmd) = fits cmd"
| "event_ok fits _ = True"

inductive cluster_reach ::
    "'s deps \<Rightarrow> ('s \<Rightarrow> bool) \<Rightarrow> (bytes \<Rightarrow> bool) \<Rightarrow> string set \<Rightarrow> 's cluster \<Rightarrow> bool"
  for D fresh fits N where
  init: "cluster_init D fresh N c \<Longrightarrow> no_wrap N c \<Longrightarrow> cluster_reach D fresh fits N c"
| step: "cluster_reach D fresh fits N c \<Longrightarrow> exec D N ev c = Some c' \<Longrightarrow> event_ok fits ev \<Longrightarrow>
     no_wrap N c' \<Longrightarrow> cluster_reach D fresh fits N c'"

end
