(* ===== verification/Node_Sim.thy ===== *)
theory Node_Sim
  imports Raft_Steps Cluster
begin

text \<open>
  The relation between a node of the code and its counterpart in the abstract protocol, and the
  operations of one node as abstract steps: stepping down, answering vote requests and
  AppendEntries, applying and committing.  Everything here holds for any backend that meets the
  storage contract.
\<close>

section \<open>Abstraction of logs and the applied state\<close>

definition abs_entry :: "log_entry \<Rightarrow> nat \<times> log_entry" where
  "abs_entry e = (unat (le_term e), e)"

abbreviation abs_log :: "log_entry list \<Rightarrow> log_entry alog" where
  "abs_log \<equiv> map abs_entry"

lemma fst_abs_entry [simp]: "fst (abs_entry e) = unat (le_term e)"
  by (simp add: abs_entry_def)

lemma inj_abs_entry: "inj abs_entry"
  by (auto simp: inj_def abs_entry_def)

lemma abs_log_eq_iff [simp]: "abs_log xs = abs_log ys \<longleftrightarrow> xs = ys"
  by (simp add: inj_map_eq_map inj_abs_entry)

text \<open>What applying a log to a fresh store leaves, entry by entry as the code applies them.\<close>

definition apply_entry :: "'s deps \<Rightarrow> kv_store \<Rightarrow> log_entry \<Rightarrow> kv_store" where
  "apply_entry D kv e =
     (if length (le_command e) = 0 then kv
      else case DecodeCommand (d_gob D) (le_command e) of Inl _ \<Rightarrow> kv | Inr c \<Rightarrow> kv_Apply c kv)"

definition replay :: "'s deps \<Rightarrow> log_entry list \<Rightarrow> kv_store" where
  "replay D es = foldl (apply_entry D) NewKVStore es"

lemma replay_snoc: "replay D (es @ [e]) = apply_entry D (replay D es) e"
  by (simp add: replay_def)

lemma replay_sentinel [simp]: "replay D [sentinel] = NewKVStore"
  by (simp add: replay_def apply_entry_def)

section \<open>The relation\<close>

text \<open>The in-memory persistent state is what the disk holds.\<close>

definition mirrors :: "('s \<Rightarrow> bool) \<Rightarrow> ('s \<Rightarrow> u64) \<Rightarrow> ('s \<Rightarrow> string) \<Rightarrow> ('s \<Rightarrow> log_entry list) \<Rightarrow> 's raft_node \<Rightarrow> bool" where
  "mirrors ok term_of vote_of log_of rn \<longleftrightarrow> ok (rn_storage rn) \<and>
     CurrentTerm rn = term_of (rn_storage rn) \<and> VotedFor rn = vote_of (rn_storage rn) \<and>
     Log rn = log_of (rn_storage rn)"

lemma mirrors_update [simp]:
  "mirrors ok t v l (rn\<lparr>rn_role := x1\<rparr>) = mirrors ok t v l rn"
  "mirrors ok t v l (rn\<lparr>rn_volatile := x2\<rparr>) = mirrors ok t v l rn"
  "mirrors ok t v l (rn\<lparr>rn_leader := x3\<rparr>) = mirrors ok t v l rn"
  "mirrors ok t v l (rn\<lparr>rn_metrics := x4\<rparr>) = mirrors ok t v l rn"
  "mirrors ok t v l (rn\<lparr>rn_chans := x5\<rparr>) = mirrors ok t v l rn"
  "mirrors ok t v l (rn\<lparr>rn_nextChan := x6\<rparr>) = mirrors ok t v l rn"
  "mirrors ok t v l (rn\<lparr>rn_pendingCommits := x7\<rparr>) = mirrors ok t v l rn"
  by (simp_all add: mirrors_def)

definition configured :: "string set \<Rightarrow> string \<Rightarrow> 's raft_node \<Rightarrow> bool" where
  "configured N n rn \<longleftrightarrow> node_id rn = n \<and> rn_peers rn = peer_map (Peers (rn_config rn)) \<and>
     pc_ID ` set (Peers (rn_config rn)) = N - {n}"

lemma configuredD:
  assumes "configured N n rn"
  shows "node_id rn = n" "distinct (keys (rn_peers rn))" "fst ` set (rn_peers rn) = N - {n}"
  using assms by (simp_all add: configured_def peer_map_distinct peer_map_keys)

lemma configured_card: "configured N n rn \<Longrightarrow> finite N \<Longrightarrow> n \<in> N \<Longrightarrow> length (rn_peers rn) + 1 = card N"
  using configuredD(2,3) [of N n rn] distinct_card [of "keys (rn_peers rn)"] card_Suc_Diff1 [of N n]
  by simp

text \<open>The state machine holds exactly the committed prefix of the log.\<close>

definition applied :: "'s deps \<Rightarrow> 's raft_node \<Rightarrow> bool" where
  "applied D rn \<longleftrightarrow> lastApplied rn = commitIndex rn \<and> unat (commitIndex rn) < length (Log rn) \<and>
     rn_kvStore rn = replay D (take (Suc (unat (commitIndex rn))) (Log rn))"

definition abs_vote :: "string \<Rightarrow> string option" where
  "abs_vote v = (if v = '''' then None else Some v)"

lemma abs_vote_simps [simp]: "abs_vote '''' = None" "v \<noteq> '''' \<Longrightarrow> abs_vote v = Some v"
  by (simp_all add: abs_vote_def)

lemma abs_vote_None [simp]: "abs_vote v = None \<longleftrightarrow> v = ''''"
  by (simp add: abs_vote_def)

lemma abs_vote_Some: "abs_vote v = Some c \<longleftrightarrow> v = c \<and> v \<noteq> ''''"
  by (auto simp: abs_vote_def)

definition abstracts :: "string \<Rightarrow> 's raft_node \<Rightarrow> (string, log_entry) spec \<Rightarrow> bool" where
  "abstracts n rn a \<longleftrightarrow> a_term a n = unat (CurrentTerm rn) \<and> a_vote a n = abs_vote (VotedFor rn) \<and>
     a_log a n = abs_log (Log rn) \<and> a_role a n = rn_role rn \<and> a_commit a n = unat (commitIndex rn)"

text \<open>
  A leader's \<open>nextIndex\<close> stays between 1 and the end of its log, its \<open>matchIndex\<close> counts
  only what the peer has acknowledged in this term, and it acknowledges its own log.
\<close>

definition leading :: "string set \<Rightarrow> string \<Rightarrow> 's raft_node \<Rightarrow> (nat \<times> string \<times> nat) set \<Rightarrow> bool" where
  "leading N n rn acks \<longleftrightarrow> (\<exists>ls. rn_leader rn = Some ls \<and>
     (\<forall>j < length (Log rn). (unat (CurrentTerm rn), n, j) \<in> acks) \<and>
     distinct (keys (ls_MatchIndex ls)) \<and> fst ` set (ls_MatchIndex ls) = N - {n} \<and>
     (\<forall>(p, m) \<in> set (ls_MatchIndex ls). \<forall>j. 0 < j \<and> j \<le> unat m \<longrightarrow>
        (unat (CurrentTerm rn), p, j) \<in> acks) \<and>
     (\<forall>p\<in>N - {n}. 0 < unat (map_get 0 (ls_NextIndex ls) p) \<and>
        unat (map_get 0 (ls_NextIndex ls) p) \<le> length (Log rn)))"

definition node_sim ::
    "('s \<Rightarrow> bool) \<Rightarrow> ('s \<Rightarrow> u64) \<Rightarrow> ('s \<Rightarrow> string) \<Rightarrow> ('s \<Rightarrow> log_entry list) \<Rightarrow> 's deps \<Rightarrow>
     string set \<Rightarrow> string \<Rightarrow> 's raft_node \<Rightarrow> (string, log_entry) spec \<Rightarrow> bool" where
  "node_sim ok term_of vote_of log_of D N n rn a \<longleftrightarrow>
     mirrors ok term_of vote_of log_of rn \<and> configured N n rn \<and> applied D rn \<and> abstracts n rn a \<and>
     (rn_role rn = Leader \<longrightarrow> leading N n rn (a_acks a))"

text \<open>Every leader's log is a well-formed log of the code.\<close>

definition hist_ok :: "(bytes \<Rightarrow> bool) \<Rightarrow> (string, log_entry) spec \<Rightarrow> bool" where
  "hist_ok fits a \<longleftrightarrow> (\<forall>t L. a_llog a t = Some L \<longrightarrow>
     (\<exists>es. L = abs_log es \<and> log_ok es \<and> (\<forall>e\<in>set es. fits (le_command e))))"

text \<open>What every abstract state of a run satisfies.\<close>

definition spec_ok :: "(bytes \<Rightarrow> bool) \<Rightarrow> string set \<Rightarrow> (string, log_entry) spec \<Rightarrow> bool" where
  "spec_ok fits N a \<longleftrightarrow> finite N \<and> '''' \<notin> N \<and> (\<forall>n\<in>N. fits (string_to_bytes n)) \<and> spec_inv N a \<and> hist_ok fits a"

lemma spec_okD:
  assumes "spec_ok fits N a"
  shows "finite N" "'''' \<notin> N" "spec_inv N a" "hist_ok fits a" "inv_core N a" "inv_ack a"
    "inv_commit N a" "inv_votes N a" "inv_cand a" "inv_lead N a" "inv_log a"
  using assms by (simp_all add: spec_ok_def spec_inv_def inv_core_def)

lemma spec_ok_fits: "spec_ok fits N a \<Longrightarrow> n \<in> N \<Longrightarrow> fits (string_to_bytes n)"
  by (simp add: spec_ok_def)

lemma spec_ok_steps: "spec_ok fits N a \<Longrightarrow> node_steps N n a a' \<Longrightarrow> hist_ok fits a' \<Longrightarrow> spec_ok fits N a'"
  unfolding spec_ok_def by (blast intro: node_steps_inv)

lemma spec_ok_hist: "spec_ok fits N a \<Longrightarrow> node_steps N n a a' \<Longrightarrow> hist_le a a'"
  by (rule node_steps_hist) (auto simp: spec_ok_def)

lemma hist_ok_llog: "hist_ok fits a \<Longrightarrow> a_llog a' = a_llog a \<Longrightarrow> hist_ok fits a'"
  by (simp add: hist_ok_def)

text \<open>What a vote request and an AppendEntries in flight say about the protocol.\<close>

definition vote_request_ok :: "string \<Rightarrow> request_vote_request \<Rightarrow> (string, log_entry) spec \<Rightarrow> bool" where
  "vote_request_ok n req a \<longleftrightarrow> \<not> rv_pre_vote req \<and> rv_candidate_id req = n \<and>
     (\<exists>L. a_clog a (unat (rv_term req), n) = Some L \<and> L \<noteq> [] \<and>
        unat (rv_last_log_index req) = length L - 1 \<and> unat (rv_last_log_term req) = fst (last L))"

definition append_request_ok :: "string \<Rightarrow> append_entries_request \<Rightarrow> (string, log_entry) spec \<Rightarrow> bool" where
  "append_request_ok n req a \<longleftrightarrow> (\<exists>L. a_llog a (unat (ae_term req)) = Some L \<and>
     a_lead a (unat (ae_term req)) = n \<and> ae_term req \<noteq> 0 \<and>
     unat (ae_prev_log_index req) + length (ae_entries req) < length L \<and>
     abs_log (ae_entries req) = take (length (ae_entries req)) (drop (Suc (unat (ae_prev_log_index req))) L) \<and>
     unat (ae_prev_log_term req) = fst (L ! unat (ae_prev_log_index req)) \<and>
     (unat (ae_term req), unat (ae_leader_commit req)) \<in> a_lcommits a)"

lemma vote_request_ok_mono: "vote_request_ok n req a \<Longrightarrow> hist_le a a' \<Longrightarrow> vote_request_ok n req a'"
  unfolding vote_request_ok_def by (blast dest: hist_leD(4))

lemma append_request_ok_mono:
  assumes "append_request_ok n req a" and "hist_le a a'"
  shows "append_request_ok n req a'"
proof -
  from assms(1) obtain L where L: "a_llog a (unat (ae_term req)) = Some L" and r:
    "a_lead a (unat (ae_term req)) = n" "ae_term req \<noteq> 0"
    "unat (ae_prev_log_index req) + length (ae_entries req) < length L"
    "abs_log (ae_entries req) = take (length (ae_entries req)) (drop (Suc (unat (ae_prev_log_index req))) L)"
    "unat (ae_prev_log_term req) = fst (L ! unat (ae_prev_log_index req))"
    "(unat (ae_term req), unat (ae_leader_commit req)) \<in> a_lcommits a"
    unfolding append_request_ok_def by blast
  from hist_leD(5) [OF assms(2) L] obtain X where X: "a_llog a' (unat (ae_term req)) = Some (L @ X)"
    by blast
  from hist_leD(6) [OF assms(2) L] r hist_leD(3) [OF assms(2) r(6)] X show ?thesis
    unfolding append_request_ok_def by (intro exI [of _ "L @ X"]) (simp add: nth_append)
qed

lemma leading_mono: "leading N n rn acks \<Longrightarrow> acks \<subseteq> acks' \<Longrightarrow> leading N n rn acks'"
  unfolding leading_def by fastforce

lemma node_sim_same:
  assumes "node_sim ok term_of vote_of log_of D N n rn a" and "same_at n a a'" and "a_acks a \<subseteq> a_acks a'"
  shows "node_sim ok term_of vote_of log_of D N n rn a'"
  using assms leading_mono [of N n rn "a_acks a" "a_acks a'"]
  unfolding node_sim_def abstracts_def same_at_def by auto

section \<open>Acknowledging a whole prefix\<close>

lemma ack_upto:
  assumes "n \<in> N" and "a_role a n = Follower" and "a_llog a (a_term a n) = Some L" and "m \<le> length L"
    and "take m (a_log a n) = take m L"
  shows "node_steps N n a (a\<lparr>a_acks := {(a_term a n, n, j) | j. j < m} \<union> a_acks a\<rparr>)"
  using assms(4,5)
proof (induction m)
  case 0
  then show ?case by simp
next
  case (Suc m)
  let ?b = "a\<lparr>a_acks := {(a_term a n, n, j) | j. j < m} \<union> a_acks a\<rparr>"
  let ?c = "?b\<lparr>a_acks := insert (a_term ?b n, n, m) (a_acks ?b)\<rparr>"
  have "node_steps N n a ?b"
    using Suc.prems take_mono_eq [OF Suc.prems(2), of m] by (intro Suc.IH) simp_all
  moreover have "spec_step N ?b ?c"
    using assms(1-3) Suc.prems by (intro spec_step.ack [where L = L]) simp_all
  then have "local_step N n ?b ?c"
    by (intro local_stepI) (simp_all add: same_at_def)
  ultimately have "node_steps N n a ?c" by (rule rtranclp.rtrancl_into_rtrancl)
  moreover have "insert (a_term a n, n, m) ({(a_term a n, n, j) | j. j < m} \<union> a_acks a) =
      {(a_term a n, n, j) | j. j < Suc m} \<union> a_acks a"
    by (auto simp: less_Suc_eq)
  then have "?c = a\<lparr>a_acks := {(a_term a n, n, j) | j. j < Suc m} \<union> a_acks a\<rparr>"
    by simp
  ultimately show ?case by simp
qed

section \<open>Applying committed entries\<close>

lemma apply_one_frame [frame]:
  "rn_config (apply_one D rn) = rn_config rn"
  "rn_role (apply_one D rn) = rn_role rn"
  "rn_peers (apply_one D rn) = rn_peers rn"
  "rn_persistent (apply_one D rn) = rn_persistent rn"
  "rn_leader (apply_one D rn) = rn_leader rn"
  "rn_leaderID (apply_one D rn) = rn_leaderID rn"
  "rn_storage (apply_one D rn) = rn_storage rn"
  "rn_preVotes (apply_one D rn) = rn_preVotes rn"
  "rn_campaigns (apply_one D rn) = rn_campaigns rn"
  "rn_nextClosure (apply_one D rn) = rn_nextClosure rn"
  "rn_nextChan (apply_one D rn) = rn_nextChan rn"
  by (simp_all add: apply_one_def Let_def split: sum.split option.split)

lemma applyCommitted_frame [frame]:
  "rn_config (applyCommittedEntriesLocked D rn) = rn_config rn"
  "rn_role (applyCommittedEntriesLocked D rn) = rn_role rn"
  "rn_peers (applyCommittedEntriesLocked D rn) = rn_peers rn"
  "rn_persistent (applyCommittedEntriesLocked D rn) = rn_persistent rn"
  "rn_leader (applyCommittedEntriesLocked D rn) = rn_leader rn"
  "rn_leaderID (applyCommittedEntriesLocked D rn) = rn_leaderID rn"
  "rn_storage (applyCommittedEntriesLocked D rn) = rn_storage rn"
  "rn_preVotes (applyCommittedEntriesLocked D rn) = rn_preVotes rn"
  "rn_campaigns (applyCommittedEntriesLocked D rn) = rn_campaigns rn"
  "rn_nextClosure (applyCommittedEntriesLocked D rn) = rn_nextClosure rn"
  "rn_nextChan (applyCommittedEntriesLocked D rn) = rn_nextChan rn"
  "commitIndex (applyCommittedEntriesLocked D rn) = commitIndex rn"
  by (induction D rn rule: applyCommittedEntriesLocked.induct;
      subst applyCommittedEntriesLocked.simps; simp add: apply_one_frame apply_one_volatile)+

lemma apply_induct:
  assumes "\<And>rn. (lastApplied rn < commitIndex rn \<Longrightarrow> P (apply_one D rn)) \<Longrightarrow> P rn"
  shows "P rn"
  using assms by (induction "D" rn rule: applyCommittedEntriesLocked.induct) blast

text \<open>The proposals it answers: only waiting ones, with success, and each leaves the waiting room.\<close>

lemma applyCommitted_pending:
  "set (rn_pendingCommits (applyCommittedEntriesLocked D rn)) \<subseteq> set (rn_pendingCommits rn)"
proof (induction rn rule: apply_induct [where D = D])
  case (1 rn)
  have "set (rn_pendingCommits (apply_one D rn)) \<subseteq> set (rn_pendingCommits rn)"
    by (auto simp: apply_one_def Let_def AList.delete_eq split: sum.split option.split)
  with 1 show ?case
    by (subst applyCommittedEntriesLocked.simps) auto
qed

lemma applyCommitted_chans:
  "(ch, r) \<in> set (rn_chans (applyCommittedEntriesLocked D rn)) \<Longrightarrow>
   (ch, r) \<in> set (rn_chans rn) \<or>
   (r = None \<and> (\<exists>i. (i, ch) \<in> set (rn_pendingCommits rn) \<and> i \<le> commitIndex rn))"
proof (induction rn rule: apply_induct [where D = D])
  case (1 rn)
  show ?case
  proof (cases "lastApplied rn < commitIndex rn")
    case True
    have c: "set (rn_chans (apply_one D rn)) \<subseteq> insert (ch, r) (set (rn_chans rn)) \<union>
       {(h, None) | h. (lastApplied rn + 1, h) \<in> set (rn_pendingCommits rn)}" for ch r
      by (auto simp: apply_one_def Let_def split: sum.split option.split dest: map_of_SomeD)
    have p: "set (rn_pendingCommits (apply_one D rn)) \<subseteq> set (rn_pendingCommits rn)"
      by (auto simp: apply_one_def Let_def AList.delete_eq split: sum.split option.split)
    from 1(2) True have "(ch, r) \<in> set (rn_chans (applyCommittedEntriesLocked D (apply_one D rn)))"
      by (subst (asm) applyCommittedEntriesLocked.simps) simp
    from 1(1) [OF True this] c [of "Suc ch" r] p inc_le [OF True] show ?thesis
      by (auto simp: apply_one_volatile)
  next
    case False
    with 1(2) show ?thesis by (subst (asm) applyCommittedEntriesLocked.simps) simp
  qed
qed

definition chan_ids :: "'s raft_node \<Rightarrow> nat list" where
  "chan_ids rn = map fst (rn_chans rn) @ map snd (rn_pendingCommits rn)"

lemma distinct_move:
  assumes "distinct (xs @ map snd m)" and "map_of m k = Some c"
  shows "distinct ((xs @ [c]) @ map snd (AList.delete k m))"
proof -
  have m: "(k, c) \<in> set m" using assms(2) by (rule map_of_SomeD)
  have "inj_on snd (set m)" using assms(1) by (simp add: distinct_map)
  then have "c \<notin> snd ` set (AList.delete k m)"
    using m by (force simp: AList.delete_eq inj_on_def)
  moreover have "c \<notin> set xs" using assms(1) m by force
  moreover have "distinct (map snd (AList.delete k m))"
    using assms(1) by (simp add: AList.delete_eq distinct_map_filter)
  moreover have "set xs \<inter> snd ` set (AList.delete k m) = {}"
    using assms(1) by (auto simp: AList.delete_eq)
  ultimately show ?thesis using assms(1) by auto
qed

lemma apply_one_chan_ids:
  assumes "distinct (chan_ids rn)"
  shows "distinct (chan_ids (apply_one D rn)) \<and> set (chan_ids (apply_one D rn)) \<subseteq> set (chan_ids rn)"
proof -
  have "distinct (chan_ids (rn\<lparr>rn_chans := rn_chans rn @ [(ch, None)],
      rn_pendingCommits := AList.delete i (rn_pendingCommits rn)\<rparr>))"
    if "map_of (rn_pendingCommits rn) i = Some ch" for i ch
    using distinct_move [of "map fst (rn_chans rn)", OF _ that] assms by (simp add: chan_ids_def)
  moreover have "set (chan_ids (rn\<lparr>rn_chans := rn_chans rn @ [(ch, None)],
      rn_pendingCommits := AList.delete i (rn_pendingCommits rn)\<rparr>)) \<subseteq> set (chan_ids rn)"
    if "map_of (rn_pendingCommits rn) i = Some ch" for i ch
    using map_of_SomeD [OF that] by (force simp: chan_ids_def AList.delete_eq)
  ultimately show ?thesis
    using assms by (simp add: apply_one_def Let_def chan_ids_def split: sum.split option.split)
qed

lemma applyCommitted_chan_ids:
  "distinct (chan_ids rn) \<Longrightarrow> distinct (chan_ids (applyCommittedEntriesLocked D rn)) \<and>
     set (chan_ids (applyCommittedEntriesLocked D rn)) \<subseteq> set (chan_ids rn)"
proof (induction rn rule: apply_induct [where D = D])
  case (1 rn)
  with apply_one_chan_ids [OF 1(2), of D] show ?case
    by (subst (1 2) applyCommittedEntriesLocked.simps) auto
qed

lemma applyCommitted_lastApplied [effects]:
  "lastApplied (applyCommittedEntriesLocked D rn) =
     (if lastApplied rn < commitIndex rn then commitIndex rn else lastApplied rn)"
proof (induction D rn rule: applyCommittedEntriesLocked.induct)
  case (1 D rn)
  show ?case
  proof (cases "lastApplied rn < commitIndex rn")
    case True
    then have "lastApplied rn + 1 \<le> commitIndex rn" by (rule inc_le)
    with 1 [OF True] True show ?thesis
      by (subst applyCommittedEntriesLocked.simps) (auto simp: apply_one_volatile order_le_less)
  next
    case False
    then show ?thesis by (subst applyCommittedEntriesLocked.simps) simp
  qed
qed


text \<open>The engine over a backend that meets the contract.\<close>

locale engine = storage B ok term_of vote_of log_of fits
  for B :: "'s storage_backend" and ok :: "'s \<Rightarrow> bool" and term_of :: "'s \<Rightarrow> u64"
    and vote_of :: "'s \<Rightarrow> string" and log_of :: "'s \<Rightarrow> log_entry list" and fits :: "bytes \<Rightarrow> bool" +
  fixes D :: "'s deps"
  assumes backend [simp]: "d_backend D = B"
begin

abbreviation sim :: "string set \<Rightarrow> string \<Rightarrow> 's raft_node \<Rightarrow> (string, log_entry) spec \<Rightarrow> bool" where
  "sim \<equiv> node_sim ok term_of vote_of log_of D"

abbreviation mirroring :: "'s raft_node \<Rightarrow> bool" where
  "mirroring \<equiv> mirrors ok term_of vote_of log_of"

lemma mirrors_log_ok: "mirroring rn \<Longrightarrow> log_ok (Log rn)"
  by (simp add: mirrors_def ok_log)

lemma mirrors_GetEntry_in:
  "mirroring rn \<Longrightarrow> unat i < length (Log rn) \<Longrightarrow> GetEntry B i (rn_storage rn) = Inr (Log rn ! unat i)"
  by (simp add: mirrors_def GetEntry_in)

lemma mirrors_LastIndex:
  "mirroring rn \<Longrightarrow> unat (fst (LastIndex B (rn_storage rn))) = length (Log rn) - 1"
  by (simp add: mirrors_def LastIndex_unat)

lemma mirrors_LastIndex_Suc:
  "mirroring rn \<Longrightarrow> unat (fst (LastIndex B (rn_storage rn)) + 1) = length (Log rn)"
  by (simp add: mirrors_def LastIndex_Suc)

lemma mirrors_append:
  assumes "mirroring rn" and "numbered (length (Log rn)) es" and "length (Log rn) + length es < 2 ^ 64"
    and "\<forall>e\<in>set es. fits (le_command e)"
  obtains st where "AppendEntries B es (rn_storage rn) = (None, st)"
    and "mirroring ((set_Log (Log rn @ es) rn)\<lparr>rn_storage := st\<rparr>)"
  using assms AppendEntries_ok [of "rn_storage rn" es] by (auto simp: mirrors_def)

lemma apply_one_kv:
  assumes "mirroring rn" and "unat (lastApplied rn + 1) < length (Log rn)"
  shows "rn_kvStore (apply_one D rn) = apply_entry D (rn_kvStore rn) (Log rn ! unat (lastApplied rn + 1))"
  using mirrors_GetEntry_in [OF assms]
  by (simp add: apply_one_def Let_def apply_entry_def split: sum.split option.split)

lemma applyCommitted_kv:
  "mirroring rn \<Longrightarrow> unat (commitIndex rn) < length (Log rn) \<Longrightarrow> lastApplied rn \<le> commitIndex rn \<Longrightarrow>
   rn_kvStore rn = replay D (take (Suc (unat (lastApplied rn))) (Log rn)) \<Longrightarrow>
   rn_kvStore (applyCommittedEntriesLocked D rn) = replay D (take (Suc (unat (commitIndex rn))) (Log rn))"
proof (induction rn rule: apply_induct [where D = D])
  case (1 rn)
  show ?case
  proof (cases "lastApplied rn < commitIndex rn")
    case True
    let ?rn = "apply_one D rn"
    from True have le: "lastApplied rn + 1 \<le> commitIndex rn" by (rule inc_le)
    have n: "unat (lastApplied rn + 1) = Suc (unat (lastApplied rn))"
      using True unat_word_bound [of "commitIndex rn"] by (simp add: unat_less_u64)
    have len: "Suc (unat (lastApplied rn)) < length (Log rn)"
      using le 1(3) n by (simp add: unat_le_u64)
    have "rn_kvStore ?rn = replay D (take (Suc (unat (lastApplied ?rn))) (Log ?rn))"
      using apply_one_kv [OF 1(2)] len 1(5)
      by (simp add: n frame effects take_Suc_conv_app_nth [of "Suc _"] replay_snoc)
    then have "rn_kvStore (applyCommittedEntriesLocked D ?rn) =
        replay D (take (Suc (unat (commitIndex ?rn))) (Log ?rn))"
      using 1 True le by (intro 1(1)) (simp_all add: mirrors_def frame effects)
    with True show ?thesis
      by (subst applyCommittedEntriesLocked.simps) (simp add: frame effects)
  next
    case False
    with 1(4,5) show ?thesis
      by (subst applyCommittedEntriesLocked.simps) simp
  qed
qed

abbreviation moves ::
    "string set \<Rightarrow> string \<Rightarrow> (string, log_entry) spec \<Rightarrow> 's raft_node \<Rightarrow> (string, log_entry) spec \<Rightarrow> bool" where
  "moves N n a rn' a' \<equiv> node_steps N n a a' \<and> sim N n rn' a' \<and> spec_ok fits N a'"

lemma moves_step:
  assumes "spec_ok fits N a" and "spec_step N a a'" and "\<And>k. k \<noteq> n \<Longrightarrow> same_at k a a'"
    and "hist_ok fits a'" and "sim N n rn' a'"
  shows "moves N n a rn' a'"
proof -
  have "node_steps N n a a'"
    using assms(2,3) by (blast intro: local_stepI r_into_rtranclp)
  with assms spec_ok_steps show ?thesis by blast
qed

lemma moves_trans: "node_steps N n a b \<Longrightarrow> moves N n b rn' c \<Longrightarrow> moves N n a rn' c"
  by (blast intro: rtranclp_trans)

lemmas sim_defs = node_sim_def configured_def applied_def abstracts_def

text \<open>Raising the commit index and applying what it uncovers.\<close>

lemma commit_apply_sim:
  assumes sim: "sim N n rn a" and ci: "commitIndex rn \<le> ci" "unat ci < length (Log rn)"
    and keep: "rn_storage rn' = rn_storage rn" "rn_config rn' = rn_config rn" "rn_peers rn' = rn_peers rn"
    "rn_persistent rn' = rn_persistent rn" "rn_leader rn' = rn_leader rn" "rn_role rn' = rn_role rn"
    "rn_kvStore rn' = rn_kvStore rn" "lastApplied rn' = lastApplied rn" "commitIndex rn' = ci"
    and a': "a_term a' n = a_term a n" "a_vote a' n = a_vote a n" "a_log a' n = a_log a n"
    "a_role a' n = a_role a n" "a_commit a' n = unat ci" "a_acks a' = a_acks a"
  shows "sim N n (applyCommittedEntriesLocked D rn') a'"
proof -
  have "mirroring rn'" using sim keep by (simp add: sim_defs mirrors_def)
  moreover have "lastApplied rn = commitIndex rn"
    "rn_kvStore rn = replay D (take (Suc (unat (commitIndex rn))) (Log rn))"
    using sim by (simp_all add: sim_defs)
  ultimately have kv: "rn_kvStore (applyCommittedEntriesLocked D rn') = replay D (take (Suc (unat ci)) (Log rn))"
    using applyCommitted_kv [of rn'] ci keep by simp
  have la: "lastApplied (applyCommittedEntriesLocked D rn') = ci"
    using ci \<open>lastApplied rn = commitIndex rn\<close> keep by (simp add: effects)
  from sim have m: "mirroring (applyCommittedEntriesLocked D rn')"
    using \<open>mirroring rn'\<close> by (simp add: mirrors_def frame)
  show ?thesis
    using sim ci kv la m keep a' by (simp add: sim_defs leading_def frame)
qed

end

end
