(* ===== verification/Follower_Sim.thy ===== *)
theory Follower_Sim
  imports Node_Sim
begin

text \<open>
  The handlers of a follower as steps of the abstract protocol: stepping down on a higher term,
  answering vote requests and answering AppendEntries.
\<close>

context engine
begin

section \<open>Stepping down\<close>

lemma sim_frame:
  assumes "sim N n rn a" and "rn_storage rn' = rn_storage rn" and "rn_config rn' = rn_config rn"
    and "rn_peers rn' = rn_peers rn" and "rn_persistent rn' = rn_persistent rn"
    and "rn_volatile rn' = rn_volatile rn" and "rn_kvStore rn' = rn_kvStore rn"
    and "rn_leader rn' = rn_leader rn" and "rn_role rn' = rn_role rn"
  shows "sim N n rn' a"
  using assms(1) unfolding sim_defs mirrors_def leading_def assms(2-9) .

lemma checkTerm_storage:
  assumes "mirroring rn"
  shows "mirroring (snd (checkTerm D t rn))"
  using assms by (simp add: mirrors_def checkTerm_def abort_pending_def Let_def save_simps fits_Nil)

lemma checkTerm_sim:
  assumes "spec_ok fits N a" and "n \<in> N" and "sim N n rn a"
  shows "\<exists>a'. moves N n a (snd (checkTerm D t rn)) a'"
proof (cases "CurrentTerm rn < t")
  case False
  with assms have "moves N n a (snd (checkTerm D t rn)) a" by (simp add: checkTerm_id)
  then show ?thesis by blast
next
  case True
  let ?a = "a\<lparr>a_term := (a_term a)(n := unat t), a_vote := (a_vote a)(n := None),
       a_role := (a_role a)(n := Follower)\<rparr>"
  have "sim N n (snd (checkTerm D t rn)) ?a"
    using assms(3) True checkTerm_storage [of rn t]
    by (simp add: sim_defs frame effects)
  moreover have "spec_step N a ?a"
    using assms True by (intro spec_step.observe) (auto simp: sim_defs unat_less_u64)
  ultimately have "moves N n a (snd (checkTerm D t rn)) ?a"
    using assms(1) hist_ok_llog [OF spec_okD(4) [OF assms(1)], of ?a]
    by (intro moves_step) (simp_all add: same_at_def)
  then show ?thesis by blast
qed

section \<open>Votes\<close>

lemma candidateLogUpToDate_iff:
  assumes "mirroring rn" and "L \<noteq> []"
    and "unat (rv_last_log_index req) = length L - 1" and "unat (rv_last_log_term req) = fst (last L)"
  shows "candidateLogUpToDateLocked D req rn \<longleftrightarrow> up_to_date L (abs_log (Log rn))"
proof -
  have ok: "ok (rn_storage rn)" and log: "Log rn = log_of (rn_storage rn)"
    using assms(1) by (simp_all add: mirrors_def)
  have t: "unat (fst (LastTerm B (rn_storage rn))) = fst (last (abs_log (Log rn)))"
    using ok ok_facts(1) [OF ok] by (simp add: LastTerm_ok log last_map)
  have i: "unat (fst (LastIndex B (rn_storage rn))) = length (Log rn) - 1"
    using assms(1) by (rule mirrors_LastIndex)
  have "0 < length (Log rn)" using ok_facts(6) [OF ok] log by simp
  then show ?thesis
    using assms(2-4) t i
    by (cases L; cases "Log rn")
      (auto simp: candidateLogUpToDateLocked_def Let_def up_to_date_def u64_eq_iff u64_arith)
qed

lemma save_vote_mirrors:
  "mirroring rn \<Longrightarrow> fits (string_to_bytes v) \<Longrightarrow> mirroring (rn\<lparr>rn_persistent := (rn_persistent rn)\<lparr>ps_VotedFor := v\<rparr>,
     rn_storage := snd (SaveVotedFor B v (rn_storage rn))\<rparr>)"
  by (simp add: mirrors_def save_simps)

lemma grant_sim:
  assumes a: "spec_ok fits N a" and n: "n \<in> N" and c: "c \<in> N" and sim: "sim N n rn a"
    and req: "vote_request_ok c req a" and t: "CurrentTerm rn = rv_term req"
    and v: "VotedFor rn = '''' \<or> VotedFor rn = c" and up: "candidateLogUpToDateLocked D req rn"
  shows "\<exists>a'. moves N n a (rn\<lparr>rn_persistent := (rn_persistent rn)\<lparr>ps_VotedFor := c\<rparr>,
      rn_storage := snd (SaveVotedFor B c (rn_storage rn))\<rparr>) a' \<and>
    (unat (rv_term req), n, c) \<in> a_votes a'"
proof -
  let ?t = "unat (rv_term req)"
  let ?rn = "rn\<lparr>rn_persistent := (rn_persistent rn)\<lparr>ps_VotedFor := c\<rparr>,
      rn_storage := snd (SaveVotedFor B c (rn_storage rn))\<rparr>"
  have m: "mirroring rn" and trm: "a_term a n = ?t" and log: "a_log a n = abs_log (Log rn)"
    and vote: "a_vote a n = abs_vote (VotedFor rn)"
    using sim t by (simp_all add: sim_defs)
  have m': "mirroring ?rn" using m spec_ok_fits [OF a c] by (rule save_vote_mirrors)
  have ne: "c \<noteq> ''''" using spec_okD(2) [OF a] c by auto
  show ?thesis
  proof (cases "(?t, n, c) \<in> a_votes a")
    case True
    with votesD(4) [OF spec_okD(8) [OF a] True] trm vote have "VotedFor rn = c"
      by (simp add: abs_vote_Some)
    with sim m' have "sim N n ?rn a" by (simp add: sim_defs leading_def)
    with a True show ?thesis by blast
  next
    case False
    from req obtain L where L: "a_clog a (?t, c) = Some L" "L \<noteq> []"
      "unat (rv_last_log_index req) = length L - 1" "unat (rv_last_log_term req) = fst (last L)"
      unfolding vote_request_ok_def by blast
    from up candidateLogUpToDate_iff [OF m L(2-4)] have up': "up_to_date L (a_log a n)"
      by (simp add: log)
    let ?a = "a\<lparr>a_vote := (a_vote a)(n := Some c), a_votes := insert (?t, n, c) (a_votes a),
       a_vlog := (a_vlog a)((?t, n) := a_log a n)\<rparr>"
    have "spec_step N a ?a"
      using n c trm v vote L(1) up' False by (intro spec_step.grant) (auto simp: ne abs_vote_Some)
    moreover have "sim N n ?rn ?a"
      using sim m' ne by (simp add: sim_defs leading_def)
    ultimately have "moves N n a ?rn ?a"
      using a hist_ok_llog [OF spec_okD(4) [OF a], of ?a] by (intro moves_step) (simp_all add: same_at_def)
    then show ?thesis by (intro exI [of _ ?a]) simp
  qed
qed

lemma HandleRequestVote_sim:
  assumes a: "spec_ok fits N a" and n: "n \<in> N" and c: "c \<in> N" and sim: "sim N n rn a"
    and req: "rv_pre_vote req \<or> vote_request_ok c req a"
    and h: "HandleRequestVote D e req rn = (res, rn')"
  shows "\<exists>a'. moves N n a rn' a' \<and>
    (\<not> rv_pre_vote req \<and> rvr_vote_granted res \<longrightarrow> (unat (rv_term req), n, c) \<in> a_votes a')"
proof (cases "rv_pre_vote req \<or> rv_term req < CurrentTerm rn")
  case True
  with h have "rn' = rn" "rv_pre_vote req \<or> \<not> rvr_vote_granted res"
    by (auto simp: HandleRequestVote_def split: if_splits)
  with a sim show ?thesis by blast
next
  case False
  let ?rn = "snd (checkTerm D (rv_term req) rn)"
  from checkTerm_sim [OF a n sim] obtain b where b: "moves N n a ?rn b" by blast
  from False req have "vote_request_ok c req a" by simp
  then have req': "vote_request_ok c req b" and id: "rv_candidate_id req = c"
    using vote_request_ok_mono [OF _ spec_ok_hist [OF a]] b by (blast, simp add: vote_request_ok_def)
  have rn: "?rn = (if CurrentTerm rn < rv_term req then ?rn else rn)"
    by (simp add: checkTerm_id)
  have t: "CurrentTerm ?rn = rv_term req" using False by (auto simp: effects)
  show ?thesis
  proof (cases "(VotedFor ?rn = '''' \<or> VotedFor ?rn = c) \<and> candidateLogUpToDateLocked D req ?rn")
    case True
    with grant_sim [OF _ n c _ req' t] b obtain a' where a': "moves N n b (?rn\<lparr>rn_persistent :=
        (rn_persistent ?rn)\<lparr>ps_VotedFor := c\<rparr>, rn_storage := snd (SaveVotedFor B c (rn_storage ?rn))\<rparr>) a'"
      "(unat (rv_term req), n, c) \<in> a_votes a'" by blast
    have "rn' = resetElectionTimer e (?rn\<lparr>rn_persistent := (rn_persistent ?rn)\<lparr>ps_VotedFor := c\<rparr>,
        rn_storage := snd (SaveVotedFor B c (rn_storage ?rn))\<rparr>)"
      using h False True id unfolding HandleRequestVote_def rn [symmetric]
      by (simp add: Let_def)
    then have "sim N n rn' a'"
      using a' by (auto intro: sim_frame simp: frame)
    with a' b show ?thesis by (blast intro: rtranclp_trans)
  next
    case no: False
    have "rn' = ?rn" "\<not> rvr_vote_granted res"
      using h False no id unfolding HandleRequestVote_def rn [symmetric]
      by (auto simp: Let_def split: if_splits)
    with b show ?thesis by blast
  qed
qed

section \<open>Following a leader\<close>

text \<open>A follower of the leader whose log is \<open>M\<close>.\<close>

definition following :: "string \<Rightarrow> 's raft_node \<Rightarrow> (string, log_entry) spec \<Rightarrow> log_entry list \<Rightarrow> bool" where
  "following n rn a M \<longleftrightarrow> rn_role rn = Follower \<and> a_llog a (a_term a n) = Some (abs_log M) \<and>
     log_ok M \<and> (\<forall>e\<in>set M. fits (le_command e))"

definition same_lead :: "string \<Rightarrow> (string, log_entry) spec \<Rightarrow> (string, log_entry) spec \<Rightarrow> bool" where
  "same_lead n a a' \<longleftrightarrow> a_llog a' = a_llog a \<and> a_lcommits a' = a_lcommits a \<and> a_term a' n = a_term a n"

lemma append_tail_sim:
  assumes a: "spec_ok fits N a" and n: "n \<in> N" and sim: "sim N n rn a" and M: "following n rn a M"
    and log: "Log rn = take (Suc q) M" and q: "Suc q + j \<le> length M"
    and es: "es = take j (drop (Suc q) M)"
  shows "\<exists>st a'. AppendEntries B es (rn_storage rn) = (None, st) \<and>
    moves N n a ((set_Log (Log rn @ es) rn)\<lparr>rn_storage := st\<rparr>) a' \<and> same_lead n a a' \<and>
    Log rn @ es = take (Suc q + j) M"
proof -
  have len: "length (Log rn) = Suc q" using log q by simp
  have ext: "Log rn @ es = take (Suc q + j) M"
    unfolding log es by (rule take_add [symmetric])
  have Mok: "log_ok M" and Mf: "\<forall>e\<in>set M. fits (le_command e)" and F: "rn_role rn = Follower"
    and L: "a_llog a (a_term a n) = Some (abs_log M)"
    using M by (simp_all add: following_def)
  have m: "mirroring rn" using sim by (simp add: sim_defs)
  have "numbered (0 + Suc q) (drop (Suc q) M)"
    by (rule numbered_drop) (rule log_okD(4) [OF Mok])
  then have num: "numbered (Suc q) es" unfolding es by (simp add: numbered_take)
  have "set es \<subseteq> set M" unfolding es by (meson order.trans set_drop_subset set_take_subset)
  with Mf have f: "\<forall>e\<in>set es. fits (le_command e)" by blast
  have "length (Log rn) + length es < 2 ^ 64"
    using log_okD(5) [OF Mok] q len es by simp
  with num f len obtain st where st: "AppendEntries B es (rn_storage rn) = (None, st)"
    and m': "mirroring ((set_Log (Log rn @ es) rn)\<lparr>rn_storage := st\<rparr>)"
    using mirrors_append [OF m, of es] by auto
  let ?rn = "(set_Log (Log rn @ es) rn)\<lparr>rn_storage := st\<rparr>"
  let ?a = "a\<lparr>a_log := (a_log a)(n := take (Suc q + j) (abs_log M))\<rparr>"
  have alog: "a_log a n = take (Suc q) (abs_log M)"
    using sim log by (simp add: sim_defs take_map)
  have "spec_step N a ?a"
    using n sim F L len q alog by (intro spec_step.extend [where L = "abs_log M"]) (simp_all add: sim_defs)
  moreover have "take (Suc q + j) (abs_log M) = abs_log (Log rn @ es)"
    unfolding ext by (rule take_map)
  then have "sim N n ?rn ?a"
    using sim m' F by (simp add: sim_defs)
  ultimately have "moves N n a ?rn ?a"
    using a hist_ok_llog [OF spec_okD(4) [OF a], of ?a] by (intro moves_step) (simp_all add: same_at_def)
  with st ext show ?thesis by (intro exI [of _ st] exI [of _ ?a]) (simp add: same_lead_def)
qed

lemma truncate_sim:
  assumes a: "spec_ok fits N a" and n: "n \<in> N" and sim: "sim N n rn a" and M: "following n rn a M"
    and i: "0 < unat x" "unat x < length (Log rn)" "unat x < length M"
    and ne: "le_term (Log rn ! unat x) \<noteq> le_term (M ! unat x)"
  shows "\<exists>st a'. TruncateFrom B x (rn_storage rn) = (None, st) \<and>
    moves N n a ((set_Log (take (unat x) (Log rn)) rn)\<lparr>rn_storage := st\<rparr>) a' \<and> same_lead n a a'"
proof -
  have F: "rn_role rn = Follower" and L: "a_llog a (a_term a n) = Some (abs_log M)"
    using M by (simp_all add: following_def)
  have m: "mirroring rn" and alog: "a_log a n = abs_log (Log rn)" and acom: "a_commit a n = unat (commitIndex rn)"
    using sim by (simp_all add: sim_defs)
  have "x \<noteq> 0" using i(1) by auto
  then have "0 < x" by (simp add: word_neq_0_conv)
  with TruncateFrom_ok [of "rn_storage rn" x] m
  obtain st where st: "TruncateFrom B x (rn_storage rn) = (None, st)"
    and m': "mirroring ((set_Log (take (unat x) (Log rn)) rn)\<lparr>rn_storage := st\<rparr>)"
    by (auto simp: mirrors_def)
  let ?rn = "(set_Log (take (unat x) (Log rn)) rn)\<lparr>rn_storage := st\<rparr>"
  let ?a = "a\<lparr>a_log := (a_log a)(n := take (unat x) (a_log a n))\<rparr>"
  have ne': "fst (a_log a n ! unat x) \<noteq> fst (abs_log M ! unat x)"
    using ne i alog by (simp add: u64_eq_iff)
  have "unat (commitIndex rn) < unat x"
    using conflict_above_commit [OF spec_okD(3,1) [OF a] n L _ _ ne'] i alog acom by simp
  then have "sim N n ?rn ?a"
    using sim m' F i by (simp add: sim_defs take_map min_def)
  moreover have "spec_step N a ?a"
    using n sim F L i ne' by (intro spec_step.trunc [where L = "abs_log M"]) (simp_all add: sim_defs)
  ultimately have "moves N n a ?rn ?a"
    using a hist_ok_llog [OF spec_okD(4) [OF a], of ?a] by (intro moves_step) (simp_all add: same_at_def)
  with st show ?thesis by (intro exI [of _ st] exI [of _ ?a]) (simp add: same_lead_def)
qed

lemma following_keep:
  "following n rn a M \<Longrightarrow> same_lead n a a' \<Longrightarrow> rn_role rn' = rn_role rn \<Longrightarrow> following n rn' a' M"
  by (simp add: following_def same_lead_def)

lemma same_lead_trans: "same_lead n a b \<Longrightarrow> same_lead n b c \<Longrightarrow> same_lead n a c"
  by (simp add: same_lead_def)

lemma same_lead_refl [simp]: "same_lead n a a"
  by (simp add: same_lead_def)

lemma existing_index:
  assumes "Suc (p + i) < length M" and "log_ok M" and "p = unat (x :: u64)"
  shows "unat (x + 1 + of_nat i) = Suc (p + i)"
proof -
  have x: "x + 1 + of_nat i = (of_nat (Suc (p + i)) :: u64)"
    using assms(3) by simp
  show ?thesis
    unfolding x using assms(1) log_okD(5) [OF assms(2)] by (intro unat_of_nat_u64) simp
qed

lemma same_term_extends:
  assumes a: "spec_ok fits N a" and sim: "sim N n rn a" and M: "following n rn a M"
    and i: "i < length (Log rn)" "i < length M" and eq: "le_term (Log rn ! i) = le_term (M ! i)"
  shows "take (Suc i) (Log rn) = take (Suc i) M"
proof -
  have "coh (a_llog a) (abs_log M)"
    using leadD(1) [OF spec_okD(10) [OF a]] M by (auto simp: following_def wf_log_def)
  moreover have "coh (a_llog a) (abs_log (Log rn))"
    using logD(1) [OF spec_okD(11) [OF a], of n] sim by (simp add: wf_log_def sim_defs)
  ultimately have "take (Suc i) (abs_log (Log rn)) = take (Suc i) (abs_log M)"
    using i eq by (intro coh_match [of "a_llog a"]) simp_all
  then show ?thesis unfolding take_map by simp
qed

text \<open>
  The two ways the loop stops looking: the log has ended, and the rest is appended; or an entry of
  another term is found, and the log is cut before the rest is appended.
\<close>

lemma append_rest_sim:
  assumes a: "spec_ok fits N a" and n: "n \<in> N" and sim: "sim N n rn a" and M: "following n rn a M"
    and q: "Suc q = length (Log rn)" "Log rn = take (Suc q) M" and x: "unat (ae_prev_log_index req + 1 + of_nat i) = Suc q"
    and es: "e # es = take (length (e # es)) (drop (Suc q) M)" "Suc q + length (e # es) \<le> length M"
  shows "\<exists>rn' a'. append_loop D req i (e # es) rn = (True, rn') \<and> moves N n a rn' a' \<and> same_lead n a a' \<and>
    following n rn' a' M \<and> take (Suc q + length (e # es)) (Log rn') = take (Suc q + length (e # es)) M"
proof -
  have m: "mirroring rn" using sim by (simp add: sim_defs)
  then have "length (log_of (rn_storage rn)) \<le> unat (ae_prev_log_index req + 1 + of_nat i)"
    using q(1) x by (simp add: mirrors_def)
  with m GetEntry_out [of "rn_storage rn" "ae_prev_log_index req + 1 + of_nat i"] obtain err where
    g: "GetEntry B (ae_prev_log_index req + 1 + of_nat i) (rn_storage rn) = Inl err" by (auto simp: mirrors_def)
  from append_tail_sim [OF a n sim M q(2) es(2,1)] obtain st a' where
    s: "AppendEntries B (e # es) (rn_storage rn) = (None, st)"
    "moves N n a ((set_Log (Log rn @ e # es) rn)\<lparr>rn_storage := st\<rparr>) a'" "same_lead n a a'"
    "Log rn @ e # es = take (Suc q + length (e # es)) M" by blast
  then show ?thesis
    using g following_keep [OF M s(3), of "(set_Log (Log rn @ e # es) rn)\<lparr>rn_storage := st\<rparr>"]
    by (intro exI [of _ "(set_Log (Log rn @ e # es) rn)\<lparr>rn_storage := st\<rparr>"] exI [of _ a'])
      (simp add: Let_def)
qed

lemma append_conflict_sim:
  assumes a: "spec_ok fits N a" and n: "n \<in> N" and sim: "sim N n rn a" and M: "following n rn a M"
    and q: "Suc q < length (Log rn)" "take (Suc q) (Log rn) = take (Suc q) M" "le_term (Log rn ! Suc q) \<noteq> le_term (M ! Suc q)"
    and x: "unat (ae_prev_log_index req + 1 + of_nat i) = Suc q"
    and es: "e # es = take (length (e # es)) (drop (Suc q) M)" "Suc q + length (e # es) \<le> length M" and e: "e = M ! Suc q"
  shows "\<exists>rn' a'. append_loop D req i (e # es) rn = (True, rn') \<and> moves N n a rn' a' \<and> same_lead n a a' \<and>
    following n rn' a' M \<and> take (Suc q + length (e # es)) (Log rn') = take (Suc q + length (e # es)) M"
proof -
  let ?x = "ae_prev_log_index req + 1 + of_nat i"
  have m: "mirroring rn" using sim by (simp add: sim_defs)
  have g: "GetEntry B ?x (rn_storage rn) = Inr (Log rn ! Suc q)"
    using mirrors_GetEntry_in [OF m, of ?x] q(1) x by simp
  from es(2) have lt: "Suc q < length M" by simp
  from truncate_sim [OF a n sim M, of ?x] q(1,3) x lt obtain st b where
    t: "TruncateFrom B ?x (rn_storage rn) = (None, st)"
    "moves N n a ((set_Log (take (Suc q) (Log rn)) rn)\<lparr>rn_storage := st\<rparr>) b" "same_lead n a b"
    by auto
  let ?rn = "(set_Log (take (Suc q) (Log rn)) rn)\<lparr>rn_storage := st\<rparr>"
  have M': "following n ?rn b M" using M t(3) by (rule following_keep) simp
  from append_tail_sim [OF _ n _ M' _ es(2,1)] t(2) q(2)
  obtain st' a' where
    s: "AppendEntries B (e # es) st = (None, st')"
    "moves N n b ((set_Log (take (Suc q) (Log rn) @ e # es) ?rn)\<lparr>rn_storage := st'\<rparr>) a'" "same_lead n b a'"
    "take (Suc q) (Log rn) @ e # es = take (Suc q + length (e # es)) M" by auto
  let ?rn' = "(set_Log (take (Suc q) (Log rn) @ e # es) ?rn)\<lparr>rn_storage := st'\<rparr>"
  have "length (Log rn) < 2 ^ 64" using log_okD(5) [OF mirrors_log_ok [OF m]] .
  then have lt': "?x < of_nat (length (Log rn))"
    using q(1) x by (simp only: unat_less_u64 unat_of_nat_u64)
  have "append_loop D req i (e # es) rn = (True, ?rn')"
    using g q(3) e t(1) s(1) lt' x by (simp add: Let_def)
  moreover have "following n ?rn' a' M" using M' s(3) by (rule following_keep) simp
  ultimately show ?thesis
    using moves_trans [of N n a b, OF conjunct1 [OF t(2)] s(2)] same_lead_trans [OF t(3) s(3)] s(4)
    by (intro exI [of _ ?rn'] exI [of _ a']) simp
qed

lemma append_loop_sim:
  assumes a: "spec_ok fits N a" and n: "n \<in> N" and sim: "sim N n rn a" and M: "following n rn a M"
    and p: "p = unat (ae_prev_log_index req)"
  shows "take (Suc (p + i)) (Log rn) = take (Suc (p + i)) M \<Longrightarrow>
    es = take (length es) (drop (Suc (p + i)) M) \<Longrightarrow> Suc (p + i) + length es \<le> length M \<Longrightarrow>
    \<exists>rn' a'. append_loop D req i es rn = (True, rn') \<and> moves N n a rn' a' \<and> same_lead n a a' \<and>
      following n rn' a' M \<and> take (Suc (p + i) + length es) (Log rn') = take (Suc (p + i) + length es) M"
proof (induction es arbitrary: i)
  case Nil
  with a sim M show ?case by (intro exI [of _ rn] exI [of _ a]) simp
next
  case (Cons e es)
  let ?q = "Suc (p + i)" and ?x = "ae_prev_log_index req + 1 + of_nat i"
  have lt: "?q < length M" using Cons.prems(3) by simp
  have x: "unat ?x = ?q" using existing_index [OF lt _ p] M by (simp add: following_def)
  have e: "e = M ! ?q" and es: "es = take (length es) (drop (Suc ?q) M)"
    using Cons.prems(2) lt by (simp_all add: take_Suc_conv_app_nth flip: Cons_nth_drop_Suc)
  have llt: "p + i < length (Log rn)"
    using take_Suc_eq_length [OF Cons.prems(1)] lt by simp
  show ?case
  proof (cases "?q < length (Log rn)")
    case False
    with llt have len: "?q = length (Log rn)" by simp
    with Cons.prems(1) have log: "Log rn = take ?q M" by simp
    show ?thesis by (rule append_rest_sim [OF a n sim M len log x Cons.prems(2,3)])
  next
    case in_log: True
    show ?thesis
    proof (cases "le_term (Log rn ! ?q) = le_term (M ! ?q)")
      case True
      have g: "GetEntry B ?x (rn_storage rn) = Inr (Log rn ! ?q)"
        using mirrors_GetEntry_in [of rn ?x] sim in_log x by (simp add: sim_defs)
      have "take (Suc (p + Suc i)) (Log rn) = take (Suc (p + Suc i)) M"
        using same_term_extends [OF a sim M in_log lt] True by simp
      from Cons.IH [OF this] es Cons.prems(3) g True e show ?thesis by (simp add: Let_def)
    qed (rule append_conflict_sim [OF a n sim M in_log Cons.prems(1) _ x Cons.prems(2,3) e])
  qed
qed

section \<open>Answering AppendEntries\<close>

lemma follower_commit_sim:
  assumes a: "spec_ok fits N a" and n: "n \<in> N" and sim: "sim N n rn a" and F: "rn_role rn = Follower"
    and last: "unat (ae_prev_log_index req + of_nat (length (ae_entries req))) = m" and m: "m < length (Log rn)"
    and acked: "(a_term a n, n, m) \<in> a_acks a"
    and c: "(a_term a n, unat (ae_leader_commit req)) \<in> a_lcommits a"
  shows "\<exists>a'. moves N n a (follower_commit D req rn) a' \<and> a_acks a' = a_acks a"
proof -
  let ?l = "ae_prev_log_index req + of_nat (length (ae_entries req))"
  let ?i = "if ?l < ae_leader_commit req then ?l else ae_leader_commit req"
  show ?thesis
  proof (cases "commitIndex rn < ae_leader_commit req \<and> commitIndex rn < ?i")
    case False
    then have "follower_commit D req rn = rn"
      by (auto simp: follower_commit_def Let_def)
    with a sim show ?thesis by auto
  next
    case True
    let ?rn = "applyCommittedEntriesLocked D (set_commitIndex ?i rn)"
    let ?a = "a\<lparr>a_commit := (a_commit a)(n := unat ?i)\<rparr>"
    have i: "unat ?i \<le> m" "unat ?i \<le> unat (ae_leader_commit req)"
      using last by (auto simp: u64_arith)
    have eq: "follower_commit D req rn = ?rn"
      using True by (simp add: follower_commit_def Let_def)
    have "sim N n ?rn ?a"
      using sim True i m by (intro commit_apply_sim [where rn = rn and a = a and ci = ?i]) auto
    moreover have "spec_step N a ?a"
      using n F acked c i sim by (intro spec_step.follower_commit [where m = m and c = "unat (ae_leader_commit req)"]) (auto simp: sim_defs)
    ultimately have "moves N n a ?rn ?a"
      using a hist_ok_llog [OF spec_okD(4) [OF a], of ?a] by (intro moves_step) (simp_all add: same_at_def)
    then show ?thesis unfolding eq by (intro exI [of _ ?a]) simp
  qed
qed

lemma prev_matches_prefix:
  assumes a: "spec_ok fits N a" and sim: "sim N n rn a" and M: "following n rn a M"
    and p: "unat (ae_prev_log_index req) < length M"
    and t: "ae_prev_log_term req = le_term (M ! unat (ae_prev_log_index req))"
    and match: "prev_matches D req rn"
  shows "take (Suc (unat (ae_prev_log_index req))) (Log rn) = take (Suc (unat (ae_prev_log_index req))) M"
proof -
  let ?p = "ae_prev_log_index req"
  have m: "mirroring rn" using sim by (simp add: sim_defs)
  show ?thesis
  proof (cases "?p = 0")
    case True
    have "log_ok (Log rn)" "log_ok M" using mirrors_log_ok [OF m] M by (simp_all add: following_def)
    then show ?thesis using True by (cases "Log rn"; cases M) (auto simp: log_ok_def)
  next
    case False
    then obtain e where e: "GetEntry B ?p (rn_storage rn) = Inr e" "le_term e = ae_prev_log_term req"
      using match by (auto simp: prev_matches_def word_neq_0_conv split: sum.splits)
    with m GetEntry_Inr_iff [of "rn_storage rn" ?p e] have "unat ?p < length (Log rn)" "e = Log rn ! unat ?p"
      by (simp_all add: mirrors_def)
    with e(2) t show ?thesis
      by (intro same_term_extends [OF a sim M _ p]) simp_all
  qed
qed

lemma append_request_leader:
  assumes a: "spec_ok fits N a" and sim: "sim N n rn a" and t: "CurrentTerm rn = ae_term req"
    and req: "append_request_ok c req a" and ne: "c \<noteq> n"
  shows "rn_role rn \<noteq> Leader"
proof
  assume "rn_role rn = Leader"
  with sim have "a_role a n = Leader" "a_term a n = unat (ae_term req)"
    using t by (simp_all add: sim_defs)
  moreover have "a_lead a (unat (ae_term req)) = c"
    using req by (auto simp: append_request_ok_def)
  ultimately show False using leaderD(3) [OF spec_okD(10) [OF a], of n] ne by simp
qed

text \<open>What an accepted request says about the two logs.\<close>

lemma request_following:
  assumes a: "spec_ok fits N a" and sim: "sim N n rn a" and F: "rn_role rn = Follower"
    and t: "CurrentTerm rn = ae_term req" and req: "append_request_ok c req a"
    and match: "prev_matches D req rn"
  obtains M where "following n rn a M"
    and "take (Suc (unat (ae_prev_log_index req) + 0)) (Log rn) = take (Suc (unat (ae_prev_log_index req) + 0)) M"
    and "ae_entries req = take (length (ae_entries req)) (drop (Suc (unat (ae_prev_log_index req) + 0)) M)"
    and "Suc (unat (ae_prev_log_index req) + 0) + length (ae_entries req) \<le> length M"
    and "(a_term a n, unat (ae_leader_commit req)) \<in> a_lcommits a"
proof -
  let ?p = "unat (ae_prev_log_index req)" and ?k = "length (ae_entries req)"
  have trm: "a_term a n = unat (ae_term req)" using sim t by (simp add: sim_defs)
  obtain L where L: "a_llog a (unat (ae_term req)) = Some L" "?p + ?k < length L"
    "abs_log (ae_entries req) = take ?k (drop (Suc ?p) L)"
    "unat (ae_prev_log_term req) = fst (L ! ?p)"
    "(unat (ae_term req), unat (ae_leader_commit req)) \<in> a_lcommits a"
    using req unfolding append_request_ok_def by blast
  from spec_okD(4) [OF a] L(1) obtain M where M: "L = abs_log M" "log_ok M" "\<forall>e\<in>set M. fits (le_command e)"
    unfolding hist_ok_def by blast
  have fol: "following n rn a M" using F L(1) M trm by (simp add: following_def)
  have es: "ae_entries req = take ?k (drop (Suc ?p) M)"
    using L(3) unfolding M(1) drop_map take_map by simp
  have "ae_prev_log_term req = le_term (M ! ?p)"
    using L(2,4) M(1) by (simp add: u64_eq_iff)
  with prev_matches_prefix [OF a sim fol _ _ match] L(2) M(1)
  have "take (Suc ?p) (Log rn) = take (Suc ?p) M" by simp
  with that [OF fol] es L(2,5) M(1) trm show thesis by simp
qed

text \<open>The accepted request, from the point where the node follows its sender.\<close>

lemma accept_entries_sim:
  assumes a: "spec_ok fits N a" and n: "n \<in> N" and sim: "sim N n rn a" and F: "rn_role rn = Follower"
    and t: "CurrentTerm rn = ae_term req" and req: "append_request_ok c req a"
    and match: "prev_matches D req rn"
  shows "\<exists>rn1 a'. append_loop D req 0 (ae_entries req) rn = (True, rn1) \<and>
    moves N n a (follower_commit D req rn1) a' \<and>
    (\<forall>j \<le> unat (ae_prev_log_index req) + length (ae_entries req). (unat (ae_term req), n, j) \<in> a_acks a')"
proof -
  let ?p = "unat (ae_prev_log_index req)" and ?k = "length (ae_entries req)"
  have trm: "a_term a n = unat (ae_term req)" using sim t by (simp add: sim_defs)
  obtain M where fol: "following n rn a M" and pre: "take (Suc (?p + 0)) (Log rn) = take (Suc (?p + 0)) M"
    and es: "ae_entries req = take ?k (drop (Suc (?p + 0)) M)" and len: "Suc (?p + 0) + ?k \<le> length M"
    and lc: "(a_term a n, unat (ae_leader_commit req)) \<in> a_lcommits a"
    using request_following [OF a sim F t req match] .
  from append_loop_sim [OF a n sim fol refl pre es len] obtain rn1 b where
    loop: "append_loop D req 0 (ae_entries req) rn = (True, rn1)" and b: "moves N n a rn1 b"
    and same: "same_lead n a b" and fol': "following n rn1 b M"
    and log: "take (Suc ?p + ?k) (Log rn1) = take (Suc ?p + ?k) M" by auto
  let ?m = "Suc (?p + ?k)"
  let ?c = "b\<lparr>a_acks := {(a_term b n, n, j) | j. j < ?m} \<union> a_acks b\<rparr>"
  have trm': "a_term b n = unat (ae_term req)" using same trm by (simp add: same_lead_def)
  have "take ?m (a_log b n) = take ?m (abs_log M)"
    using b log unfolding take_map by (simp add: sim_defs take_map)
  then have steps: "node_steps N n b ?c"
    using n b fol' len by (intro ack_upto [where L = "abs_log M"]) (auto simp: following_def sim_defs)
  have "sim N n rn1 ?c"
    using b node_sim_same [of _ _ _ _ _ N n rn1 b ?c] by (auto simp: same_at_def)
  then have c: "moves N n a rn1 ?c"
    using b steps spec_ok_steps [of fits N b n ?c] hist_ok_llog [of fits b ?c] spec_okD(4) [of fits N b]
    by (auto intro: rtranclp_trans)
  have "?p + ?k < length (Log rn1)"
    using take_Suc_eq_length [of "?p + ?k" "Log rn1" M] log len by simp
  moreover have "unat (ae_prev_log_index req + of_nat ?k) = ?p + ?k"
  proof -
    have x: "ae_prev_log_index req + of_nat ?k = of_nat (?p + ?k)" by simp
    show ?thesis unfolding x using len log_okD(5) [of M] fol by (intro unat_of_nat_u64) (simp add: following_def)
  qed
  ultimately obtain d where d: "moves N n ?c (follower_commit D req rn1) d" "a_acks d = a_acks ?c"
    using follower_commit_sim [of N ?c n rn1 req "?p + ?k"] c n fol' trm' trm lc same
    by (auto simp: following_def same_lead_def)
  have "moves N n a (follower_commit D req rn1) d"
    using c d(1) by (blast intro: rtranclp_trans)
  moreover have "(unat (ae_term req), n, j) \<in> a_acks d" if "j \<le> ?p + ?k" for j
    using d(2) trm' that by simp
  ultimately show ?thesis using loop by blast
qed

lemma stepdown_sim:
  assumes a: "spec_ok fits N a" and n: "n \<in> N" and sim: "sim N n rn a" and nl: "rn_role rn \<noteq> Leader"
  shows "\<exists>a'. moves N n a (rn\<lparr>rn_role := Follower\<rparr>) a'"
proof (cases "rn_role rn")
  case Candidate
  let ?a = "a\<lparr>a_role := (a_role a)(n := Follower)\<rparr>"
  have "sim N n (rn\<lparr>rn_role := Follower\<rparr>) ?a" using sim by (simp add: sim_defs)
  moreover have "spec_step N a ?a"
    using n sim Candidate by (intro spec_step.stepdown) (auto simp: sim_defs)
  ultimately have "moves N n a (rn\<lparr>rn_role := Follower\<rparr>) ?a"
    using a hist_ok_llog [OF spec_okD(4) [OF a], of ?a] by (intro moves_step) (simp_all add: same_at_def)
  then show ?thesis by blast
next
  case Follower
  with a sim show ?thesis by (intro exI [of _ a]) (simp add: sim_defs)
qed (use nl in simp)

definition hear :: "env \<Rightarrow> append_entries_request \<Rightarrow> 's raft_node \<Rightarrow> 's raft_node" where
  "hear e req rn = resetElectionTimer e ((snd (checkTerm D (ae_term req) rn))
     \<lparr>rn_role := Follower, rn_leaderID := ae_leader_id req, rn_lastLeaderContact := now e\<rparr>)"

lemma hear_sim:
  assumes a: "spec_ok fits N a" and n: "n \<in> N" and sim: "sim N n rn a"
    and req: "append_request_ok c req a" and ne: "c \<noteq> n" and t: "CurrentTerm rn \<le> ae_term req"
  shows "\<exists>b. moves N n a (hear e req rn) b" and "rn_role (snd (checkTerm D (ae_term req) rn)) \<noteq> Leader"
proof -
  let ?rn = "snd (checkTerm D (ae_term req) rn)"
  from checkTerm_sim [OF a n sim] obtain b where b: "moves N n a ?rn b" by blast
  then have req': "append_request_ok c req b"
    using append_request_ok_mono [OF req spec_ok_hist [OF a]] by blast
  have t': "CurrentTerm ?rn = ae_term req" using t by (auto simp: effects)
  show nl: "rn_role ?rn \<noteq> Leader"
    using append_request_leader [OF _ _ t' req' ne] b by blast
  from stepdown_sim [OF _ n _ nl] b obtain d where d: "moves N n b (?rn\<lparr>rn_role := Follower\<rparr>) d" by blast
  then have "sim N n (hear e req rn) d"
    by (auto intro: sim_frame simp: hear_def frame)
  with b d show "\<exists>b. moves N n a (hear e req rn) b" by (blast intro: rtranclp_trans)
qed

lemma hear_eq:
  assumes t: "CurrentTerm rn \<le> ae_term req" and nl: "rn_role (snd (checkTerm D (ae_term req) rn)) \<noteq> Leader"
  shows "HandleAppendEntries D e req rn =
    (if \<not> prev_matches D req (hear e req rn)
     then (\<lparr>aer_term = ae_term req, aer_success = False\<rparr>, hear e req rn)
     else case append_loop D req 0 (ae_entries req) (hear e req rn) of
       (False, rn) \<Rightarrow> (\<lparr>aer_term = CurrentTerm rn, aer_success = False\<rparr>, rn)
     | (True, rn) \<Rightarrow> (\<lparr>aer_term = CurrentTerm (follower_commit D req rn), aer_success = True\<rparr>,
         follower_commit D req rn))"
proof -
  let ?rn = "snd (checkTerm D (ae_term req) rn)"
  have r: "(if rn_role ?rn = Candidate \<and> ae_term req = CurrentTerm ?rn
      then ?rn\<lparr>rn_role := Follower\<rparr> else ?rn) = ?rn\<lparr>rn_role := Follower\<rparr>"
    using nl t by (cases "rn_role ?rn") (auto simp: effects)
  have c: "?rn = (if CurrentTerm rn < ae_term req then ?rn else rn)" by (simp add: checkTerm_id)
  have n: "\<not> ae_term req < CurrentTerm rn" using t by simp
  have tt: "CurrentTerm (hear e req rn) = ae_term req"
    using t by (auto simp: hear_def frame effects)
  show ?thesis
    unfolding HandleAppendEntries_def c [symmetric] Let_def r
    using n tt by (simp add: hear_def split: prod.split)
qed

lemma HandleAppendEntries_sim:
  assumes a: "spec_ok fits N a" and n: "n \<in> N" and sim: "sim N n rn a"
    and req: "append_request_ok c req a" and ne: "c \<noteq> n"
    and h: "HandleAppendEntries D e req rn = (res, rn')"
  shows "\<exists>a'. moves N n a rn' a' \<and> (aer_success res \<longrightarrow>
    (\<forall>j \<le> unat (ae_prev_log_index req) + length (ae_entries req). (unat (ae_term req), n, j) \<in> a_acks a'))"
proof (cases "ae_term req < CurrentTerm rn")
  case True
  with h have "rn' = rn" "\<not> aer_success res" by (auto simp: HandleAppendEntries_def)
  with a sim show ?thesis by blast
next
  case False
  then have t: "CurrentTerm rn \<le> ae_term req" by simp
  let ?rn = "hear e req rn"
  note nl = hear_sim(2) [OF a n sim req ne t]
  from hear_sim(1) [OF a n sim req ne t] obtain b where b: "moves N n a ?rn b" by blast
  then have req': "append_request_ok c req b"
    using append_request_ok_mono [OF req spec_ok_hist [OF a]] by blast
  have F: "rn_role ?rn = Follower" by (simp add: hear_def frame)
  have t': "CurrentTerm ?rn = ae_term req" using t by (auto simp: hear_def frame effects)
  show ?thesis
  proof (cases "prev_matches D req ?rn")
    case False
    with h hear_eq [OF t nl, of e] have "rn' = ?rn" "\<not> aer_success res" by auto
    with b show ?thesis by blast
  next
    case True
    from accept_entries_sim [OF _ n _ F t' req' True] b obtain rn1 a' where
      l: "append_loop D req 0 (ae_entries req) ?rn = (True, rn1)"
      and a': "moves N n b (follower_commit D req rn1) a'"
      "\<forall>j \<le> unat (ae_prev_log_index req) + length (ae_entries req). (unat (ae_term req), n, j) \<in> a_acks a'"
      by blast
    from h hear_eq [OF t nl, of e] True l have "rn' = follower_commit D req rn1" by auto
    with a' b show ?thesis by (blast intro: rtranclp_trans)
  qed
qed

end

end
