(* ===== verification/Restart_Sim.thy ===== *)
theory Restart_Sim
  imports Follower_Sim
begin

text \<open>
  Crashes and restarts as steps of the abstract protocol: a node boots on what its disk holds,
  also when it died between the two writes of a term change or in the middle of a conflict
  resolution.
\<close>

lemma Start_frame [frame]:
  "rn_config (Start e rn) = rn_config rn" "rn_role (Start e rn) = rn_role rn"
  "rn_peers (Start e rn) = rn_peers rn" "rn_persistent (Start e rn) = rn_persistent rn"
  "rn_volatile (Start e rn) = rn_volatile rn" "rn_leader (Start e rn) = rn_leader rn"
  "rn_kvStore (Start e rn) = rn_kvStore rn" "rn_storage (Start e rn) = rn_storage rn"
  "rn_pendingCommits (Start e rn) = rn_pendingCommits rn" "rn_chans (Start e rn) = rn_chans rn"
  "rn_preVotes (Start e rn) = rn_preVotes rn" "rn_campaigns (Start e rn) = rn_campaigns rn"
  by (simp_all add: Start_def Let_def)

context engine
begin

text \<open>A booted node holds what the store holds, and nothing else.\<close>

lemma boot_fields:
  assumes ok: "ok st" and b: "boot D cfg st m e = Inr rn"
  shows "rn_config rn = cfg" "rn_role rn = Follower" "rn_peers rn = peer_map (Peers cfg)"
    "rn_persistent rn = \<lparr>ps_CurrentTerm = term_of st, ps_VotedFor = vote_of st, ps_Log = log_of st\<rparr>"
    "rn_volatile rn = \<lparr>vs_CommitIndex = 0, vs_LastApplied = 0\<rparr>" "rn_leader rn = None"
    "rn_kvStore rn = NewKVStore" "rn_storage rn = st" "rn_pendingCommits rn = []" "rn_chans rn = []"
    "rn_preVotes rn = []" "rn_campaigns rn = []"
  using b by (auto simp: boot_def NewRaftNode_def SetMetrics_def frame
      LoadTerm_ok [OF ok] LoadVotedFor_ok [OF ok] LoadAllEntries_ok [OF ok])

lemma boot_total: "ok st \<Longrightarrow> \<exists>rn. boot D cfg st m e = Inr rn"
  by (simp add: boot_def NewRaftNode_def LoadTerm_ok LoadVotedFor_ok LoadAllEntries_ok)

lemma take_Suc0_log: "log_ok L \<Longrightarrow> take (Suc 0) L = [sentinel]"
  by (cases L) (auto simp: log_ok_def)

lemma boot_sim:
  assumes a: "spec_ok fits N a" and n: "n \<in> N" and sim: "sim N n rn a"
    and b: "boot D (rn_config rn) (rn_storage rn) m e = Inr rn'"
  shows "\<exists>a'. moves N n a rn' a'"
proof -
  let ?a = "a\<lparr>a_role := (a_role a)(n := Follower), a_commit := (a_commit a)(n := 0)\<rparr>"
  have m: "mirroring rn" using sim by (simp add: sim_defs)
  then have ok: "ok (rn_storage rn)" by (simp add: mirrors_def)
  note f = boot_fields [OF ok b]
  have per: "rn_persistent rn' = rn_persistent rn"
    using m f(4) by (simp add: mirrors_def)
  have m': "mirroring rn'" using m f(8) per by (simp add: mirrors_def)
  have "sim N n rn' ?a"
    using sim m' f(1-3,5-7) per take_Suc0_log [OF mirrors_log_ok [OF m]] log_okD(6) [OF mirrors_log_ok [OF m]]
    by (simp add: sim_defs)
  moreover have "spec_step N a ?a" using n by (rule spec_step.restart)
  ultimately have "moves N n a rn' ?a"
    using a hist_ok_llog [OF spec_okD(4) [OF a], of ?a] by (intro moves_step) (simp_all add: same_at_def)
  then show ?thesis by blast
qed

text \<open>A crash between \<open>SaveTerm\<close> and \<open>SaveVotedFor\<close>: the old vote survives into the new term.\<close>

lemma torn_sim:
  assumes a: "spec_ok fits N a" and n: "n \<in> N" and sim: "sim N n rn a" and t: "CurrentTerm rn < t"
    and b: "boot D (rn_config rn) (snd (SaveTerm B t (rn_storage rn))) m e = Inr rn'"
  shows "\<exists>a'. moves N n a rn' a'"
proof -
  let ?a = "a\<lparr>a_term := (a_term a)(n := unat t), a_role := (a_role a)(n := Follower),
       a_commit := (a_commit a)(n := 0)\<rparr>"
  have m: "mirroring rn" using sim by (simp add: sim_defs)
  then have ok: "ok (rn_storage rn)" by (simp add: mirrors_def)
  note s = SaveTerm_simps [OF ok, of t]
  note f = boot_fields [OF s(2) b]
  have per: "rn_persistent rn' = (rn_persistent rn)\<lparr>ps_CurrentTerm := t\<rparr>"
    using m f(4) s by (simp add: mirrors_def)
  have m': "mirroring rn'" using m f(8) per s by (simp add: mirrors_def)
  have "sim N n rn' ?a"
    using sim m' f(1-3,5-7) per take_Suc0_log [OF mirrors_log_ok [OF m]] log_okD(6) [OF mirrors_log_ok [OF m]]
    by (simp add: sim_defs)
  moreover have "spec_step N a ?a"
    using n t sim by (intro spec_step.torn) (simp_all add: sim_defs unat_less_u64)
  ultimately have "moves N n a rn' ?a"
    using a hist_ok_llog [OF spec_okD(4) [OF a], of ?a] by (intro moves_step) (simp_all add: same_at_def)
  then show ?thesis by blast
qed

text \<open>A crash between the truncation and the append of a conflict resolution.\<close>

lemma truncated_store_sim:
  assumes a: "spec_ok fits N a" and n: "n \<in> N" and sim: "sim N n rn a" and M: "following n rn a M"
    and p: "p = unat (ae_prev_log_index req)"
  shows "take (Suc (p + i)) (Log rn) = take (Suc (p + i)) M \<Longrightarrow>
    es = take (length es) (drop (Suc (p + i)) M) \<Longrightarrow> Suc (p + i) + length es \<le> length M \<Longrightarrow>
    truncated_store D req i es (rn_storage rn) = Some st \<Longrightarrow>
    \<exists>l a'. moves N n a ((set_Log l rn)\<lparr>rn_storage := st\<rparr>) a'"
proof (induction es arbitrary: i)
  case (Cons e es)
  let ?q = "Suc (p + i)" and ?x = "ae_prev_log_index req + 1 + of_nat i"
  have lt: "?q < length M" using Cons.prems(3) by simp
  have x: "unat ?x = ?q"
    using existing_index [OF lt _ p] M by (simp add: following_def)
  have m: "mirroring rn" using sim by (simp add: sim_defs)
  have e: "e = M ! ?q" and es: "es = take (length es) (drop (Suc ?q) M)"
    using Cons.prems(2) lt by (simp_all add: take_Suc_conv_app_nth flip: Cons_nth_drop_Suc)
  obtain e' where g: "GetEntry B ?x (rn_storage rn) = Inr e'"
    using Cons.prems(4) by (auto simp: Let_def split: sum.splits)
  with GetEntry_Inr_iff [of "rn_storage rn" ?x e'] m x
  have in_log: "?q < length (Log rn)" and e': "e' = Log rn ! ?q" by (simp_all add: mirrors_def)
  show ?case
  proof (cases "le_term (Log rn ! ?q) = le_term e")
    case True
    have "take (Suc (p + Suc i)) (Log rn) = take (Suc (p + Suc i)) M"
      using same_term_extends [OF a sim M in_log lt] True e by simp
    from Cons.IH [OF this] es Cons.prems(3,4) g e' True show ?thesis
      by (simp add: Let_def)
  next
    case False
    from truncate_sim [OF a n sim M, of ?x] False e x in_log lt obtain st' a' where
      "TruncateFrom B ?x (rn_storage rn) = (None, st')"
      "moves N n a ((set_Log (take ?q (Log rn)) rn)\<lparr>rn_storage := st'\<rparr>) a'"
      by auto
    moreover from this Cons.prems(4) g e' False have "st' = st" by (simp add: Let_def)
    ultimately show ?thesis by blast
  qed
qed simp

lemma torn_append_store:
  assumes a: "spec_ok fits N a" and n: "n \<in> N" and sim: "sim N n rn a"
    and req: "append_request_ok c req a" and ne: "c \<noteq> n" and t: "CurrentTerm rn \<le> ae_term req"
    and match: "prev_matches D req (snd (checkTerm D (ae_term req) rn))"
    and st: "truncated_store D req 0 (ae_entries req) (rn_storage (snd (checkTerm D (ae_term req) rn))) = Some st"
  shows "\<exists>rn1 a'. moves N n a rn1 a' \<and> rn_storage rn1 = st \<and> rn_config rn1 = rn_config rn"
proof -
  let ?rn = "snd (checkTerm D (ae_term req) rn)" and ?f = "snd (checkTerm D (ae_term req) rn)\<lparr>rn_role := Follower\<rparr>"
  from checkTerm_sim [OF a n sim] obtain b where b: "moves N n a ?rn b" by blast
  from stepdown_sim [OF _ n _ hear_sim(2) [OF a n sim req ne t]] b obtain d where
    d: "moves N n b ?f d" by blast
  then have steps: "node_steps N n a d" and d': "spec_ok fits N d" "sim N n ?f d"
    using b by (blast intro: rtranclp_trans)+
  have req': "append_request_ok c req d"
    using append_request_ok_mono [OF req spec_ok_hist [OF a steps]] .
  have t': "CurrentTerm ?f = ae_term req" using t by (auto simp: effects)
  have match': "prev_matches D req ?f" using match by (simp add: prev_matches_def cong: if_cong)
  obtain M where M: "following n ?f d M"
    "take (Suc (unat (ae_prev_log_index req) + 0)) (Log ?f) = take (Suc (unat (ae_prev_log_index req) + 0)) M"
    "ae_entries req = take (length (ae_entries req)) (drop (Suc (unat (ae_prev_log_index req) + 0)) M)"
    "Suc (unat (ae_prev_log_index req) + 0) + length (ae_entries req) \<le> length M"
    using request_following [OF d' _ t' req' match'] by auto
  from truncated_store_sim [OF d'(1) n d'(2) M(1) refl M(2-4)] st obtain l g where
    g: "moves N n d ((set_Log l ?f)\<lparr>rn_storage := st\<rparr>) g" by auto
  with steps show ?thesis
    by (intro exI [of _ "(set_Log l ?f)\<lparr>rn_storage := st\<rparr>"] exI [of _ g]) (auto simp: frame intro: rtranclp_trans)
qed

end

end
