(* ===== verification/Closures.thy ===== *)
theory Closures
  imports Node_Sim
begin

text \<open>
  The variables that the goroutines of a vote share: which handlers leave the rounds of a node
  alone, what starting a round does, and the counting of votes.
\<close>

section \<open>What the commit rule leaves alone\<close>

lemma commit_at_frame [frame]:
  "rn_config (commit_at D ls k rn x) = rn_config rn" "rn_role (commit_at D ls k rn x) = rn_role rn"
  "rn_peers (commit_at D ls k rn x) = rn_peers rn" "rn_persistent (commit_at D ls k rn x) = rn_persistent rn"
  "rn_leader (commit_at D ls k rn x) = rn_leader rn" "rn_storage (commit_at D ls k rn x) = rn_storage rn"
  "rn_preVotes (commit_at D ls k rn x) = rn_preVotes rn" "rn_campaigns (commit_at D ls k rn x) = rn_campaigns rn"
  "rn_nextClosure (commit_at D ls k rn x) = rn_nextClosure rn" "rn_nextChan (commit_at D ls k rn x) = rn_nextChan rn"
  "rn_pendingCommits (commit_at D ls k rn x) = rn_pendingCommits rn" "rn_chans (commit_at D ls k rn x) = rn_chans rn"
  by (simp_all add: commit_at_def split: sum.split)

lemma commit_fold_frame [frame]:
  "rn_config (foldl (commit_at D ls k) rn xs) = rn_config rn" "rn_role (foldl (commit_at D ls k) rn xs) = rn_role rn"
  "rn_peers (foldl (commit_at D ls k) rn xs) = rn_peers rn"
  "rn_persistent (foldl (commit_at D ls k) rn xs) = rn_persistent rn"
  "rn_leader (foldl (commit_at D ls k) rn xs) = rn_leader rn" "rn_storage (foldl (commit_at D ls k) rn xs) = rn_storage rn"
  "rn_preVotes (foldl (commit_at D ls k) rn xs) = rn_preVotes rn"
  "rn_campaigns (foldl (commit_at D ls k) rn xs) = rn_campaigns rn"
  "rn_nextClosure (foldl (commit_at D ls k) rn xs) = rn_nextClosure rn"
  "rn_nextChan (foldl (commit_at D ls k) rn xs) = rn_nextChan rn"
  "rn_pendingCommits (foldl (commit_at D ls k) rn xs) = rn_pendingCommits rn"
  "rn_chans (foldl (commit_at D ls k) rn xs) = rn_chans rn"
  by (induction xs arbitrary: rn) (simp_all add: frame)

lemma checkAndUpdate_frame [frame]:
  "rn_config (checkAndUpdateCommitIndexLocked D rn) = rn_config rn"
  "rn_role (checkAndUpdateCommitIndexLocked D rn) = rn_role rn"
  "rn_peers (checkAndUpdateCommitIndexLocked D rn) = rn_peers rn"
  "rn_persistent (checkAndUpdateCommitIndexLocked D rn) = rn_persistent rn"
  "rn_leader (checkAndUpdateCommitIndexLocked D rn) = rn_leader rn"
  "rn_storage (checkAndUpdateCommitIndexLocked D rn) = rn_storage rn"
  "rn_preVotes (checkAndUpdateCommitIndexLocked D rn) = rn_preVotes rn"
  "rn_campaigns (checkAndUpdateCommitIndexLocked D rn) = rn_campaigns rn"
  "rn_nextClosure (checkAndUpdateCommitIndexLocked D rn) = rn_nextClosure rn"
  "rn_nextChan (checkAndUpdateCommitIndexLocked D rn) = rn_nextChan rn"
  by (simp_all add: checkAndUpdateCommitIndexLocked_def Let_def frame split: option.split)

section \<open>Handlers that start no round\<close>

definition keeps_rounds :: "'s raft_node \<Rightarrow> 's raft_node \<Rightarrow> calls \<Rightarrow> bool" where
  "keeps_rounds rn rn' cs \<longleftrightarrow> rn_campaigns rn' = rn_campaigns rn \<and> rn_preVotes rn' = rn_preVotes rn \<and>
     rn_nextClosure rn' = rn_nextClosure rn \<and> (\<forall>(p, call) \<in> set cs. \<exists>r k. call = AppendCall r k)"

lemma keeps_rounds_refl [simp]: "keeps_rounds rn rn []"
  by (simp add: keeps_rounds_def)

lemma keeps_rounds_trans:
  "keeps_rounds a b cs \<Longrightarrow> keeps_rounds b c ds \<Longrightarrow> keeps_rounds a c (cs @ ds)"
  by (auto simp: keeps_rounds_def)

lemma keeps_rounds_send: "sendAppendEntriesToPeerLocked D p rn = (rn', cs) \<Longrightarrow> keeps_rounds rn rn' cs"
  by (auto simp: sendAppendEntriesToPeerLocked_def Let_def keeps_rounds_def split: if_splits option.splits)

lemma keeps_rounds_send_to_all: "send_to_all D ps rn = (rn', cs) \<Longrightarrow> keeps_rounds rn rn' cs"
proof (induction ps arbitrary: rn cs)
  case (Cons p ps)
  obtain rn1 c where s: "sendAppendEntriesToPeerLocked D p rn = (rn1, c)" by fastforce
  obtain cs' where r: "send_to_all D ps rn1 = (rn', cs')" "cs = c @ cs'"
    using Cons.prems s by (auto split: prod.splits)
  from keeps_rounds_trans [OF keeps_rounds_send [OF s] Cons.IH [OF r(1)]] r(2) show ?case by simp
qed simp

lemma keeps_rounds_broadcast: "broadcastAppendEntriesLocked D rn = (rn', cs) \<Longrightarrow> keeps_rounds rn rn' cs"
  by (auto simp: broadcastAppendEntriesLocked_def split: if_splits dest: keeps_rounds_send_to_all)

lemma keeps_rounds_becomeLeader:
  assumes "becomeLeader D e rn = (rn', cs)"
  shows "keeps_rounds rn rn' cs"
proof (cases "rn_role rn = Candidate")
  case True
  from assms True obtain rn1 rn2 where b: "broadcastAppendEntriesLocked D (checkAndUpdateCommitIndexLocked D rn1) = (rn2, cs)"
    and r: "rn' = resetHeartbeatTimer e rn2" and k: "keeps_rounds rn rn1 []"
    by (auto simp: becomeLeader_def Let_def keeps_rounds_def split: prod.splits option.splits)
  from keeps_rounds_broadcast [OF b] k show ?thesis
    by (simp add: keeps_rounds_def r frame)
qed (use assms in \<open>simp add: becomeLeader_def\<close>)

lemma keeps_rounds_append_response:
  assumes "on_append_response D e p r k resp rn = Some (rn', cs)"
  shows "keeps_rounds rn rn' cs"
proof -
  obtain b rn1 where ct: "checkTerm D (aer_term resp) rn = (b, rn1)" by fastforce
  have k1: "keeps_rounds rn rn1 []"
    using checkTerm_frame(8-10) [of D "aer_term resp" rn] ct by (simp add: keeps_rounds_def)
  have "keeps_rounds rn1 rn' cs"
  proof (cases "b \<or> rn_role rn1 \<noteq> Leader \<or> CurrentTerm rn1 \<noteq> ae_term r \<or> rn_leader rn1 = None \<or> aer_success resp")
    case True
    with assms ct show ?thesis
      by (auto simp: on_append_response_def keeps_rounds_def frame Let_def split: bool.splits if_splits option.splits)
  next
    case False
    then obtain ls where "rn_leader rn1 = Some ls" by auto
    with False assms ct have "rn' = rn1 \<and> cs = [] \<or> (\<exists>ls'. sendAppendEntriesToPeerLocked D p (rn1\<lparr>rn_leader := ls'\<rparr>) = (rn', cs))"
      by (auto simp: on_append_response_def Let_def split: bool.splits if_splits)
    then show ?thesis by (auto dest!: keeps_rounds_send simp: keeps_rounds_def)
  qed
  with k1 show ?thesis by (auto simp: keeps_rounds_def)
qed

lemma keeps_rounds_propose:
  assumes "ProposeCommand D cmd rn = (res, rn', cs)"
  shows "keeps_rounds rn rn' cs"
proof -
  have b: "keeps_rounds rn rn' cs" if "broadcastAppendEntriesLocked D rn1 = (rn', cs)" "keeps_rounds rn rn1 []" for rn1
    using keeps_rounds_trans [OF that(2) keeps_rounds_broadcast [OF that(1)]] by simp
  show ?thesis
    using assms
    by (auto simp: ProposeCommand_def Let_def keeps_rounds_def frame split: if_splits prod.splits option.splits
        dest!: keeps_rounds_broadcast)
qed

lemma keeps_rounds_append_loop: "keeps_rounds rn (snd (append_loop D req i es rn)) []"
  by (induction D req i es rn rule: append_loop.induct)
    (auto simp: Let_def keeps_rounds_def split: sum.split prod.split option.split)

lemma keeps_rounds_follower_commit: "keeps_rounds rn (follower_commit D req rn) []"
  by (simp add: follower_commit_def Let_def keeps_rounds_def frame)

text \<open>The ways through \<^const>\<open>HandleAppendEntries\<close>.\<close>

lemma HandleAppendEntries_cases:
  assumes "HandleAppendEntries D e req rn = (res, rn')"
  obtains "rn' = rn" "\<not> aer_success res"
  | r rn1 where "rn1 = resetElectionTimer e ((snd (checkTerm D (ae_term req) rn))
        \<lparr>rn_role := r, rn_leaderID := ae_leader_id req, rn_lastLeaderContact := now e\<rparr>)"
      "r = (if rn_role (snd (checkTerm D (ae_term req) rn)) = Candidate then Follower
        else rn_role (snd (checkTerm D (ae_term req) rn)))"
      "\<not> ae_term req < CurrentTerm rn"
      "rn' = rn1 \<or> rn' = snd (append_loop D req 0 (ae_entries req) rn1) \<or>
       rn' = follower_commit D req (snd (append_loop D req 0 (ae_entries req) rn1))"
proof (cases "ae_term req < CurrentTerm rn")
  case True
  with assms that(1) show thesis by (auto simp: HandleAppendEntries_def)
next
  case False
  let ?rn = "snd (checkTerm D (ae_term req) rn)"
  let ?r = "if rn_role ?rn = Candidate then Follower else rn_role ?rn"
  let ?rn1 = "resetElectionTimer e (?rn\<lparr>rn_role := ?r, rn_leaderID := ae_leader_id req, rn_lastLeaderContact := now e\<rparr>)"
  have c: "?rn = (if CurrentTerm rn < ae_term req then ?rn else rn)" by (simp add: checkTerm_id)
  have t: "CurrentTerm ?rn = ae_term req" using False by (auto simp: effects)
  have eq: "(if rn_role ?rn = Candidate \<and> ae_term req = CurrentTerm ?rn then ?rn\<lparr>rn_role := Follower\<rparr> else ?rn) =
      ?rn\<lparr>rn_role := ?r\<rparr>"
    using t by simp
  have "rn' = ?rn1 \<or> rn' = snd (append_loop D req 0 (ae_entries req) ?rn1) \<or>
       rn' = follower_commit D req (snd (append_loop D req 0 (ae_entries req) ?rn1))"
    using assms False unfolding HandleAppendEntries_def c [symmetric] Let_def eq
    by (auto split: if_splits prod.splits bool.splits)
  with that(2) [OF refl refl False] show thesis by blast
qed

lemma keeps_rounds_HandleAppendEntries:
  assumes "HandleAppendEntries D e req rn = (res, rn')"
  shows "keeps_rounds rn rn' []"
  using assms
proof (cases rule: HandleAppendEntries_cases)
  case (2 r rn1)
  have "keeps_rounds rn rn1 []" unfolding 2(1) by (simp add: keeps_rounds_def frame)
  then have k: "keeps_rounds rn (snd (append_loop D req 0 (ae_entries req) rn1)) []"
    using keeps_rounds_trans [OF _ keeps_rounds_append_loop] by fastforce
  with \<open>keeps_rounds rn rn1 []\<close> 2(4) keeps_rounds_trans [OF k keeps_rounds_follower_commit]
  show ?thesis by auto
qed simp

lemma keeps_rounds_HandleRequestVote:
  assumes "HandleRequestVote D e req rn = (res, rn')"
  shows "keeps_rounds rn rn' []"
  using assms by (auto simp: HandleRequestVote_def Let_def keeps_rounds_def frame split: if_splits)

section \<open>The rounds of a node\<close>

text \<open>
  \<open>W\<close> is the set of the node's goroutines that still wait for a response.  The votes a campaign
  has counted come from distinct peers that cast them, and no goroutine of a counted peer is
  waiting any more.
\<close>

type_synonym open_calls = "(nat \<times> string \<times> rpc_call) set"

definition counted :: "string set \<Rightarrow> string \<Rightarrow> open_calls \<Rightarrow> (string, log_entry) spec \<Rightarrow> nat \<Rightarrow> campaign_round \<Rightarrow> bool" where
  "counted N n W a k cp \<longleftrightarrow> (\<exists>S. S \<subseteq> N - {n} \<and> card S + 1 = cp_votes cp \<and>
     (\<forall>v\<in>insert n S. (unat (cp_term cp), v, n) \<in> a_votes a) \<and>
     (\<forall>i p req. (i, p, VoteCall k req) \<in> W \<longrightarrow> p \<notin> S))"

definition rounds_ok :: "string set \<Rightarrow> string \<Rightarrow> 's raft_node \<Rightarrow> open_calls \<Rightarrow> (string, log_entry) spec \<Rightarrow> bool" where
  "rounds_ok N n rn W a \<longleftrightarrow>
     (\<forall>k cp. map_of (rn_campaigns rn) k = Some cp \<longrightarrow>
        k < rn_nextClosure rn \<and> cp_majority cp = card N div 2 + 1 \<and> counted N n W a k cp) \<and>
     (\<forall>i p k req. (i, p, VoteCall k req) \<in> W \<longrightarrow>
        (\<exists>cp. map_of (rn_campaigns rn) k = Some cp \<and> cp_term cp = rv_term req)) \<and>
     (\<forall>i j p k req req'. (i, p, VoteCall k req) \<in> W \<and> (j, p, VoteCall k req') \<in> W \<longrightarrow> i = j) \<and>
     (\<forall>i p k req. (i, p, PreVoteCall k req) \<in> W \<longrightarrow> map_of (rn_preVotes rn) k \<noteq> None)"

lemma rounds_okD:
  assumes "rounds_ok N n rn W a"
  shows "map_of (rn_campaigns rn) k = Some cp \<Longrightarrow> k < rn_nextClosure rn"
    "map_of (rn_campaigns rn) k = Some cp \<Longrightarrow> cp_majority cp = card N div 2 + 1"
    "map_of (rn_campaigns rn) k = Some cp \<Longrightarrow> counted N n W a k cp"
    "(i, p, VoteCall k req) \<in> W \<Longrightarrow> \<exists>cp. map_of (rn_campaigns rn) k = Some cp \<and> cp_term cp = rv_term req"
    "(i, p, VoteCall k req) \<in> W \<Longrightarrow> (j, p, VoteCall k req') \<in> W \<Longrightarrow> i = j"
    "(i, p, PreVoteCall k req) \<in> W \<Longrightarrow> map_of (rn_preVotes rn) k \<noteq> None"
  using assms unfolding rounds_ok_def by blast+

lemma rounds_okI:
  assumes "\<And>k cp. map_of (rn_campaigns rn) k = Some cp \<Longrightarrow> k < rn_nextClosure rn"
    and "\<And>k cp. map_of (rn_campaigns rn) k = Some cp \<Longrightarrow> cp_majority cp = card N div 2 + 1"
    and "\<And>k cp. map_of (rn_campaigns rn) k = Some cp \<Longrightarrow> counted N n W a k cp"
    and "\<And>i p k req. (i, p, VoteCall k req) \<in> W \<Longrightarrow>
      \<exists>cp. map_of (rn_campaigns rn) k = Some cp \<and> cp_term cp = rv_term req"
    and "\<And>i j p k req req'. (i, p, VoteCall k req) \<in> W \<Longrightarrow> (j, p, VoteCall k req') \<in> W \<Longrightarrow> i = j"
    and "\<And>i p k req. (i, p, PreVoteCall k req) \<in> W \<Longrightarrow> map_of (rn_preVotes rn) k \<noteq> None"
  shows "rounds_ok N n rn W a"
  unfolding rounds_ok_def
  using assms by (intro conjI allI impI) blast+

lemma counted_mono:
  assumes "counted N n W a k cp" and "a_votes a \<subseteq> a_votes a'"
    and W: "\<And>i p req. (i, p, VoteCall k req) \<in> W' \<Longrightarrow> (i, p, VoteCall k req) \<in> W"
  shows "counted N n W' a' k cp"
proof -
  from assms(1) obtain S where S: "S \<subseteq> N - {n}" "card S + 1 = cp_votes cp"
    "\<forall>v\<in>insert n S. (unat (cp_term cp), v, n) \<in> a_votes a" "\<forall>i p req. (i, p, VoteCall k req) \<in> W \<longrightarrow> p \<notin> S"
    unfolding counted_def by blast
  moreover have "\<forall>v\<in>insert n S. (unat (cp_term cp), v, n) \<in> a_votes a'"
    using S(3) assms(2) by blast
  moreover have "\<forall>i p req. (i, p, VoteCall k req) \<in> W' \<longrightarrow> p \<notin> S" using S(4) W by blast
  ultimately show ?thesis unfolding counted_def by blast
qed

definition new_calls :: "nat \<Rightarrow> calls \<Rightarrow> open_calls" where
  "new_calls b cs = {(b + j, cs ! j) | j. j < length cs}"

lemma new_calls_in: "(i, p, call) \<in> new_calls b cs \<Longrightarrow> (p, call) \<in> set cs"
  by (auto simp: new_calls_def)

text \<open>Same votes, same rounds, fewer goroutines waiting for votes.\<close>

lemma rounds_mono:
  assumes ok: "rounds_ok N n rn W a" and v: "a_votes a \<subseteq> a_votes a'"
    and k: "rn_campaigns rn' = rn_campaigns rn" "rn_preVotes rn' = rn_preVotes rn"
      "rn_nextClosure rn' = rn_nextClosure rn"
    and W: "\<And>i p call. (i, p, call) \<in> W' \<Longrightarrow> (i, p, call) \<in> W \<or> (\<exists>r m. call = AppendCall r m)"
  shows "rounds_ok N n rn' W' a'"
proof -
  have vw: "(i, p, VoteCall x req) \<in> W' \<Longrightarrow> (i, p, VoteCall x req) \<in> W"
    "(i, p, PreVoteCall x req) \<in> W' \<Longrightarrow> (i, p, PreVoteCall x req) \<in> W" for i p x req
    using W by blast+
  show ?thesis
  proof (rule rounds_okI, goal_cases)
    case (1 x cp)
    then show ?case using rounds_okD(1) [OF ok, of x cp] k by simp
  next
    case (2 x cp)
    then show ?case using rounds_okD(2) [OF ok, of x cp] k by simp
  next
    case (3 x cp)
    then have "counted N n W a x cp" using rounds_okD(3) [OF ok, of x cp] k by simp
    then show ?case using v vw(1) by (rule counted_mono)
  next
    case (4 i p x r)
    then show ?case using rounds_okD(4) [OF ok vw(1)] k by simp
  next
    case (5 i j p x r r')
    then show ?case using rounds_okD(5) [OF ok vw(1) vw(1)] by blast
  next
    case (6 i p x r)
    then show ?case using rounds_okD(6) [OF ok vw(2)] k by simp
  qed
qed

lemma rounds_keep:
  assumes "rounds_ok N n rn W a" and "a_votes a \<subseteq> a_votes a'" and k: "keeps_rounds rn rn' cs"
  shows "rounds_ok N n rn' (W \<union> new_calls b cs) a'"
proof (rule rounds_mono [OF assms(1,2)])
  fix i p call
  assume "(i, p, call) \<in> W \<union> new_calls b cs"
  then show "(i, p, call) \<in> W \<or> (\<exists>r m. call = AppendCall r m)"
    using k by (auto simp: keeps_rounds_def dest!: new_calls_in)
qed (use k in \<open>simp_all add: keeps_rounds_def\<close>)

text \<open>A new campaign.\<close>

lemma rounds_new_campaign:
  assumes ok: "rounds_ok N n rn W a" and v: "a_votes a \<subseteq> a_votes a'"
    and mine: "(unat (rv_term req), n, n) \<in> a_votes a'"
    and cp: "cp_term cp = rv_term req" "cp_votes cp = 1" "cp_majority cp = card N div 2 + 1"
    and c: "rn_campaigns rn' = AList.update (rn_nextClosure rn) cp (rn_campaigns rn)"
      "rn_preVotes rn' = rn_preVotes rn" "rn_nextClosure rn' = Suc (rn_nextClosure rn)"
    and ps: "distinct ps" and cs: "cs = map (\<lambda>p. (p, VoteCall (rn_nextClosure rn) req)) ps"
  shows "rounds_ok N n rn' (W \<union> new_calls b cs) a'"
proof -
  let ?k = "rn_nextClosure rn" and ?W = "W \<union> new_calls b cs"
  have old: "x < ?k" if "(i, p, VoteCall x r) \<in> W" for i p x r
    using rounds_okD(4) [OF ok that] rounds_okD(1) [OF ok] by blast
  have inv: "x = ?k \<and> r = req \<and> (\<exists>j < length ps. i = b + j \<and> p = ps ! j)"
    if "(i, p, VoteCall x r) \<in> new_calls b cs" for i p x r
    using that by (auto simp: new_calls_def cs)
  have nopre: "(i, p, PreVoteCall x r) \<notin> new_calls b cs" for i p x r
    by (auto simp: new_calls_def cs)
  have "counted N n ?W a' ?k cp"
    using cp mine by (auto simp: counted_def intro!: exI [of _ "{}"])
  moreover have "counted N n ?W a' x c" if "map_of (rn_campaigns rn) x = Some c" for x c
  proof -
    have "x \<noteq> ?k" using rounds_okD(1) [OF ok that] by simp
    then have "(i, p, VoteCall x r) \<in> ?W \<Longrightarrow> (i, p, VoteCall x r) \<in> W" for i p r
      using inv by blast
    with rounds_okD(3) [OF ok that] v show ?thesis by (rule counted_mono)
  qed
  moreover have "x < Suc ?k \<and> cp_majority c = card N div 2 + 1" if "map_of (rn_campaigns rn) x = Some c" for x c
    using rounds_okD(1,2) [OF ok that] by simp
  ultimately have 1: "\<forall>x c. map_of (rn_campaigns rn') x = Some c \<longrightarrow>
      x < rn_nextClosure rn' \<and> cp_majority c = card N div 2 + 1 \<and> counted N n ?W a' x c"
    using cp(3) c by (auto simp: update_conv')
  have 2: "\<exists>c. map_of (rn_campaigns rn') x = Some c \<and> cp_term c = rv_term r" if "(i, p, VoteCall x r) \<in> ?W" for i p x r
  proof (cases "(i, p, VoteCall x r) \<in> W")
    case True
    with old [OF True] rounds_okD(4) [OF ok True] c(1) show ?thesis by (auto simp: update_conv')
  next
    case False
    with that inv cp(1) c(1) show ?thesis by (auto simp: update_conv')
  qed
  have 3: "i = j" if "(i, p, VoteCall x r) \<in> ?W" "(j, p, VoteCall x r') \<in> ?W" for i j p x r r'
  proof (cases "x = ?k")
    case True
    with that old have "(i, p, VoteCall x r) \<in> new_calls b cs" "(j, p, VoteCall x r') \<in> new_calls b cs"
      by blast+
    with inv ps show ?thesis by (metis distinct_conv_nth)
  next
    case False
    with that inv have "(i, p, VoteCall x r) \<in> W" "(j, p, VoteCall x r') \<in> W" by blast+
    then show ?thesis by (rule rounds_okD(5) [OF ok])
  qed
  have 4: "map_of (rn_preVotes rn') x \<noteq> None" if "(i, p, PreVoteCall x r) \<in> ?W" for i p x r
    using that nopre rounds_okD(6) [OF ok, of i p x r] c(2) by auto
  show ?thesis
    by (rule rounds_okI) (use 1 in blast, use 1 in blast, use 1 in blast, use 2 in blast, use 3 in blast, use 4 in blast)
qed

text \<open>A new pre-vote round.\<close>

lemma rounds_new_prevote:
  assumes ok: "rounds_ok N n rn W a" and v: "a_votes a \<subseteq> a_votes a'"
    and c: "rn_campaigns rn' = rn_campaigns rn" "rn_preVotes rn' = AList.update (rn_nextClosure rn) pv (rn_preVotes rn)"
      "rn_nextClosure rn' = Suc (rn_nextClosure rn)"
    and cs: "cs = map (\<lambda>p. (p, PreVoteCall (rn_nextClosure rn) req)) ps"
  shows "rounds_ok N n rn' (W \<union> new_calls b cs) a'"
proof -
  let ?W = "W \<union> new_calls b cs"
  have vw: "(i, p, VoteCall x r) \<in> ?W \<Longrightarrow> (i, p, VoteCall x r) \<in> W" for i p x r
    by (auto simp: new_calls_def cs)
  have pw: "(i, p, PreVoteCall x r) \<in> ?W \<Longrightarrow> (i, p, PreVoteCall x r) \<in> W \<or> x = rn_nextClosure rn" for i p x r
    by (auto simp: new_calls_def cs)
  show ?thesis
  proof (rule rounds_okI, goal_cases)
    case (1 x cp)
    then show ?case using rounds_okD(1) [OF ok, of x cp] c by simp
  next
    case (2 x cp)
    then show ?case using rounds_okD(2) [OF ok, of x cp] c by simp
  next
    case (3 x cp)
    then have "counted N n W a x cp" using rounds_okD(3) [OF ok, of x cp] c by simp
    then show ?case using v vw by (rule counted_mono)
  next
    case (4 i p x r)
    then show ?case using rounds_okD(4) [OF ok vw] c by simp
  next
    case (5 i j p x r r')
    then show ?case using rounds_okD(5) [OF ok vw vw] by blast
  next
    case (6 i p x r)
    then show ?case using pw [OF 6] rounds_okD(6) [OF ok, of i p x r] c(2) by (auto simp: update_conv')
  qed
qed

text \<open>A vote is counted, once.\<close>

lemma rounds_count:
  assumes ok: "rounds_ok N n rn W a" and w: "(i, p, VoteCall k req) \<in> W" and p: "p \<in> N - {n}" and n: "n \<in> N" and fin: "finite N"
    and vote: "(unat (rv_term req), p, n) \<in> a_votes a" and cp: "map_of (rn_campaigns rn) k = Some cp"
  shows "rounds_ok N n (rn\<lparr>rn_campaigns := AList.update k (cp\<lparr>cp_votes := cp_votes cp + 1\<rparr>) (rn_campaigns rn)\<rparr>)
      {x \<in> W. fst x \<noteq> i} a"
    and "cp_majority cp \<le> cp_votes cp + 1 \<Longrightarrow>
      \<exists>Q. majority N Q \<and> (\<forall>v\<in>Q. (unat (cp_term cp), v, n) \<in> a_votes a)"
proof -
  let ?W = "{x \<in> W. fst x \<noteq> i}" and ?cp = "cp\<lparr>cp_votes := cp_votes cp + 1\<rparr>"
  have t: "cp_term cp = rv_term req" using rounds_okD(4) [OF ok w] cp by simp
  from rounds_okD(3) [OF ok cp] obtain S where S: "S \<subseteq> N - {n}" "card S + 1 = cp_votes cp"
    "\<forall>v\<in>insert n S. (unat (cp_term cp), v, n) \<in> a_votes a" "\<forall>i p req. (i, p, VoteCall k req) \<in> W \<longrightarrow> p \<notin> S"
    unfolding counted_def by blast
  have fS: "finite S" using S(1) fin by (auto intro: finite_subset)
  have pS: "p \<notin> S" using S(4) w by blast
  have "counted N n ?W a k ?cp"
    unfolding counted_def
  proof (intro exI [of _ "insert p S"] conjI allI impI)
    fix j q r
    assume "(j, q, VoteCall k r) \<in> ?W"
    then have "q \<noteq> p" using rounds_okD(5) [OF ok w] by auto
    with \<open>(j, q, VoteCall k r) \<in> ?W\<close> S(4) show "q \<notin> insert p S" by auto
  qed (use S p pS fS vote t in auto)
  then have c: "counted N n ?W a x c"
    if "map_of (AList.update k ?cp (rn_campaigns rn)) x = Some c" for x c
    using that counted_mono [OF rounds_okD(3) [OF ok] order_refl, of x c ?W]
    by (auto simp: update_conv' split: if_splits)
  show "rounds_ok N n (rn\<lparr>rn_campaigns := AList.update k ?cp (rn_campaigns rn)\<rparr>) ?W a"
  proof (rule rounds_okI, goal_cases)
    case (4 j q x r)
    then show ?case using rounds_okD(4) [OF ok, of j q x r] cp by (auto simp: update_conv')
  next
    case (5 j l q x r r')
    then show ?case using rounds_okD(5) [OF ok, of j q x r l r'] by simp
  next
    case (6 j q x r)
    then show ?case using rounds_okD(6) [OF ok, of j q x r] by simp
  qed (use c rounds_okD(1,2) [OF ok] cp in \<open>auto simp: update_conv' split: if_splits\<close>)
  assume maj: "cp_majority cp \<le> cp_votes cp + 1"
  have "card (insert n (insert p S)) = card S + 2"
    using S(1) p pS fS by (subst card_insert_disjoint) auto
  then have "majority N (insert n (insert p S))"
    using maj rounds_okD(2) [OF ok cp] S(1,2) p n by (auto simp: majority_def)
  then show "\<exists>Q. majority N Q \<and> (\<forall>v\<in>Q. (unat (cp_term cp), v, n) \<in> a_votes a)"
    using S(3) vote t by (intro exI [of _ "insert n (insert p S)"]) auto
qed

section \<open>Handlers that start rounds\<close>

lemma rounds_campaign:
  assumes conf: "configured N n rn" and fin: "finite N" and n: "n \<in> N" and ok: "rounds_ok N n rn W a"
    and v: "a_votes a \<subseteq> a_votes a'" and mine: "(unat (CurrentTerm rn + 1), n, n) \<in> a_votes a'"
    and c: "campaignLocked D e rn = (rn', cs)"
  shows "rounds_ok N n rn' (W \<union> new_calls b cs) a'"
proof -
  let ?t = "CurrentTerm rn + 1"
  let ?st = "snd (SaveVotedFor (d_backend D) n (snd (SaveTerm (d_backend D) ?t (rn_storage rn))))"
  have id: "node_id rn = n" using configuredD(1) [OF conf] .
  show ?thesis
  proof (cases "(length (rn_peers rn) + 1) div 2 + 1 \<le> 1")
    case True
    then obtain rn1 where "becomeLeader D e rn1 = (rn', cs)" and k: "keeps_rounds rn rn1 []"
      using c by (auto simp: campaignLocked_def Let_def keeps_rounds_def frame)
    from keeps_rounds_trans [OF k keeps_rounds_becomeLeader [OF this(1)]]
    have "keeps_rounds rn rn' cs" by simp
    with ok v show ?thesis by (rule rounds_keep)
  next
    case False
    let ?req = "\<lparr>rv_term = ?t, rv_candidate_id = n, rv_last_log_index = fst (LastIndex (d_backend D) ?st),
      rv_last_log_term = fst (LastTerm (d_backend D) ?st), rv_pre_vote = False\<rparr>"
    let ?cp = "\<lparr>cp_term = ?t, cp_votes = 1, cp_majority = (length (rn_peers rn) + 1) div 2 + 1\<rparr>"
    have "cs = map (\<lambda>p. (p, VoteCall (rn_nextClosure rn) ?req)) (keys (rn_peers rn))"
      "rn_campaigns rn' = AList.update (rn_nextClosure rn) ?cp (rn_campaigns rn)"
      "rn_preVotes rn' = rn_preVotes rn" "rn_nextClosure rn' = Suc (rn_nextClosure rn)"
      using c False id by (auto simp: campaignLocked_def Let_def frame)
    note f = this
    show ?thesis
      using configuredD(2) [OF conf] configured_card [OF conf fin n] mine
      by (intro rounds_new_campaign [OF ok v _ _ _ _ f(2-4) _ f(1)]) simp_all
  qed
qed

text \<open>What a handler that returns the calls \<open>cs\<close> has to keep.\<close>

definition rounds_kept ::
    "string set \<Rightarrow> string \<Rightarrow> 's raft_node \<Rightarrow> (string, log_entry) spec \<Rightarrow> 's raft_node \<Rightarrow> calls \<Rightarrow>
     (string, log_entry) spec \<Rightarrow> bool" where
  "rounds_kept N n rn a rn' cs a' \<longleftrightarrow>
     (\<forall>W b. rounds_ok N n rn W a \<longrightarrow> rounds_ok N n rn' (W \<union> new_calls b cs) a')"

lemma rounds_kept_keeps:
  "keeps_rounds rn rn' cs \<Longrightarrow> a_votes a \<subseteq> a_votes a' \<Longrightarrow> rounds_kept N n rn a rn' cs a'"
  unfolding rounds_kept_def by (blast intro: rounds_keep)

lemma rounds_kept_campaign:
  assumes "configured N n rn" and "finite N" and "n \<in> N" and "a_votes a \<subseteq> a_votes a'"
    and "(unat (CurrentTerm rn + 1), n, n) \<in> a_votes a'" and "campaignLocked D e rn = (rn', cs)"
  shows "rounds_kept N n rn a rn' cs a'"
  unfolding rounds_kept_def using rounds_campaign [OF assms(1-3) _ assms(4-6)] by blast

lemma rounds_kept_start:
  assumes "rounds_kept N n rn1 a rn' cs a'" and "keeps_rounds rn rn1 []"
  shows "rounds_kept N n rn a rn' cs a'"
proof -
  have "rounds_ok N n rn1 W a" if "rounds_ok N n rn W a" for W
    using rounds_mono [OF that order_refl, of rn1 W] assms(2) by (simp add: keeps_rounds_def)
  with assms(1) show ?thesis unfolding rounds_kept_def by blast
qed

lemma rounds_kept_prevote:
  assumes "a_votes a \<subseteq> a_votes a'"
    and "rn_campaigns rn' = rn_campaigns rn" and "rn_preVotes rn' = AList.update (rn_nextClosure rn) pv (rn_preVotes rn)"
    and "rn_nextClosure rn' = Suc (rn_nextClosure rn)"
    and "cs = map (\<lambda>p. (p, PreVoteCall (rn_nextClosure rn) req)) ps"
  shows "rounds_kept N n rn a rn' cs a'"
  unfolding rounds_kept_def using rounds_new_prevote [OF _ assms] by blast

text \<open>An update of a round that exists.\<close>

lemma rounds_kept_preVotes_update:
  assumes "a_votes a \<subseteq> a_votes a'"
  shows "rounds_kept N n rn a (rn\<lparr>rn_preVotes := AList.update k pv (rn_preVotes rn)\<rparr>) [] a'"
  unfolding rounds_kept_def
proof (intro allI impI)
  fix W b
  assume ok: "rounds_ok N n rn W a"
  have "counted N n W a' x cp" if "counted N n W a x cp" for x cp
    using counted_mono [OF that assms] .
  with ok show "rounds_ok N n (rn\<lparr>rn_preVotes := AList.update k pv (rn_preVotes rn)\<rparr>) (W \<union> new_calls b []) a'"
    unfolding rounds_ok_def new_calls_def by (simp add: update_conv')
qed

end
