(* ===== verification/Leader_Sim.thy ===== *)
theory Leader_Sim
  imports Restart_Sim Closures
begin

text \<open>
  Campaigns, leadership and replication as steps of the abstract protocol: winning an election,
  appending, counting acknowledgements, committing, and the requests a leader sends.
\<close>

section \<open>The calls a node starts\<close>

fun call_ok :: "string \<Rightarrow> (string, log_entry) spec \<Rightarrow> rpc_call \<Rightarrow> bool" where
  "call_ok n a (PreVoteCall k req) = rv_pre_vote req"
| "call_ok n a (VoteCall k req) = vote_request_ok n req a"
| "call_ok n a (AppendCall r k) = (append_request_ok n r a \<and> k = length (ae_entries r))"

definition calls_ok :: "string set \<Rightarrow> string \<Rightarrow> (string, log_entry) spec \<Rightarrow> calls \<Rightarrow> bool" where
  "calls_ok N n a cs \<longleftrightarrow> (\<forall>(p, call) \<in> set cs. p \<in> N - {n} \<and> call_ok n a call)"

lemma call_ok_mono: "call_ok n a call \<Longrightarrow> hist_le a a' \<Longrightarrow> call_ok n a' call"
  by (cases call) (auto intro: vote_request_ok_mono append_request_ok_mono)

lemma calls_ok_Nil [simp]: "calls_ok N n a []"
  by (simp add: calls_ok_def)

lemma calls_ok_append [simp]: "calls_ok N n a (xs @ ys) \<longleftrightarrow> calls_ok N n a xs \<and> calls_ok N n a ys"
  by (auto simp: calls_ok_def)

context engine
begin

lemma sim_timers:
  "sim N n (resetElectionTimer e rn) a = sim N n rn a" "sim N n (resetHeartbeatTimer e rn) a = sim N n rn a"
  by (simp_all add: sim_defs mirrors_def leading_def frame)

section \<open>Sending\<close>

lemma leader_facts:
  assumes a: "spec_ok fits N a" and n: "n \<in> N" and sim: "sim N n rn a" and L: "rn_role rn = Leader"
  shows "leading N n rn (a_acks a)" "a_llog a (unat (CurrentTerm rn)) = Some (abs_log (Log rn))"
    "a_lead a (unat (CurrentTerm rn)) = n" "CurrentTerm rn \<noteq> 0"
    "(unat (CurrentTerm rn), unat (commitIndex rn)) \<in> a_lcommits a" "mirroring rn"
proof -
  have r: "a_role a n = Leader" "a_term a n = unat (CurrentTerm rn)" "a_log a n = abs_log (Log rn)"
    "a_commit a n = unat (commitIndex rn)"
    using sim L by (simp_all add: sim_defs)
  from leaderD [OF spec_okD(10) [OF a] r(1)] r
  show "a_llog a (unat (CurrentTerm rn)) = Some (abs_log (Log rn))"
    "a_lead a (unat (CurrentTerm rn)) = n" "CurrentTerm rn \<noteq> 0" by auto
  from commitD(3) [OF spec_okD(7) [OF a] r(1)] r
  show "(unat (CurrentTerm rn), unat (commitIndex rn)) \<in> a_lcommits a" by simp
  show "leading N n rn (a_acks a)" "mirroring rn" using sim L by (simp_all add: sim_defs)
qed

text \<open>Only the leader state and the metrics change when a request is sent.\<close>

lemma sim_leader_update:
  assumes "sim N n rn a" and "leading N n (rn\<lparr>rn_leader := ls\<rparr>) (a_acks a)"
  shows "sim N n (rn\<lparr>rn_leader := ls, rn_metrics := m\<rparr>) a"
  using assms by (simp add: sim_defs leading_def)

lemma send_sim:
  assumes a: "spec_ok fits N a" and n: "n \<in> N" and sim: "sim N n rn a" and p: "p \<in> N - {n}"
    and s: "sendAppendEntriesToPeerLocked D p rn = (rn', cs)"
  shows "sim N n rn' a \<and> calls_ok N n a cs \<and> rn_role rn' = rn_role rn"
proof (cases "rn_role rn = Leader")
  case False
  with s sim show ?thesis by (auto simp: sendAppendEntriesToPeerLocked_def)
next
  case True
  note f = leader_facts [OF a n sim True]
  from f(1) obtain ls where ls: "rn_leader rn = Some ls" and
    nx: "0 < unat (map_get 0 (ls_NextIndex ls) p)" "unat (map_get 0 (ls_NextIndex ls) p) \<le> length (Log rn)"
    using p unfolding leading_def by blast
  let ?x = "map_get 0 (ls_NextIndex ls) p"
  let ?es = "take maxEntriesPerAppend (drop (unat ?x) (Log rn))"
  have x0: "?x \<noteq> 0" using nx(1) by auto
  have px: "unat (?x - 1) = unat ?x - 1"
    using nx(1) by (simp add: unat_sub word_le_nat_alt)
  have g: "GetEntry B (?x - 1) (rn_storage rn) = Inr (Log rn ! (unat ?x - 1))"
    using mirrors_GetEntry_in [OF f(6), of "?x - 1"] nx px by simp
  have gf: "fst (GetEntriesFrom B ?x (rn_storage rn)) = drop (unat ?x) (Log rn)"
    using f(6) by (simp add: mirrors_def GetEntriesFrom_ok)
  let ?req = "\<lparr>ae_term = CurrentTerm rn, ae_leader_id = node_id rn, ae_prev_log_index = ?x - 1,
    ae_prev_log_term = le_term (Log rn ! (unat ?x - 1)), ae_entries = ?es, ae_leader_commit = commitIndex rn\<rparr>"
  have "rn' = rn\<lparr>rn_leader := Some ls, rn_metrics := IncAppendEntriesTotal (rn_metrics rn)\<rparr>"
    "cs = [(p, AppendCall ?req (length ?es))]"
    using s True ls x0 g gf by (auto simp: sendAppendEntriesToPeerLocked_def Let_def)
  moreover have "sim N n (rn\<lparr>rn_leader := Some ls, rn_metrics := IncAppendEntriesTotal (rn_metrics rn)\<rparr>) a"
    using sim f(1) ls by (intro sim_leader_update) (simp_all add: leading_def)
  moreover have "append_request_ok n ?req a"
    using f nx px by (auto simp: append_request_ok_def take_map drop_map min_def)
  ultimately show ?thesis using p by (simp add: calls_ok_def)
qed

lemma send_to_all_sim:
  assumes a: "spec_ok fits N a" and n: "n \<in> N"
  shows "sim N n rn a \<Longrightarrow> set ps \<subseteq> N - {n} \<Longrightarrow> send_to_all D ps rn = (rn', cs) \<Longrightarrow>
    sim N n rn' a \<and> calls_ok N n a cs \<and> rn_role rn' = rn_role rn"
proof (induction ps arbitrary: rn cs)
  case (Cons p ps)
  obtain rn1 c where s: "sendAppendEntriesToPeerLocked D p rn = (rn1, c)" by fastforce
  obtain cs' where r: "send_to_all D ps rn1 = (rn', cs')" "cs = c @ cs'"
    using Cons.prems(3) s by (auto split: prod.splits)
  from send_sim [OF a n Cons.prems(1) _ s] Cons.prems(2)
  have "sim N n rn1 a" "calls_ok N n a c" "rn_role rn1 = rn_role rn" by auto
  with Cons.IH [OF _ _ r(1)] Cons.prems(2) r(2) show ?case by simp
qed simp

lemma broadcast_sim:
  assumes a: "spec_ok fits N a" and n: "n \<in> N" and sim: "sim N n rn a"
    and b: "broadcastAppendEntriesLocked D rn = (rn', cs)"
  shows "sim N n rn' a \<and> calls_ok N n a cs \<and> rn_role rn' = rn_role rn"
proof (cases "rn_role rn = Leader")
  case True
  then have s: "send_to_all D (keys (rn_peers rn)) rn = (rn', cs)"
    using b by (simp add: broadcastAppendEntriesLocked_def)
  have "set (keys (rn_peers rn)) \<subseteq> N - {n}"
    using configuredD(3) [of N n rn] sim by (simp add: node_sim_def)
  from send_to_all_sim [OF a n sim this s] show ?thesis .
qed (use b sim in \<open>auto simp: broadcastAppendEntriesLocked_def\<close>)

section \<open>Appending\<close>

lemma leader_append_sim:
  assumes a: "spec_ok fits N a" and n: "n \<in> N" and sim: "sim N n rn a" and L: "rn_role rn = Leader"
    and len: "length (Log rn) < 2 ^ 64 - 1" and fit: "fits cmd"
    and e: "e = \<lparr>le_index = fst (LastIndex B (rn_storage rn)) + 1, le_term = CurrentTerm rn, le_command = cmd\<rparr>"
  shows "\<exists>st a'. AppendEntries B [e] (rn_storage rn) = (None, st) \<and>
    moves N n a ((set_Log (Log rn @ [e]) rn)\<lparr>rn_storage := st\<rparr>) a'"
proof -
  note f = leader_facts [OF a n sim L]
  have idx: "le_index e = of_nat (length (Log rn))"
    using mirrors_LastIndex_Suc [OF f(6)] e by (simp add: u64_eq_iff)
      (metis f(6) length_0_conv log_okD(5) mirrors_log_ok unat_of_nat_u64)
  then have num: "numbered (length (Log rn)) [e]" by (simp add: numbered_single)
  obtain st where st: "AppendEntries B [e] (rn_storage rn) = (None, st)"
    and m': "mirroring ((set_Log (Log rn @ [e]) rn)\<lparr>rn_storage := st\<rparr>)"
    using mirrors_append [OF f(6) num] len fit e by auto
  let ?rn = "(set_Log (Log rn @ [e]) rn)\<lparr>rn_storage := st\<rparr>"
  let ?L = "a_log a n @ [(a_term a n, e)]"
  let ?a = "a\<lparr>a_log := (a_log a)(n := ?L), a_llog := (a_llog a)(a_term a n := Some ?L),
       a_acks := insert (a_term a n, n, length ?L - 1) (a_acks a)\<rparr>"
  have r: "a_term a n = unat (CurrentTerm rn)" "a_log a n = abs_log (Log rn)" "a_role a n = Leader"
    using sim L by (simp_all add: sim_defs)
  have ab: "abs_entry e = (a_term a n, e)" using e r(1) by (simp add: abs_entry_def)
  have "leading N n ?rn (a_acks ?a)"
  proof -
    from f(1) obtain ls where "rn_leader rn = Some ls"
      "\<forall>j < length (Log rn). (unat (CurrentTerm rn), n, j) \<in> a_acks a"
      "distinct (keys (ls_MatchIndex ls))" "fst ` set (ls_MatchIndex ls) = N - {n}"
      "\<forall>(p, m) \<in> set (ls_MatchIndex ls). \<forall>j. 0 < j \<and> j \<le> unat m \<longrightarrow> (unat (CurrentTerm rn), p, j) \<in> a_acks a"
      "\<forall>p\<in>N - {n}. 0 < unat (map_get 0 (ls_NextIndex ls) p) \<and>
        unat (map_get 0 (ls_NextIndex ls) p) \<le> length (Log rn)"
      unfolding leading_def by blast
    then show ?thesis
      using r(1,2) unfolding leading_def by (intro exI [of _ ls]) (auto simp: less_Suc_eq le_Suc_eq)
  qed
  then have "sim N n ?rn ?a"
    using sim L m' ab by (simp add: sim_defs)
  moreover have "spec_step N a ?a"
    using n r(3) by (intro spec_step.append) simp_all
  moreover have "hist_ok fits ?a"
  proof -
    have old: "\<forall>x\<in>set (Log rn). fits (le_command x)"
      using spec_okD(4) [OF a] f(2) unfolding hist_ok_def by fastforce
    then have "\<forall>x\<in>set (Log rn @ [e]). fits (le_command x)" using fit e by auto
    moreover have "log_ok (Log rn @ [e])" using mirrors_log_ok [OF m'] by simp
    moreover have "?L = abs_log (Log rn @ [e])" using r(2) ab by simp
    ultimately show ?thesis
      using spec_okD(4) [OF a] unfolding hist_ok_def by (auto simp del: map_append)
  qed
  ultimately have "moves N n a ?rn ?a"
    using a by (intro moves_step) (simp_all add: same_at_def)
  with st show ?thesis by blast
qed

section \<open>Committing\<close>

text \<open>What the loop of the commit rule changes: the commit index, and nothing else that counts.\<close>

definition commit_progress ::
    "string \<Rightarrow> 's raft_node \<Rightarrow> (string, log_entry) spec \<Rightarrow> 's raft_node \<Rightarrow> (string, log_entry) spec \<Rightarrow> bool" where
  "commit_progress n rn a rn' a' \<longleftrightarrow>
     rn_storage rn' = rn_storage rn \<and> rn_config rn' = rn_config rn \<and> rn_peers rn' = rn_peers rn \<and>
     rn_persistent rn' = rn_persistent rn \<and> rn_leader rn' = rn_leader rn \<and> rn_role rn' = rn_role rn \<and>
     rn_kvStore rn' = rn_kvStore rn \<and> lastApplied rn' = lastApplied rn \<and>
     a_term a' n = a_term a n \<and> a_vote a' n = a_vote a n \<and> a_log a' n = a_log a n \<and>
     a_role a' n = a_role a n \<and> a_commit a' n = unat (commitIndex rn') \<and> a_acks a' = a_acks a \<and>
     a_llog a' = a_llog a"

lemma match_majority:
  assumes lead: "leading N n rn (a_acks a)" and ls: "rn_leader rn = Some ls" and conf: "configured N n rn"
    and n: "n \<in> N" and fin: "finite N" and x: "0 < unat x" "unat x < length (Log rn)"
    and maj: "(length (rn_peers rn) + 1) div 2 + 1 \<le> 1 + length (filter (\<lambda>(p, m). x \<le> m) (ls_MatchIndex ls))"
  shows "quorum_acked N a (unat (CurrentTerm rn)) (unat x)"
proof -
  let ?F = "filter (\<lambda>(p, m). x \<le> m) (ls_MatchIndex ls)"
  let ?Q = "insert n (fst ` set ?F)"
  have l: "distinct (keys (ls_MatchIndex ls))" "fst ` set (ls_MatchIndex ls) = N - {n}"
    "\<forall>j < length (Log rn). (unat (CurrentTerm rn), n, j) \<in> a_acks a"
    "\<forall>(p, m) \<in> set (ls_MatchIndex ls). \<forall>j. 0 < j \<and> j \<le> unat m \<longrightarrow> (unat (CurrentTerm rn), p, j) \<in> a_acks a"
    using lead ls unfolding leading_def by auto
  have sub: "fst ` set ?F \<subseteq> N - {n}" using l(2) by auto
  have "distinct (keys ?F)" using l(1) by (rule distinct_map_filter)
  then have "card (fst ` set ?F) = length ?F" using distinct_card [of "keys ?F"] by simp
  moreover have "n \<notin> fst ` set ?F" using sub by auto
  ultimately have "card ?Q = Suc (length ?F)" by simp
  then have "majority N ?Q"
    using maj configured_card [OF conf fin n] sub n
    by (auto simp: majority_def)
  moreover have "(unat (CurrentTerm rn), v, unat x) \<in> a_acks a" if "v \<in> ?Q" for v
  proof (cases "v = n")
    case True
    with l(3) x(2) show ?thesis by simp
  next
    case False
    with that obtain m where "(v, m) \<in> set (ls_MatchIndex ls)" "x \<le> m" by auto
    with l(4) x(1) show ?thesis by (fastforce simp: unat_le_u64)
  qed
  ultimately show ?thesis unfolding quorum_acked_def by blast
qed

lemma commit_progress_sim_facts:
  assumes sim: "sim N n rn0 a0" and p: "commit_progress n rn0 a0 rn a"
  shows "leading N n rn0 (a_acks a0) \<Longrightarrow> leading N n rn (a_acks a)" "configured N n rn"
    "mirroring rn" "a_term a n = unat (CurrentTerm rn)" "a_log a n = abs_log (Log rn)" "a_role a n = rn_role rn"
  using sim p by (simp_all add: sim_defs commit_progress_def leading_def mirrors_def)

lemma commit_at_sim:
  assumes sim: "sim N n rn0 a0" and a: "spec_ok fits N a" and n: "n \<in> N"
    and p: "commit_progress n rn0 a0 rn a" and L: "rn_role rn0 = Leader" and ls: "rn_leader rn0 = Some ls"
    and x: "0 < unat x" "unat x < length (Log rn0)"
  shows "\<exists>a'. node_steps N n a a' \<and> spec_ok fits N a' \<and>
    commit_progress n rn0 a0 (commit_at D ls ((length (rn_peers rn0) + 1) div 2 + 1) rn x) a' \<and>
    commitIndex (commit_at D ls ((length (rn_peers rn0) + 1) div 2 + 1) rn x) \<in> {commitIndex rn, x}"
proof -
  let ?maj = "(length (rn_peers rn0) + 1) div 2 + 1"
  note f = commit_progress_sim_facts [OF sim p]
  have lead: "leading N n rn (a_acks a)" using f(1) sim L by (simp add: sim_defs)
  have same: "rn_role rn = Leader" "rn_leader rn = Some ls" "Log rn = Log rn0" "rn_peers rn = rn_peers rn0"
    using p L ls by (simp_all add: commit_progress_def)
  have g: "GetEntry B x (rn_storage rn) = Inr (Log rn ! unat x)"
    using mirrors_GetEntry_in [OF f(3), of x] x same by simp
  show ?thesis
  proof (cases "le_term (Log rn ! unat x) = CurrentTerm rn \<and>
      ?maj \<le> 1 + length (filter (\<lambda>(p, m). x \<le> m) (ls_MatchIndex ls))")
    case False
    then have "commit_at D ls ?maj rn x = rn" using g by (auto simp: commit_at_def)
    with a p show ?thesis by auto
  next
    case True
    let ?rn = "(set_commitIndex x rn)\<lparr>rn_metrics := SetCommitIndex x (rn_metrics rn)\<rparr>"
    have eq: "commit_at D ls ?maj rn x = ?rn" using g True by (simp add: commit_at_def)
    let ?t = "unat (CurrentTerm rn)"
    let ?a = "a\<lparr>a_commit := (a_commit a)(n := unat x), a_lcommits := insert (?t, unat x) (a_lcommits a)\<rparr>"
    have "quorum_acked N a ?t (unat x)"
      using match_majority [OF lead same(2) f(2) n spec_okD(1) [OF a] x(1)] x(2) same True by simp
    then have step: "spec_step N a ?a"
      using n f same x True by (intro spec_step.leader_commit) simp_all
    then have "node_steps N n a ?a"
      by (intro r_into_rtranclp local_stepI) (simp_all add: same_at_def)
    moreover from this have "spec_ok fits N ?a"
      using a spec_ok_steps [OF a] hist_ok_llog [OF spec_okD(4) [OF a], of ?a] by simp
    moreover have "commit_progress n rn0 a0 ?rn ?a"
      using p by (simp add: commit_progress_def)
    ultimately show ?thesis unfolding eq by auto
  qed
qed

lemma commit_fold_sim:
  assumes sim: "sim N n rn0 a0" and n: "n \<in> N" and L: "rn_role rn0 = Leader" and ls: "rn_leader rn0 = Some ls"
  shows "spec_ok fits N a \<Longrightarrow> commit_progress n rn0 a0 rn a \<Longrightarrow>
    (\<forall>x\<in>set xs. 0 < unat x \<and> unat x < length (Log rn0)) \<Longrightarrow>
    \<exists>a'. node_steps N n a a' \<and> spec_ok fits N a' \<and>
    commit_progress n rn0 a0 (foldl (commit_at D ls ((length (rn_peers rn0) + 1) div 2 + 1)) rn xs) a' \<and>
    commitIndex (foldl (commit_at D ls ((length (rn_peers rn0) + 1) div 2 + 1)) rn xs) \<in> insert (commitIndex rn) (set xs)"
proof (induction xs arbitrary: rn a)
  case (Cons x xs)
  let ?rn = "commit_at D ls ((length (rn_peers rn0) + 1) div 2 + 1) rn x"
  from commit_at_sim [OF sim Cons.prems(1) n Cons.prems(2) L ls, of x] Cons.prems(3) obtain b where
    b: "node_steps N n a b" "spec_ok fits N b" "commit_progress n rn0 a0 ?rn b" "commitIndex ?rn \<in> {commitIndex rn, x}"
    by auto
  from Cons.IH [OF b(2,3)] Cons.prems(3) obtain c where
    c: "node_steps N n b c" "spec_ok fits N c"
    "commit_progress n rn0 a0 (foldl (commit_at D ls ((length (rn_peers rn0) + 1) div 2 + 1)) ?rn xs) c"
    "commitIndex (foldl (commit_at D ls ((length (rn_peers rn0) + 1) div 2 + 1)) ?rn xs) \<in> insert (commitIndex ?rn) (set xs)"
    by auto
  from b(4) c(4) have "commitIndex (foldl (commit_at D ls ((length (rn_peers rn0) + 1) div 2 + 1)) rn (x # xs))
      \<in> insert (commitIndex rn) (set (x # xs))" by auto
  moreover have "node_steps N n a c" using b(1) c(1) by (rule rtranclp_trans)
  ultimately show ?case using c(2,3) by auto
qed auto

lemma index_range_bounds:
  assumes "x \<in> set (index_range (c + 1) l)" and "unat c < 2 ^ 64 - 1" and "unat l < 2 ^ 64 - 1"
  shows "unat c < unat x \<and> unat x \<le> unat l"
proof -
  from assms(1) obtain k where k: "x = of_nat k" "unat (c + 1) \<le> k" "k \<le> unat l"
    by (auto simp: index_range_def)
  with assms(2,3) unat_of_nat_u64 [of k] show ?thesis by simp
qed

lemma checkAndUpdate_sim:
  assumes a: "spec_ok fits N a" and n: "n \<in> N" and sim: "sim N n rn a" and len: "length (Log rn) < 2 ^ 64"
  shows "\<exists>a'. moves N n a (checkAndUpdateCommitIndexLocked D rn) a'"
proof (cases "rn_role rn = Leader")
  case False
  with a sim show ?thesis by (intro exI [of _ a]) (simp add: checkAndUpdateCommitIndexLocked_def)
next
  case True
  from leader_facts(1) [OF a n sim True] obtain ls where ls: "rn_leader rn = Some ls"
    unfolding leading_def by blast
  have m: "mirroring rn" and c: "unat (commitIndex rn) < length (Log rn)"
    using sim by (simp_all add: sim_defs)
  let ?l = "fst (LastIndex B (rn_storage rn))" and ?xs = "index_range (commitIndex rn + 1) (fst (LastIndex B (rn_storage rn)))"
  let ?rn = "foldl (commit_at D ls ((length (rn_peers rn) + 1) div 2 + 1)) rn ?xs"
  have xs: "unat (commitIndex rn) < unat x \<and> unat x < length (Log rn)" if "x \<in> set ?xs" for x
    using index_range_bounds [OF that] c len mirrors_LastIndex [OF m] by linarith
  have "commit_progress n rn a rn a" using sim by (simp add: commit_progress_def sim_defs)
  from commit_fold_sim [OF sim n True ls a this, of ?xs] xs obtain a' where
    a': "node_steps N n a a'" "spec_ok fits N a'" "commit_progress n rn a ?rn a'"
    "commitIndex ?rn \<in> insert (commitIndex rn) (set ?xs)" by force
  have "commitIndex rn \<le> commitIndex ?rn" "unat (commitIndex ?rn) < length (Log rn)"
    using a'(4) xs [of "commitIndex ?rn"] c by (auto simp: unat_le_u64 order_le_less)
  then have "sim N n (applyCommittedEntriesLocked D ?rn) a'"
    using a'(3) by (intro commit_apply_sim [OF sim]) (simp_all add: commit_progress_def)
  with a' show ?thesis
    using True ls by (intro exI [of _ a']) (simp add: checkAndUpdateCommitIndexLocked_def Let_def)
qed

section \<open>Winning\<close>

lemma log_fits:
  assumes a: "spec_ok fits N a" and sim: "sim N n rn a"
  shows "\<forall>e\<in>set (Log rn). fits (le_command e)"
proof -
  have l: "a_log a n = abs_log (Log rn)" using sim by (simp add: sim_defs)
  have "coh (a_llog a) (a_log a n)" "a_log a n \<noteq> []"
    using logD(1) [OF spec_okD(11) [OF a], of n] by (simp_all add: wf_log_def)
  from coh_last [OF this] obtain M where M: "a_llog a (fst (last (a_log a n))) = Some M"
    "a_log a n = take (length (a_log a n)) M" .
  with spec_okD(4) [OF a] obtain es where es: "M = abs_log es" "\<forall>e\<in>set es. fits (le_command e)"
    unfolding hist_ok_def by blast
  with M(2) l have "Log rn = take (length (Log rn)) es" by (simp add: take_map)
  then have "set (Log rn) \<subseteq> set es" by (metis set_take_subset)
  with es(2) show ?thesis by blast
qed

lemma map_get_const: "p \<in> fst ` set m \<Longrightarrow> map_get z (map (\<lambda>x. (fst x, v)) m) p = v"
  by (induction m) (auto simp: map_get_def)

lemma becomeLeader_sim:
  assumes a: "spec_ok fits N a" and n: "n \<in> N" and sim: "sim N n rn a" and C: "rn_role rn = Candidate"
    and Q: "majority N Q" "\<forall>v\<in>Q. (unat (CurrentTerm rn), v, n) \<in> a_votes a"
    and len: "length (Log rn) < 2 ^ 64 - 1" and b: "becomeLeader D e rn = (rn', cs)"
  shows "\<exists>a'. moves N n a rn' a' \<and> calls_ok N n a' cs"
proof -
  let ?l = "fst (LastIndex B (rn_storage rn))"
  let ?ls = "\<lparr>ls_NextIndex = map (\<lambda>p. (p, ?l + 1)) (keys (rn_peers rn)),
      ls_MatchIndex = map (\<lambda>p. (p, 0)) (keys (rn_peers rn))\<rparr>"
  let ?rn1 = "rn\<lparr>rn_role := Leader, rn_metrics := SetNodeRole 2 (rn_metrics rn), rn_leader := Some ?ls\<rparr>"
  let ?t = "a_term a n"
  let ?a1 = "a\<lparr>a_role := (a_role a)(n := Leader), a_llog := (a_llog a)(?t := Some (a_log a n)),
       a_lead := (a_lead a)(?t := n), a_quor := (a_quor a)(?t := Q),
       a_acks := {(?t, n, j) | j. j < length (a_log a n)} \<union> a_acks a,
       a_lcommits := insert (?t, a_commit a n) (a_lcommits a)\<rparr>"
  have m: "mirroring rn" and r: "?t = unat (CurrentTerm rn)" "a_log a n = abs_log (Log rn)" "a_role a n = Candidate"
    and conf: "configured N n rn"
    using sim C by (simp_all add: node_sim_def abstracts_def)
  have "fst ` set (rn_peers rn) = N - {n}" "distinct (keys (rn_peers rn))"
    using configuredD [OF conf] by simp_all
  then have "leading N n ?rn1 (a_acks ?a1)"
    using r mirrors_LastIndex_Suc [OF m] log_okD(6) [OF mirrors_log_ok [OF m]]
    by (auto simp: leading_def o_def image_image map_get_const)
  then have "sim N n ?rn1 ?a1"
    using sim by (simp add: sim_defs)
  moreover have "spec_step N a ?a1"
    using n r Q by (intro spec_step.become_leader) auto
  moreover have "hist_ok fits ?a1"
    using spec_okD(4) [OF a] mirrors_log_ok [OF m] log_fits [OF a sim] r(2) by (auto simp: hist_ok_def)
  ultimately have s1: "moves N n a ?rn1 ?a1"
    using a by (intro moves_step) (simp_all add: same_at_def)
  let ?noop = "\<lparr>le_index = ?l + 1, le_term = CurrentTerm rn, le_command = []\<rparr>"
  from leader_append_sim [of N ?a1 n ?rn1 "[]" ?noop] s1 n len fits_Nil obtain st a2 where
    st: "AppendEntries B [?noop] (rn_storage rn) = (None, st)"
    and s2: "moves N n ?a1 ((set_Log (Log rn @ [?noop]) ?rn1)\<lparr>rn_storage := st\<rparr>) a2"
    by auto
  let ?rn2 = "(set_Log (Log rn @ [?noop]) ?rn1)\<lparr>rn_storage := st\<rparr>"
  from checkAndUpdate_sim [of N a2 n ?rn2] s2 n len obtain a3 where
    s3: "moves N n a2 (checkAndUpdateCommitIndexLocked D ?rn2) a3" by auto
  obtain rn4 cs' where b4: "broadcastAppendEntriesLocked D (checkAndUpdateCommitIndexLocked D ?rn2) = (rn4, cs')"
    by fastforce
  from broadcast_sim [OF _ n _ b4, of a3] s3 have s4: "sim N n rn4 a3" "calls_ok N n a3 cs'" by auto
  have eq: "rn' = resetHeartbeatTimer e rn4" "cs = cs'"
    using b C st b4 by (simp_all add: becomeLeader_def Let_def)
  have "sim N n rn' a3"
    using s4(1) eq by (auto intro: sim_frame simp: frame)
  moreover have "node_steps N n a a3" using s1 s2 s3 by (auto intro: rtranclp_trans)
  ultimately show ?thesis using s3 s4 eq by blast
qed

section \<open>Campaigning\<close>

lemma campaign_start_sim:
  assumes a: "spec_ok fits N a" and n: "n \<in> N" and sim: "sim N n rn a" and nl: "rn_role rn \<noteq> Leader"
    and t: "CurrentTerm rn < - 1"
    and st: "st = snd (SaveVotedFor B n (snd (SaveTerm B (CurrentTerm rn + 1) (rn_storage rn))))"
  shows "\<exists>a'. moves N n a (rn\<lparr>rn_persistent := (rn_persistent rn)
      \<lparr>ps_CurrentTerm := CurrentTerm rn + 1, ps_VotedFor := n\<rparr>,
      rn_role := Candidate, rn_leader := None, rn_storage := st\<rparr>) a' \<and>
    (unat (CurrentTerm rn + 1), n, n) \<in> a_votes a' \<and>
    a_clog a' (unat (CurrentTerm rn + 1), n) = Some (abs_log (Log rn))"
proof -
  let ?t = "unat (CurrentTerm rn + 1)"
  let ?rn = "rn\<lparr>rn_persistent := (rn_persistent rn)
      \<lparr>ps_CurrentTerm := CurrentTerm rn + 1, ps_VotedFor := n\<rparr>,
      rn_role := Candidate, rn_leader := None, rn_storage := st\<rparr>"
  let ?a = "a\<lparr>a_term := (a_term a)(n := ?t), a_vote := (a_vote a)(n := Some n),
       a_role := (a_role a)(n := Candidate), a_clog := (a_clog a)((?t, n) := Some (a_log a n)),
       a_votes := insert (?t, n, n) (a_votes a), a_vlog := (a_vlog a)((?t, n) := a_log a n)\<rparr>"
  have ne: "n \<noteq> ''''" using spec_okD(2) [OF a] n by auto
  have "mirroring rn" using sim by (simp add: sim_defs)
  then have "mirroring ?rn" unfolding st using spec_ok_fits [OF a n] by (simp add: mirrors_def save_simps)
  then have "sim N n ?rn ?a" using sim ne by (simp add: sim_defs)
  moreover have "spec_step N a ?a"
    using n nl t sim by (intro spec_step.campaign) (simp_all add: sim_defs unat_inc)
  ultimately have "moves N n a ?rn ?a"
    using a hist_ok_llog [OF spec_okD(4) [OF a], of ?a] by (intro moves_step) (simp_all add: same_at_def)
  moreover have "a_log a n = abs_log (Log rn)" using sim by (simp add: sim_defs)
  ultimately show ?thesis by (intro exI [of _ ?a]) simp
qed

lemma campaign_sim:
  assumes a: "spec_ok fits N a" and n: "n \<in> N" and sim: "sim N n rn a" and nl: "rn_role rn \<noteq> Leader"
    and t: "CurrentTerm rn < - 1" and len: "length (Log rn) < 2 ^ 64 - 1"
    and b: "campaignLocked D e rn = (rn', cs)"
  shows "\<exists>a'. moves N n a rn' a' \<and> calls_ok N n a' cs \<and> (unat (CurrentTerm rn + 1), n, n) \<in> a_votes a'"
proof -
  let ?t = "CurrentTerm rn + 1"
  have conf: "configured N n rn" and id: "node_id rn = n" and m: "mirroring rn"
    using sim by (simp_all add: sim_defs)
  let ?st = "snd (SaveVotedFor B n (snd (SaveTerm B ?t (rn_storage rn))))"
  let ?rn1 = "rn\<lparr>rn_persistent := (rn_persistent rn)\<lparr>ps_CurrentTerm := ?t, ps_VotedFor := n\<rparr>,
      rn_role := Candidate, rn_leader := None, rn_storage := ?st\<rparr>"
  let ?m = "IncLeaderElections (SetCurrentTerm ?t (SetNodeRole 1 (rn_metrics rn)))"
  let ?rn = "resetElectionTimer e (rn\<lparr>rn_persistent := (rn_persistent rn)
      \<lparr>ps_CurrentTerm := ?t, ps_VotedFor := n\<rparr>,
      rn_role := Candidate, rn_leader := None, rn_metrics := ?m, rn_storage := ?st\<rparr>)"
  from campaign_start_sim [OF a n sim nl t refl] obtain a1 where
    a1: "moves N n a ?rn1 a1" "(unat ?t, n, n) \<in> a_votes a1" "a_clog a1 (unat ?t, n) = Some (abs_log (Log rn))"
    by blast
  then have sim1: "sim N n ?rn a1" by (auto intro: sim_frame simp: frame)
  show ?thesis
  proof (cases "(length (rn_peers rn) + 1) div 2 + 1 \<le> 1")
    case True
    then have card: "card N = 1"
      using configured_card [OF conf spec_okD(1) [OF a] n] by simp
    then have N: "N = {n}" using n by (auto simp: card_Suc_eq)
    have bl: "becomeLeader D e ?rn = (rn', cs)"
      using b True id by (simp add: campaignLocked_def Let_def frame)
    have "\<exists>a'. moves N n a1 rn' a' \<and> calls_ok N n a' cs"
      using a1 n N len by (intro becomeLeader_sim [OF _ n sim1 _ _ _ _ bl, of "{n}"])
        (auto simp: majority_def frame)
    then obtain a' where a': "moves N n a1 rn' a'" "calls_ok N n a' cs" by blast
    then have "(unat ?t, n, n) \<in> a_votes a'"
      using a1 hist_leD(1) [OF spec_ok_hist] by blast
    with a1 a' show ?thesis by (blast intro: rtranclp_trans)
  next
    case False
    let ?req = "\<lparr>rv_term = ?t, rv_candidate_id = n, rv_last_log_index = fst (LastIndex B ?st),
      rv_last_log_term = fst (LastTerm B ?st), rv_pre_vote = False\<rparr>"
    have cs: "cs = map (\<lambda>p. (p, VoteCall (rn_nextClosure rn) ?req)) (keys (rn_peers rn))"
      and rn': "rn' = ?rn\<lparr>rn_nextClosure := rn_nextClosure rn', rn_campaigns := rn_campaigns rn',
        rn_metrics := rn_metrics rn'\<rparr>"
      using b False id by (auto simp: campaignLocked_def Let_def frame)
    have m1: "mirroring ?rn1" using a1 by (simp add: sim_defs)
    have st: "unat (fst (LastIndex B ?st)) = length (Log rn) - 1"
      using mirrors_LastIndex [OF m1] by simp
    have lt: "unat (fst (LastTerm B ?st)) = fst (last (abs_log (Log rn)))"
      using m1 log_okD(1) [OF mirrors_log_ok [OF m]] by (simp add: mirrors_def LastTerm_ok last_map)
    have "vote_request_ok n ?req a1"
      using a1(3) st lt log_okD(1) [OF mirrors_log_ok [OF m]] by (simp add: vote_request_ok_def)
    then have "calls_ok N n a1 cs"
      using configuredD(3) [OF conf] unfolding cs by (auto simp: calls_ok_def)
    moreover have "sim N n rn' a1"
      by (subst rn') (rule sim_frame [OF sim1], simp_all)
    ultimately show ?thesis using a1 by blast
  qed
qed

lemma votes_grow: "spec_ok fits N a \<Longrightarrow> moves N n a rn' a' \<Longrightarrow> a_votes a \<subseteq> a_votes a'"
  by (auto dest: spec_ok_hist hist_leD(1))

lemma rounds_answered:
  assumes "rounds_ok N n rn W a" and "keeps_rounds rn rn' cs" and "a_votes a \<subseteq> a_votes a'"
  shows "rounds_ok N n rn' ({x \<in> W. fst x \<noteq> i} \<union> new_calls b cs) a'"
proof -
  have "rounds_ok N n rn {x \<in> W. fst x \<noteq> i} a" by (rule rounds_mono [OF assms(1)]) simp_all
  then show ?thesis using assms(3,2) by (rule rounds_keep)
qed

text \<open>An answer of a newer term makes the node a follower, in whatever state it was.\<close>

lemma newer_answer:
  assumes a: "spec_ok fits N a" and n: "n \<in> N" and sim: "sim N n rn a" and t: "CurrentTerm rn < t"
  obtains rn1 a1 where "checkTerm D t rn = (True, rn1)" and "moves N n a (resetElectionTimer e rn1) a1"
    and "keeps_rounds rn (resetElectionTimer e rn1) []"
proof -
  from checkTerm_sim [OF a n sim] obtain a1 where a1: "moves N n a (snd (checkTerm D t rn)) a1" by blast
  from t obtain rn1 where ct: "checkTerm D t rn = (True, rn1)"
    using checkTerm_True_iff [of D t rn] by (cases "checkTerm D t rn") auto
  have "moves N n a (resetElectionTimer e rn1) a1" using a1 ct by (simp add: sim_timers)
  moreover have "keeps_rounds rn (resetElectionTimer e rn1) []"
    using checkTerm_frame(8-10) [of D t rn] ct by (simp add: keeps_rounds_def frame)
  ultimately show thesis using ct that by blast
qed

text \<open>A vote that a candidate counts: it may be the one that elects it.\<close>

lemma vote_granted_sim:
  assumes a: "spec_ok fits N a" and n: "n \<in> N" and sim: "sim N n rn a"
    and len: "length (Log rn) < 2 ^ 64 - 1"
    and ok: "rounds_ok N n rn W a" and w: "(i, p, VoteCall k req) \<in> W" and p: "p \<in> N - {n}"
    and vote: "(unat (rv_term req), p, n) \<in> a_votes a" and cp: "map_of (rn_campaigns rn) k = Some cp"
    and ct: "checkTerm D (rvr_term res) rn = (False, rn)"
    and go: "rn_role rn = Candidate" "CurrentTerm rn = cp_term cp" "rvr_vote_granted res"
  shows "\<exists>rn' cs a'. on_vote_response D e k res rn = Some (rn', cs) \<and> moves N n a rn' a' \<and> calls_ok N n a' cs \<and>
    (\<forall>b. rounds_ok N n rn' ({x \<in> W. fst x \<noteq> i} \<union> new_calls b cs) a')"
proof -
  let ?rn = "rn\<lparr>rn_campaigns := AList.update k (cp\<lparr>cp_votes := cp_votes cp + 1\<rparr>) (rn_campaigns rn)\<rparr>"
  have sim': "sim N n ?rn a" by (rule sim_frame [OF sim]) simp_all
  note cnt = rounds_count [OF ok w p n spec_okD(1) [OF a] vote cp]
  show ?thesis
  proof (cases "cp_majority cp \<le> cp_votes cp + 1")
    case False
    then have "on_vote_response D e k res rn = Some (?rn, [])"
      using go by (simp add: on_vote_response_def cp ct Let_def)
    moreover have "rounds_ok N n ?rn ({x \<in> W. fst x \<noteq> i} \<union> new_calls b []) a" for b
      using cnt(1) by (simp add: new_calls_def)
    ultimately show ?thesis using a sim' calls_ok_Nil by blast
  next
    case maj: True
    obtain rn' cs where b: "becomeLeader D e ?rn = (rn', cs)" by fastforce
    from cnt(2) maj obtain Q where Q: "majority N Q" "\<forall>v\<in>Q. (unat (cp_term cp), v, n) \<in> a_votes a"
      by blast
    have "\<exists>a'. moves N n a rn' a' \<and> calls_ok N n a' cs"
      using go Q len by (intro becomeLeader_sim [OF a n sim' _ _ _ _ b, of Q]) simp_all
    then obtain a' where a': "moves N n a rn' a'" "calls_ok N n a' cs" by blast
    have "rounds_ok N n rn' ({x \<in> W. fst x \<noteq> i} \<union> new_calls b cs) a'" for b
      using rounds_keep [OF cnt(1) votes_grow [OF a a'(1)] keeps_rounds_becomeLeader [OF b]] by blast
    moreover have "on_vote_response D e k res rn = Some (rn', cs)"
      using go maj b by (simp add: on_vote_response_def cp ct Let_def)
    ultimately show ?thesis using a' by blast
  qed
qed

lemma vote_response_sim:
  assumes a: "spec_ok fits N a" and n: "n \<in> N" and sim: "sim N n rn a"
    and len: "length (Log rn) < 2 ^ 64 - 1"
    and ok: "rounds_ok N n rn W a" and w: "(i, p, VoteCall k req) \<in> W" and p: "p \<in> N - {n}"
    and vote: "rvr_vote_granted res \<Longrightarrow> (unat (rv_term req), p, n) \<in> a_votes a"
  shows "\<exists>rn' cs a'. on_vote_response D e k res rn = Some (rn', cs) \<and> moves N n a rn' a' \<and> calls_ok N n a' cs \<and>
    (\<forall>b. rounds_ok N n rn' ({x \<in> W. fst x \<noteq> i} \<union> new_calls b cs) a')"
proof -
  from rounds_okD(4) [OF ok w] obtain cp where cp: "map_of (rn_campaigns rn) k = Some cp" by blast
  show ?thesis
  proof (cases "CurrentTerm rn < rvr_term res")
    case True
    obtain rn1 a1 where ct: "checkTerm D (rvr_term res) rn = (True, rn1)" "moves N n a (resetElectionTimer e rn1) a1"
      "keeps_rounds rn (resetElectionTimer e rn1) []" by (rule newer_answer [OF a n sim True])
    have "on_vote_response D e k res rn = Some (resetElectionTimer e rn1, [])"
      using cp ct(1) by (simp add: on_vote_response_def)
    with ct(2,3) show ?thesis using rounds_answered [OF ok _ votes_grow [OF a ct(2)]] calls_ok_Nil by blast
  next
    case False
    then have ct: "checkTerm D (rvr_term res) rn = (False, rn)" by (simp add: checkTerm_def)
    show ?thesis
    proof (cases "rn_role rn = Candidate \<and> CurrentTerm rn = cp_term cp \<and> rvr_vote_granted res")
      case False
      then have "on_vote_response D e k res rn = Some (rn, [])"
        by (auto simp: on_vote_response_def cp ct)
      then show ?thesis using a sim rounds_answered [OF ok keeps_rounds_refl order_refl] calls_ok_Nil by blast
    next
      case True
      with vote_granted_sim [OF a n sim len ok w p vote cp ct] show ?thesis by blast
    qed
  qed
qed

text \<open>Handlers that start campaigns and pre-votes.\<close>

lemma campaign_rounds_sim:
  assumes a: "spec_ok fits N a" and n: "n \<in> N" and sim: "sim N n rn a" and nl: "rn_role rn \<noteq> Leader"
    and t: "CurrentTerm rn < - 1" and len: "length (Log rn) < 2 ^ 64 - 1"
    and b: "campaignLocked D e rn = (rn', cs)"
  shows "\<exists>a'. moves N n a rn' a' \<and> calls_ok N n a' cs \<and> rounds_kept N n rn a rn' cs a'"
proof -
  from campaign_sim [OF assms] obtain a' where
    a': "moves N n a rn' a'" "calls_ok N n a' cs" "(unat (CurrentTerm rn + 1), n, n) \<in> a_votes a'" by blast
  have "configured N n rn" using sim by (simp add: node_sim_def)
  from rounds_kept_campaign [OF this spec_okD(1) [OF a] n votes_grow [OF a a'(1)] a'(3) b] a' show ?thesis by blast
qed

lemma prevote_granted_sim:
  assumes a: "spec_ok fits N a" and n: "n \<in> N" and sim: "sim N n rn a"
    and t: "CurrentTerm rn < - 1" and len: "length (Log rn) < 2 ^ 64 - 1"
    and pv: "map_of (rn_preVotes rn) k = Some pv" and ct: "checkTerm D (rvr_term res) rn = (False, rn)"
    and go: "\<not> (pv_campaigned pv \<or> rn_role rn = Leader \<or> CurrentTerm rn \<noteq> pv_term pv
      \<or> pv_started pv < rn_lastLeaderContact rn \<or> \<not> rvr_vote_granted res)"
  shows "\<exists>rn' cs a'. on_prevote_response D e k res rn = Some (rn', cs) \<and> moves N n a rn' a' \<and> calls_ok N n a' cs \<and>
    rounds_kept N n rn a rn' cs a'"
proof -
  have upd: "sim N n (rn\<lparr>rn_preVotes := x\<rparr>) a" for x by (rule sim_frame [OF sim]) simp_all
  let ?pv = "pv\<lparr>pv_votes := pv_votes pv + 1\<rparr>"
  show ?thesis
  proof (cases "pv_majority pv \<le> pv_votes pv + 1")
    case False
    then have "on_prevote_response D e k res rn = Some (rn\<lparr>rn_preVotes := AList.update k ?pv (rn_preVotes rn)\<rparr>, [])"
      using go by (simp add: on_prevote_response_def pv ct Let_def)
    then show ?thesis using a upd rounds_kept_preVotes_update [OF order_refl] calls_ok_Nil by blast
  next
    case True
    let ?rn = "rn\<lparr>rn_preVotes := AList.update k (?pv\<lparr>pv_campaigned := True\<rparr>) (rn_preVotes rn)\<rparr>"
    obtain rn' cs where b: "campaignLocked D e ?rn = (rn', cs)" by fastforce
    from campaign_rounds_sim [OF a n upd _ _ _ b] go t len obtain a' where
      a': "moves N n a rn' a'" "calls_ok N n a' cs" "rounds_kept N n ?rn a rn' cs a'" by auto
    have "rounds_kept N n rn a rn' cs a'"
      using a'(3) rounds_kept_preVotes_update [OF order_refl, of N n rn a k "?pv\<lparr>pv_campaigned := True\<rparr>"]
      unfolding rounds_kept_def new_calls_def by simp
    moreover have "on_prevote_response D e k res rn = Some (rn', cs)"
      using go True b by (simp add: on_prevote_response_def pv ct Let_def)
    ultimately show ?thesis using a' by blast
  qed
qed

lemma prevote_response_sim:
  assumes a: "spec_ok fits N a" and n: "n \<in> N" and sim: "sim N n rn a"
    and t: "CurrentTerm rn < - 1" and len: "length (Log rn) < 2 ^ 64 - 1"
    and pv: "map_of (rn_preVotes rn) k \<noteq> None"
  shows "\<exists>rn' cs a'. on_prevote_response D e k res rn = Some (rn', cs) \<and> moves N n a rn' a' \<and> calls_ok N n a' cs \<and>
    rounds_kept N n rn a rn' cs a'"
proof -
  from pv obtain pv where pv: "map_of (rn_preVotes rn) k = Some pv" by blast
  show ?thesis
  proof (cases "CurrentTerm rn < rvr_term res")
    case True
    obtain rn1 a1 where ct: "checkTerm D (rvr_term res) rn = (True, rn1)" "moves N n a (resetElectionTimer e rn1) a1"
      "keeps_rounds rn (resetElectionTimer e rn1) []" by (rule newer_answer [OF a n sim True])
    have "on_prevote_response D e k res rn = Some (resetElectionTimer e rn1, [])"
      using pv ct(1) by (simp add: on_prevote_response_def)
    with ct(2,3) show ?thesis using rounds_kept_keeps [OF _ votes_grow [OF a ct(2)]] calls_ok_Nil by blast
  next
    case False
    then have ct: "checkTerm D (rvr_term res) rn = (False, rn)" by (simp add: checkTerm_def)
    show ?thesis
    proof (cases "pv_campaigned pv \<or> rn_role rn = Leader \<or> CurrentTerm rn \<noteq> pv_term pv
                \<or> pv_started pv < rn_lastLeaderContact rn \<or> \<not> rvr_vote_granted res")
      case True
      then have "on_prevote_response D e k res rn = Some (rn, [])"
        by (auto simp: on_prevote_response_def pv ct)
      then show ?thesis using a sim rounds_kept_keeps [OF keeps_rounds_refl order_refl] calls_ok_Nil by blast
    qed (rule prevote_granted_sim [OF a n sim t len pv ct])
  qed
qed

lemma startElection_sim:
  assumes a: "spec_ok fits N a" and n: "n \<in> N" and sim: "sim N n rn a"
    and t: "CurrentTerm rn < - 1" and len: "length (Log rn) < 2 ^ 64 - 1"
    and b: "startElection D e e' rn = (rn', cs)"
  shows "\<exists>a'. moves N n a rn' a' \<and> calls_ok N n a' cs \<and> rounds_kept N n rn a rn' cs a'"
proof -
  let ?rn = "resetElectionTimer e rn"
  have sim': "sim N n ?rn a" using sim by (simp add: sim_timers)
  show ?thesis
  proof (cases "now e < rn_electionDeadline rn \<or> rn_role rn = Leader")
    case True
    with b have "rn' = rn" "cs = []" by (auto simp: startElection_def)
    with a sim rounds_kept_keeps [OF keeps_rounds_refl order_refl] show ?thesis
      by (intro exI [of _ a]) simp
  next
    case go: False
    show ?thesis
    proof (cases "length (rn_peers rn) = 0")
      case True
      then have c: "campaignLocked D e' ?rn = (rn', cs)"
        using b go by (simp add: startElection_def frame)
      from campaign_rounds_sim [OF a n sim' _ _ _ c] go t len obtain a' where
        "moves N n a rn' a'" "calls_ok N n a' cs" "rounds_kept N n ?rn a rn' cs a'" by (auto simp: frame)
      moreover have "keeps_rounds rn ?rn []" by (simp add: keeps_rounds_def frame)
      ultimately show ?thesis using rounds_kept_start by blast
    next
      case False
      let ?req = "\<lparr>rv_term = CurrentTerm rn + 1, rv_candidate_id = node_id rn,
        rv_last_log_index = fst (LastIndex B (rn_storage rn)),
        rv_last_log_term = fst (LastTerm B (rn_storage rn)), rv_pre_vote = True\<rparr>"
      have cs: "cs = map (\<lambda>p. (p, PreVoteCall (rn_nextClosure rn) ?req)) (keys (rn_peers rn))"
        and pv: "\<exists>pv. rn_preVotes rn' = AList.update (rn_nextClosure rn) pv (rn_preVotes rn)"
        and nc: "rn_campaigns rn' = rn_campaigns rn" "rn_nextClosure rn' = Suc (rn_nextClosure rn)"
        and rn': "rn' = ?rn\<lparr>rn_nextClosure := rn_nextClosure rn', rn_preVotes := rn_preVotes rn',
          rn_metrics := rn_metrics rn'\<rparr>"
        using b go False by (auto simp: startElection_def Let_def frame)
      have "sim N n rn' a" by (subst rn') (rule sim_frame [OF sim'], simp_all)
      moreover have "fst ` set (rn_peers rn) = N - {n}"
        using configuredD(3) [of N n rn] sim by (simp add: node_sim_def)
      then have "calls_ok N n a cs" unfolding cs by (auto simp: calls_ok_def)
      moreover have "rounds_kept N n rn a rn' cs a"
        using pv nc cs rounds_kept_prevote [OF order_refl nc(1) _ nc(2) cs] by blast
      ultimately show ?thesis using a by blast
    qed
  qed
qed

section \<open>Answers to AppendEntries\<close>

lemma leading_next:
  assumes "leading N n rn acks" and "rn_leader rn = Some ls" and "0 < unat v" and "unat v \<le> length (Log rn)"
  shows "leading N n (rn\<lparr>rn_leader := Some (ls\<lparr>ls_NextIndex := AList.update p v (ls_NextIndex ls)\<rparr>)\<rparr>) acks"
  using assms unfolding leading_def by auto

lemma leading_match:
  assumes lead: "leading N n rn acks" and ls: "rn_leader rn = Some ls" and p: "p \<in> N - {n}"
    and v: "\<forall>j. 0 < j \<and> j \<le> unat v \<longrightarrow> (unat (CurrentTerm rn), p, j) \<in> acks"
  shows "leading N n (rn\<lparr>rn_leader := Some (ls\<lparr>ls_MatchIndex := AList.update p v (ls_MatchIndex ls)\<rparr>)\<rparr>) acks"
proof -
  have l: "distinct (keys (ls_MatchIndex ls))" "fst ` set (ls_MatchIndex ls) = N - {n}"
    "\<forall>(q, m) \<in> set (ls_MatchIndex ls). \<forall>j. 0 < j \<and> j \<le> unat m \<longrightarrow> (unat (CurrentTerm rn), q, j) \<in> acks"
    using lead ls unfolding leading_def by auto
  have k: "keys (AList.update p v (ls_MatchIndex ls)) = keys (ls_MatchIndex ls)"
    using p l(2) by (intro keys_update_same) simp
  have "(unat (CurrentTerm rn), q, j) \<in> acks"
    if "(q, m) \<in> set (AList.update p v (ls_MatchIndex ls))" "0 < j" "j \<le> unat m" for q m j
  proof -
    have d: "distinct (keys (AList.update p v (ls_MatchIndex ls)))" unfolding k by (rule l(1))
    have "map_of (AList.update p v (ls_MatchIndex ls)) q = Some m"
      using map_of_is_SomeI [OF d that(1)] .
    then have "(q = p \<and> m = v) \<or> map_of (ls_MatchIndex ls) q = Some m"
      by (auto simp: update_conv' split: if_splits)
    with v l(3) that(2,3) show ?thesis by (fastforce dest: map_of_SomeD)
  qed
  moreover have "fst ` set (AList.update p v (ls_MatchIndex ls)) = N - {n}"
    using l(2) p by auto
  ultimately show ?thesis
    using lead ls l(1) k unfolding leading_def by auto
qed

lemma sim_leading_update:
  assumes "sim N n rn a" and "leading N n (rn\<lparr>rn_leader := ls\<rparr>) (a_acks a)"
  shows "sim N n (rn\<lparr>rn_leader := ls\<rparr>) a"
  using assms by (simp add: sim_defs leading_def)

text \<open>The indices the leader computes from a success stay inside its log.\<close>

lemma acked_in_log:
  assumes a: "spec_ok fits N a" and n: "n \<in> N" and sim: "sim N n rn a" and L: "rn_role rn = Leader"
    and m: "(unat (CurrentTerm rn), p, m) \<in> a_acks a"
  shows "m < length (Log rn)"
  using ackD(2) [OF spec_okD(6) [OF a] m] leader_facts(2) [OF a n sim L] by auto

lemma success_sim:
  assumes a: "spec_ok fits N a" and n: "n \<in> N" and sim: "sim N n rn a" and p: "p \<in> N - {n}"
    and L: "rn_role rn = Leader" and ls: "rn_leader rn = Some ls" and t: "CurrentTerm rn = ae_term r"
    and acks: "\<forall>j \<le> unat (ae_prev_log_index r) + k. (unat (ae_term r), p, j) \<in> a_acks a"
    and x: "x = ae_prev_log_index r + of_nat k + 1"
    and ls1: "ls1 = (if map_get 0 (ls_NextIndex ls) p < x
        then ls\<lparr>ls_NextIndex := AList.update p x (ls_NextIndex ls)\<rparr> else ls)"
    and ls2: "ls2 = (if map_get 0 (ls_MatchIndex ls1) p < x - 1
        then ls1\<lparr>ls_MatchIndex := AList.update p (x - 1) (ls_MatchIndex ls1)\<rparr> else ls1)"
  shows "sim N n (rn\<lparr>rn_leader := Some ls2\<rparr>) a"
proof -
  let ?m = "unat (ae_prev_log_index r) + k"
  note f = leader_facts [OF a n sim L]
  have lt: "?m < length (Log rn)" using acked_in_log [OF a n sim L, of p ?m] acks t by simp
  have len: "length (Log rn) < 2 ^ 64" using log_okD(5) [OF mirrors_log_ok [OF f(6)]] .
  have x1: "x - 1 = of_nat ?m" using x by simp
  have ux1: "unat (x - 1) = ?m" unfolding x1 using lt len by (intro unat_of_nat_u64) simp
  have "x = of_nat (Suc ?m)" using x by simp
  then have ux: "unat x = Suc ?m" using lt len unat_of_nat_u64 [of "Suc ?m"] by simp
  have "leading N n (rn\<lparr>rn_leader := Some ls1\<rparr>) (a_acks a)"
    using leading_next [OF f(1) ls, of x p] f(1) ls ux lt unfolding ls1 by (auto simp: leading_def)
  then have "leading N n (rn\<lparr>rn_leader := Some ls2\<rparr>) (a_acks a)"
    using leading_match [of N n "rn\<lparr>rn_leader := Some ls1\<rparr>" "a_acks a" ls1 p "x - 1"] p ux1 acks t
    unfolding ls2 by auto
  with sim show ?thesis by (rule sim_leading_update)
qed

text \<open>
  The answer of a peer to a leader of the same term: a success raises the peer's indices and may
  commit, a refusal backs the next index off and sends again.
\<close>

lemma success_response_sim:
  assumes a: "spec_ok fits N a" and n: "n \<in> N" and sim: "sim N n rn a" and p: "p \<in> N - {n}"
    and L: "rn_role rn = Leader" "CurrentTerm rn = ae_term r" and ls: "rn_leader rn = Some ls"
    and ct: "checkTerm D (aer_term resp) rn = (False, rn)" and ok: "aer_success resp"
    and acks: "\<forall>j \<le> unat (ae_prev_log_index r) + k. (unat (ae_term r), p, j) \<in> a_acks a"
  shows "\<exists>rn' cs a'. on_append_response D e p r k resp rn = Some (rn', cs) \<and> moves N n a rn' a' \<and> calls_ok N n a' cs"
proof -
  have len: "length (Log rn) < 2 ^ 64" using log_okD(5) [OF mirrors_log_ok [OF leader_facts(6) [OF a n sim L(1)]]] .
  let ?x = "ae_prev_log_index r + of_nat k + 1"
  let ?ls1 = "if map_get 0 (ls_NextIndex ls) p < ?x
    then ls\<lparr>ls_NextIndex := AList.update p ?x (ls_NextIndex ls)\<rparr> else ls"
  let ?ls2 = "if map_get 0 (ls_MatchIndex ?ls1) p < ?x - 1
    then ?ls1\<lparr>ls_MatchIndex := AList.update p (?x - 1) (ls_MatchIndex ?ls1)\<rparr> else ?ls1"
  have "sim N n (rn\<lparr>rn_leader := Some ?ls2\<rparr>) a"
    by (rule success_sim [OF a n sim p L(1) ls L(2) acks refl refl refl])
  from checkAndUpdate_sim [OF a n this] len obtain a' where
    "moves N n a (checkAndUpdateCommitIndexLocked D (rn\<lparr>rn_leader := Some ?ls2\<rparr>)) a'" by auto
  moreover have "on_append_response D e p r k resp rn =
      Some (checkAndUpdateCommitIndexLocked D (rn\<lparr>rn_leader := Some ?ls2\<rparr>), [])"
    unfolding on_append_response_def Let_def using ct L ls ok by simp
  ultimately show ?thesis by auto
qed

lemma refused_response_sim:
  assumes a: "spec_ok fits N a" and n: "n \<in> N" and sim: "sim N n rn a" and p: "p \<in> N - {n}"
    and L: "rn_role rn = Leader" "CurrentTerm rn = ae_term r" and ls: "rn_leader rn = Some ls"
    and ct: "checkTerm D (aer_term resp) rn = (False, rn)" and fail: "\<not> aer_success resp"
  shows "\<exists>rn' cs a'. on_append_response D e p r k resp rn = Some (rn', cs) \<and> moves N n a rn' a' \<and> calls_ok N n a' cs"
proof (cases "1 < map_get 0 (ls_NextIndex ls) p")
  case False
  then have "on_append_response D e p r k resp rn = Some (rn, [])"
    using ct L ls fail by (simp add: on_append_response_def)
  with a sim show ?thesis by auto
next
  case True
  have f: "leading N n rn (a_acks a)" using leader_facts(1) [OF a n sim L(1)] .
  have nx: "unat (map_get 0 (ls_NextIndex ls) p) \<le> length (Log rn)" using f p ls unfolding leading_def by auto
  let ?v = "map_get 0 (ls_NextIndex ls) p - 1"
  let ?rn = "rn\<lparr>rn_leader := Some (ls\<lparr>ls_NextIndex := AList.update p ?v (ls_NextIndex ls)\<rparr>)\<rparr>"
  have "1 < unat (map_get 0 (ls_NextIndex ls) p)" using True by (simp add: unat_less_u64)
  then have "unat ?v = unat (map_get 0 (ls_NextIndex ls) p) - 1" "0 < unat ?v"
    by (simp_all add: unat_sub word_le_nat_alt)
  then have "leading N n ?rn (a_acks a)"
    using nx by (intro leading_next [OF f ls]) simp_all
  with sim have "sim N n ?rn a" by (rule sim_leading_update)
  moreover obtain rn' cs where s: "sendAppendEntriesToPeerLocked D p ?rn = (rn', cs)" by fastforce
  moreover have "on_append_response D e p r k resp rn = Some (rn', cs)"
    using ct L ls fail True s by (simp add: on_append_response_def)
  ultimately show ?thesis using send_sim [OF a n _ p s] a by blast
qed

lemma append_response_sim:
  assumes a: "spec_ok fits N a" and n: "n \<in> N" and sim: "sim N n rn a" and p: "p \<in> N - {n}"
    and acks: "aer_success resp \<Longrightarrow>
      \<forall>j \<le> unat (ae_prev_log_index r) + k. (unat (ae_term r), p, j) \<in> a_acks a"
  shows "\<exists>rn' cs a'. on_append_response D e p r k resp rn = Some (rn', cs) \<and> moves N n a rn' a' \<and> calls_ok N n a' cs"
proof -
  show ?thesis
  proof (cases "CurrentTerm rn < aer_term resp")
    case True
    obtain rn1 a1 where ct: "checkTerm D (aer_term resp) rn = (True, rn1)" "moves N n a (resetElectionTimer e rn1) a1"
      by (rule newer_answer [OF a n sim True])
    then have "on_append_response D e p r k resp rn = Some (resetElectionTimer e rn1, [])"
      unfolding on_append_response_def by simp
    with ct(2) show ?thesis by auto
  next
    case False
    then have ct: "checkTerm D (aer_term resp) rn = (False, rn)" by (simp add: checkTerm_def)
    show ?thesis
    proof (cases "rn_role rn = Leader \<and> CurrentTerm rn = ae_term r")
      case stale: False
      then have "on_append_response D e p r k resp rn = Some (rn, [])"
        by (auto simp: on_append_response_def ct)
      with a sim show ?thesis by auto
    next
      case True
      from leader_facts(1) [OF a n sim] True obtain ls where ls: "rn_leader rn = Some ls"
        unfolding leading_def by blast
      from success_response_sim [OF a n sim p conjunct1 [OF True] conjunct2 [OF True] ls ct _ acks]
        refused_response_sim [OF a n sim p conjunct1 [OF True] conjunct2 [OF True] ls ct] show ?thesis by blast
    qed
  qed
qed

section \<open>Proposals\<close>

lemma propose_sim:
  assumes a: "spec_ok fits N a" and n: "n \<in> N" and sim: "sim N n rn a"
    and len: "length (Log rn) < 2 ^ 64 - 1" and fit: "fits cmd"
    and b: "ProposeCommand D cmd rn = (res, rn', cs)"
  shows "\<exists>a'. moves N n a rn' a' \<and> calls_ok N n a' cs"
proof (cases "rn_role rn = Leader")
  case False
  with b a sim show ?thesis by (auto simp: ProposeCommand_def)
next
  case L: True
  let ?x = "fst (LastIndex B (rn_storage rn)) + 1"
  let ?e = "\<lparr>le_index = ?x, le_term = CurrentTerm rn, le_command = cmd\<rparr>"
  from leader_append_sim [OF a n sim L len fit refl] obtain st a1 where
    st: "AppendEntries B [?e] (rn_storage rn) = (None, st)"
    and a1: "moves N n a ((set_Log (Log rn @ [?e]) rn)\<lparr>rn_storage := st\<rparr>) a1" by blast
  let ?rn = "(set_Log (Log rn @ [?e]) rn)\<lparr>rn_storage := st\<rparr>"
  have m: "mirroring rn" and c: "unat (commitIndex rn) < length (Log rn)" and conf: "configured N n rn"
    using sim by (simp_all add: node_sim_def applied_def)
  have x: "unat ?x = length (Log rn)" using mirrors_LastIndex_Suc [OF m] .
  show ?thesis
  proof (cases "length (rn_peers rn) = 0")
    case True
    then have "card N = 1" using configured_card [OF conf spec_okD(1) [OF a] n] by simp
    then have N: "N = {n}" using n by (auto simp: card_Suc_eq)
    have r: "a_role a1 n = Leader" "a_term a1 n = unat (CurrentTerm rn)" "a_log a1 n = abs_log (Log rn @ [?e])"
      using a1 L by (simp_all add: sim_defs)
    let ?a = "a1\<lparr>a_commit := (a_commit a1)(n := unat ?x),
      a_lcommits := insert (unat (CurrentTerm rn), unat ?x) (a_lcommits a1)\<rparr>"
    have "(unat (CurrentTerm rn), n, length (Log rn)) \<in> a_acks a1"
      using a1 L by (auto simp: sim_defs leading_def)
    then have "quorum_acked N a1 (unat (CurrentTerm rn)) (unat ?x)"
      using N x unfolding quorum_acked_def by (intro exI [of _ "{n}"]) (simp add: majority_def)
    then have "spec_step N a1 ?a"
      using n r x by (intro spec_step.leader_commit) (simp_all add: nth_append)
    moreover have "sim N n (applyCommittedEntriesLocked D (set_commitIndex ?x ?rn)) ?a"
      using a1 c x by (intro commit_apply_sim [where rn = ?rn and a = a1 and ci = ?x])
        (auto simp: unat_le_u64)
    ultimately have "moves N n a1 (applyCommittedEntriesLocked D (set_commitIndex ?x ?rn)) ?a"
      using a1 hist_ok_llog [OF spec_okD(4), of fits N a1 ?a] by (intro moves_step) (simp_all add: same_at_def)
    moreover have "rn' = applyCommittedEntriesLocked D (set_commitIndex ?x ?rn)" "cs = []"
      using b L st True by (simp_all add: ProposeCommand_def Let_def)
    ultimately show ?thesis using a1 by (auto intro: rtranclp_trans)
  next
    case False
    let ?rn2 = "?rn\<lparr>rn_nextChan := Suc (rn_nextChan rn),
      rn_pendingCommits := AList.update ?x (rn_nextChan rn) (rn_pendingCommits rn)\<rparr>"
    have "broadcastAppendEntriesLocked D ?rn2 = (rn', cs)"
      using b L st False by (auto simp: ProposeCommand_def Let_def split: prod.splits)
    moreover have "sim N n ?rn2 a1"
      by (rule sim_frame [where rn = ?rn]) (use a1 in simp_all)
    ultimately show ?thesis using broadcast_sim [of N a1 n ?rn2 rn' cs] a1 n by blast
  qed
qed

end

end
