(* ===== verification/Clients.thy ===== *)
theory Clients
  imports Leader_Sim
begin

text \<open>
  Proposals that wait for their commit: which channels a node still has to answer, what each
  handler sends into them, and why a success means that the command is committed.
\<close>

section \<open>Channels\<close>

text \<open>
  A commit channel has room for one message.  Every channel of a node is either still waiting
  for its message or holds it, never both, so no handler blocks on a send; only a leader has
  waiting channels.
\<close>

definition client_ok :: "'s raft_node \<Rightarrow> bool" where
  "client_ok rn \<longleftrightarrow> (rn_role rn \<noteq> Leader \<longrightarrow> rn_pendingCommits rn = []) \<and> distinct (chan_ids rn) \<and>
     (\<forall>ch \<in> set (chan_ids rn). ch < rn_nextChan rn)"

text \<open>
  What a handler does to the channels: it opens none, it answers a waiting one with success only
  when its index is committed in a log that extends the old one, and it keeps the others waiting
  only while the log grows.
\<close>

definition serves :: "'s raft_node \<Rightarrow> 's raft_node \<Rightarrow> bool" where
  "serves rn rn' \<longleftrightarrow> rn_nextChan rn' = rn_nextChan rn \<and>
     set (chan_ids rn') \<subseteq> set (chan_ids rn) \<and> distinct (chan_ids rn') \<and>
     set (rn_pendingCommits rn') \<subseteq> set (rn_pendingCommits rn) \<and>
     (rn_role rn' \<noteq> Leader \<longrightarrow> rn_pendingCommits rn' = []) \<and>
     (\<forall>ch. (ch, None) \<in> set (rn_chans rn') \<longrightarrow> (ch, None) \<in> set (rn_chans rn) \<or>
        (\<exists>i. (i, ch) \<in> set (rn_pendingCommits rn) \<and> i \<le> commitIndex rn' \<and>
           take (length (Log rn)) (Log rn') = Log rn)) \<and>
     (rn_pendingCommits rn' = [] \<or> take (length (Log rn)) (Log rn') = Log rn)"

lemma serves_client_ok: "client_ok rn \<Longrightarrow> serves rn rn' \<Longrightarrow> client_ok rn'"
  by (auto simp: client_ok_def serves_def)

text \<open>A handler that does not touch the channels.\<close>

lemma serves_same:
  assumes "client_ok rn" and "rn_chans rn' = rn_chans rn" and "rn_pendingCommits rn' = rn_pendingCommits rn"
    and "rn_nextChan rn' = rn_nextChan rn"
    and "rn_pendingCommits rn = [] \<or> rn_role rn' = Leader \<and> take (length (Log rn)) (Log rn') = Log rn"
  shows "serves rn rn'"
  using assms by (auto simp: serves_def client_ok_def chan_ids_def)

lemma serves_then:
  assumes "serves rn rn1" and "rn_chans rn2 = rn_chans rn1" and "rn_pendingCommits rn2 = rn_pendingCommits rn1"
    and "rn_nextChan rn2 = rn_nextChan rn1" and "rn_role rn2 = rn_role rn1"
    and "Log rn2 = Log rn1" and "commitIndex rn2 = commitIndex rn1"
  shows "serves rn rn2"
  using assms by (simp add: serves_def chan_ids_def)

text \<open>No success is sent in the first half.\<close>

lemma serves_trans:
  assumes "serves rn rn1" and "serves rn1 rn2"
    and "\<And>ch. (ch, None) \<in> set (rn_chans rn1) \<Longrightarrow> (ch, None) \<in> set (rn_chans rn)"
  shows "serves rn rn2"
proof -
  have pre: "take (length (Log rn)) (Log rn2) = Log rn"
    if "take (length (Log rn)) (Log rn1) = Log rn" "take (length (Log rn1)) (Log rn2) = Log rn1"
  proof -
    have "length (Log rn) \<le> length (Log rn1)" using that(1) by (metis length_take min.cobounded1)
    then show ?thesis using that by (metis min.absorb1 take_take)
  qed
  have p: "rn_pendingCommits rn1 \<noteq> [] \<Longrightarrow> take (length (Log rn)) (Log rn1) = Log rn"
    "rn_pendingCommits rn2 \<noteq> [] \<Longrightarrow> rn_pendingCommits rn1 \<noteq> []"
    "rn_pendingCommits rn2 \<noteq> [] \<Longrightarrow> take (length (Log rn1)) (Log rn2) = Log rn1"
    using assms(1,2) by (auto simp: serves_def)
  have "(ch, None) \<in> set (rn_chans rn) \<or> (\<exists>i. (i, ch) \<in> set (rn_pendingCommits rn) \<and>
      i \<le> commitIndex rn2 \<and> take (length (Log rn)) (Log rn2) = Log rn)"
    if ch: "(ch, None) \<in> set (rn_chans rn2)" for ch
  proof (cases "(ch, None) \<in> set (rn_chans rn1)")
    case True
    with assms(3) show ?thesis by blast
  next
    case False
    with ch assms(2) obtain i where i: "(i, ch) \<in> set (rn_pendingCommits rn1)" "i \<le> commitIndex rn2"
      "take (length (Log rn1)) (Log rn2) = Log rn1" unfolding serves_def by blast
    then have "rn_pendingCommits rn1 \<noteq> []" by auto
    with i pre p(1) assms(1) show ?thesis by (auto simp: serves_def)
  qed
  with assms(1,2) pre p show ?thesis by (auto simp: serves_def)
qed

lemma checkTerm_chans:
  "rn_chans (snd (checkTerm D t rn)) = (if CurrentTerm rn < t
     then rn_chans rn @ map (\<lambda>(i, ch). (ch, Some ErrNotLeader)) (rn_pendingCommits rn) else rn_chans rn)"
  by (simp add: checkTerm_def abort_pending_def Let_def)

lemma serves_checkTerm:
  assumes "client_ok rn"
  shows "serves rn (snd (checkTerm D t rn))"
    and "(ch, None) \<in> set (rn_chans (snd (checkTerm D t rn))) \<Longrightarrow> (ch, None) \<in> set (rn_chans rn)"
proof -
  have ids: "chan_ids (snd (checkTerm D t rn)) = chan_ids rn"
    by (simp add: chan_ids_def checkTerm_chans effects case_prod_beta comp_def)
  have none: "(ch, None) \<in> set (rn_chans (snd (checkTerm D t rn))) \<Longrightarrow> (ch, None) \<in> set (rn_chans rn)" for ch
    by (auto simp: checkTerm_chans split: if_splits)
  then show "(ch, None) \<in> set (rn_chans (snd (checkTerm D t rn))) \<Longrightarrow> (ch, None) \<in> set (rn_chans rn)" .
  show "serves rn (snd (checkTerm D t rn))"
    using assms ids none unfolding serves_def client_ok_def by (auto simp: frame effects)
qed

lemma serves_apply:
  assumes ok: "client_ok rn" and k: "rn_chans rn1 = rn_chans rn" "rn_pendingCommits rn1 = rn_pendingCommits rn"
    "rn_nextChan rn1 = rn_nextChan rn" "rn_role rn1 = rn_role rn"
    and L: "rn_pendingCommits rn = [] \<or> take (length (Log rn)) (Log rn1) = Log rn"
  shows "serves rn (applyCommittedEntriesLocked D rn1)"
proof -
  have d: "distinct (chan_ids rn1)" using ok k by (simp add: client_ok_def chan_ids_def)
  have ids: "set (chan_ids rn1) = set (chan_ids rn)" using k by (simp add: chan_ids_def)
  have "(ch, None) \<in> set (rn_chans rn) \<or> (\<exists>i. (i, ch) \<in> set (rn_pendingCommits rn) \<and>
      i \<le> commitIndex (applyCommittedEntriesLocked D rn1) \<and> take (length (Log rn)) (Log rn1) = Log rn)"
    if "(ch, None) \<in> set (rn_chans (applyCommittedEntriesLocked D rn1))" for ch
    using applyCommitted_chans [OF that] L k by (auto simp: frame)
  then show ?thesis
    using ok k L applyCommitted_pending [of D rn1] applyCommitted_chan_ids [OF d, of D] ids
    by (auto simp: serves_def client_ok_def frame)
qed

section \<open>Handlers of nodes without proposals\<close>

definition idle :: "'s raft_node \<Rightarrow> 's raft_node \<Rightarrow> bool" where
  "idle rn rn' \<longleftrightarrow> rn_pendingCommits rn = [] \<and> rn_pendingCommits rn' = [] \<and>
     rn_chans rn' = rn_chans rn \<and> rn_nextChan rn' = rn_nextChan rn"

lemma idle_serves: "client_ok rn \<Longrightarrow> idle rn rn' \<Longrightarrow> serves rn rn'"
  by (auto simp: idle_def serves_def client_ok_def chan_ids_def)

lemma idle_trans: "idle a b \<Longrightarrow> idle b c \<Longrightarrow> idle a c"
  by (simp add: idle_def)

lemma apply_one_no_pending:
  "rn_pendingCommits rn = [] \<Longrightarrow> rn_pendingCommits (apply_one D rn) = [] \<and> rn_chans (apply_one D rn) = rn_chans rn"
  by (simp add: apply_one_def Let_def split: sum.split)

lemma idle_apply: "rn_pendingCommits rn = [] \<Longrightarrow> idle rn (applyCommittedEntriesLocked D rn)"
proof (induction rn rule: apply_induct [where D = D])
  case (1 rn)
  with apply_one_no_pending [OF 1(2), of D] show ?case
    by (subst applyCommittedEntriesLocked.simps) (auto simp: idle_def frame)
qed

lemma send_shape:
  "sendAppendEntriesToPeerLocked D p rn = (rn', cs) \<Longrightarrow> \<exists>x y. rn' = rn\<lparr>rn_leader := x, rn_metrics := y\<rparr>"
  by (auto simp: sendAppendEntriesToPeerLocked_def Let_def split: if_splits option.splits)
    (metis raft_node.surjective raft_node.update_convs(6,11))+

lemma send_to_all_shape:
  "send_to_all D ps rn = (rn', cs) \<Longrightarrow> \<exists>x y. rn' = rn\<lparr>rn_leader := x, rn_metrics := y\<rparr>"
proof (induction ps arbitrary: rn cs)
  case Nil
  then show ?case by (intro exI [of _ "rn_leader rn"] exI [of _ "rn_metrics rn"]) simp
next
  case (Cons p ps)
  obtain rn1 c where s: "sendAppendEntriesToPeerLocked D p rn = (rn1, c)" by fastforce
  obtain cs' where r: "send_to_all D ps rn1 = (rn', cs')"
    using Cons.prems s by (auto split: prod.splits)
  from send_shape [OF s] Cons.IH [OF r] show ?case by fastforce
qed

lemma broadcast_shape:
  assumes "broadcastAppendEntriesLocked D rn = (rn', cs)"
  shows "\<exists>x y. rn' = rn\<lparr>rn_leader := x, rn_metrics := y\<rparr>"
proof (cases "rn_role rn = Leader")
  case True
  with assms show ?thesis by (auto simp: broadcastAppendEntriesLocked_def intro: send_to_all_shape)
next
  case False
  with assms show ?thesis
    by (intro exI [of _ "rn_leader rn"] exI [of _ "rn_metrics rn"]) (simp add: broadcastAppendEntriesLocked_def)
qed

lemma checkAndUpdate_idle: "rn_pendingCommits rn = [] \<Longrightarrow> idle rn (checkAndUpdateCommitIndexLocked D rn)"
proof (cases "rn_role rn = Leader \<and> rn_leader rn \<noteq> None")
  case True
  assume p: "rn_pendingCommits rn = []"
  from True obtain ls xs k where
    "checkAndUpdateCommitIndexLocked D rn = applyCommittedEntriesLocked D (foldl (commit_at D ls k) rn xs)"
    by (auto simp: checkAndUpdateCommitIndexLocked_def Let_def)
  moreover have "idle rn (foldl (commit_at D ls k) rn xs)" using p by (simp add: idle_def frame)
  moreover have "idle (foldl (commit_at D ls k) rn xs) (applyCommittedEntriesLocked D (foldl (commit_at D ls k) rn xs))"
    using p by (intro idle_apply) (simp add: frame)
  ultimately show ?thesis by (metis idle_trans)
qed (auto simp: checkAndUpdateCommitIndexLocked_def idle_def split: option.split)

lemma idle_becomeLeader:
  assumes p: "rn_pendingCommits rn = []" and b: "becomeLeader D e rn = (rn', cs)"
  shows "idle rn rn'"
proof (cases "rn_role rn = Candidate")
  case True
  from b True obtain rn1 rn2 where c: "broadcastAppendEntriesLocked D (checkAndUpdateCommitIndexLocked D rn1) = (rn2, cs)"
    and r: "rn' = resetHeartbeatTimer e rn2" and k: "idle rn rn1"
    using p by (auto simp: becomeLeader_def Let_def idle_def split: prod.splits option.splits)
  have "idle rn1 (checkAndUpdateCommitIndexLocked D rn1)"
    using k by (intro checkAndUpdate_idle) (simp add: idle_def)
  with k broadcast_shape [OF c] show ?thesis by (auto simp: idle_def r frame)
qed (use p b in \<open>simp add: becomeLeader_def idle_def\<close>)

lemma idle_campaign:
  assumes p: "rn_pendingCommits rn = []" and c: "campaignLocked D e rn = (rn', cs)"
  shows "idle rn rn'"
proof (cases "(length (rn_peers rn) + 1) div 2 + 1 \<le> 1")
  case True
  then obtain rn1 where "becomeLeader D e rn1 = (rn', cs)" and k: "idle rn rn1"
    using c p by (auto simp: campaignLocked_def Let_def idle_def frame)
  from idle_trans [OF k idle_becomeLeader [OF _ this(1)]] k show ?thesis by (simp add: idle_def)
next
  case False
  with c p show ?thesis by (auto simp: campaignLocked_def Let_def idle_def frame)
qed

lemma append_loop_channels:
  "rn_pendingCommits (snd (append_loop D req i es rn)) = rn_pendingCommits rn"
  "rn_chans (snd (append_loop D req i es rn)) = rn_chans rn"
  "rn_nextChan (snd (append_loop D req i es rn)) = rn_nextChan rn"
  by (induction D req i es rn rule: append_loop.induct)
    (auto simp: Let_def split: sum.split prod.split option.split)

lemma idle_follower_commit:
  assumes "rn_pendingCommits rn = []"
  shows "idle rn (follower_commit D req rn)"
  using assms idle_apply [of "set_commitIndex x rn" D for x]
  by (auto simp: follower_commit_def Let_def idle_def)

section \<open>The handlers\<close>

lemma serves_refl: "client_ok rn \<Longrightarrow> serves rn rn"
  by (auto simp: serves_def client_ok_def)

lemma pending_follower: "client_ok rn \<Longrightarrow> rn_role rn \<noteq> Leader \<Longrightarrow> rn_pendingCommits rn = []"
  by (simp add: client_ok_def)

lemma serves_startElection:
  assumes ok: "client_ok rn" and b: "startElection D e e' rn = (rn', cs)"
  shows "serves rn rn'"
proof (cases "now e < rn_electionDeadline rn \<or> rn_role rn = Leader")
  case True
  with b ok show ?thesis by (auto simp: startElection_def intro: serves_refl)
next
  case False
  then have p: "rn_pendingCommits rn = []" using pending_follower [OF ok] by simp
  have "idle rn rn'"
  proof (cases "length (rn_peers rn) = 0")
    case True
    then have "campaignLocked D e' (resetElectionTimer e rn) = (rn', cs)"
      using b False by (simp add: startElection_def frame)
    from idle_campaign [OF _ this] p show ?thesis by (simp add: frame idle_def)
  next
    case 2: False
    with b False p show ?thesis by (auto simp: startElection_def Let_def idle_def frame)
  qed
  with ok show ?thesis by (rule idle_serves)
qed

lemma serves_prevote_response:
  assumes ok: "client_ok rn" and b: "on_prevote_response D e k res rn = Some (rn', cs)"
  shows "serves rn rn'"
proof -
  obtain t rn1 where ct: "checkTerm D (rvr_term res) rn = (t, rn1)" by fastforce
  have s: "serves rn rn1" "\<And>ch. (ch, None) \<in> set (rn_chans rn1) \<Longrightarrow> (ch, None) \<in> set (rn_chans rn)"
    using serves_checkTerm [OF ok, where t = "rvr_term res" and D = D] ct by auto
  have ok1: "client_ok rn1" using ok s(1) by (rule serves_client_ok)
  from b obtain pv where pv: "map_of (rn_preVotes rn) k = Some pv"
    by (auto simp: on_prevote_response_def split: option.splits)
  have "serves rn1 rn'"
  proof (cases "t \<or> pv_campaigned pv \<or> rn_role rn1 = Leader \<or> CurrentTerm rn1 \<noteq> pv_term pv
      \<or> pv_started pv < rn_lastLeaderContact rn1 \<or> \<not> rvr_vote_granted res")
    case True
    then have "rn' = rn1 \<or> rn' = resetElectionTimer e rn1"
      using b ct pv by (auto simp: on_prevote_response_def split: bool.splits if_splits)
    then show ?thesis using serves_refl [OF ok1] serves_then [OF serves_refl [OF ok1]] by (auto simp: frame)
  next
    case False
    then have p: "rn_pendingCommits rn1 = []" using pending_follower [OF ok1] by simp
    have "rn' = rn1\<lparr>rn_preVotes := rn_preVotes rn'\<rparr> \<or> (\<exists>x. campaignLocked D e (rn1\<lparr>rn_preVotes := x\<rparr>) = (rn', cs))"
      using b ct pv False by (auto simp: on_prevote_response_def Let_def split: if_splits)
    then have "idle rn1 rn'"
      using p idle_campaign [of "rn1\<lparr>rn_preVotes := x\<rparr>" D e rn' cs for x]
      by (auto simp: idle_def) (metis raft_node.select_convs(16,17,18) raft_node.surjective raft_node.update_convs(19))+
    with ok1 show ?thesis by (rule idle_serves)
  qed
  with s show ?thesis by (blast intro: serves_trans)
qed

lemma serves_vote_response:
  assumes ok: "client_ok rn" and b: "on_vote_response D e k res rn = Some (rn', cs)"
  shows "serves rn rn'"
proof -
  obtain t rn1 where ct: "checkTerm D (rvr_term res) rn = (t, rn1)" by fastforce
  have s: "serves rn rn1" "\<And>ch. (ch, None) \<in> set (rn_chans rn1) \<Longrightarrow> (ch, None) \<in> set (rn_chans rn)"
    using serves_checkTerm [OF ok, where t = "rvr_term res" and D = D] ct by auto
  have ok1: "client_ok rn1" using ok s(1) by (rule serves_client_ok)
  from b obtain cp where cp: "map_of (rn_campaigns rn) k = Some cp"
    by (auto simp: on_vote_response_def split: option.splits)
  have "serves rn1 rn'"
  proof (cases "t \<or> rn_role rn1 \<noteq> Candidate")
    case True
    then have "rn' = rn1 \<or> rn' = resetElectionTimer e rn1"
      using b ct cp by (auto simp: on_vote_response_def split: bool.splits)
    then show ?thesis using serves_refl [OF ok1] serves_then [OF serves_refl [OF ok1]] by (auto simp: frame)
  next
    case False
    then have p: "rn_pendingCommits rn1 = []" using pending_follower [OF ok1] by simp
    have "\<exists>x. rn' = rn1\<lparr>rn_campaigns := x\<rparr> \<or> becomeLeader D e (rn1\<lparr>rn_campaigns := x\<rparr>) = (rn', cs)"
      using b ct cp False
      by (auto simp: on_vote_response_def Let_def split: if_splits intro: exI [of _ "rn_campaigns rn1"])
    then have "idle rn1 rn'"
      using p idle_becomeLeader [of "rn1\<lparr>rn_campaigns := x\<rparr>" D e rn' cs for x] by (auto simp: idle_def)
    with ok1 show ?thesis by (rule idle_serves)
  qed
  with s show ?thesis by (blast intro: serves_trans)
qed

lemma serves_HandleRequestVote:
  assumes ok: "client_ok rn" and b: "HandleRequestVote D e req rn = (res, rn')"
  shows "serves rn rn'"
proof -
  let ?rn = "snd (checkTerm D (rv_term req) rn)"
  have c: "?rn = (if CurrentTerm rn < rv_term req then ?rn else rn)" by (simp add: checkTerm_id)
  have "rn' = rn \<or> rn' = ?rn \<or> (\<exists>v st. rn' = resetElectionTimer e
      (?rn\<lparr>rn_persistent := (rn_persistent ?rn)\<lparr>ps_VotedFor := v\<rparr>, rn_storage := st\<rparr>))"
    using b unfolding HandleRequestVote_def c [symmetric] Let_def by (auto split: if_splits)
  with serves_refl [OF ok] serves_checkTerm(1) [OF ok, of D "rv_term req"]
    serves_then [OF serves_checkTerm(1) [OF ok, of D "rv_term req"]]
  show ?thesis by (auto simp: frame)
qed

lemma serves_HandleAppendEntries:
  assumes ok: "client_ok rn" and b: "HandleAppendEntries D e req rn = (res, rn')"
    and nl: "\<not> ae_term req < CurrentTerm rn \<Longrightarrow> rn_role (snd (checkTerm D (ae_term req) rn)) \<noteq> Leader"
  shows "serves rn rn'"
  using b
proof (cases rule: HandleAppendEntries_cases)
  case 1
  with ok show ?thesis by (simp add: serves_refl)
next
  case (2 r rn1)
  let ?rn = "snd (checkTerm D (ae_term req) rn)" and ?l = "snd (append_loop D req 0 (ae_entries req) rn1)"
  have s: "serves rn ?rn" by (rule serves_checkTerm(1) [OF ok])
  have p: "rn_pendingCommits ?rn = []"
    using pending_follower [OF serves_client_ok [OF ok s]] nl 2(3) by simp
  then have i: "idle ?rn rn1" unfolding 2(1) by (simp add: idle_def frame)
  then have l: "idle ?rn ?l" by (simp add: idle_def append_loop_channels)
  then have "idle ?rn (follower_commit D req ?l)"
    using idle_trans [OF l idle_follower_commit] by (simp add: idle_def)
  with i l 2(4) have "idle ?rn rn'" by auto
  then have "serves ?rn rn'" using serves_client_ok [OF ok s] by (intro idle_serves)
  with s serves_checkTerm(2) [OF ok] show ?thesis by (blast intro: serves_trans)
qed

lemma serves_append_response:
  assumes ok: "client_ok rn" and b: "on_append_response D e p r k resp rn = Some (rn', cs)"
  shows "serves rn rn'"
proof -
  obtain t rn1 where ct: "checkTerm D (aer_term resp) rn = (t, rn1)" by fastforce
  have s: "serves rn rn1" "\<And>ch. (ch, None) \<in> set (rn_chans rn1) \<Longrightarrow> (ch, None) \<in> set (rn_chans rn)"
    using serves_checkTerm [OF ok, where t = "aer_term resp" and D = D] ct by auto
  have ok1: "client_ok rn1" using ok s(1) by (rule serves_client_ok)
  have "serves rn1 rn'"
  proof (cases "t \<or> rn_role rn1 \<noteq> Leader \<or> CurrentTerm rn1 \<noteq> ae_term r \<or> rn_leader rn1 = None")
    case True
    then have "rn' = rn1 \<or> rn' = resetElectionTimer e rn1"
      using b ct by (auto simp: on_append_response_def split: bool.splits if_splits option.splits)
    then show ?thesis using serves_refl [OF ok1] serves_then [OF serves_refl [OF ok1]] by (auto simp: frame)
  next
    case False
    then obtain ls where ls: "rn_leader rn1 = Some ls" "rn_role rn1 = Leader" by auto
    with b ct False consider x where "rn' = checkAndUpdateCommitIndexLocked D (rn1\<lparr>rn_leader := x\<rparr>)"
      | x where "sendAppendEntriesToPeerLocked D p (rn1\<lparr>rn_leader := x\<rparr>) = (rn', cs)" | "rn' = rn1"
      by (auto simp: on_append_response_def Let_def split: if_splits)
    then show ?thesis
    proof cases
      case (1 x)
      show ?thesis
      proof (cases x)
        case None
        with 1 have "rn' = rn1\<lparr>rn_leader := x\<rparr>" by (simp add: checkAndUpdateCommitIndexLocked_def)
        then show ?thesis using serves_then [OF serves_refl [OF ok1]] by simp
      next
        case (Some ls')
        with 1 ls obtain xs k where
          "rn' = applyCommittedEntriesLocked D (foldl (commit_at D ls' k) (rn1\<lparr>rn_leader := x\<rparr>) xs)"
          by (auto simp: checkAndUpdateCommitIndexLocked_def Let_def)
        then show ?thesis by (auto intro!: serves_apply [OF ok1] simp: frame)
      qed
    next
      case (2 x)
      from send_shape [OF 2] show ?thesis using serves_then [OF serves_refl [OF ok1]] by auto
    qed (simp add: serves_refl [OF ok1])
  qed
  with s show ?thesis by (blast intro: serves_trans)
qed

lemma serves_broadcast:
  "client_ok rn \<Longrightarrow> broadcastAppendEntriesLocked D rn = (rn', cs) \<Longrightarrow> serves rn rn'"
  using serves_then [OF serves_refl] broadcast_shape by fastforce

lemma serves_timers:
  "client_ok rn \<Longrightarrow> serves rn (resetElectionTimer e rn)" "client_ok rn \<Longrightarrow> serves rn (resetHeartbeatTimer e rn)"
  using serves_then [OF serves_refl [of rn], of "resetElectionTimer e rn"]
    serves_then [OF serves_refl [of rn], of "resetHeartbeatTimer e rn"]
  by (simp_all add: frame)

section \<open>Waiting proposals\<close>

text \<open>
  An acknowledged write: the command is committed at its index, in some log of the cluster's
  history.
\<close>

definition acked_ok :: "string set \<Rightarrow> (string, log_entry) spec \<Rightarrow> u64 \<Rightarrow> bytes \<Rightarrow> bool" where
  "acked_ok N a i cmd \<longleftrightarrow> (\<exists>X n e. n \<in> N \<and> safe_upto N a X (a_term a n) (unat i) \<and> X ! unat i = abs_entry e \<and> le_command e = cmd)"

lemma node_steps_safe_upto:
  assumes "node_steps N n a a'" and a: "spec_ok fits N a" and s: "safe_upto N a X (a_term a k) i"
  shows "safe_upto N a' X (a_term a' k) i"
  using assms(1)
proof (induction rule: rtranclp_induct)
  case base
  show ?case by (rule s)
next
  case (step b c)
  have "spec_inv N b" using step(1) spec_okD(1,3) [OF a] by (blast intro: node_steps_inv)
  then have core: "inv_core N b" by (simp add: spec_inv_def)
  have sp: "spec_step N b c" using step(2) by (simp add: local_step_def)
  show ?case
    by (rule safe_upto_step [OF sp core spec_okD(1) [OF a] step.IH step_term_mono [OF sp]])
qed

lemma acked_ok_mono: "acked_ok N a i cmd \<Longrightarrow> node_steps N n a a' \<Longrightarrow> spec_ok fits N a \<Longrightarrow> acked_ok N a' i cmd"
  unfolding acked_ok_def using node_steps_safe_upto by blast

text \<open>\<open>Ws\<close> holds the channel, the index and the command of every proposal that waits on the node.\<close>

definition waiter_ok :: "string set \<Rightarrow> 's raft_node \<Rightarrow> (string, log_entry) spec \<Rightarrow> nat \<Rightarrow> u64 \<Rightarrow> bytes \<Rightarrow> bool" where
  "waiter_ok N rn a ch i cmd \<longleftrightarrow> ch < rn_nextChan rn \<and>
     (\<forall>j. (j, ch) \<in> set (rn_pendingCommits rn) \<longrightarrow>
        j = i \<and> unat i < length (Log rn) \<and> le_command (Log rn ! unat i) = cmd) \<and>
     ((ch, None) \<in> set (rn_chans rn) \<longrightarrow> acked_ok N a i cmd)"

definition waiters_ok ::
    "string set \<Rightarrow> 's raft_node \<Rightarrow> (nat \<times> u64 \<times> bytes) set \<Rightarrow> (string, log_entry) spec \<Rightarrow> bool" where
  "waiters_ok N rn Ws a \<longleftrightarrow> client_ok rn \<and> (\<forall>ch i cmd. (ch, i, cmd) \<in> Ws \<longrightarrow> waiter_ok N rn a ch i cmd)"

lemma waiters_mono:
  assumes "waiters_ok N rn Ws a" and "node_steps N k a a'" and "spec_ok fits N a" and "Ws' \<subseteq> Ws"
  shows "waiters_ok N rn Ws' a'"
proof -
  have "waiter_ok N rn a' ch i cmd" if "waiter_ok N rn a ch i cmd" for ch i cmd
    using that acked_ok_mono [OF _ assms(2,3)] unfolding waiter_ok_def by blast
  with assms(1,4) show ?thesis unfolding waiters_ok_def by blast
qed

context engine
begin

lemma acked_ok_commit:
  assumes "spec_ok fits N a" and "n \<in> N" and "sim N n rn a" and "unat i \<le> unat (commitIndex rn)"
    and "le_command (Log rn ! unat i) = cmd"
  shows "acked_ok N a i cmd"
proof -
  have "safe_upto N a (a_log a n) (a_term a n) (a_commit a n)"
    using commitD(1) [OF spec_okD(7) [OF assms(1)] assms(2)] .
  then have "safe_upto N a (a_log a n) (a_term a n) (unat i)"
    using assms(3,4) by (elim safe_upto_le) (simp add: sim_defs)
  moreover have "a_log a n ! unat i = abs_entry (Log rn ! unat i)"
    using assms(3,4) by (simp add: sim_defs)
  ultimately show ?thesis
    using assms(2,5) unfolding acked_ok_def
    by (intro exI [of _ "a_log a n"] exI [of _ n] exI [of _ "Log rn ! unat i"]) simp
qed

lemma waiters_serves:
  assumes w: "waiters_ok N rn Ws a" and s: "serves rn rn'" and a': "moves N n a rn' a'"
    and a: "spec_ok fits N a" and n: "n \<in> N" and sub: "Ws' \<subseteq> Ws"
  shows "waiters_ok N rn' Ws' a'"
proof -
  have ok: "client_ok rn" using w by (simp add: waiters_ok_def)
  have pre: "unat i < length (Log rn') \<and> Log rn' ! unat i = Log rn ! unat i"
    if "take (length (Log rn)) (Log rn') = Log rn" "unat i < length (Log rn)" for i :: u64
  proof -
    have "length (Log rn) \<le> length (Log rn')" using that(1) by (metis length_take min.cobounded1)
    with that show ?thesis by (metis nth_take order_less_le_trans)
  qed
  have "waiter_ok N rn' a' ch i cmd" if x: "(ch, i, cmd) \<in> Ws'" for ch i cmd
    unfolding waiter_ok_def
  proof (intro conjI allI impI)
    from x sub w have lt: "ch < rn_nextChan rn"
      and pend: "\<And>j. (j, ch) \<in> set (rn_pendingCommits rn) \<Longrightarrow>
        j = i \<and> unat i < length (Log rn) \<and> le_command (Log rn ! unat i) = cmd"
      and sent: "(ch, None) \<in> set (rn_chans rn) \<Longrightarrow> acked_ok N a i cmd"
      unfolding waiters_ok_def waiter_ok_def by blast+
    show "ch < rn_nextChan rn'" using lt s by (simp add: serves_def)
    { fix j
      assume j: "(j, ch) \<in> set (rn_pendingCommits rn')"
      then have j': "(j, ch) \<in> set (rn_pendingCommits rn)" "take (length (Log rn)) (Log rn') = Log rn"
        using s by (auto simp: serves_def)
      from pend [OF j'(1)] pre [OF j'(2), of i]
      show "j = i" "unat i < length (Log rn')" "le_command (Log rn' ! unat i) = cmd" by simp_all }
    assume c: "(ch, None) \<in> set (rn_chans rn')"
    show "acked_ok N a' i cmd"
    proof (cases "(ch, None) \<in> set (rn_chans rn)")
      case True
      with sent a' a show ?thesis by (blast intro: acked_ok_mono)
    next
      case False
      with c s obtain j where j: "(j, ch) \<in> set (rn_pendingCommits rn)" "j \<le> commitIndex rn'"
        "take (length (Log rn)) (Log rn') = Log rn" unfolding serves_def by blast
      from pend [OF j(1)] pre [OF j(3), of i]
      have "j = i" "le_command (Log rn' ! unat i) = cmd" by simp_all
      with j(2) a' n show ?thesis
        by (intro acked_ok_commit [of N a' n rn']) (simp_all add: unat_le_u64)
    qed
  qed
  then show ?thesis
    using serves_client_ok [OF ok s] unfolding waiters_ok_def by blast
qed

section \<open>Proposing\<close>

lemma distinct_update_fresh:
  "distinct (map snd m) \<Longrightarrow> v \<notin> snd ` set m \<Longrightarrow> distinct (map snd (AList.update k v m)) \<and>
     snd ` set (AList.update k v m) \<subseteq> insert v (snd ` set m)"
  by (induction m) auto

lemma set_update_subset: "set (AList.update k v m) \<subseteq> insert (k, v) (set m)"
  by (induction m) auto

lemma propose_done:
  assumes ok: "client_ok rn" and m: "mirroring rn" and L: "rn_role rn = Leader"
    and b: "ProposeCommand D cmd rn = (ProposeDone i, rn', cs)"
  shows "serves rn rn' \<and> commitIndex rn' = i \<and> unat i < length (Log rn') \<and> le_command (Log rn' ! unat i) = cmd"
proof -
  let ?x = "fst (LastIndex B (rn_storage rn)) + 1"
  let ?e = "\<lparr>le_index = ?x, le_term = CurrentTerm rn, le_command = cmd\<rparr>"
  have x: "unat ?x = length (Log rn)" using mirrors_LastIndex_Suc [OF m] .
  obtain st where i: "i = ?x"
    and r: "rn' = applyCommittedEntriesLocked D (set_commitIndex ?x ((set_Log (Log rn @ [?e]) rn)\<lparr>rn_storage := st\<rparr>))"
    using b L by (auto simp: ProposeCommand_def Let_def split: if_splits prod.splits option.splits)
  have "serves rn rn'" unfolding r by (rule serves_apply [OF ok]) simp_all
  then show ?thesis unfolding i using x by (simp add: r frame nth_append)
qed

lemma propose_wait:
  assumes m: "mirroring rn" and b: "ProposeCommand D cmd rn = (ProposeWait i ch, rn', cs)"
  shows "ch = rn_nextChan rn \<and> rn_nextChan rn' = Suc ch \<and> rn_chans rn' = rn_chans rn \<and>
    rn_pendingCommits rn' = AList.update i ch (rn_pendingCommits rn) \<and> rn_role rn' = Leader \<and>
    rn_role rn = Leader \<and> take (length (Log rn)) (Log rn') = Log rn \<and>
    unat i < length (Log rn') \<and> le_command (Log rn' ! unat i) = cmd"
proof -
  let ?x = "fst (LastIndex B (rn_storage rn)) + 1"
  let ?e = "\<lparr>le_index = ?x, le_term = CurrentTerm rn, le_command = cmd\<rparr>"
  have x: "unat ?x = length (Log rn)" using mirrors_LastIndex_Suc [OF m] .
  have L: "rn_role rn = Leader" using b by (auto simp: ProposeCommand_def split: if_splits)
  obtain err st where ap: "AppendEntries B [?e] (rn_storage rn) = (err, st)" by fastforce
  have none: "err = None" using b L ap by (auto simp: ProposeCommand_def Let_def split: option.splits)
  have peers: "length (rn_peers rn) \<noteq> 0" using b L ap none by (auto simp: ProposeCommand_def Let_def)
  obtain rn2 cs2 where r: "broadcastAppendEntriesLocked D (((set_Log (Log rn @ [?e]) rn)\<lparr>rn_storage := st\<rparr>)\<lparr>
      rn_nextChan := Suc (rn_nextChan rn),
      rn_pendingCommits := AList.update ?x (rn_nextChan rn) (rn_pendingCommits rn)\<rparr>) = (rn2, cs2)"
    by fastforce
  have i: "i = ?x" "ch = rn_nextChan rn" "rn' = rn2"
    using b L ap none peers r by (simp_all add: ProposeCommand_def Let_def)
  from broadcast_shape [OF r] obtain y z where r': "rn2 = ((set_Log (Log rn @ [?e]) rn)\<lparr>rn_storage := st\<rparr>)\<lparr>
      rn_nextChan := Suc (rn_nextChan rn),
      rn_pendingCommits := AList.update ?x (rn_nextChan rn) (rn_pendingCommits rn),
      rn_leader := y, rn_metrics := z\<rparr>" by auto
  show ?thesis unfolding i r' using L x by simp
qed

lemma waiters_propose:
  assumes w: "waiters_ok N rn Ws a" and m: "mirroring rn" and a: "spec_ok fits N a" and a': "node_steps N n a a'"
    and b: "ProposeCommand D cmd rn = (ProposeWait i ch, rn', cs)"
  shows "waiters_ok N rn' (insert (ch, i, cmd) Ws) a'"
proof -
  note p = propose_wait [OF m b]
  have ok: "client_ok rn" using w by (simp add: waiters_ok_def)
  then have fresh: "ch \<notin> set (chan_ids rn)" using p by (auto simp: client_ok_def)
  then have d: "distinct (map snd (AList.update i ch (rn_pendingCommits rn)))"
    "snd ` set (AList.update i ch (rn_pendingCommits rn)) \<subseteq> insert ch (snd ` set (rn_pendingCommits rn))"
    using ok distinct_update_fresh [of "rn_pendingCommits rn" ch i] by (auto simp: client_ok_def chan_ids_def)
  have "fst ` set (rn_chans rn) \<inter> snd ` set (rn_pendingCommits rn) = {}" "ch \<notin> fst ` set (rn_chans rn)"
    using ok fresh by (simp_all add: client_ok_def chan_ids_def)
  then have "fst ` set (rn_chans rn) \<inter> snd ` set (AList.update i ch (rn_pendingCommits rn)) = {}"
    using d(2) by blast
  then have "distinct (chan_ids rn')" "set (chan_ids rn') \<subseteq> insert ch (set (chan_ids rn))"
    using ok p d by (auto simp: client_ok_def chan_ids_def)
  then have ok': "client_ok rn'" using ok p unfolding client_ok_def by (auto simp: less_Suc_eq)
  have old: "unat j < length (Log rn') \<and> Log rn' ! unat j = Log rn ! unat j" if "unat j < length (Log rn)" for j :: u64
  proof -
    have "length (Log rn) \<le> length (Log rn')" using p by (metis length_take min.cobounded1)
    with that p show ?thesis by (metis nth_take order_less_le_trans)
  qed
  have new: "waiter_ok N rn' a' x k c"
    if x: "(x, k, c) \<in> insert (ch, i, cmd) Ws" for x k c
  proof (cases "(x, k, c) = (ch, i, cmd)")
    case True
    have "(j, ch) \<in> set (rn_pendingCommits rn') \<Longrightarrow> j = i" for j
      using p fresh set_update_subset [of i ch "rn_pendingCommits rn"] by (force simp: chan_ids_def)
    moreover have "(ch, None) \<notin> set (rn_chans rn')" using p fresh by (force simp: chan_ids_def)
    ultimately show ?thesis using True p unfolding waiter_ok_def by auto
  next
    case False
    with x have xW: "(x, k, c) \<in> Ws" by auto
    with w have lt: "x < ch" and pend: "\<And>j. (j, x) \<in> set (rn_pendingCommits rn) \<Longrightarrow>
        j = k \<and> unat k < length (Log rn) \<and> le_command (Log rn ! unat k) = c"
      and sent: "(x, None) \<in> set (rn_chans rn) \<Longrightarrow> acked_ok N a k c"
      using p unfolding waiters_ok_def waiter_ok_def by blast+
    have "(j, x) \<in> set (rn_pendingCommits rn') \<Longrightarrow> (j, x) \<in> set (rn_pendingCommits rn)" for j
      using p lt set_update_subset [of i ch "rn_pendingCommits rn"] by auto
    then have "j = k \<and> unat k < length (Log rn') \<and> le_command (Log rn' ! unat k) = c"
      if "(j, x) \<in> set (rn_pendingCommits rn')" for j
      using pend [of j] old [of k] that by simp
    with sent p lt acked_ok_mono [OF _ a' a] show ?thesis unfolding waiter_ok_def by auto
  qed
  from ok' new show ?thesis unfolding waiters_ok_def by blast
qed

end

end
