(* ===== verification/Cluster_Refinement.thy ===== *)
theory Cluster_Refinement
  imports Clients
begin

text \<open>
  The cluster of the code refines the abstract protocol: every event is a sequence of abstract
  steps, and the messages in flight, the vote counts and the waiting proposals mean what the
  protocol's history says.
\<close>

section \<open>Goroutines of the cluster\<close>

definition open_of :: "'s cluster \<Rightarrow> string \<Rightarrow> open_calls" where
  "open_of c n = {(i, x). i \<in> set (c_waiting c) \<and> (i, n, x) \<in> set (c_calls c)}"

definition waits_of :: "'s cluster \<Rightarrow> string \<Rightarrow> (nat \<times> u64 \<times> bytes) set" where
  "waits_of c n = {w. (n, w) \<in> set (c_waiters c)}"

lemma new_calls_Nil [simp]: "new_calls b [] = {}"
  by (simp add: new_calls_def)

lemma new_calls_Cons: "new_calls b (x # cs) = insert (b, x) (new_calls (Suc b) cs)"
proof (intro set_eqI iffI)
  fix z
  assume "z \<in> new_calls b (x # cs)"
  then obtain j where j: "z = (b + j, (x # cs) ! j)" "j < Suc (length cs)" by (auto simp: new_calls_def)
  then show "z \<in> insert (b, x) (new_calls (Suc b) cs)" by (cases j) (auto simp: new_calls_def)
next
  fix z
  assume "z \<in> insert (b, x) (new_calls (Suc b) cs)"
  then consider "z = (b, x)" | k where "z = (Suc b + k, cs ! k)" "k < length cs" by (auto simp: new_calls_def)
  then show "z \<in> new_calls b (x # cs)"
  proof cases
    case 1
    then show ?thesis unfolding new_calls_def by (intro CollectI exI [of _ 0]) simp
  next
    case (2 k)
    then show ?thesis unfolding new_calls_def by (intro CollectI exI [of _ "Suc k"]) simp
  qed
qed

lemma new_calls_fresh: "(i, x) \<in> new_calls b cs \<Longrightarrow> b \<le> i"
  by (auto simp: new_calls_def)

lemma spawn_frame [simp]:
  "c_nodes (spawn n cs c) = c_nodes c" "c_replies (spawn n cs c) = c_replies c"
  "c_waiters (spawn n cs c) = c_waiters c" "c_acked (spawn n cs c) = c_acked c"
  by (induction n cs c rule: spawn.induct) simp_all

lemma spawn_next: "c_next (spawn n cs c) = c_next c + length cs"
  by (induction n cs c rule: spawn.induct) simp_all

lemma spawn_calls: "set (c_calls (spawn n cs c)) = set (c_calls c) \<union> {(i, n, x) | i x. (i, x) \<in> new_calls (c_next c) cs}"
  by (induction n cs c rule: spawn.induct) (auto simp: new_calls_Cons)

lemma spawn_waiting: "set (c_waiting (spawn n cs c)) = set (c_waiting c) \<union> fst ` new_calls (c_next c) cs"
  by (induction n cs c rule: spawn.induct) (auto simp: new_calls_Cons)

definition ids_ok :: "'s cluster \<Rightarrow> bool" where
  "ids_ok c \<longleftrightarrow> distinct (keys (c_calls c)) \<and> (\<forall>x \<in> set (c_calls c). fst x < c_next c) \<and>
     set (c_waiting c) \<subseteq> fst ` set (c_calls c)"

lemma ids_ok_spawn: "ids_ok c \<Longrightarrow> ids_ok (spawn n cs c)"
proof (induction n cs c rule: spawn.induct)
  case (2 n p k cs c)
  have "ids_ok (c\<lparr>c_calls := (c_next c, n, p, k) # c_calls c,
                   c_waiting := c_next c # c_waiting c, c_next := Suc (c_next c)\<rparr>)"
    using 2(2) by (auto simp: ids_ok_def less_Suc_eq)
  from 2(1) [OF this] show ?case by simp
qed simp

lemma open_of_spawn:
  assumes "ids_ok c"
  shows "open_of (spawn n cs c) m = (if m = n then open_of c n \<union> new_calls (c_next c) cs else open_of c m)"
proof -
  have old: "i < c_next c" if "(i, x) \<in> set (c_calls c)" for i x
    using assms that by (force simp: ids_ok_def)
  have w: "i < c_next c" if "i \<in> set (c_waiting c)" for i
    using assms that by (force simp: ids_ok_def)
  have new: "i \<notin> set (c_waiting c) \<and> (i, y) \<notin> set (c_calls c)" if "(i, x) \<in> new_calls (c_next c) cs" for i x y
    using new_calls_fresh [OF that] old w by (meson leD)
  have "(i, x) \<in> open_of (spawn n cs c) m \<longleftrightarrow>
      (i, x) \<in> open_of c m \<or> (m = n \<and> (i, x) \<in> new_calls (c_next c) cs)" (is "?l \<longleftrightarrow> ?r") for i x
  proof
    assume ?l
    then have "i \<in> set (c_waiting c) \<union> fst ` new_calls (c_next c) cs"
      "(i, m, x) \<in> set (c_calls c) \<or> (m = n \<and> (i, x) \<in> new_calls (c_next c) cs)"
      by (auto simp: open_of_def spawn_calls spawn_waiting)
    moreover have "i \<notin> fst ` new_calls (c_next c) cs" if "(i, m, x) \<in> set (c_calls c)"
      using new [of i _ "(m, x)"] that by force
    ultimately show ?r by (auto simp: open_of_def)
  next
    assume r: ?r
    have "i \<in> fst ` new_calls (c_next c) cs" if "(i, x) \<in> new_calls (c_next c) cs"
      by (rule image_eqI [OF _ that]) simp
    with r show ?l by (cases x) (auto simp: open_of_def spawn_calls spawn_waiting)
  qed
  then show ?thesis by auto
qed

fun reply_ok :: "(string, log_entry) spec \<Rightarrow> string \<Rightarrow> string \<Rightarrow> rpc_call \<Rightarrow> reply \<Rightarrow> bool" where
  "reply_ok a n p (PreVoteCall k req) (VoteReply res) = True"
| "reply_ok a n p (VoteCall k req) (VoteReply res) =
     (rvr_vote_granted res \<longrightarrow> (unat (rv_term req), p, n) \<in> a_votes a)"
| "reply_ok a n p (AppendCall r k) (AppendReply res) =
     (aer_success res \<longrightarrow> (\<forall>j \<le> unat (ae_prev_log_index r) + k. (unat (ae_term r), p, j) \<in> a_acks a))"
| "reply_ok a n p _ _ = False"

lemma reply_ok_mono: "reply_ok a n p call r \<Longrightarrow> hist_le a a' \<Longrightarrow> reply_ok a' n p call r"
  by (induction a n p call r rule: reply_ok.induct) (auto dest: hist_leD(1,2))

section \<open>The simulation\<close>

context engine
begin

definition csim :: "string set \<Rightarrow> 's cluster \<Rightarrow> (string, log_entry) spec \<Rightarrow> bool" where
  "csim N c a \<longleftrightarrow> spec_ok fits N a \<and> ids_ok c \<and>
     (\<forall>n \<in> N. sim N n (c_nodes c n) a \<and> rounds_ok N n (c_nodes c n) (open_of c n) a \<and>
        waiters_ok N (c_nodes c n) (waits_of c n) a) \<and>
     (\<forall>i n p call. (i, n, p, call) \<in> set (c_calls c) \<longrightarrow> n \<in> N \<and> p \<in> N - {n} \<and> call_ok n a call) \<and>
     (\<forall>i r. (i, r) \<in> set (c_replies c) \<longrightarrow>
        (\<exists>n p call. (i, n, p, call) \<in> set (c_calls c) \<and> reply_ok a n p call r)) \<and>
     (\<forall>i cmd. (i, cmd) \<in> set (c_acked c) \<longrightarrow> acked_ok N a i cmd) \<and>
     (\<forall>n w. (n, w) \<in> set (c_waiters c) \<longrightarrow> n \<in> N)"

lemma csimD:
  assumes "csim N c a"
  shows "spec_ok fits N a" "ids_ok c" "n \<in> N \<Longrightarrow> sim N n (c_nodes c n) a"
    "n \<in> N \<Longrightarrow> rounds_ok N n (c_nodes c n) (open_of c n) a"
    "n \<in> N \<Longrightarrow> waiters_ok N (c_nodes c n) (waits_of c n) a"
    "(i, n, p, call) \<in> set (c_calls c) \<Longrightarrow> n \<in> N \<and> p \<in> N - {n} \<and> call_ok n a call"
    "(i, r) \<in> set (c_replies c) \<Longrightarrow> \<exists>n p call. (i, n, p, call) \<in> set (c_calls c) \<and> reply_ok a n p call r"
    "(j, cmd) \<in> set (c_acked c) \<Longrightarrow> acked_ok N a j cmd"
    "(n, w) \<in> set (c_waiters c) \<Longrightarrow> n \<in> N"
  using assms unfolding csim_def by blast+

text \<open>A handler of node \<open>n\<close> that spawns the calls \<open>cs\<close>.\<close>

text \<open>A member that an event does not touch is still in step with the protocol.\<close>

lemma csim_others:
  assumes c: "csim N c a" and steps: "node_steps N n a a'" and ok': "spec_ok fits N a'"
    and calls: "c_calls c0 = c_calls c" and waiting: "set (c_waiting c0) \<subseteq> set (c_waiting c)"
    and m: "m \<in> N" "m \<noteq> n" and waits: "waits_of c0 m \<subseteq> waits_of c m"
  shows "sim N m (c_nodes c m) a' \<and> rounds_ok N m (c_nodes c m) (open_of c0 m) a' \<and>
    waiters_ok N (c_nodes c m) (waits_of c0 m) a'"
proof (intro conjI)
  have le: "hist_le a a'" using spec_ok_hist [OF csimD(1) [OF c] steps] .
  show "sim N m (c_nodes c m) a'"
    using node_sim_same [OF csimD(3) [OF c m(1)] node_steps_same [OF steps m(2)]] le
    by (auto simp: hist_le_def)
  have sub: "open_of c0 m \<subseteq> open_of c m" using waiting calls by (auto simp: open_of_def)
  show "rounds_ok N m (c_nodes c m) (open_of c0 m) a'"
    by (rule rounds_mono [OF csimD(4) [OF c m(1)]]) (use le sub in \<open>auto simp: hist_le_def\<close>)
  show "waiters_ok N (c_nodes c m) (waits_of c0 m) a'"
    using waiters_mono [OF csimD(5) [OF c m(1)] steps csimD(1) [OF c] waits] .
qed

lemma csim_update:
  assumes c: "csim N c a" and n: "n \<in> N" and a': "moves N n a rn' a'" and cs: "calls_ok N n a' cs"
    and nodes: "c_nodes c0 = (c_nodes c)(n := rn')" and calls: "c_calls c0 = c_calls c"
    and nxt: "c_next c0 = c_next c" and waiting: "set (c_waiting c0) \<subseteq> set (c_waiting c)"
    and rounds: "rounds_ok N n rn' (open_of c0 n \<union> new_calls (c_next c) cs) a'"
    and waits: "waiters_ok N rn' (waits_of c0 n) a'" "\<And>m. m \<noteq> n \<Longrightarrow> waits_of c0 m \<subseteq> waits_of c m"
    and replies: "\<And>i r. (i, r) \<in> set (c_replies c0) \<Longrightarrow> (i, r) \<in> set (c_replies c) \<or>
      (\<exists>m p call. (i, m, p, call) \<in> set (c_calls c) \<and> reply_ok a' m p call r)"
    and acked: "\<And>i cmd. (i, cmd) \<in> set (c_acked c0) \<Longrightarrow> (i, cmd) \<in> set (c_acked c) \<or> acked_ok N a' i cmd"
  shows "csim N (spawn n cs c0) a'"
proof -
  note a = csimD(1) [OF c]
  have steps: "node_steps N n a a'" and ok': "spec_ok fits N a'" using a' by blast+
  have le: "hist_le a a'" using spec_ok_hist [OF a steps] .
  have ids0: "ids_ok c0" using csimD(2) [OF c] calls nxt waiting by (auto simp: ids_ok_def)
  note other = csim_others [OF c steps ok' calls waiting _ _ waits(2)]
  show ?thesis
    unfolding csim_def
  proof (intro conjI allI impI ballI)
    show "spec_ok fits N a'" by (rule ok')
    show "ids_ok (spawn n cs c0)" using ids0 by (rule ids_ok_spawn)
  next
    fix m assume m: "m \<in> N"
    show "sim N m (c_nodes (spawn n cs c0) m) a'"
      using other [OF m] a' nodes by (cases "m = n") simp_all
    show "rounds_ok N m (c_nodes (spawn n cs c0) m) (open_of (spawn n cs c0) m) a'"
      using other [OF m] rounds nodes nxt by (cases "m = n") (simp_all add: open_of_spawn [OF ids0])
    show "waiters_ok N (c_nodes (spawn n cs c0) m) (waits_of (spawn n cs c0) m) a'"
      using other [OF m] waits(1) nodes by (cases "m = n") (simp_all add: waits_of_def)
  next
    fix i m p call
    assume "(i, m, p, call) \<in> set (c_calls (spawn n cs c0))"
    then consider "(i, m, p, call) \<in> set (c_calls c)" | "m = n" "(p, call) \<in> set cs"
      using calls by (auto simp: spawn_calls dest: new_calls_in)
    then have "m \<in> N \<and> p \<in> N - {m} \<and> call_ok m a' call"
    proof cases
      case 1
      with csimD(6) [OF c 1] call_ok_mono [OF _ le] show ?thesis by blast
    next
      case 2
      with cs n show ?thesis by (auto simp: calls_ok_def)
    qed
    then show "m \<in> N" "p \<in> N - {m}" "call_ok m a' call" by blast+
  next
    fix i r
    assume "(i, r) \<in> set (c_replies (spawn n cs c0))"
    then have "(i, r) \<in> set (c_replies c0)" by simp
    from replies [OF this] csimD(7) [OF c, of i r] reply_ok_mono [OF _ le]
    have "\<exists>m p call. (i, m, p, call) \<in> set (c_calls c) \<and> reply_ok a' m p call r" by blast
    then show "\<exists>m p call. (i, m, p, call) \<in> set (c_calls (spawn n cs c0)) \<and> reply_ok a' m p call r"
      using calls by (auto simp: spawn_calls)
  next
    fix i cmd
    assume "(i, cmd) \<in> set (c_acked (spawn n cs c0))"
    then have "(i, cmd) \<in> set (c_acked c0)" by simp
    from acked [OF this] csimD(8) [OF c, of i cmd] acked_ok_mono [OF _ steps a] show "acked_ok N a' i cmd"
      by blast
  next
    fix m w
    assume "(m, w) \<in> set (c_waiters (spawn n cs c0))"
    then have "w \<in> waits_of c0 m" by (simp add: waits_of_def)
    then show "m \<in> N"
      using n waits(2) [of m] csimD(9) [OF c, of m w] by (cases "m = n") (auto simp: waits_of_def)
  qed
qed

text \<open>The common cases: no change to the waiting proposals.\<close>

lemma csim_serves:
  assumes c: "csim N c a" and n: "n \<in> N" and a': "moves N n a rn' a'" and cs: "calls_ok N n a' cs"
    and s: "serves (c_nodes c n) rn'" and waiting: "set w \<subseteq> set (c_waiting c)"
    and rounds: "rounds_ok N n rn' (open_of (c\<lparr>c_waiting := w\<rparr>) n \<union> new_calls (c_next c) cs) a'"
    and replies: "\<And>i r. (i, r) \<in> set rs \<Longrightarrow> (i, r) \<in> set (c_replies c) \<or>
      (\<exists>m p call. (i, m, p, call) \<in> set (c_calls c) \<and> reply_ok a' m p call r)"
  shows "csim N (spawn n cs ((set_node n rn' c)\<lparr>c_waiting := w, c_replies := rs\<rparr>)) a'"
proof (rule csim_update [OF c n a' cs])
  show "waiters_ok N rn' (waits_of ((set_node n rn' c)\<lparr>c_waiting := w, c_replies := rs\<rparr>) n) a'"
    using waiters_serves [OF csimD(5) [OF c n] s a' csimD(1) [OF c] n] by (simp add: waits_of_def)
qed (use waiting rounds replies in \<open>auto simp: waits_of_def open_of_def\<close>)

lemma csim_handler:
  assumes c: "csim N c a" and n: "n \<in> N" and a': "moves N n a rn' a'" and cs: "calls_ok N n a' cs"
    and s: "serves (c_nodes c n) rn'" and k: "rounds_kept N n (c_nodes c n) a rn' cs a'"
  shows "csim N (spawn n cs (set_node n rn' c)) a'"
proof -
  have "rounds_ok N n rn' (open_of c n \<union> new_calls (c_next c) cs) a'"
    using csimD(4) [OF c n] k unfolding rounds_kept_def by blast
  then show ?thesis
    using csim_serves [OF c n a' cs s, of "c_waiting c" "c_replies c"] by simp
qed

lemma csim_client_ok: "csim N c a \<Longrightarrow> n \<in> N \<Longrightarrow> client_ok (c_nodes c n)"
  using csimD(5) by (auto simp: waiters_ok_def)

lemma moves_spec: "moves N n a rn' a' \<Longrightarrow> (spec_step N)\<^sup>*\<^sup>* a a'"
  by (blast intro: node_steps_spec)

section \<open>Timers\<close>

lemma no_wrapD:
  "no_wrap N c \<Longrightarrow> n \<in> N \<Longrightarrow> CurrentTerm (c_nodes c n) < - 1"
  "no_wrap N c \<Longrightarrow> n \<in> N \<Longrightarrow> length (Log (c_nodes c n)) < 2 ^ 64 - 1"
  by (simp_all add: no_wrap_def)

lemma reset_handler:
  assumes c: "csim N c a" and n: "n \<in> N"
    and r: "rn' = resetElectionTimer e (c_nodes c n) \<or> rn' = resetHeartbeatTimer e (c_nodes c n)"
  shows "csim N (set_node n rn' c) a"
proof -
  have "moves N n a rn' a" using csimD(1,3) [OF c] n r by (auto simp: sim_timers)
  moreover have "serves (c_nodes c n) rn'" using r serves_timers [OF csim_client_ok [OF c n]] by blast
  moreover have "keeps_rounds (c_nodes c n) rn' []" using r by (auto simp: keeps_rounds_def frame)
  ultimately show ?thesis
    using csim_handler [OF c n _ calls_ok_Nil _ rounds_kept_keeps [OF _ order_refl]] by fastforce
qed

lemma election_timer_csim:
  assumes c: "csim N c a" and nw: "no_wrap N c" and x: "exec D N (ElectionTimer n r e e') c = Some c'"
  shows "\<exists>a'. (spec_step N)\<^sup>*\<^sup>* a a' \<and> csim N c' a'"
proof -
  from x have n: "n \<in> N" by (simp split: if_splits)
  obtain rn' cs where h: "on_election_timer D r e e' (c_nodes c n) = (rn', cs)" by fastforce
  with x n have c': "c' = spawn n cs (set_node n rn' c)" by simp
  show ?thesis
  proof (cases "r = Leader")
    case True
    with h c' have "c' = set_node n (resetElectionTimer e (c_nodes c n)) c" by (auto simp: on_election_timer_def)
    with reset_handler [OF c n] show ?thesis by blast
  next
    case False
    then have s: "startElection D e e' (c_nodes c n) = (rn', cs)" using h by (simp add: on_election_timer_def)
    from startElection_sim [OF csimD(1) [OF c] n csimD(3) [OF c n] no_wrapD [OF nw n] s] obtain a' where
      a': "moves N n a rn' a'" "calls_ok N n a' cs" "rounds_kept N n (c_nodes c n) a rn' cs a'" by blast
    from csim_handler [OF c n a'(1,2) serves_startElection [OF csim_client_ok [OF c n] s] a'(3)] c'
      moves_spec [OF a'(1)] show ?thesis by blast
  qed
qed

lemma heartbeat_timer_csim:
  assumes c: "csim N c a" and x: "exec D N (HeartbeatTimer n r e) c = Some c'"
  shows "\<exists>a'. (spec_step N)\<^sup>*\<^sup>* a a' \<and> csim N c' a'"
proof -
  from x have n: "n \<in> N" by (simp split: if_splits)
  note ok = csim_client_ok [OF c n]
  show ?thesis
  proof (cases "r = Leader")
    case False
    with x n have "c' = set_node n (resetHeartbeatTimer e (c_nodes c n)) c" by (simp add: on_heartbeat_timer_def)
    with reset_handler [OF c n] show ?thesis by blast
  next
    case True
    obtain rn1 cs where b: "broadcastAppendEntriesLocked D (c_nodes c n) = (rn1, cs)" by fastforce
    let ?rn = "resetHeartbeatTimer e rn1"
    have c': "c' = spawn n cs (set_node n ?rn c)"
      using x n b True by (simp add: on_heartbeat_timer_def sendHeartbeats_def)
    from broadcast_sim [OF csimD(1) [OF c] n csimD(3) [OF c n] b]
    have m: "moves N n a ?rn a" "calls_ok N n a cs" using csimD(1) [OF c] by (simp_all add: sim_timers)
    have s: "serves (c_nodes c n) ?rn"
      by (rule serves_then [OF serves_broadcast [OF ok b]]) (simp_all add: frame)
    have "keeps_rounds (c_nodes c n) ?rn cs"
      using keeps_rounds_broadcast [OF b] by (simp add: keeps_rounds_def frame)
    from csim_handler [OF c n m s rounds_kept_keeps [OF this order_refl]] c' show ?thesis by blast
  qed
qed

section \<open>Deliveries\<close>

lemma deliver_csim:
  assumes c: "csim N c a" and p: "p \<in> N" and a': "moves N p a rn' a'" and s: "serves (c_nodes c p) rn'"
    and k: "keeps_rounds (c_nodes c p) rn' []" and r: "(i, n, p, call) \<in> set (c_calls c)" "reply_ok a' n p call r"
  shows "csim N ((set_node p rn' c)\<lparr>c_replies := (i, r) # c_replies c\<rparr>) a'"
proof -
  have "rounds_ok N p rn' (open_of c p \<union> new_calls (c_next c) []) a'"
    using rounds_kept_keeps [OF k votes_grow [OF csimD(1) [OF c] a']] csimD(4) [OF c p]
    unfolding rounds_kept_def by blast
  then have "csim N (spawn p [] ((set_node p rn' c)\<lparr>c_waiting := c_waiting c, c_replies := (i, r) # c_replies c\<rparr>)) a'"
    using r by (intro csim_serves [OF c p a' calls_ok_Nil s]) auto
  then show ?thesis by simp
qed

lemma Deliver_csim:
  assumes c: "csim N c a" and x: "exec D N (Deliver i e) c = Some c'"
  shows "\<exists>a'. (spec_step N)\<^sup>*\<^sup>* a a' \<and> csim N c' a'"
proof -
  from x obtain n p call where m: "map_of (c_calls c) i = Some (n, p, call)"
    by (auto simp: deliver_def split: option.splits)
  then have call: "(i, n, p, call) \<in> set (c_calls c)" by (rule map_of_SomeD)
  from csimD(6) [OF c call] have n: "n \<in> N" and p: "p \<in> N" and ne: "n \<noteq> p" and ok: "call_ok n a call" by auto
  note a = csimD(1) [OF c] and sim = csimD(3) [OF c p] and cl = csim_client_ok [OF c p]
  show ?thesis
  proof (cases call)
    case (PreVoteCall k req)
    obtain res rn' where h: "HandleRequestVote D e req (c_nodes c p) = (res, rn')" by fastforce
    with x m PreVoteCall have c': "c' = (set_node p rn' c)\<lparr>c_replies := (i, VoteReply res) # c_replies c\<rparr>"
      by (simp add: deliver_def)
    from HandleRequestVote_sim [OF a p n sim _ h] ok PreVoteCall obtain a' where a': "moves N p a rn' a'" by auto
    from deliver_csim [OF c p a' serves_HandleRequestVote [OF cl h] keeps_rounds_HandleRequestVote [OF h] call]
      PreVoteCall c' moves_spec [OF a'] show ?thesis by auto
  next
    case (VoteCall k req)
    obtain res rn' where h: "HandleRequestVote D e req (c_nodes c p) = (res, rn')" by fastforce
    with x m VoteCall have c': "c' = (set_node p rn' c)\<lparr>c_replies := (i, VoteReply res) # c_replies c\<rparr>"
      by (simp add: deliver_def)
    have req: "vote_request_ok n req a" using ok VoteCall by simp
    from HandleRequestVote_sim [OF a p n sim _ h] req obtain a' where a': "moves N p a rn' a'"
      "\<not> rv_pre_vote req \<and> rvr_vote_granted res \<longrightarrow> (unat (rv_term req), p, n) \<in> a_votes a'" by blast
    have "\<not> rv_pre_vote req" using req by (simp add: vote_request_ok_def)
    with deliver_csim [OF c p a'(1) serves_HandleRequestVote [OF cl h] keeps_rounds_HandleRequestVote [OF h] call]
      VoteCall c' moves_spec [OF a'(1)] a'(2) show ?thesis by auto
  next
    case (AppendCall req k)
    obtain res rn' where h: "HandleAppendEntries D e req (c_nodes c p) = (res, rn')" by fastforce
    with x m AppendCall have c': "c' = (set_node p rn' c)\<lparr>c_replies := (i, AppendReply res) # c_replies c\<rparr>"
      by (simp add: deliver_def)
    have req: "append_request_ok n req a" and k: "k = length (ae_entries req)" using ok AppendCall by simp_all
    from HandleAppendEntries_sim [OF a p sim req ne h] obtain a' where a': "moves N p a rn' a'"
      "aer_success res \<longrightarrow> (\<forall>j \<le> unat (ae_prev_log_index req) + length (ae_entries req).
        (unat (ae_term req), p, j) \<in> a_acks a')" by blast
    have s: "serves (c_nodes c p) rn'"
      using hear_sim(2) [OF a p sim req ne] by (intro serves_HandleAppendEntries [OF cl h]) simp
    from deliver_csim [OF c p a'(1) s keeps_rounds_HandleAppendEntries [OF h] call]
      AppendCall c' moves_spec [OF a'(1)] a'(2) k show ?thesis by auto
  qed
qed

section \<open>Responses\<close>

lemma open_of_answered:
  assumes "ids_ok c" and "(i, n, x) \<in> set (c_calls c)"
  shows "open_of (c\<lparr>c_waiting := removeAll i (c_waiting c)\<rparr>) n = {y \<in> open_of c n. fst y \<noteq> i}"
  by (auto simp: open_of_def)

lemma reply_call:
  assumes c: "csim N c a" and m: "map_of (c_calls c) i = Some (n, p, call)" and r: "(i, r) \<in> set (c_replies c)"
  shows "reply_ok a n p call r"
proof -
  from csimD(7) [OF c r] obtain n' p' call' where x: "(i, n', p', call') \<in> set (c_calls c)" "reply_ok a n' p' call' r"
    by blast
  have "map_of (c_calls c) i = Some (n', p', call')"
    using csimD(2) [OF c] x(1) by (intro map_of_is_SomeI) (simp_all add: ids_ok_def)
  with m x(2) show ?thesis by simp
qed

text \<open>
  The rest of a waiting goroutine always runs: its round exists, and a leader has its leader
  state.
\<close>

lemma continuation_sim:
  assumes c: "csim N c a" and nw: "no_wrap N c" and m: "map_of (c_calls c) i = Some (n, p, call)"
    and w: "i \<in> set (c_waiting c)" and r: "(i, r) \<in> set (c_replies c)"
  shows "\<exists>rn' cs a'. continuation D e p call r (c_nodes c n) = Some (rn', cs) \<and> moves N n a rn' a' \<and>
    calls_ok N n a' cs \<and> (\<forall>b. rounds_ok N n rn' ({y \<in> open_of c n. fst y \<noteq> i} \<union> new_calls b cs) a') \<and>
    serves (c_nodes c n) rn'"
proof -
  from m have call: "(i, n, p, call) \<in> set (c_calls c)" by (rule map_of_SomeD)
  from csimD(6) [OF c call] have n: "n \<in> N" and p: "p \<in> N - {n}" and ok: "call_ok n a call" by blast+
  have rep: "reply_ok a n p call r" using reply_call [OF c m r] .
  have o: "(i, p, call) \<in> open_of c n" using w call by (simp add: open_of_def)
  note a = csimD(1) [OF c] and sim = csimD(3) [OF c n] and ro = csimD(4) [OF c n] and cl = csim_client_ok [OF c n]
  have kept: "\<forall>b. rounds_ok N n rn' ({y \<in> open_of c n. fst y \<noteq> i} \<union> new_calls b cs) a'"
    if "rounds_kept N n (c_nodes c n) a rn' cs a'" for rn' cs a'
  proof
    fix b
    have "rounds_ok N n (c_nodes c n) {y \<in> open_of c n. fst y \<noteq> i} a" by (rule rounds_mono [OF ro]) simp_all
    with that show "rounds_ok N n rn' ({y \<in> open_of c n. fst y \<noteq> i} \<union> new_calls b cs) a'"
      unfolding rounds_kept_def by blast
  qed
  show ?thesis
  proof (cases call)
    case (PreVoteCall k req)
    with rep obtain res where res: "r = VoteReply res" by (cases r) simp_all
    have pv: "map_of (rn_preVotes (c_nodes c n)) k \<noteq> None" using rounds_okD(6) [OF ro] o PreVoteCall by blast
    from prevote_response_sim [OF a n sim no_wrapD [OF nw n] pv] obtain rn' cs a' where
      h: "on_prevote_response D e k res (c_nodes c n) = Some (rn', cs)" and h': "moves N n a rn' a'" "calls_ok N n a' cs"
      "rounds_kept N n (c_nodes c n) a rn' cs a'" by blast
    moreover have "continuation D e p call r (c_nodes c n) = Some (rn', cs)" using h PreVoteCall res by simp
    ultimately show ?thesis using kept serves_prevote_response [OF cl h] by blast
  next
    case (VoteCall k req)
    with rep obtain res where res: "r = VoteReply res" by (cases r) simp_all
    have v: "rvr_vote_granted res \<Longrightarrow> (unat (rv_term req), p, n) \<in> a_votes a" using rep VoteCall res by simp
    have o': "(i, p, VoteCall k req) \<in> open_of c n" using o VoteCall by simp
    from vote_response_sim [OF a n sim no_wrapD(2) [OF nw n] ro o' p v] obtain rn' cs a' where
      h: "on_vote_response D e k res (c_nodes c n) = Some (rn', cs)" and "moves N n a rn' a'" "calls_ok N n a' cs"
      "\<forall>b. rounds_ok N n rn' ({y \<in> open_of c n. fst y \<noteq> i} \<union> new_calls b cs) a'" by blast
    moreover have "continuation D e p call r (c_nodes c n) = Some (rn', cs)" using h VoteCall res by simp
    ultimately show ?thesis using serves_vote_response [OF cl h] by blast
  next
    case (AppendCall req k)
    with rep obtain res where res: "r = AppendReply res" by (cases r) simp_all
    have ak: "aer_success res \<Longrightarrow> \<forall>j \<le> unat (ae_prev_log_index req) + k. (unat (ae_term req), p, j) \<in> a_acks a"
      using rep AppendCall res by simp
    from append_response_sim [OF a n sim p ak] obtain rn' cs a' where
      h: "on_append_response D e p req k res (c_nodes c n) = Some (rn', cs)" "moves N n a rn' a'" "calls_ok N n a' cs"
      by blast
    have "\<forall>b. rounds_ok N n rn' ({y \<in> open_of c n. fst y \<noteq> i} \<union> new_calls b cs) a'"
      using rounds_answered [OF ro keeps_rounds_append_response [OF h(1)] votes_grow [OF a h(2)]] by blast
    moreover have "continuation D e p call r (c_nodes c n) = Some (rn', cs)" using h(1) AppendCall res by simp
    ultimately show ?thesis using h(2,3) serves_append_response [OF cl h(1)] by blast
  qed
qed

lemma Reply_csim:
  assumes c: "csim N c a" and nw: "no_wrap N c" and x: "exec D N (Reply i r e) c = Some c'"
  shows "\<exists>a'. (spec_step N)\<^sup>*\<^sup>* a a' \<and> csim N c' a'"
proof -
  from x have w: "i \<in> set (c_waiting c)" and r: "(i, r) \<in> set (c_replies c)"
    by (auto simp: receive_def split: if_splits)
  from x obtain n p call where m: "map_of (c_calls c) i = Some (n, p, call)"
    by (auto simp: receive_def split: option.splits if_splits)
  then have call: "(i, n, p, call) \<in> set (c_calls c)" by (rule map_of_SomeD)
  from csimD(6) [OF c call] have n: "n \<in> N" by blast
  from continuation_sim [OF c nw m w r, of e] obtain rn' cs a' where
    k: "continuation D e p call r (c_nodes c n) = Some (rn', cs)" and a': "moves N n a rn' a'" "calls_ok N n a' cs"
    and ro: "\<forall>b. rounds_ok N n rn' ({y \<in> open_of c n. fst y \<noteq> i} \<union> new_calls b cs) a'"
    and s: "serves (c_nodes c n) rn'" by blast
  have c': "c' = spawn n cs ((set_node n rn' c)\<lparr>c_waiting := removeAll i (c_waiting c), c_replies := c_replies c\<rparr>)"
    using x w r m k by (simp add: receive_def)
  have "csim N c' a'"
    unfolding c'
    using ro open_of_answered [OF csimD(2) [OF c] call]
    by (intro csim_serves [OF c n a' s]) auto
  with moves_spec [OF a'(1)] show ?thesis by blast
qed

lemma RpcError_csim:
  assumes c: "csim N c a" and x: "exec D N (RpcError i) c = Some c'"
  shows "\<exists>a'. (spec_step N)\<^sup>*\<^sup>* a a' \<and> csim N c' a'"
proof -
  have c': "c' = c\<lparr>c_waiting := removeAll i (c_waiting c)\<rparr>" using x by simp
  have "rounds_ok N n (c_nodes c n) (open_of c' n) a" if "n \<in> N" for n
    by (rule rounds_mono [OF csimD(4) [OF c that]]) (auto simp: c' open_of_def)
  then have "csim N c' a"
    using c unfolding csim_def by (auto simp: c' ids_ok_def waits_of_def)
  then show ?thesis by blast
qed

section \<open>Proposals\<close>

lemma propose_error:
  assumes m: "mirroring rn" and len: "length (Log rn) < 2 ^ 64 - 1" and fit: "fits cmd"
    and b: "ProposeCommand D cmd rn = (ProposeError err, rn', cs)"
  shows "rn' = rn"
proof (cases "rn_role rn = Leader")
  case False
  with b show ?thesis by (simp add: ProposeCommand_def)
next
  case True
  let ?e = "\<lparr>le_index = fst (LastIndex B (rn_storage rn)) + 1, le_term = CurrentTerm rn, le_command = cmd\<rparr>"
  have "le_index ?e = of_nat (length (Log rn))"
    using mirrors_LastIndex_Suc [OF m] len by (simp add: u64_eq_iff unat_of_nat_u64)
  then have "numbered (length (Log rn)) [?e]" by (simp add: numbered_single)
  from mirrors_append [OF m this] len fit obtain st where "AppendEntries B [?e] (rn_storage rn) = (None, st)"
    by auto
  with b True show ?thesis by (auto simp: ProposeCommand_def Let_def split: if_splits prod.splits)
qed

lemma Propose_csim:
  assumes c: "csim N c a" and nw: "no_wrap N c" and fit: "fits cmd" and x: "exec D N (Propose n cmd) c = Some c'"
  shows "\<exists>a'. (spec_step N)\<^sup>*\<^sup>* a a' \<and> csim N c' a'"
proof -
  from x have n: "n \<in> N" by (simp split: if_splits)
  obtain res rn' cs where b: "ProposeCommand D cmd (c_nodes c n) = (res, rn', cs)" using prod_cases3 by blast
  note a = csimD(1) [OF c] and sim = csimD(3) [OF c n] and cl = csim_client_ok [OF c n]
  have m: "mirroring (c_nodes c n)" using sim by (simp add: sim_defs)
  from propose_sim [OF a n sim no_wrapD(2) [OF nw n] fit b] obtain a' where
    a': "moves N n a rn' a'" "calls_ok N n a' cs" by blast
  have k: "rounds_kept N n (c_nodes c n) a rn' cs a'"
    using rounds_kept_keeps [OF keeps_rounds_propose [OF b] votes_grow [OF a a'(1)]] .
  have steps: "(spec_step N)\<^sup>*\<^sup>* a a'" by (rule moves_spec [OF a'(1)])
  show ?thesis
  proof (cases res)
    case (ProposeError err)
    have "rn' = c_nodes c n" using propose_error [OF m no_wrapD(2) [OF nw n] fit] b ProposeError by blast
    then have "serves (c_nodes c n) rn'" using serves_refl [OF cl] by simp
    from csim_handler [OF c n a' this k] x n b ProposeError steps show ?thesis
      by (auto simp: propose_def)
  next
    case (ProposeDone i)
    have L: "rn_role (c_nodes c n) = Leader" using b ProposeDone by (auto simp: ProposeCommand_def split: if_splits)
    note d = propose_done [OF cl m L b [unfolded ProposeDone]]
    have "acked_ok N a' i cmd" using a'(1) n d by (intro acked_ok_commit [of N a' n rn']) simp_all
    then have "csim N (spawn n cs ((set_node n rn' c)\<lparr>c_acked := (i, cmd) # c_acked c\<rparr>)) a'"
    proof (intro csim_update [OF c n a'])
      show "waiters_ok N rn' (waits_of ((set_node n rn' c)\<lparr>c_acked := (i, cmd) # c_acked c\<rparr>) n) a'"
        using waiters_serves [OF csimD(5) [OF c n] conjunct1 [OF d] a'(1) a n] by (simp add: waits_of_def)
      show "rounds_ok N n rn' (open_of ((set_node n rn' c)\<lparr>c_acked := (i, cmd) # c_acked c\<rparr>) n \<union>
          new_calls (c_next c) cs) a'"
        using k csimD(4) [OF c n] unfolding rounds_kept_def by (simp add: open_of_def)
    qed (auto simp: waits_of_def)
    moreover have "c' = spawn n cs ((set_node n rn' c)\<lparr>c_acked := (i, cmd) # c_acked c\<rparr>)"
      using x n b ProposeDone by (simp add: propose_def)
    ultimately show ?thesis using steps by blast
  next
    case (ProposeWait i ch)
    let ?c = "(set_node n rn' c)\<lparr>c_waiters := (n, ch, i, cmd) # c_waiters c\<rparr>"
    have "csim N (spawn n cs ?c) a'"
    proof (rule csim_update [OF c n a'])
      have "waits_of ?c n = insert (ch, i, cmd) (waits_of c n)" by (auto simp: waits_of_def)
      then show "waiters_ok N rn' (waits_of ?c n) a'"
        using waiters_propose [OF csimD(5) [OF c n] m a conjunct1 [OF a'(1)] b [unfolded ProposeWait]]
        by simp
      show "rounds_ok N n rn' (open_of ?c n \<union> new_calls (c_next c) cs) a'"
        using k csimD(4) [OF c n] unfolding rounds_kept_def by (simp add: open_of_def)
    qed (auto simp: waits_of_def)
    moreover have "c' = spawn n cs ?c" using x n b ProposeWait by (simp add: propose_def)
    ultimately show ?thesis using steps by blast
  qed
qed

lemma csim_quiet:
  assumes c: "csim N c a" and n: "n \<in> N" and a': "moves N n a rn' a'" and s: "serves (c_nodes c n) rn'"
    and k: "keeps_rounds (c_nodes c n) rn' []" and w: "\<And>m. waits_of (c\<lparr>c_waiters := ws\<rparr>) m \<subseteq> waits_of c m"
    and acked: "\<And>i cmd. (i, cmd) \<in> set ak \<Longrightarrow> (i, cmd) \<in> set (c_acked c) \<or> acked_ok N a' i cmd"
  shows "csim N ((set_node n rn' c)\<lparr>c_waiters := ws, c_acked := ak\<rparr>) a'"
proof -
  let ?c = "(set_node n rn' c)\<lparr>c_waiters := ws, c_acked := ak\<rparr>"
  have wo: "waits_of ?c m = waits_of (c\<lparr>c_waiters := ws\<rparr>) m" for m by (simp add: waits_of_def)
  have "csim N (spawn n [] ?c) a'"
  proof (rule csim_update [OF c n a' calls_ok_Nil])
    show "rounds_ok N n rn' (open_of ?c n \<union> new_calls (c_next c) []) a'"
      using rounds_keep [OF csimD(4) [OF c n] votes_grow [OF csimD(1) [OF c] a'] k] by (simp add: open_of_def)
    show "waiters_ok N rn' (waits_of ?c n) a'"
      using waiters_serves [OF csimD(5) [OF c n] s a' csimD(1) [OF c] n] w wo by simp
  qed (use w wo acked in auto)
  then show ?thesis by simp
qed

lemma find_waiterD: "find_waiter n ch c = Some (i, cmd) \<Longrightarrow> (n, ch, i, cmd) \<in> set (c_waiters c)"
proof -
  assume "find_waiter n ch c = Some (i, cmd)"
  then obtain w where w: "List.find (\<lambda>w. fst w = n \<and> fst (snd w) = ch) (c_waiters c) = Some w" "snd (snd w) = (i, cmd)"
    by (auto simp: find_waiter_def)
  then have "w \<in> set (c_waiters c)" "fst w = n" "fst (snd w) = ch" by (auto simp: find_Some_iff)
  with w(2) show ?thesis by (cases w) auto
qed

lemma ProposeReturn_csim:
  assumes c: "csim N c a" and x: "exec D N (ProposeReturn n ch t) c = Some c'"
  shows "\<exists>a'. (spec_step N)\<^sup>*\<^sup>* a a' \<and> csim N c' a'"
proof -
  from x obtain i cmd where f: "find_waiter n ch c = Some (i, cmd)" by (auto split: option.splits)
  then have w: "(n, ch, i, cmd) \<in> set (c_waiters c)" by (rule find_waiterD)
  have n: "n \<in> N" using csimD(9) [OF c w] .
  let ?rn = "c_nodes c n"
  from x f obtain err where e: "map_of (rn_chans ?rn) ch = Some err"
    by (auto simp: propose_receive_def split: option.splits)
  then have mem: "(ch, err) \<in> set (rn_chans ?rn)" by (rule map_of_SomeD)
  let ?m = "if err = None then ObserveReplicationLatency t (SetLogEntriesTotal (sint i) (rn_metrics ?rn)) else rn_metrics ?rn"
  let ?rn' = "?rn\<lparr>rn_chans := filter (\<lambda>m. fst m \<noteq> ch) (rn_chans ?rn), rn_metrics := ?m\<rparr>"
  let ?ws = "filter (\<lambda>w. \<not> (fst w = n \<and> fst (snd w) = ch)) (c_waiters c)"
  let ?ak = "if err = None then (i, cmd) # c_acked c else c_acked c"
  have c': "c' = (set_node n ?rn' c)\<lparr>c_waiters := ?ws, c_acked := ?ak\<rparr>"
    using x f e by (auto simp: propose_receive_def drop_waiter_def Let_def)
  have cl: "client_ok ?rn" using csim_client_ok [OF c n] .
  have "sim N n ?rn' a" by (rule sim_frame [OF csimD(3) [OF c n]]) simp_all
  then have mv: "moves N n a ?rn' a" using csimD(1) [OF c] by simp
  have "map fst (filter (\<lambda>m. fst m \<noteq> ch) (rn_chans ?rn)) = filter (\<lambda>k. k \<noteq> ch) (map fst (rn_chans ?rn))"
    by (simp add: filter_map comp_def)
  then have "distinct (chan_ids ?rn')" "set (chan_ids ?rn') \<subseteq> set (chan_ids ?rn)"
    using cl by (auto simp: client_ok_def chan_ids_def)
  then have s: "serves ?rn ?rn'" using cl by (auto simp: serves_def client_ok_def)
  have "waiter_ok N ?rn a ch i cmd"
    using csimD(5) [OF c n] w by (simp add: waiters_ok_def waits_of_def)
  then have ak: "err = None \<Longrightarrow> acked_ok N a i cmd" using mem by (simp add: waiter_ok_def)
  have "csim N c' a"
    unfolding c'
    by (rule csim_quiet [OF c n mv s]) (use ak in \<open>auto simp: keeps_rounds_def waits_of_def split: if_splits\<close>)
  then show ?thesis by blast
qed

lemma ProposeTimeout_csim:
  assumes c: "csim N c a" and x: "exec D N (ProposeTimeout n ch) c = Some c'"
  shows "\<exists>a'. (spec_step N)\<^sup>*\<^sup>* a a' \<and> csim N c' a'"
proof -
  from x obtain i cmd where f: "find_waiter n ch c = Some (i, cmd)" by (auto split: option.splits)
  have n: "n \<in> N" using csimD(9) [OF c find_waiterD [OF f]] .
  let ?rn = "c_nodes c n"
  let ?rn' = "?rn\<lparr>rn_pendingCommits := AList.delete i (rn_pendingCommits ?rn)\<rparr>"
  let ?ws = "filter (\<lambda>w. \<not> (fst w = n \<and> fst (snd w) = ch)) (c_waiters c)"
  have c': "c' = (set_node n ?rn' c)\<lparr>c_waiters := ?ws\<rparr>"
    using x f by (simp add: propose_timeout_def drop_waiter_def)
  have cl: "client_ok ?rn" using csim_client_ok [OF c n] .
  have "sim N n ?rn' a" by (rule sim_frame [OF csimD(3) [OF c n]]) simp_all
  then have mv: "moves N n a ?rn' a" using csimD(1) [OF c] by simp
  have del: "set (AList.delete i (rn_pendingCommits ?rn)) \<subseteq> set (rn_pendingCommits ?rn)"
    "distinct (map snd (AList.delete i (rn_pendingCommits ?rn)))"
    using cl by (auto simp: AList.delete_eq client_ok_def chan_ids_def distinct_map_filter)
  have "snd ` set (AList.delete i (rn_pendingCommits ?rn)) \<subseteq> snd ` set (rn_pendingCommits ?rn)"
    using del(1) by (rule image_mono)
  then have "distinct (chan_ids ?rn')" "set (chan_ids ?rn') \<subseteq> set (chan_ids ?rn)"
    using cl del(2) by (auto simp: client_ok_def chan_ids_def simp del: image_subset_iff)
  then have s: "serves ?rn ?rn'" using cl del(1) by (auto simp: serves_def client_ok_def)
  have "csim N ((set_node n ?rn' c)\<lparr>c_waiters := ?ws, c_acked := c_acked c\<rparr>) a"
    by (rule csim_quiet [OF c n mv s]) (auto simp: keeps_rounds_def waits_of_def)
  then have "csim N c' a" by (simp add: c')
  then show ?thesis by blast
qed

section \<open>Crashes\<close>

lemma csim_reboot:
  assumes c: "csim N c a" and n: "n \<in> N" and ok: "ok st" and r: "reboot D n st m e c = Some c'"
    and mv: "\<And>rn'. boot D (rn_config (c_nodes c n)) st m e = Inr rn' \<Longrightarrow> \<exists>a'. moves N n a rn' a'"
  shows "\<exists>a'. (spec_step N)\<^sup>*\<^sup>* a a' \<and> csim N c' a'"
proof -
  from r obtain rn' where b: "boot D (rn_config (c_nodes c n)) st m e = Inr rn'"
    by (auto simp: reboot_def split: sum.splits)
  let ?w = "filter (\<lambda>i. map_option fst (map_of (c_calls c) i) \<noteq> Some n) (c_waiting c)"
  let ?ws = "filter (\<lambda>w. fst w \<noteq> n) (c_waiters c)"
  have c': "c' = (set_node n rn' c)\<lparr>c_waiting := ?w, c_waiters := ?ws\<rparr>" using r b by (simp add: reboot_def)
  from mv [OF b] obtain a' where a': "moves N n a rn' a'" by blast
  note f = boot_fields [OF ok b]
  have "map_of (c_calls c) i = Some (n, x)" if "(i, n, x) \<in> set (c_calls c)" for i x
    using csimD(2) [OF c] that by (intro map_of_is_SomeI) (simp_all add: ids_ok_def)
  then have op: "open_of c' n = {}" by (auto simp: open_of_def c')
  have "csim N (spawn n [] c') a'"
  proof (rule csim_update [OF c n a' calls_ok_Nil])
    show "rounds_ok N n rn' (open_of c' n \<union> new_calls (c_next c) []) a'"
      unfolding op using f(12) by (intro rounds_okI) simp_all
    show "waiters_ok N rn' (waits_of c' n) a'"
      using f(9,10) by (simp add: waiters_ok_def waits_of_def c' client_ok_def chan_ids_def)
  qed (auto simp: c' waits_of_def)
  with moves_spec [OF a'] show ?thesis by auto
qed

lemma Crash_csim:
  assumes c: "csim N c a" and x: "exec D N (Crash n m e) c = Some c'"
  shows "\<exists>a'. (spec_step N)\<^sup>*\<^sup>* a a' \<and> csim N c' a'"
proof -
  from x have n: "n \<in> N" and r: "reboot D n (rn_storage (c_nodes c n)) m e c = Some c'" by (auto split: if_splits)
  have "ok (rn_storage (c_nodes c n))" using csimD(3) [OF c n] by (simp add: node_sim_def mirrors_def)
  from csim_reboot [OF c n this r boot_sim [OF csimD(1) [OF c] n csimD(3) [OF c n]]] show ?thesis .
qed

text \<open>
  A node that dies in the middle of a term change restarts from a node that has made the change, or
  from the torn store.
\<close>

lemma term_store_sim:
  assumes a: "spec_ok fits N a" and n: "n \<in> N" and sim: "sim N n rn a" and w: "CurrentTerm rn < - 1"
    and t: "term_change t v rn" and b: "boot D (rn_config rn) (term_store D t v (rn_storage rn)) m e = Inr rn'"
  shows "\<exists>a'. moves N n a rn' a'"
proof (cases v)
  case None
  with t b torn_sim [OF a n sim, of t m e rn'] show ?thesis by (simp add: term_change_def term_store_def)
next
  case (Some u)
  have id: "node_id rn = n" using sim by (simp add: sim_defs)
  have "\<exists>rn1 a1. moves N n a rn1 a1 \<and> rn_storage rn1 = term_store D t v (rn_storage rn) \<and> rn_config rn1 = rn_config rn"
  proof (cases "u = ''''")
    case True
    then have "rn_storage (snd (checkTerm D t rn)) = term_store D t v (rn_storage rn)"
      using t Some by (simp add: term_change_def term_store_def checkTerm_def abort_pending_def Let_def)
    with checkTerm_sim [OF a n sim, of t] show ?thesis by (metis checkTerm_frame(1))
  next
    case False
    then have c: "u = n" "t = CurrentTerm rn + 1" "rn_role rn \<noteq> Leader" using t Some id by (auto simp: term_change_def)
    then have "term_store D t v (rn_storage rn) = snd (SaveVotedFor B n (snd (SaveTerm B (CurrentTerm rn + 1) (rn_storage rn))))"
      using Some by (simp add: term_store_def)
    from campaign_start_sim [OF a n sim c(3) w this] show ?thesis by fastforce
  qed
  then obtain rn1 a1 where 1: "moves N n a rn1 a1" "rn_storage rn1 = term_store D t v (rn_storage rn)" "rn_config rn1 = rn_config rn"
    by blast
  from boot_sim [of N a1 n rn1 m e rn'] 1 n b obtain a' where "moves N n a1 rn' a'" by auto
  from moves_trans [OF conjunct1 [OF 1(1)] this] show ?thesis by blast
qed

lemma CrashInTermChange_csim:
  assumes c: "csim N c a" and nw: "no_wrap N c" and x: "exec D N (CrashInTermChange n t v m e) c = Some c'"
  shows "\<exists>a'. (spec_step N)\<^sup>*\<^sup>* a a' \<and> csim N c' a'"
proof -
  from x have n: "n \<in> N" and t: "term_change t v (c_nodes c n)"
    and r: "reboot D n (term_store D t v (rn_storage (c_nodes c n))) m e c = Some c'" by (auto split: if_splits)
  note a = csimD(1) [OF c] and sim = csimD(3) [OF c n]
  have w: "CurrentTerm (c_nodes c n) < - 1" using nw n by (simp add: no_wrap_def)
  have "ok (rn_storage (c_nodes c n))" using sim by (simp add: node_sim_def mirrors_def)
  moreover have "fits (string_to_bytes (node_id (c_nodes c n)))" using sim spec_ok_fits [OF a n] by (simp add: sim_defs)
  ultimately have "ok (term_store D t v (rn_storage (c_nodes c n)))"
    using t by (auto simp: term_store_def term_change_def save_simps fits_Nil Let_def)
  from csim_reboot [OF c n this r term_store_sim [OF a n sim w t]] show ?thesis .
qed

lemma CrashInTruncate_csim:
  assumes c: "csim N c a" and x: "exec D N (CrashInTruncate i m e) c = Some c'"
  shows "\<exists>a'. (spec_step N)\<^sup>*\<^sup>* a a' \<and> csim N c' a'"
proof -
  from x obtain n p req k where mo: "map_of (c_calls c) i = Some (n, p, AppendCall req k)"
    by (auto split: option.splits rpc_call.splits prod.splits)
  let ?rn = "c_nodes c p" and ?rn' = "snd (checkTerm D (ae_term req) (c_nodes c p))"
  have eq: "?rn' = (if CurrentTerm ?rn < ae_term req then ?rn' else ?rn)" by (simp add: checkTerm_id)
  have "(if CurrentTerm ?rn \<le> ae_term req \<and> prev_matches D req ?rn' then
      (case truncated_store D req 0 (ae_entries req) (rn_storage ?rn') of
         None \<Rightarrow> None | Some st \<Rightarrow> reboot D p st m e c) else None) = Some c'"
    using x unfolding exec.simps mo Let_def option.case prod.case rpc_call.case eq [symmetric] .
  then obtain st where t: "CurrentTerm ?rn \<le> ae_term req" and pm: "prev_matches D req ?rn'"
    and st: "truncated_store D req 0 (ae_entries req) (rn_storage ?rn') = Some st" and r: "reboot D p st m e c = Some c'"
    by (auto split: if_splits option.splits)
  have call: "(i, n, p, AppendCall req k) \<in> set (c_calls c)" using mo by (rule map_of_SomeD)
  from csimD(6) [OF c call] have p: "p \<in> N" and ne: "n \<noteq> p" and req: "append_request_ok n req a" by auto
  note a = csimD(1) [OF c] and sim = csimD(3) [OF c p]
  from torn_append_store [OF a p sim req ne t pm st] obtain rn1 b where
    b: "moves N p a rn1 b" "rn_storage rn1 = st" "rn_config rn1 = rn_config ?rn" by blast
  have ok: "ok st" using b by (auto simp: node_sim_def mirrors_def)
  have "\<exists>a'. moves N p a rn' a'" if "boot D (rn_config ?rn) st m e = Inr rn'" for rn'
  proof -
    from boot_sim [of N b p rn1 m e rn'] b p that obtain a' where "moves N p b rn' a'" by auto
    from moves_trans [OF conjunct1 [OF b(1)] this] show ?thesis by blast
  qed
  from csim_reboot [OF c p ok r this] show ?thesis .
qed

section \<open>Runs\<close>

theorem exec_csim:
  assumes c: "csim N c a" and nw: "no_wrap N c" and ev: "event_ok fits ev" and x: "exec D N ev c = Some c'"
  shows "\<exists>a'. (spec_step N)\<^sup>*\<^sup>* a a' \<and> csim N c' a'"
proof (cases ev)
  case (ElectionTimer n r e e')
  from election_timer_csim [OF c nw x [unfolded ElectionTimer]] show ?thesis .
next
  case (HeartbeatTimer n r e)
  from heartbeat_timer_csim [OF c x [unfolded HeartbeatTimer]] show ?thesis .
next
  case (Deliver i e)
  from Deliver_csim [OF c x [unfolded Deliver]] show ?thesis .
next
  case (Reply i r e)
  from Reply_csim [OF c nw x [unfolded Reply]] show ?thesis .
next
  case (RpcError i)
  from RpcError_csim [OF c x [unfolded RpcError]] show ?thesis .
next
  case (Propose n cmd)
  from Propose_csim [OF c nw _ x [unfolded Propose]] ev Propose show ?thesis by simp
next
  case (ProposeReturn n ch t)
  from ProposeReturn_csim [OF c x [unfolded ProposeReturn]] show ?thesis .
next
  case (ProposeTimeout n ch)
  from ProposeTimeout_csim [OF c x [unfolded ProposeTimeout]] show ?thesis .
next
  case (Crash n m e)
  from Crash_csim [OF c x [unfolded Crash]] show ?thesis .
next
  case (CrashInTermChange n t v m e)
  from CrashInTermChange_csim [OF c nw x [unfolded CrashInTermChange]] show ?thesis .
next
  case (CrashInTruncate i m e)
  from CrashInTruncate_csim [OF c x [unfolded CrashInTruncate]] show ?thesis .
qed

definition fresh_ok :: "('s \<Rightarrow> bool) \<Rightarrow> bool" where
  "fresh_ok fresh \<longleftrightarrow> (\<forall>st. fresh st \<longrightarrow> ok st \<and> term_of st = 0 \<and> vote_of st = '''' \<and> log_of st = [sentinel])"

lemma init_csim:
  assumes i: "cluster_init D fresh N c" and f: "fresh_ok fresh" and N: "finite N" "N \<noteq> {}" "'''' \<notin> N"
    "\<forall>n\<in>N. fits (string_to_bytes n)"
  shows "\<exists>a. spec_init N sentinel a \<and> csim N c a"
proof -
  define a :: "(string, log_entry) spec" where
    "a = \<lparr>a_term = (\<lambda>_. 0), a_vote = (\<lambda>_. None), a_log = (\<lambda>_. [(0, sentinel)]), a_commit = (\<lambda>_. 0),
       a_role = (\<lambda>_. Follower), a_votes = {}, a_vlog = (\<lambda>_. []), a_clog = (\<lambda>_. None),
       a_llog = [0 \<mapsto> [(0, sentinel)]], a_lead = (\<lambda>_. ''''), a_quor = (\<lambda>_. {}),
       a_acks = {(0, v, 0) | v. v \<in> N}, a_lcommits = {(0, 0)}\<rparr>"
  have init: "spec_init N sentinel a" by (simp add: spec_init_def a_def)
  have ab: "abs_entry sentinel = (0, sentinel)" by (simp add: abs_entry_def)
  have lk: "log_ok [sentinel]" by (simp add: log_ok_def numbered_single)
  have "hist_ok fits a" unfolding hist_ok_def a_def
    using ab lk fits_Nil by (auto intro!: exI [of _ "[sentinel]"])
  then have sp: "spec_ok fits N a" using spec_inv_init [OF init N(1,2)] N by (simp add: spec_ok_def)
  have "sim N n (c_nodes c n) a \<and> client_ok (c_nodes c n) \<and> rn_campaigns (c_nodes c n) = []" if n: "n \<in> N" for n
  proof -
    from i n obtain cfg st m e where b: "fresh st" "NodeID cfg = n" "pc_ID ` set (Peers cfg) = N - {n}"
      "boot D cfg st m e = Inr (c_nodes c n)" unfolding cluster_init_def by blast
    have st: "ok st" "term_of st = 0" "vote_of st = ''''" "log_of st = [sentinel]"
      using f b(1) by (simp_all add: fresh_ok_def)
    note bf = boot_fields [OF st(1) b(4)]
    have "sim N n (c_nodes c n) a"
      using bf b st by (simp add: sim_defs mirrors_def a_def ab)
    then show ?thesis using bf by (simp add: client_ok_def chan_ids_def)
  qed
  then have "csim N c a"
    unfolding csim_def using sp i
    by (auto simp: cluster_init_def ids_ok_def open_of_def waits_of_def waiters_ok_def rounds_ok_def)
  with init show ?thesis by blast
qed

theorem reach_csim:
  assumes "cluster_reach D fresh fits N c" and f: "fresh_ok fresh" and N: "finite N" "N \<noteq> {}" "'''' \<notin> N"
    "\<forall>n\<in>N. fits (string_to_bytes n)"
  shows "no_wrap N c \<and> (\<exists>a. spec_reach N sentinel a \<and> csim N c a)"
  using assms(1)
proof induction
  case (init c)
  with init_csim [OF init(1) f N] show ?case by (blast intro: spec_reach.init)
next
  case (step c ev c')
  then obtain a where a: "spec_reach N sentinel a" "csim N c a" by blast
  from exec_csim [OF a(2) _ step(3,2)] step obtain a' where "(spec_step N)\<^sup>*\<^sup>* a a'" "csim N c' a'" by blast
  with a(1) step(4) show ?case by (blast intro: spec_reach_steps)
qed

end

end
