(* ===== verification/Cluster_Safety.thy ===== *)
theory Cluster_Safety
  imports Cluster_Refinement Memory_Store
begin

text \<open>
  The bridge from the refinement to statements about the cluster of the code: for every backend
  that meets the storage contract, a reachable cluster is related to a reachable state of the
  protocol, and so are the clusters before and after one event.
\<close>

text \<open>
  A backend that meets the contract, with the stores a cluster may start on and the commands
  that fit into it.
\<close>

definition backend_ok :: "'s deps \<Rightarrow> ('s \<Rightarrow> bool) \<Rightarrow> (bytes \<Rightarrow> bool) \<Rightarrow> bool" where
  "backend_ok D fresh fits \<longleftrightarrow> (\<exists>ok term_of vote_of log_of.
     storage (d_backend D) ok term_of vote_of log_of fits \<and>
     (\<forall>st. fresh st \<longrightarrow> ok st \<and> term_of st = 0 \<and> vote_of st = '''' \<and> log_of st = [sentinel]))"

text \<open>
  The names of the members: finitely many, at least one, none of them empty, all of a size the
  store takes.
\<close>

definition members_ok :: "(bytes \<Rightarrow> bool) \<Rightarrow> string set \<Rightarrow> bool" where
  "members_ok fits N \<longleftrightarrow> finite N \<and> N \<noteq> {} \<and> '''' \<notin> N \<and> (\<forall>n\<in>N. fits (string_to_bytes n))"

definition memory_deps :: "gob \<Rightarrow> memory_store deps" where
  "memory_deps G = \<lparr>d_backend = memory_backend, d_gob = G\<rparr>"

interpretation memory_engine: engine memory_backend ms_ok ms_term ms_votedFor ms_entries "\<lambda>_. True" "memory_deps G"
  for G by unfold_locales (simp add: memory_deps_def)

lemma memory_backend_ok: "backend_ok (memory_deps G) (\<lambda>st. st = NewMemoryStore) (\<lambda>_. True)"
  unfolding backend_ok_def
  using memory.storage_axioms
  by (intro exI [of _ ms_ok] exI [of _ ms_term] exI [of _ ms_votedFor] exI [of _ ms_entries])
    (auto simp: memory_deps_def ms_ok_New simp: NewMemoryStore_def [THEN arg_cong, where f = ms_term]
      NewMemoryStore_def [THEN arg_cong, where f = ms_votedFor] NewMemoryStore_def [THEN arg_cong, where f = ms_entries])

text \<open>What a reachable cluster is related to.\<close>

lemma cluster_abs:
  assumes b: "backend_ok D fresh fits" and N: "members_ok fits N" and r: "cluster_reach D fresh fits N c"
  obtains ok term_of vote_of log_of a where
    "engine (d_backend D) ok term_of vote_of log_of fits D"
    "engine.csim ok term_of vote_of log_of fits D N c a"
    "spec_reach N sentinel a" "no_wrap N c"
proof -
  from b obtain ok term_of vote_of log_of where s: "storage (d_backend D) ok term_of vote_of log_of fits"
    and f: "\<forall>st. fresh st \<longrightarrow> ok st \<and> term_of st = 0 \<and> vote_of st = '''' \<and> log_of st = [sentinel]"
    unfolding backend_ok_def by blast
  have e: "engine (d_backend D) ok term_of vote_of log_of fits D"
    using s by (simp add: engine_def engine_axioms_def)
  have "engine.fresh_ok ok term_of vote_of log_of fresh"
    using f by (simp add: engine.fresh_ok_def [OF e])
  from engine.reach_csim [OF e r this] N that [OF e] show thesis by (auto simp: members_ok_def)
qed

text \<open>The parts of that relation, for one node.\<close>

lemma abs_node:
  assumes e: "engine (d_backend D) ok term_of vote_of log_of fits D"
    and c: "engine.csim ok term_of vote_of log_of fits D N c a" and n: "n \<in> N"
  shows "a_term a n = unat (CurrentTerm (c_nodes c n))" "a_log a n = abs_log (Log (c_nodes c n))"
    "a_role a n = rn_role (c_nodes c n)" "a_commit a n = unat (commitIndex (c_nodes c n))"
    "mirrors ok term_of vote_of log_of (c_nodes c n)" "applied D (c_nodes c n)" "client_ok (c_nodes c n)"
    "a_role a n = Leader \<Longrightarrow> leading N n (c_nodes c n) (a_acks a)"
  using engine.csimD(3) [OF e c n] engine.csim_client_ok [OF e c n]
  by (simp_all add: node_sim_def abstracts_def)

lemma abs_spec:
  assumes "engine (d_backend D) ok term_of vote_of log_of fits D"
    and "engine.csim ok term_of vote_of log_of fits D N c a"
  shows "spec_ok fits N a"
  using engine.csimD(1) [OF assms] .

text \<open>One event, before and after.\<close>

lemma event_abs:
  assumes b: "backend_ok D fresh fits" and N: "members_ok fits N" and r: "cluster_reach D fresh fits N c"
    and ev: "event_ok fits ev" and x: "exec D N ev c = Some c'"
  obtains ok term_of vote_of log_of a a' where
    "engine (d_backend D) ok term_of vote_of log_of fits D"
    "engine.csim ok term_of vote_of log_of fits D N c a"
    "engine.csim ok term_of vote_of log_of fits D N c' a'"
    "(spec_step N)\<^sup>*\<^sup>* a a'"
proof -
  from cluster_abs [OF b N r] obtain ok term_of vote_of log_of a where
    e: "engine (d_backend D) ok term_of vote_of log_of fits D"
    and c: "engine.csim ok term_of vote_of log_of fits D N c a" and nw: "no_wrap N c" by metis
  from engine.exec_csim [OF e c nw ev x] that [OF e c] show thesis by blast
qed

lemma spec_steps_hist: "(spec_step N)\<^sup>*\<^sup>* s s' \<Longrightarrow> spec_inv N s \<Longrightarrow> finite N \<Longrightarrow> hist_le s s'"
proof (induction rule: rtranclp_induct)
  case (step y z)
  then have "spec_inv N y" by (blast intro: spec_inv_steps)
  with step show ?case by (auto intro: hist_le_trans step_hist_le)
qed simp

lemma spec_steps_term: "(spec_step N)\<^sup>*\<^sup>* s s' \<Longrightarrow> a_term s n \<le> a_term s' n"
  by (induction rule: rtranclp_induct) (auto dest: step_term_mono [of N _ _ n])

text \<open>Equal prefixes of abstract logs are equal prefixes of the logs.\<close>

lemma abs_prefix_eq: "take k (abs_log xs) = take k (abs_log ys) \<longleftrightarrow> take k xs = take k ys"
  by (simp add: take_map)

text \<open>Members whose entries at an index are of the same term agree up to it.\<close>

lemma members_log_matching:
  assumes b: "backend_ok D fresh fits" and N: "members_ok fits N" and r: "cluster_reach D fresh fits N c"
    and n: "n \<in> N" and m: "m \<in> N"
    and i: "i < length (Log (c_nodes c n))" "i < length (Log (c_nodes c m))"
    and t: "le_term (Log (c_nodes c n) ! i) = le_term (Log (c_nodes c m) ! i)"
  shows "take (Suc i) (Log (c_nodes c n)) = take (Suc i) (Log (c_nodes c m))"
proof -
  obtain ok term_of vote_of log_of a where e: "engine (d_backend D) ok term_of vote_of log_of fits D"
    and c: "engine.csim ok term_of vote_of log_of fits D N c a" by (rule cluster_abs [OF b N r])
  note an = abs_node [OF e c n] and am = abs_node [OF e c m]
  have "take (Suc i) (a_log a n) = take (Suc i) (a_log a m)"
    using i t by (intro spec_log_matching [OF spec_okD(3) [OF abs_spec [OF e c]]]) (simp_all add: an(2) am(2))
  then show ?thesis by (simp add: an(2) am(2) abs_prefix_eq)
qed

text \<open>Where an acknowledged proposal is found.\<close>

lemma acked_entry:
  assumes b: "backend_ok D fresh fits" and N: "members_ok fits N" and r: "cluster_reach D fresh fits N c"
    and ack: "(i, cmd) \<in> set (c_acked c)" and m: "m \<in> N"
    and has: "i \<le> commitIndex (c_nodes c m) \<or>
      rn_role (c_nodes c m) = Leader \<and> (\<forall>k\<in>N. CurrentTerm (c_nodes c k) \<le> CurrentTerm (c_nodes c m))"
  shows "unat i < length (Log (c_nodes c m)) \<and> le_command (Log (c_nodes c m) ! unat i) = cmd"
proof -
  obtain ok term_of vote_of log_of a where e: "engine (d_backend D) ok term_of vote_of log_of fits D"
    and c: "engine.csim ok term_of vote_of log_of fits D N c a" by (rule cluster_abs [OF b N r])
  note sp = abs_spec [OF e c] and am = abs_node [OF e c m]
  obtain X k x where X: "k \<in> N" "safe_upto N a X (a_term a k) (unat i)" "X ! unat i = abs_entry x" "le_command x = cmd"
    using engine.csimD(8) [OF e c ack] unfolding acked_ok_def by blast
  have "take (Suc (unat i)) X = take (Suc (unat i)) (a_log a m) \<and> unat i < length (a_log a m)"
  proof (cases "i \<le> commitIndex (c_nodes c m)")
    case True
    have "safe_upto N a (a_log a m) (a_term a m) (a_commit a m)" using commitD(1) [OF spec_okD(7) [OF sp] m] .
    moreover have "unat i \<le> a_commit a m" using True am(4) by (simp add: unat_le_u64)
    ultimately show ?thesis
      using safe_upto_agree [OF spec_okD(5,1,6) [OF sp] X(2)] spec_commit_bound [OF spec_okD(3) [OF sp] m] by simp
  next
    case False
    with has X(1) have L: "a_role a m = Leader" and t: "a_term a k \<le> a_term a m"
      using am(1,3) abs_node(1) [OF e c X(1)] by (auto simp: unat_le_u64)
    from safe_upto_leader [OF spec_okD(5,1,6) [OF sp] X(2) leaderD(2) [OF spec_okD(10) [OF sp] L] t] show ?thesis .
  qed
  then have eq: "take (Suc (unat i)) X = take (Suc (unat i)) (a_log a m)" and len: "unat i < length (a_log a m)"
    by simp_all
  have "X ! unat i = a_log a m ! unat i"
    using take_Suc_eq_nth [OF eq order_refl _ len] X(2) by (auto simp: safe_upto_def contains_def)
  with X(3,4) len am(2) show ?thesis by (auto simp: inj_eq [OF inj_abs_entry])
qed

text \<open>What a member has applied.\<close>

lemma member_applied:
  assumes "backend_ok D fresh fits" and "members_ok fits N" and "cluster_reach D fresh fits N c" and n: "n \<in> N"
  shows "applied D (c_nodes c n)"
proof -
  obtain ok term_of vote_of log_of a where e: "engine (d_backend D) ok term_of vote_of log_of fits D"
    and c: "engine.csim ok term_of vote_of log_of fits D N c a" by (rule cluster_abs [OF assms(1-3)])
  show ?thesis by (rule abs_node(6) [OF e c n])
qed

end
