(* ===== verification/Bbolt_Safety.thy ===== *)
theory Bbolt_Safety
  imports Bbolt_Contract Cluster_Safety
begin

text \<open>
  What the contract of the bbolt store gives: opening and reopening a database file, and a
  backend on which the cluster is safe.  A map-based database and a plain codec, on which all
  the laws hold, serve as the concrete instance.
\<close>

section \<open>A database that satisfies the laws\<close>

type_synonym map_db = "(bytes \<times> (bytes \<times> bytes) list) list"

definition map_put :: "bytes \<Rightarrow> bytes \<Rightarrow> bytes \<Rightarrow> map_db \<Rightarrow> go_error option \<times> map_db" where
  "map_put b k v tx =
     (if k = [] then (Some (Err ''key required''), tx)
      else if 32768 < length k then (Some (Err ''key too large''), tx)
      else if 2 ^ 31 - 2 < length v then (Some (Err ''value too large''), tx)
      else (None, AList.update b (AList.update k v (map_get [] tx b)) tx))"

definition map_walk :: "bytes set \<Rightarrow> (bytes \<times> bytes) list \<Rightarrow> (bytes \<times> bytes) list" where
  "map_walk K m = map (\<lambda>k. (k, the (map_of m k))) (sorted_list_of_set K)"

definition map_bbolt :: "(map_db, map_db) bbolt" where
  "map_bbolt = \<lparr>bb_Open = (\<lambda>p opts. Inr []), bb_Close = (\<lambda>db. (None, db)),
     bb_Update = (\<lambda>f db. case f db of (None, tx) \<Rightarrow> (None, tx) | (Some e, tx) \<Rightarrow> (Some e, db)),
     bb_View = Inr,
     tx_CreateBucketIfNotExists = (\<lambda>b tx. (None, if map_of tx b = None then AList.update b [] tx else tx)),
     bk_Get = (\<lambda>b k tx. map_of (map_get [] tx b) k),
     bk_Put = map_put,
     bk_Delete = (\<lambda>b k tx. (None, AList.update b (AList.delete k (map_get [] tx b)) tx)),
     cu_Seek = (\<lambda>b k tx. let m = map_get [] tx b in map_walk (set (filter (\<lambda>k'. k \<le> k') (map fst m))) m),
     cu_First = (\<lambda>b tx. let m = map_get [] tx b in map_walk (set (map fst m)) m),
     cu_Last = (\<lambda>b tx. let m = map_get [] tx b in
       if m = [] then None else Some (Max (set (map fst m)), the (map_of m (Max (set (map fst m))))))\<rparr>"

definition map_sem :: "map_db \<Rightarrow> bytes \<Rightarrow> (bytes \<Rightarrow> bytes option) option" where
  "map_sem tx b = map_option map_of (map_of tx b)"

lemma map_sem_update: "map_sem (AList.update b m tx) = (map_sem tx)(b \<mapsto> map_of m)"
  by (auto simp: map_sem_def fun_eq_iff update_conv')

lemma map_bbolt_laws: "bbolt_laws map_bbolt (\<lambda>_. True) (\<lambda>db. db) map_sem"
proof -
  have bucket: "finite (dom m) \<and> (\<forall>k. bk_Get map_bbolt b k tx = m k) \<and>
      (\<forall>k v. k \<noteq> [] \<and> length k \<le> 32768 \<and> length v \<le> 2 ^ 31 - 2 \<longrightarrow>
         (\<exists>tx'. bk_Put map_bbolt b k v tx = (None, tx') \<and> map_sem tx' = (map_sem tx)(b \<mapsto> m(k \<mapsto> v)))) \<and>
      (\<forall>k. \<exists>tx'. bk_Delete map_bbolt b k tx = (None, tx') \<and> map_sem tx' = (map_sem tx)(b \<mapsto> m(k := None))) \<and>
      (\<forall>k. cu_Seek map_bbolt b k tx = map (\<lambda>k'. (k', the (m k'))) (sorted_list_of_set {k' \<in> dom m. k \<le> k'})) \<and>
      cu_First map_bbolt b tx = map (\<lambda>k'. (k', the (m k'))) (sorted_list_of_set (dom m)) \<and>
      cu_Last map_bbolt b tx = (if dom m = {} then None else Some (Max (dom m), the (m (Max (dom m)))))"
    if "map_sem tx b = Some m" for tx b m
  proof -
    from that obtain xs where xs: "map_of tx b = Some xs" and m: "m = map_of xs" by (auto simp: map_sem_def)
    have g: "map_get [] tx b = xs" using xs by (rule map_get_Some)
    have d: "set (map fst xs) = dom (map_of xs)" by (simp add: dom_map_of_conv_image_fst)
    then have d': "set (filter (\<lambda>k'. k \<le> k') (map fst xs)) = {k' \<in> dom (map_of xs). k \<le> k'}" for k by auto
    have e: "xs = [] \<longleftrightarrow> dom (map_of xs) = {}" using d by auto
    show ?thesis
      unfolding m map_bbolt_def bbolt.simps g Let_def map_walk_def d d' e map_put_def map_sem_update
      by (simp add: finite_dom_map_of update_conv' delete_conv' map_sem_update)
  qed
  show ?thesis
    unfolding bbolt_laws_def
  proof (intro conjI allI impI)
    fix b :: bytes and tx
    show "\<exists>tx'. tx_CreateBucketIfNotExists map_bbolt b tx = (None, tx') \<and>
        map_sem tx' = (if map_sem tx b = None then (map_sem tx)(b \<mapsto> Map.empty) else map_sem tx)"
      by (cases "map_of tx b") (simp_all add: map_bbolt_def map_sem_update map_sem_def [of tx b])
  qed (use bucket in \<open>force simp: map_bbolt_def\<close>)+
qed

text \<open>The index and the term in eight bytes each, then the command.\<close>

definition plain_protobuf :: protobuf where
  "plain_protobuf = \<lparr>
     pb_Marshal = (\<lambda>e. Inr (uint64ToBytes (le_index e) @ uint64ToBytes (le_term e) @ le_command e)),
     pb_Unmarshal = (\<lambda>b. if length b < 16 then Inl (Err ''unexpected EOF'')
       else Inr \<lparr>le_index = bytesToUint64 (take 8 b), le_term = bytesToUint64 (take 8 (drop 8 b)),
         le_command = drop 16 b\<rparr>)\<rparr>"

lemma plain_protobuf_laws: "protobuf_laws plain_protobuf"
  by (simp add: protobuf_laws_def plain_protobuf_def command_fits_def)

interpretation map_bbolt: storage "bbolt_backend map_bbolt plain_protobuf" "bs_ok plain_protobuf (\<lambda>_. True) (\<lambda>db. db) map_sem"
  "bs_term map_bbolt" "bs_vote map_bbolt" "bs_log map_bbolt plain_protobuf" command_fits
  by (rule bbolt_meets_contract [OF map_bbolt_laws plain_protobuf_laws])

section \<open>Opening and reopening\<close>

text \<open>
  A fresh file: the store starts in term 0, with no vote and the sentinel alone.
\<close>

definition bs_fresh ::
    "protobuf \<Rightarrow> ('db \<Rightarrow> bool) \<Rightarrow> ('db \<Rightarrow> 'tx) \<Rightarrow> ('tx \<Rightarrow> bytes \<Rightarrow> (bytes \<Rightarrow> bytes option) option) \<Rightarrow> 'db \<Rightarrow> bool" where
  "bs_fresh P up state sem db \<longleftrightarrow> bs_holds P up state sem [sentinel] Map.empty db"

lemma open_fresh:
  assumes A: "bbolt_laws A up state sem" and P: "protobuf_laws P"
    and op: "bb_Open A path \<lparr>oo_mode = 384, oo_Timeout = 1000000000, oo_NoSync = ns\<rparr> = Inr db"
    and up: "up db" and empty: "sem (state db) = Map.empty"
  shows "\<exists>db'. NewBboltStoreWithOptions A P path ns = Inr db' \<and> bs_fresh P up state sem db'"
proof -
  from init_buckets_new [OF A P empty] obtain tx where t: "init_buckets A P (state db) = (None, tx)"
    and s: "sem tx = [bucketMeta \<mapsto> Map.empty, bucketLog \<mapsto> log_map P [sentinel]]" by blast
  from Update [OF A up, of "init_buckets A P", OF t] obtain db' where
    u: "bb_Update A (init_buckets A P) db = (None, db')" "up db'" "sem (state db') = sem tx" by blast
  have "bs_fresh P up state sem db'"
    using u(2,3) s by (simp add: bs_fresh_def bs_holds_def log_ok_def numbered_single command_fits_def)
  with u(1) op show ?thesis by (simp add: NewBboltStoreWithOptions_def)
qed

lemma open_again:
  assumes A: "bbolt_laws A up state sem" and h: "bs_holds P up state sem L meta db"
    and op: "bb_Open A path \<lparr>oo_mode = 384, oo_Timeout = 1000000000, oo_NoSync = ns\<rparr> = Inr db"
  shows "\<exists>db'. NewBboltStoreWithOptions A P path ns = Inr db' \<and> bs_holds P up state sem L meta db'"
proof -
  have up: "up db" using h by (simp add: bs_holds_def)
  from init_buckets_again [OF A, of "state db"] h obtain tx where t: "init_buckets A P (state db) = (None, tx)"
    and s: "sem tx = sem (state db)" unfolding bs_holds_def by blast
  from Update [OF A up, of "init_buckets A P", OF t] obtain db' where
    u: "bb_Update A (init_buckets A P) db = (None, db')" "up db'" "sem (state db') = sem tx" by blast
  have "bs_holds P up state sem L meta db'" using h u(2,3) s by (simp add: bs_holds_def)
  with u(1) op show ?thesis by (simp add: NewBboltStoreWithOptions_def)
qed

lemma bbolt_fresh:
  assumes A: "bbolt_laws A up state sem" and P: "protobuf_laws P" and f: "bs_fresh P up state sem db"
  shows "bs_ok P up state sem db \<and> bs_term A db = 0 \<and> bs_vote A db = '''' \<and> bs_log A P db = [sentinel]"
  using bs_view [OF A P f [unfolded bs_fresh_def]] by simp

lemma bbolt_safe:
  assumes A: "bbolt_laws A up state sem" and P: "protobuf_laws P"
  shows "backend_ok \<lparr>d_backend = bbolt_backend A P, d_gob = G\<rparr> (bs_fresh P up state sem) command_fits"
  unfolding backend_ok_def
proof (intro exI conjI allI impI)
  show "storage (d_backend \<lparr>d_backend = bbolt_backend A P, d_gob = G\<rparr>) (bs_ok P up state sem) (bs_term A)
      (bs_vote A) (bs_log A P) command_fits"
    using bbolt_meets_contract [OF A P] by simp
qed (use bbolt_fresh [OF A P] in blast)+

end
