(* ===== verification/Store_Properties.thy ===== *)
theory Store_Properties
  imports Bbolt_Safety
begin

text \<open>
  What the durable store promises: it can carry the cluster, it survives a restart, and its keys
  are in the order of the indices.
\<close>

text \<open>
  C19: the bbolt store can carry the cluster.  Over bbolt and protobuf as they are documented, the
  store meets every law of the storage contract for commands of up to a gigabyte, and opening a
  fresh file yields a store in term 0, without a vote, with the sentinel as its only entry; so
  the cluster properties hold for nodes that run on it.
\<close>

theorem bbolt_carries_cluster:
  assumes A: "bbolt_laws A up state sem" and P: "protobuf_laws P"
  shows "backend_ok \<lparr>d_backend = bbolt_backend A P, d_gob = G\<rparr> (bs_fresh P up state sem) (\<lambda>c. length c \<le> 2 ^ 30) \<and>
    (\<forall>path ns db. bb_Open A path \<lparr>oo_mode = 384, oo_Timeout = 1000000000, oo_NoSync = ns\<rparr> = Inr db \<and> up db \<and>
       sem (state db) = Map.empty \<longrightarrow>
       (\<exists>db'. NewBboltStoreWithOptions A P path ns = Inr db' \<and> bs_fresh P up state sem db' \<and>
          bs_LoadTerm A db' = Inr 0 \<and> bs_LoadVotedFor A db' = Inr '''' \<and> bs_LoadAllEntries A P db' = Inr [sentinel]))"
proof (intro conjI allI impI)
  have "command_fits = (\<lambda>c. length c \<le> 2 ^ 30)" by (simp add: command_fits_def fun_eq_iff)
  with bbolt_safe [OF A P, of G]
  show "backend_ok \<lparr>d_backend = bbolt_backend A P, d_gob = G\<rparr> (bs_fresh P up state sem) (\<lambda>c. length c \<le> 2 ^ 30)"
    by simp
next
  fix path ns db
  assume "bb_Open A path \<lparr>oo_mode = 384, oo_Timeout = 1000000000, oo_NoSync = ns\<rparr> = Inr db \<and> up db \<and> sem (state db) = Map.empty"
  then obtain db' where o: "NewBboltStoreWithOptions A P path ns = Inr db'" and f: "bs_fresh P up state sem db'"
    using open_fresh [OF A P] by blast
  from bbolt_fresh [OF A P f] have ok: "bs_ok P up state sem db'" and v: "bs_term A db' = 0" "bs_vote A db' = ''''"
    "bs_log A P db' = [sentinel]" by simp_all
  note c = bbolt_meets_contract [OF A P]
  show "\<exists>db'. NewBboltStoreWithOptions A P path ns = Inr db' \<and> bs_fresh P up state sem db' \<and>
          bs_LoadTerm A db' = Inr 0 \<and> bs_LoadVotedFor A db' = Inr '''' \<and> bs_LoadAllEntries A P db' = Inr [sentinel]"
    using o f v storage.LoadTerm_ok [OF c ok] storage.LoadVotedFor_ok [OF c ok] storage.LoadAllEntries_ok [OF c ok]
    by (simp add: bbolt_backend_def)
qed

theorem bbolt_carries_cluster_witness:
  "\<exists>db. NewBboltStoreWithOptions map_bbolt plain_protobuf ''a.db'' False = Inr db \<and>
     bs_LoadAllEntries map_bbolt plain_protobuf db = Inr [sentinel]"
  using bbolt_carries_cluster [OF map_bbolt_laws plain_protobuf_laws, of undefined]
  by (auto simp: map_bbolt_def map_sem_def fun_eq_iff)

text \<open>
  C20: reopening.  A store that is opened again, after a crash or a clean stop, answers with the
  term, the vote and the log it had; creating the buckets and the sentinel does not touch what is
  there.
\<close>

theorem bbolt_reopen_keeps_state:
  assumes A: "bbolt_laws A up state sem" and P: "protobuf_laws P" and ok: "bs_ok P up state sem db"
    and op: "bb_Open A path \<lparr>oo_mode = 384, oo_Timeout = 1000000000, oo_NoSync = ns\<rparr> = Inr file" "up file"
      "sem (state file) = sem (state db)"
  shows "\<exists>db'. NewBboltStoreWithOptions A P path ns = Inr db' \<and> bs_ok P up state sem db' \<and>
    bs_LoadTerm A db' = bs_LoadTerm A db \<and> bs_LoadVotedFor A db' = bs_LoadVotedFor A db \<and>
    bs_LoadAllEntries A P db' = bs_LoadAllEntries A P db"
proof -
  note c = bbolt_meets_contract [OF A P]
  from ok obtain L meta where h: "bs_holds P up state sem L meta db" by (auto simp: bs_ok_def)
  then have "bs_holds P up state sem L meta file" using op by (simp add: bs_holds_def)
  from open_again [OF A this op(1)] obtain db' where o: "NewBboltStoreWithOptions A P path ns = Inr db'"
    and h': "bs_holds P up state sem L meta db'" by blast
  have ok': "bs_ok P up state sem db'" using h' by (auto simp: bs_ok_def)
  have "bs_term A db' = bs_term A db" "bs_vote A db' = bs_vote A db" "bs_log A P db' = bs_log A P db"
    using bs_view [OF A P h] bs_view [OF A P h'] by simp_all
  with o ok' show ?thesis
    using storage.LoadTerm_ok [OF c ok] storage.LoadVotedFor_ok [OF c ok] storage.LoadAllEntries_ok [OF c ok]
      storage.LoadTerm_ok [OF c ok'] storage.LoadVotedFor_ok [OF c ok'] storage.LoadAllEntries_ok [OF c ok']
    by (simp add: bbolt_backend_def)
qed

text \<open>The map database, opened on a file that already holds a store in term 7.\<close>

definition map_file :: map_db where
  "map_file = [(bucketMeta, [(keyTerm, uint64ToBytes 7)]), (bucketLog, [(uint64ToBytes 0, encoded plain_protobuf sentinel)])]"

definition map_reopened :: "(map_db, map_db) bbolt" where
  "map_reopened = map_bbolt\<lparr>bb_Open := (\<lambda>p opts. Inr map_file)\<rparr>"

lemma map_reopened_laws: "bbolt_laws map_reopened (\<lambda>_. True) (\<lambda>db. db) map_sem"
  using map_bbolt_laws by (simp add: bbolt_laws_def map_reopened_def)

theorem bbolt_reopen_keeps_state_witness:
  "\<exists>db'. NewBboltStoreWithOptions map_reopened plain_protobuf ''a.db'' False = Inr db' \<and>
     bs_LoadTerm map_reopened db' = bs_LoadTerm map_reopened map_file"
proof -
  have "bs_holds plain_protobuf (\<lambda>_. True) (\<lambda>db. db) map_sem [sentinel] [keyTerm \<mapsto> uint64ToBytes 7] map_file"
    by (simp add: bs_holds_def log_ok_def numbered_single command_fits_def map_sem_def map_file_def log_map_sentinel)
  then have "bs_ok plain_protobuf (\<lambda>_. True) (\<lambda>db. db) map_sem map_file" by (auto simp: bs_ok_def)
  from bbolt_reopen_keeps_state [OF map_reopened_laws plain_protobuf_laws this, of "''a.db''" False map_file] show ?thesis
    by (auto simp: map_reopened_def)
qed

text \<open>
  C21: keys in index order.  The eight-byte keys of the log bucket decode to the index they encode,
  and the byte order in which the database keeps and walks them is the order of the indices, up
  to the largest \<open>uint64\<close>.
\<close>

theorem bbolt_key_order:
  "bytesToUint64 (uint64ToBytes n) = n \<and> length (uint64ToBytes n) = 8 \<and> (uint64ToBytes n < uint64ToBytes m \<longleftrightarrow> n < m)"
  by (simp add: uint64ToBytes_less)

end
