(* ===== verification/Go_Strings.thy ===== *)
theory Go_Strings
  imports Prelude
begin

text \<open>
  The functions of Go's \<open>strings\<close> package the program uses, on strings as lists of characters.
  White space and letter case are those of ASCII: the program applies them to flags, addresses,
  commands and HTTP methods.
\<close>

definition is_space :: "char \<Rightarrow> bool" where
  "is_space c \<longleftrightarrow> c \<in> {CHR '' '', CHR 0x09, CHR 0x0A, CHR 0x0B, CHR 0x0C, CHR 0x0D}"

definition TrimSpace :: "string \<Rightarrow> string" where
  "TrimSpace s = rev (dropWhile is_space (rev (dropWhile is_space s)))"

text \<open>\<open>strings.Split\<close> with a separator of one character: always at least one piece.\<close>

fun Split :: "char \<Rightarrow> string \<Rightarrow> string list" where
  "Split c [] = [[]]"
| "Split c (x # xs) =
     (if x = c then [] # Split c xs
      else case Split c xs of [] \<Rightarrow> [[x]] | p # ps \<Rightarrow> (x # p) # ps)"

text \<open>\<open>strings.SplitN\<close> with a count of 2.\<close>

definition Split2 :: "char \<Rightarrow> string \<Rightarrow> string list" where
  "Split2 c s = (case dropWhile (\<lambda>x. x \<noteq> c) s of [] \<Rightarrow> [s] | _ # r \<Rightarrow> [takeWhile (\<lambda>x. x \<noteq> c) s, r])"

fun Join :: "string \<Rightarrow> string list \<Rightarrow> string" where
  "Join sep [] = []"
| "Join sep [p] = p"
| "Join sep (p # q # ps) = p @ sep @ Join sep (q # ps)"

definition HasPrefix :: "string \<Rightarrow> string \<Rightarrow> bool" where
  "HasPrefix s p \<longleftrightarrow> take (length p) s = p"

definition TrimPrefix :: "string \<Rightarrow> string \<Rightarrow> string" where
  "TrimPrefix s p = (if HasPrefix s p then drop (length p) s else s)"

text \<open>\<open>strings.TrimRight\<close> with a cutset of one character.\<close>

definition TrimRight :: "char \<Rightarrow> string \<Rightarrow> string" where
  "TrimRight c s = rev (dropWhile (\<lambda>x. x = c) (rev s))"

definition lower :: "char \<Rightarrow> char" where
  "lower c = (if 65 \<le> (of_char c :: nat) \<and> (of_char c :: nat) \<le> 90 then char_of ((of_char c :: nat) + 32) else c)"

definition ToLower :: "string \<Rightarrow> string" where
  "ToLower s = map lower s"

text \<open>\<open>strings.Fields\<close>: the pieces between runs of white space, none of them empty.\<close>

fun fields_from :: "string \<Rightarrow> string \<Rightarrow> string list" where
  "fields_from acc [] = (if acc = [] then [] else [rev acc])"
| "fields_from acc (x # xs) =
     (if is_space x then (if acc = [] then fields_from [] xs else rev acc # fields_from [] xs)
      else fields_from (x # acc) xs)"

definition Fields :: "string \<Rightarrow> string list" where
  "Fields s = fields_from [] s"

section \<open>Lemmas\<close>

lemma Split_not_Nil [simp]: "Split c s \<noteq> []"
  by (induction s) (auto split: list.split)

lemma Split_absent: "c \<notin> set s \<Longrightarrow> Split c s = [s]"
  by (induction s) auto

lemma Split_sep: "c \<notin> set s \<Longrightarrow> Split c (s @ c # t) = s # Split c t"
  by (induction s) auto

lemma Join_Cons: "ps \<noteq> [] \<Longrightarrow> Join sep (p # ps) = p @ sep @ Join sep ps"
  by (cases ps) simp_all

lemma Join_Split [simp]: "Join [c] (Split c s) = s"
proof (induction s)
  case (Cons x xs)
  then show ?case
    by (cases "Split c xs") (auto simp: Join_Cons split: list.splits, metis Join_Cons append_Cons Join.simps(2) list.exhaust)
qed simp

lemma Split_Join: "ps \<noteq> [] \<Longrightarrow> \<forall>p\<in>set ps. c \<notin> set p \<Longrightarrow> Split c (Join [c] ps) = ps"
  by (induction "[c]" ps rule: Join.induct) (simp_all add: Split_absent Split_sep)

lemma Split2_sep: "c \<notin> set s \<Longrightarrow> Split2 c (s @ c # t) = [s, t]"
  by (induction s) (auto simp: Split2_def split: list.splits)

lemma TrimSpace_id: "s \<noteq> [] \<Longrightarrow> \<not> is_space (hd s) \<Longrightarrow> \<not> is_space (last s) \<Longrightarrow> TrimSpace s = s"
  by (simp add: TrimSpace_def dropWhile_eq_self_iff [THEN iffD2] hd_rev)

lemma Fields_ne: "x \<in> set (fields_from acc s) \<Longrightarrow> x \<noteq> []"
  by (induction acc s rule: fields_from.induct) (auto split: if_splits)

end
