(* ===== verification/Http.thy ===== *)
theory Http
  imports Go_Strings
begin

text \<open>
  What the HTTP gateway uses of \<open>net/http\<close> and \<open>encoding/json\<close>: the parts of a request it
  reads, the response it writes (status, headers in the order they are set, body), and the
  result of a handler.  A JSON body is the object that is encoded, not its text.
\<close>

record http_request =
  r_Method :: string
  r_Path :: string
  r_EscapedPath :: string
  r_RawQuery :: string
  r_RemoteAddr :: string
  r_XForwardedFor :: "string list"
  r_Body :: bytes
  r_BodyFails :: bool

datatype json = JString string | JBool bool | JNumber int

datatype http_body = NoBody | TextBody string | JsonBody "(string \<times> json) list"

record http_response =
  w_Status :: nat
  w_Header :: "(string \<times> string) list"
  w_Body :: http_body

definition StatusOK :: nat where "StatusOK = 200"
definition StatusCreated :: nat where "StatusCreated = 201"
definition StatusTemporaryRedirect :: nat where "StatusTemporaryRedirect = 307"
definition StatusPermanentRedirect :: nat where "StatusPermanentRedirect = 308"
definition StatusBadRequest :: nat where "StatusBadRequest = 400"
definition StatusNotFound :: nat where "StatusNotFound = 404"
definition StatusMethodNotAllowed :: nat where "StatusMethodNotAllowed = 405"
definition StatusConflict :: nat where "StatusConflict = 409"
definition StatusRequestEntityTooLarge :: nat where "StatusRequestEntityTooLarge = 413"
definition StatusTooManyRequests :: nat where "StatusTooManyRequests = 429"
definition StatusInternalServerError :: nat where "StatusInternalServerError = 500"
definition StatusBadGateway :: nat where "StatusBadGateway = 502"
definition StatusServiceUnavailable :: nat where "StatusServiceUnavailable = 503"
definition StatusGatewayTimeout :: nat where "StatusGatewayTimeout = 504"
definition StatusInsufficientStorage :: nat where "StatusInsufficientStorage = 507"

lemmas status_defs =
  StatusOK_def StatusCreated_def StatusTemporaryRedirect_def StatusPermanentRedirect_def
  StatusBadRequest_def StatusNotFound_def StatusMethodNotAllowed_def StatusConflict_def
  StatusRequestEntityTooLarge_def StatusTooManyRequests_def StatusInternalServerError_def
  StatusBadGateway_def StatusServiceUnavailable_def StatusGatewayTimeout_def
  StatusInsufficientStorage_def

definition json_response :: "nat \<Rightarrow> (string \<times> json) list \<Rightarrow> http_response" where
  "json_response status obj =
     \<lparr>w_Status = status, w_Header = [(''Content-Type'', ''application/json'')], w_Body = JsonBody obj\<rparr>"

text \<open>\<open>http.Error\<close>, and \<open>http.Redirect\<close> to an absolute URL.\<close>

definition http_Error :: "string \<Rightarrow> nat \<Rightarrow> http_response" where
  "http_Error msg status =
     \<lparr>w_Status = status,
      w_Header = [(''Content-Type'', ''text/plain; charset=utf-8''), (''X-Content-Type-Options'', ''nosniff'')],
      w_Body = TextBody (msg @ [CHR 0x0A])\<rparr>"

definition http_Redirect :: "string \<Rightarrow> nat \<Rightarrow> http_response" where
  "http_Redirect url status = \<lparr>w_Status = status, w_Header = [(''Location'', url)], w_Body = NoBody\<rparr>"

text \<open>
  A handler either answers at once or calls \<open>ProposeCommand\<close>, which may block, with an encoded
  command; the function gives its answer for what the call returns.
\<close>

datatype 'r handler_step =
    Respond 'r
  | Submit bytes "u64 \<times> go_error option \<Rightarrow> 'r"

fun error_text :: "go_error \<Rightarrow> string" where
  "error_text (Err m) = m"

end
