(* ===== verification/Go_Float.thy ===== *)
theory Go_Float
  imports Complex_Main "HOL-Library.Log_Nat"
begin

text \<open>
  The \<open>float64\<close> of Go: IEEE 754 double precision, rounding to nearest with ties to even.  A finite
  value is the rational it stands for; the two zeros are one value, which no operation of the
  program tells apart, and a product is rounded before it is added, as on amd64.
\<close>

datatype f64 = Finite rat | NaN | PosInf | NegInf

section \<open>Rounding\<close>

text \<open>The exponent of the binade of a positive number.\<close>

definition binade :: "rat \<Rightarrow> int" where
  "binade q =
     (case quotient_of q of (a, b) \<Rightarrow>
        let k = bitlen a - bitlen b
        in if 2 powi k \<le> q then k else k - 1)"

definition round_even :: "rat \<Rightarrow> int" where
  "round_even x =
     (let f = \<lfloor>x\<rfloor>; r = x - of_int f in if r < 1 / 2 \<or> r = 1 / 2 \<and> even f then f else f + 1)"

text \<open>The exponent of the last of the 53 bits, or of the last bit of a subnormal number.\<close>

definition last_bit :: "rat \<Rightarrow> int" where
  "last_bit q = max (binade \<bar>q\<bar> - 52) (-1074)"

definition round64 :: "rat \<Rightarrow> rat" where
  "round64 q = (if q = 0 then 0 else of_int (round_even (q / 2 powi last_bit q)) * 2 powi last_bit q)"

definition max_float :: rat where "max_float = (2 ^ 53 - 1) * 2 ^ 971"

definition to_float :: "rat \<Rightarrow> f64" where
  "to_float q =
     (let r = round64 q in if max_float < r then PosInf else if r < - max_float then NegInf else Finite r)"

section \<open>Operations\<close>

definition inf_of :: "bool \<Rightarrow> f64" where
  "inf_of positive = (if positive then PosInf else NegInf)"

fun f_add :: "f64 \<Rightarrow> f64 \<Rightarrow> f64" where
  "f_add (Finite x) (Finite y) = to_float (x + y)"
| "f_add NaN y = NaN"
| "f_add x NaN = NaN"
| "f_add PosInf NegInf = NaN"
| "f_add NegInf PosInf = NaN"
| "f_add PosInf y = PosInf"
| "f_add NegInf y = NegInf"
| "f_add x PosInf = PosInf"
| "f_add x NegInf = NegInf"

fun f_positive :: "f64 \<Rightarrow> bool" where
  "f_positive (Finite x) \<longleftrightarrow> 0 < x"
| "f_positive PosInf \<longleftrightarrow> True"
| "f_positive _ \<longleftrightarrow> False"

fun f_mul :: "f64 \<Rightarrow> f64 \<Rightarrow> f64" where
  "f_mul (Finite x) (Finite y) = to_float (x * y)"
| "f_mul NaN y = NaN"
| "f_mul x NaN = NaN"
| "f_mul x y = (if x = Finite 0 \<or> y = Finite 0 then NaN else inf_of (f_positive x = f_positive y))"

fun f_div :: "f64 \<Rightarrow> f64 \<Rightarrow> f64" where
  "f_div (Finite x) (Finite y) =
     (if y = 0 then if x = 0 then NaN else inf_of (0 < x) else to_float (x / y))"
| "f_div NaN y = NaN"
| "f_div x NaN = NaN"
| "f_div (Finite x) y = Finite 0"
| "f_div x (Finite y) = inf_of (f_positive x = (0 \<le> y))"
| "f_div x y = NaN"

fun f_less :: "f64 \<Rightarrow> f64 \<Rightarrow> bool" where
  "f_less (Finite x) (Finite y) \<longleftrightarrow> x < y"
| "f_less NaN y \<longleftrightarrow> False"
| "f_less x NaN \<longleftrightarrow> False"
| "f_less x y \<longleftrightarrow> x \<noteq> y \<and> (x = NegInf \<or> y = PosInf)"

definition f_le :: "f64 \<Rightarrow> f64 \<Rightarrow> bool" where
  "f_le x y \<longleftrightarrow> f_less x y \<or> x = y \<and> x \<noteq> NaN"

text \<open>
  \<open>math.Min\<close>, \<open>math.Ceil\<close>, and the conversions from and to integers; where the integer part is out of the
  range of \<open>int64\<close>, the conversion yields what it does on amd64.
\<close>

definition f_min :: "f64 \<Rightarrow> f64 \<Rightarrow> f64" where
  "f_min x y =
     (if x = NegInf \<or> y = NegInf then NegInf else if x = NaN \<or> y = NaN then NaN
      else if f_less x y then x else y)"

fun f_ceil :: "f64 \<Rightarrow> f64" where
  "f_ceil (Finite x) = to_float (of_int \<lceil>x\<rceil>)"
| "f_ceil x = x"

definition f_of_int :: "int \<Rightarrow> f64" where
  "f_of_int n = to_float (of_int n)"

fun f_to_int :: "f64 \<Rightarrow> int" where
  "f_to_int (Finite x) =
     (let n = (if 0 \<le> x then \<lfloor>x\<rfloor> else \<lceil>x\<rceil>) in if - (2 ^ 63) \<le> n \<and> n < 2 ^ 63 then n else - (2 ^ 63))"
| "f_to_int _ = - (2 ^ 63)"

section \<open>Accuracy\<close>

lemma binade_bounds:
  assumes "0 < q"
  shows "2 powi binade q \<le> q" "q < 2 powi (binade q + 1)"
proof -
  obtain a b where ab: "quotient_of q = (a, b)" by fastforce
  have b: "0 < b" using quotient_of_denom_pos [OF ab] .
  have q: "q = of_int a / of_int b" using quotient_of_div [OF ab] .
  with assms b have a: "0 < a" by (simp add: zero_less_divide_iff)
  define la lb where "la = nat (bitlen a)" and "lb = nat (bitlen b)"
  have l: "bitlen a = int la" "bitlen b = int lb" by (simp_all add: la_def lb_def bitlen_nonneg)
  have la: "0 < la" "0 < lb" using a b bitlen_eq_zero_iff [of a] bitlen_eq_zero_iff [of b] bitlen_nonneg [of a] bitlen_nonneg [of b]
    by (auto simp: la_def lb_def)
  then have "nat (int la - 1) = la - 1" "nat (int lb - 1) = lb - 1" by simp_all
  then have "(2::int) ^ (la - 1) \<le> a" "a < 2 ^ la" "2 ^ (lb - 1) \<le> b" "b < 2 ^ lb"
    using bitlen_bounds [OF a] bitlen_bounds [OF b] by (simp_all add: l)
  then have A: "(2::rat) ^ (la - 1) \<le> of_int a" "of_int a < (2::rat) ^ la" "(2::rat) ^ (lb - 1) \<le> of_int b" "of_int b < (2::rat) ^ lb"
    by (metis of_int_le_iff of_int_less_iff of_int_numeral of_int_power)+
  have p: "2 ^ la = 2 * (2::rat) ^ (la - 1)" "2 ^ lb = 2 * (2::rat) ^ (lb - 1)"
    using la by (simp_all flip: power_Suc)
  let ?k = "int la - int lb"
  have k: "(2::rat) powi ?k = 2 ^ la / 2 ^ lb" by (simp add: power_int_diff)
  have "(2::rat) ^ (la - 1) / 2 ^ lb \<le> q" unfolding q using A a b by (intro frac_le) simp_all
  moreover have "2 powi (?k - 1) = (2::rat) ^ (la - 1) / 2 ^ lb" by (simp add: power_int_diff p(1))
  moreover have "q < (2::rat) ^ la / 2 ^ (lb - 1)" unfolding q using A a b by (intro frac_less) simp_all
  moreover have "2 powi (?k + 1) = (2::rat) ^ la / 2 ^ (lb - 1)" by (simp add: power_int_add power_int_diff p(2))
  ultimately show "2 powi binade q \<le> q" "q < 2 powi (binade q + 1)"
    by (auto simp: binade_def ab l Let_def k)
qed

lemma round_even_err: "\<bar>of_int (round_even x) - x\<bar> \<le> 1 / 2"
proof -
  have "of_int \<lfloor>x\<rfloor> \<le> x" "x < of_int \<lfloor>x\<rfloor> + 1" by linarith+
  then show ?thesis by (auto simp: round_even_def Let_def abs_le_iff)
qed

lemma powi_pos [simp]: "0 < (2::rat) powi k"
  by (simp add: zero_less_power_int)

lemma powi_le: "k \<le> l \<Longrightarrow> (2::rat) powi k \<le> 2 powi l"
  by (rule power_int_increasing) simp_all

lemma last_bit_le:
  assumes "q \<noteq> 0"
  shows "2 powi last_bit q \<le> max (\<bar>q\<bar> / 2 ^ 52) (2 powi (-1074))"
proof -
  have "(2::rat) powi (binade \<bar>q\<bar> - 52) = 2 powi binade \<bar>q\<bar> / 2 ^ 52" by (simp add: power_int_diff)
  also have "\<dots> \<le> \<bar>q\<bar> / 2 ^ 52" using binade_bounds(1) [of "\<bar>q\<bar>"] assms by (intro divide_right_mono) simp_all
  finally show ?thesis by (auto simp: last_bit_def max_def)
qed

lemma round64_last_bit: "\<bar>round64 q - q\<bar> \<le> (if q = 0 then 0 else 2 powi last_bit q / 2)"
proof -
  let ?u = "2 powi last_bit q :: rat"
  have u: "0 < ?u" by simp
  have "of_int (round_even (q / ?u)) * ?u - q = (of_int (round_even (q / ?u)) - q / ?u) * ?u"
    using u by (simp add: left_diff_distrib)
  then have "\<bar>of_int (round_even (q / ?u)) * ?u - q\<bar> = \<bar>of_int (round_even (q / ?u)) - q / ?u\<bar> * ?u"
    by (simp only: abs_mult abs_of_pos [OF u])
  also have "\<dots> \<le> 1 / 2 * ?u" by (intro mult_right_mono round_even_err) simp
  finally show ?thesis by (simp add: round64_def)
qed

text \<open>The error is relative for normal numbers, and tiny for the others.\<close>

lemma round64_err: "\<bar>round64 q - q\<bar> \<le> max (\<bar>q\<bar> / 2 ^ 53) (1 / 2 ^ 1000)"
proof (cases "q = 0")
  case False
  have "(2::rat) powi (-1074) \<le> 2 powi (-1000)" by (rule powi_le) simp
  moreover have "2 powi (-1000) = 1 / (2::rat) ^ 1000" by (simp add: power_int_minus field_simps)
  ultimately show ?thesis using round64_last_bit [of q] last_bit_le [OF False] False by (auto simp: max_def split: if_splits)
qed (simp add: round64_def)

lemma round64_rel:
  assumes "q = 0 \<or> 1 / 2 ^ 900 \<le> \<bar>q\<bar>"
  shows "\<bar>round64 q - q\<bar> \<le> \<bar>q\<bar> / 2 ^ 53"
proof (cases "q = 0")
  case False
  have "(1::rat) / 2 ^ 1000 = 1 / 2 ^ 900 / 2 ^ 100" by simp
  also have "\<dots> \<le> \<bar>q\<bar> / 2 ^ 53" using assms False by (intro frac_le) simp_all
  finally show ?thesis using round64_err [of q] by (simp add: max_def split: if_splits)
qed (simp add: round64_def)

lemma round_even_ge: "of_int n \<le> x \<Longrightarrow> n \<le> round_even x"
  by (auto simp: round_even_def Let_def le_floor_iff intro: order_trans [of n "\<lfloor>x\<rfloor>"])

lemma round_even_int [simp]: "round_even (of_int n) = n"
  by (simp add: round_even_def)

lemma round64_nonneg: "0 \<le> q \<Longrightarrow> 0 \<le> round64 q"
  using round_even_ge [of 0 "q / 2 powi last_bit q"] by (simp add: round64_def)

text \<open>Numbers of at least one stay so, and integers of up to 53 bits are exact.\<close>

lemma last_bit_int:
  assumes "1 \<le> \<bar>q\<bar>" "\<bar>q\<bar> < 2 ^ 53"
  shows "last_bit q \<le> 0" "-1074 \<le> last_bit q"
proof -
  have b: "2 powi binade \<bar>q\<bar> \<le> \<bar>q\<bar>" using assms(1) by (intro binade_bounds) simp
  have "\<not> 53 \<le> binade \<bar>q\<bar>"
  proof
    assume "53 \<le> binade \<bar>q\<bar>"
    then have "(2::rat) powi 53 \<le> 2 powi binade \<bar>q\<bar>" by (rule powi_le)
    with b assms(2) show False by simp
  qed
  then show "last_bit q \<le> 0" "-1074 \<le> last_bit q" by (simp_all add: last_bit_def)
qed

lemma round64_int:
  assumes "\<bar>n\<bar> < 2 ^ 53"
  shows "round64 (of_int n) = of_int n"
proof (cases "n = 0")
  case False
  have "\<bar>of_int n :: rat\<bar> = of_int \<bar>n\<bar>" by simp
  moreover have "(1::rat) \<le> of_int \<bar>n\<bar>" using False by (metis abs_ge_zero of_int_1 of_int_le_iff zero_less_abs_iff int_one_le_iff_zero_less)
  moreover have "(of_int \<bar>n\<bar> :: rat) < of_int (2 ^ 53)" unfolding of_int_less_iff by (rule assms)
  ultimately have e: "last_bit (of_int n) \<le> 0" by (intro last_bit_int) simp_all
  let ?e = "last_bit (of_int n)"
  have u: "of_int n / (2::rat) powi ?e = of_int (n * 2 ^ nat (- ?e))"
    using e by (simp add: power_int_def field_simps)
  have "of_int (n * 2 ^ nat (- ?e)) * 2 powi ?e = (of_int n :: rat)" unfolding u [symmetric] by simp
  then show ?thesis unfolding round64_def u round_even_int using False by simp
qed (simp add: round64_def)

lemma round64_ge_one:
  assumes "1 \<le> q"
  shows "1 \<le> round64 q"
proof (cases "q < 2 ^ 53")
  case True
  let ?e = "last_bit q"
  have e: "?e \<le> 0" using assms True by (intro last_bit_int) simp_all
  then have u: "(1::rat) / 2 powi ?e = of_int (2 ^ nat (- ?e))" by (simp add: power_int_def field_simps)
  have "1 / 2 powi ?e \<le> q / 2 powi ?e" using assms by (intro divide_right_mono) simp_all
  then have "(2::int) ^ nat (- ?e) \<le> round_even (q / 2 powi ?e)" unfolding u by (rule round_even_ge)
  then have "(of_int (2 ^ nat (- ?e)) :: rat) \<le> of_int (round_even (q / 2 powi ?e))" unfolding of_int_le_iff .
  then have "1 / (2::rat) powi ?e * 2 powi ?e \<le> of_int (round_even (q / 2 powi ?e)) * 2 powi ?e"
    unfolding u by (rule mult_right_mono) simp
  then show ?thesis using assms by (simp add: round64_def)
next
  case False
  then have "1 / 2 ^ 900 \<le> \<bar>q\<bar>" by (simp add: field_simps)
  with round64_rel [of q] have "\<bar>round64 q - q\<bar> \<le> \<bar>q\<bar> / 2 ^ 53" by blast
  moreover have "q - round64 q \<le> \<bar>round64 q - q\<bar>" by linarith
  ultimately have "q - q / 2 ^ 53 \<le> round64 q" using assms by linarith
  with False show ?thesis by simp
qed

text \<open>Rounding does not overflow below the largest number.\<close>

lemma round_even_le: "x \<le> of_int n \<Longrightarrow> round_even x \<le> n"
proof -
  assume x: "x \<le> of_int n"
  then have f: "\<lfloor>x\<rfloor> \<le> n" by linarith
  show ?thesis
  proof (cases "\<lfloor>x\<rfloor> = n")
    case True
    with x have "x = of_int n" by linarith
    then show ?thesis by simp
  qed (use f in \<open>auto simp: round_even_def Let_def\<close>)
qed

lemma round64_le_max:
  assumes "0 \<le> q" "q \<le> max_float"
  shows "round64 q \<le> max_float"
proof (cases "q = 0")
  case False
  let ?e = "last_bit q"
  have "\<not> 1024 \<le> binade q"
  proof
    assume "1024 \<le> binade q"
    then have "(2::rat) powi 1024 \<le> 2 powi binade q" by (rule powi_le)
    also have "\<dots> \<le> q" using False assms(1) by (intro binade_bounds) simp
    also note assms(2)
    finally show False by (simp add: max_float_def)
  qed
  then have e: "?e \<le> 971" using assms(1) by (simp add: last_bit_def)
  have "(2::rat) ^ 971 = 2 powi (971 - ?e) * 2 powi ?e" by (simp flip: power_int_add)
  also have "(2::rat) powi (971 - ?e) = 2 ^ nat (971 - ?e)" using e by (simp add: power_int_def)
  finally have m: "max_float = of_int ((2 ^ 53 - 1) * 2 ^ nat (971 - ?e)) * 2 powi ?e"
    unfolding max_float_def by (simp only: mult.assoc of_int_mult of_int_diff of_int_power of_int_numeral of_int_1)
  have "q / 2 powi ?e \<le> of_int ((2 ^ 53 - 1) * 2 ^ nat (971 - ?e))"
    using assms(2) unfolding m by (subst pos_divide_le_eq) simp_all
  then have "round_even (q / 2 powi ?e) \<le> (2 ^ 53 - 1) * 2 ^ nat (971 - ?e)" by (rule round_even_le)
  then have "(of_int (round_even (q / 2 powi ?e)) :: rat) \<le> of_int ((2 ^ 53 - 1) * 2 ^ nat (971 - ?e))"
    unfolding of_int_le_iff .
  then have "of_int (round_even (q / 2 powi ?e)) * 2 powi ?e \<le> max_float" unfolding m by (rule mult_right_mono) simp
  then show ?thesis using False by (simp add: round64_def)
qed (simp add: round64_def max_float_def)

text \<open>Operations on finite numbers.\<close>

lemma to_float_nonneg: "0 \<le> q \<Longrightarrow> to_float q = (if max_float < round64 q then PosInf else Finite (round64 q))"
  using round64_nonneg [of q] by (auto simp: to_float_def Let_def max_float_def)

lemma to_float_int:
  assumes "0 \<le> n" "n < 2 ^ 53"
  shows "to_float (of_int n) = Finite (of_int n)"
proof -
  have "(of_int n :: rat) < of_int (2 ^ 53)" unfolding of_int_less_iff by (rule assms(2))
  then have "\<not> max_float < (of_int n :: rat)" by (simp add: max_float_def)
  with assms show ?thesis by (simp add: to_float_nonneg round64_int)
qed

lemma to_float_numeral [simp]: "numeral w < (2::int) ^ 53 \<Longrightarrow> to_float (numeral w) = Finite (numeral w)"
  using to_float_int [of "numeral w"] by simp

end
