(* ===== verification/Ratelimit.thy ===== *)
theory Ratelimit
  imports Raft_Node Go_Float
begin

text \<open>
  The token bucket limiter of the HTTP gateway, \<open>internal/transport/ratelimit.go\<close>.  Tokens and
  rates are \<open>float64\<close>, rounded as the code rounds them; instants are nanoseconds.  The limiter's
  clock is an argument of its operations.
\<close>

record bucket =
  bk_tokens :: f64
  bk_last :: int

record rate_limiter =
  rl_rate :: f64
  rl_burst :: f64
  rl_buckets :: "(string \<times> bucket) list"
  rl_lastSweep :: int

definition newRateLimiter :: "f64 \<Rightarrow> int \<Rightarrow> int \<Rightarrow> rate_limiter" where
  "newRateLimiter rate burst t =
     (let b = f_of_int burst; b = (if f_le b (Finite 0) then f_ceil rate else b) in
      \<lparr>rl_rate = rate, rl_burst = b, rl_buckets = [], rl_lastSweep = t\<rparr>)"

text \<open>\<open>Duration.Seconds\<close>: whole seconds and the rest are converted and added.\<close>

definition second :: int where "second = 1000000000"

definition seconds :: "int \<Rightarrow> f64" where
  "seconds d =
     (let sec = sgn d * (\<bar>d\<bar> div second); nsec = d - sec * second
      in f_add (f_of_int sec) (f_div (f_of_int nsec) (f_of_int second)))"

definition refillTime :: "rate_limiter \<Rightarrow> int" where
  "refillTime rl = f_to_int (f_mul (f_div (rl_burst rl) (rl_rate rl)) (f_of_int second))"

definition sweepLocked :: "int \<Rightarrow> rate_limiter \<Rightarrow> rate_limiter" where
  "sweepLocked t rl =
     (if time_sub t (rl_lastSweep rl) < 60 * second then rl
      else rl\<lparr>rl_lastSweep := t,
              rl_buckets := filter (\<lambda>(k, b). \<not> refillTime rl < time_sub t (bk_last b)) (rl_buckets rl)\<rparr>)"

text \<open>What one write does to a bucket.\<close>

definition spend :: "f64 \<Rightarrow> f64 \<Rightarrow> int \<Rightarrow> bucket \<Rightarrow> bool \<times> bucket" where
  "spend rate burst t b =
     (let tokens = f_min burst (f_add (bk_tokens b) (f_mul (seconds (time_sub t (bk_last b))) rate)) in
      if f_less tokens (Finite 1) then (False, \<lparr>bk_tokens = tokens, bk_last = t\<rparr>)
      else (True, \<lparr>bk_tokens = f_add tokens (Finite (- 1)), bk_last = t\<rparr>))"

definition allow :: "int \<Rightarrow> string \<Rightarrow> rate_limiter \<Rightarrow> bool \<times> rate_limiter" where
  "allow t key rl =
     (let rl = sweepLocked t rl;
          b = (case map_of (rl_buckets rl) key of None \<Rightarrow> \<lparr>bk_tokens = rl_burst rl, bk_last = t\<rparr> | Some b \<Rightarrow> b)
      in case spend (rl_rate rl) (rl_burst rl) t b of
           (ok, b) \<Rightarrow> (ok, rl\<lparr>rl_buckets := AList.update key b (rl_buckets rl)\<rparr>))"

section \<open>Rounding errors\<close>

text \<open>\<open>x\<close> is \<open>y\<close> up to \<open>k\<close> roundings; the last bit of a token is far below them.\<close>

definition close :: "nat \<Rightarrow> rat \<Rightarrow> rat \<Rightarrow> bool" where
  "close k x y \<longleftrightarrow> \<bar>x - y\<bar> \<le> of_nat k * y / 2 ^ 52"

lemma close_refl: "0 \<le> y \<Longrightarrow> close k y y"
  by (simp add: close_def)

lemma closeD: "close k x y \<Longrightarrow> x \<le> y + of_nat k * y / 2 ^ 52 \<and> y - of_nat k * y / 2 ^ 52 \<le> x"
  unfolding close_def by linarith

lemma close_nonneg:
  assumes "close k x y" "0 \<le> y" "k < 100"
  shows "0 \<le> x" "x \<le> 2 * y" "y \<le> 2 * x"
proof -
  have k: "(of_nat k :: rat) < 100" using assms(3) by (metis of_nat_less_iff of_nat_numeral)
  have "of_nat k * y \<le> 100 * y" using k assms(2) by (intro mult_right_mono) simp_all
  then have "of_nat k * y / 2 ^ 52 \<le> y / 2" using assms(2) by (simp add: field_simps)
  with closeD [OF assms(1)] assms(2) show "0 \<le> x" "x \<le> 2 * y" "y \<le> 2 * x" by linarith+
qed

lemma close_mono: "close k x y \<Longrightarrow> 0 \<le> y \<Longrightarrow> k \<le> l \<Longrightarrow> close l x y"
proof -
  assume c: "close k x y" and y: "0 \<le> y" and kl: "k \<le> l"
  have "(of_nat k :: rat) \<le> of_nat l" using kl by simp
  then have "of_nat k * y / 2 ^ 52 \<le> of_nat l * y / 2 ^ 52" using y by (intro divide_right_mono mult_right_mono) simp_all
  with c show ?thesis unfolding close_def by linarith
qed

lemma close_round:
  assumes c: "close k x y" and y: "y = 0 \<or> 1 / 2 ^ 800 \<le> y" and k: "k < 100"
  shows "close (Suc k) (round64 x) y"
proof -
  have y0: "0 \<le> y" using y by (auto intro: order_trans [rotated])
  note nn = close_nonneg [OF c y0 k]
  have "x = 0 \<or> 1 / 2 ^ 900 \<le> \<bar>x\<bar>"
  proof (cases "y = 0")
    case True
    with c show ?thesis by (simp add: close_def)
  next
    case False
    with y have "(1::rat) / 2 ^ 800 \<le> y" by blast
    moreover have "(1::rat) / 2 ^ 900 \<le> 1 / 2 ^ 800 / 2" by simp
    moreover have "b \<le> x" if "a \<le> y" "b \<le> a / 2" for a b using that nn(3) by linarith
    ultimately have "1 / 2 ^ 900 \<le> x" by blast
    then show ?thesis using nn(1) by simp
  qed
  from round64_rel [OF this] have "\<bar>round64 x - x\<bar> \<le> x / 2 ^ 53" using nn by simp
  moreover have "x / 2 ^ 53 \<le> y / 2 ^ 52" using nn(2) by (simp add: field_simps)
  moreover have "of_nat (Suc k) * y / 2 ^ 52 = of_nat k * y / 2 ^ 52 + y / 2 ^ 52" by (simp add: distrib_right add_divide_distrib)
  ultimately show ?thesis using c unfolding close_def by linarith
qed

lemma close_add: "close k x y \<Longrightarrow> close k v w \<Longrightarrow> close k (x + v) (y + w)"
proof -
  assume c: "close k x y" "close k v w"
  have "of_nat k * (y + w) / 2 ^ 52 = of_nat k * y / 2 ^ 52 + of_nat k * w / (2 ^ 52 :: rat)"
    by (simp add: distrib_left add_divide_distrib)
  then show ?thesis using c unfolding close_def by linarith
qed

lemma close_mult:
  assumes "close k x y" "0 \<le> r"
  shows "close k (x * r) (y * r)"
proof -
  have "\<bar>x * r - y * r\<bar> = \<bar>x - y\<bar> * r" using assms(2) by (simp add: abs_mult flip: left_diff_distrib)
  also have "\<dots> \<le> of_nat k * y / 2 ^ 52 * r" using assms unfolding close_def by (intro mult_right_mono) simp_all
  finally show ?thesis by (simp add: close_def mult_ac)
qed

text \<open>The exact length of a duration in seconds, and what \<open>Seconds\<close> yields for it.\<close>

definition secs :: "int \<Rightarrow> rat" where
  "secs d = of_int d / 1000000000"

lemma secs_nonneg [simp]: "0 \<le> d \<Longrightarrow> 0 \<le> secs d"
  by (simp add: secs_def)

lemma secs_add: "secs (a + b) = secs a + secs b"
  by (simp add: secs_def add_divide_distrib)

lemma secs_normal: "0 \<le> d \<Longrightarrow> secs d = 0 \<or> 1 / 2 ^ 30 \<le> secs d"
proof -
  assume "0 \<le> d"
  then have "d = 0 \<or> (1::rat) \<le> of_int d" by auto
  then show ?thesis by (auto simp: secs_def field_simps)
qed

lemma to_float_finite:
  assumes "0 \<le> q" "q \<le> 2 ^ 900"
  shows "to_float q = Finite (round64 q)"
proof -
  have "\<bar>round64 q - q\<bar> \<le> max (q / 2 ^ 53) (1 / 2 ^ 1000)" using round64_err [of q] assms by simp
  also have "\<dots> \<le> 2 ^ 900" using assms by (simp add: field_simps)
  finally have "round64 q \<le> 2 ^ 901" using assms(2) by simp
  also have "(2::rat) ^ 901 \<le> max_float" by (simp add: max_float_def)
  finally show ?thesis using assms by (simp add: to_float_nonneg)
qed

lemma seconds_close:
  assumes "0 \<le> d" "d < 2 ^ 63"
  obtains s where "seconds d = Finite s" and "close 2 s (secs d)"
proof -
  let ?sec = "d div second" and ?ns = "d mod second"
  have s: "sgn d * (\<bar>d\<bar> div second) = ?sec" using assms(1) by (cases "d = 0") (simp_all add: sgn_if)
  have ns: "d - ?sec * second = ?ns" by (simp add: minus_div_mult_eq_mod)
  have b: "0 \<le> ?sec" "?sec < 2 ^ 53" "0 \<le> ?ns" "?ns < 2 ^ 53" "?ns < 1000000000"
  proof -
    show "0 \<le> ?sec" "0 \<le> ?ns" "?ns < 1000000000" using assms by (simp_all add: second_def pos_imp_zdiv_nonneg_iff)
    then show "?ns < 2 ^ 53" by simp
    have "d < 9223372036854775808" using assms(2) by simp
    then show "?sec < 2 ^ 53" unfolding second_def by simp
  qed
  define x where "x = (of_int ?ns / of_int second :: rat)"
  have x: "0 \<le> x" "x \<le> 1" using b by (simp_all add: x_def second_def)
  have xn: "x = 0 \<or> 1 / 2 ^ 800 \<le> x" using secs_normal [OF b(3)] by (auto simp: x_def secs_def second_def intro: order_trans [rotated])
  have f: "f_of_int ?sec = Finite (of_int ?sec)" "f_of_int ?ns = Finite (of_int ?ns)" "f_of_int second = Finite (of_int second)"
    unfolding f_of_int_def using b by (simp_all add: to_float_int second_def)
  have q: "f_div (f_of_int ?ns) (f_of_int second) = Finite (round64 x)"
  proof -
    have "(1::rat) \<le> 2 ^ 900" by simp
    with x have "to_float x = Finite (round64 x)" by (intro to_float_finite) (auto intro: order_trans)
    then show ?thesis unfolding f x_def by (simp add: second_def)
  qed
  have c: "close 1 (round64 x) x" using close_round [OF close_refl xn, of 0] x by simp
  have e: "of_int ?sec + x = secs d"
  proof -
    have "d = ?sec * second + ?ns" by simp
    then have "(of_int d :: rat) = of_int ?sec * of_int second + of_int ?ns" by (metis of_int_add of_int_mult)
    then show ?thesis by (simp add: x_def secs_def second_def add_divide_distrib)
  qed
  have c2: "close 1 (of_int ?sec + round64 x) (secs d)"
    unfolding e [symmetric] by (rule close_add [OF close_refl c]) (simp add: b)
  have r: "close 2 (round64 (of_int ?sec + round64 x)) (secs d)"
    using close_round [OF c2] secs_normal [OF assms(1)] by (auto simp: numeral_2_eq_2 intro: order_trans [rotated])
  have "(of_int ?sec :: rat) < of_int (2 ^ 53)" unfolding of_int_less_iff by (rule b(2))
  moreover have "round64 x \<le> 2" "0 \<le> round64 x" using close_nonneg [OF c x(1)] x(2) by simp_all
  ultimately have "to_float (of_int ?sec + round64 x) = Finite (round64 (of_int ?sec + round64 x))"
    using b(1) by (intro to_float_finite) simp_all
  then have "seconds d = Finite (round64 (of_int ?sec + round64 x))"
    unfolding seconds_def Let_def s ns q by (simp add: f)
  with r that show thesis by blast
qed

section \<open>One bucket\<close>

text \<open>The parameters of a limiter whose flags were accepted.\<close>

definition sane :: "rat \<Rightarrow> rat \<Rightarrow> bool" where
  "sane rate burst \<longleftrightarrow> 1 / 2 ^ 20 \<le> rate \<and> 1 \<le> burst \<and> burst \<le> max_float"

text \<open>Capping at the burst keeps two numbers as close as rounding made them.\<close>

lemma cap_close:
  assumes B: "(1::rat) \<le> B" and y: "0 \<le> y" and e: "e = 1 / 2 ^ 200"
    and x: "x \<le> y + 5 * y / 2 ^ 52 + e" "y - 5 * y / 2 ^ 52 - e \<le> x \<or> B \<le> x"
  shows "\<bar>min B x - min B y\<bar> \<le> 6 * B / 2 ^ 52"
proof -
  have eB: "e \<le> B / 2 ^ 52" using B by (simp add: e field_simps)
  show ?thesis
  proof (cases "y \<le> B")
    case True
    then have "5 * y / 2 ^ 52 \<le> 5 * B / 2 ^ 52" by (simp add: field_simps)
    with True x eB show ?thesis by (auto simp: min_def)
  next
    case False
    then have "y * (1 - 5 / 2 ^ 52) \<ge> B * (1 - 5 / 2 ^ 52)" by (intro mult_right_mono) simp_all
    then have "B - 5 * B / 2 ^ 52 \<le> y - 5 * y / 2 ^ 52" by (simp add: algebra_simps)
    with False x eB B show ?thesis by (auto simp: min_def)
  qed
qed

text \<open>What a duration earns at a rate.\<close>

lemma earned_close:
  assumes r: "1 / 2 ^ 20 \<le> rate" and d: "0 \<le> d" "d < 2 ^ 63"
  obtains sc where "seconds d = Finite sc" and "0 \<le> sc * rate" and "close 3 (round64 (sc * rate)) (secs d * rate)"
proof -
  have r0: "0 \<le> rate" using r by (auto intro: order_trans [rotated])
  obtain sc where sc: "seconds d = Finite sc" "close 2 sc (secs d)" by (rule seconds_close [OF d])
  have "secs d * rate = 0 \<or> 1 / 2 ^ 800 \<le> secs d * rate"
  proof (cases "secs d = 0")
    case False
    then have "1 / 2 ^ 30 * (1 / 2 ^ 20) \<le> secs d * rate"
      using secs_normal [OF d(1)] r by (intro mult_mono) simp_all
    moreover have "(1::rat) / 2 ^ 800 \<le> 1 / 2 ^ 30 * (1 / 2 ^ 20)" by simp
    ultimately show ?thesis by (blast intro: order_trans)
  qed simp
  from close_round [OF close_mult [OF sc(2) r0] this] have "close 3 (round64 (sc * rate)) (secs d * rate)"
    by (simp add: numeral_3_eq_3)
  moreover have "0 \<le> sc * rate" using close_nonneg(1) [OF sc(2)] d(1) r0 by simp
  ultimately show thesis using sc(1) that by blast
qed

lemma sum_close:
  assumes "\<bar>z - v\<bar> \<le> h + a" "h \<le> y / 2 ^ 52" "a \<le> b" "v \<le> y + 3 * y / 2 ^ 52" "y - 3 * y / 2 ^ 52 \<le> v" "(0::rat) \<le> y"
  shows "z \<le> y + 5 * y / 2 ^ 52 + b" "y - 5 * y / 2 ^ 52 - b \<le> z"
  using assms by linarith+

text \<open>The tokens of a bucket after the refill of one call, against exact arithmetic.\<close>

lemma refill_close:
  assumes s: "sane rate burst" and x: "0 \<le> x" and d: "0 \<le> d" "d < 2 ^ 63"
  obtains tk where "f_min (Finite burst) (f_add (Finite x) (f_mul (seconds d) (Finite rate))) = Finite tk"
    and "0 \<le> tk" and "tk \<le> burst" and "\<bar>tk - min burst (x + secs d * rate)\<bar> \<le> 6 * burst / 2 ^ 52"
proof -
  have r: "1 / 2 ^ 20 \<le> rate" "0 \<le> rate" and B: "1 \<le> burst" "burst \<le> max_float"
    using s by (auto simp: sane_def intro: order_trans [rotated])
  obtain sc where sc: "seconds d = Finite sc" and scr: "0 \<le> sc * rate" and c: "close 3 (round64 (sc * rate)) (secs d * rate)"
    by (rule earned_close [OF r(1) d])
  define w p where "w = secs d * rate" and "p = round64 (sc * rate)"
  have w0: "0 \<le> w" using d(1) r(2) by (simp add: w_def)
  have p0: "0 \<le> p" using round64_nonneg [OF scr] by (simp add: p_def)
  have pw: "p \<le> w + 3 * w / 2 ^ 52" "w - 3 * w / 2 ^ 52 \<le> p" using closeD [OF c] by (simp_all add: p_def w_def)
  define y where "y = x + w"
  have y: "0 \<le> y" "w \<le> y" using x w0 by (simp_all add: y_def)
  have e1: "\<bar>round64 (x + p) - (x + p)\<bar> \<le> (x + p) / 2 ^ 53 + 1 / 2 ^ 1000"
    using round64_err [of "x + p"] x p0 by (auto simp: max_def split: if_splits intro: order_trans add_increasing add_increasing2)
  have half: "(x + p) / 2 ^ 53 \<le> y / 2 ^ 52" using pw(1) x w0 by (simp add: y_def field_simps)
  have ln: "3 * w / 2 ^ 52 \<le> 3 * y / 2 ^ 52" using y by (simp add: field_simps)
  have v: "x + p \<le> y + 3 * y / 2 ^ 52" "y - 3 * y / 2 ^ 52 \<le> x + p" using pw ln unfolding y_def by linarith+
  have tiny: "(1::rat) / 2 ^ 1000 \<le> 1 / 2 ^ 200" by simp
  have up: "round64 (x + p) \<le> y + 5 * y / 2 ^ 52 + 1 / 2 ^ 200" and lo: "y - 5 * y / 2 ^ 52 - 1 / 2 ^ 200 \<le> round64 (x + p)"
    using sum_close [OF e1 half tiny v y(1)] by blast+
  have tk: "\<bar>min burst z - min burst y\<bar> \<le> 6 * burst / 2 ^ 52" if "z = round64 (x + p) \<or> z = p \<and> burst \<le> p" for z
  proof (rule cap_close [OF B(1) y(1) refl])
    show "z \<le> y + 5 * y / 2 ^ 52 + 1 / 2 ^ 200" using that up pw(1) ln y x by auto
    show "y - 5 * y / 2 ^ 52 - 1 / 2 ^ 200 \<le> z \<or> burst \<le> z" using that lo by auto
  qed
  consider "max_float < p" | "p \<le> max_float" "max_float < round64 (x + p)" | "p \<le> max_float" "round64 (x + p) \<le> max_float" by linarith
  then show thesis
  proof cases
    case 1
    then have "f_min (Finite burst) (f_add (Finite x) (f_mul (seconds d) (Finite rate))) = Finite burst"
      using scr by (simp add: sc to_float_nonneg p_def f_min_def)
    then show thesis using that [of burst] tk [of p] 1 B by (simp add: y_def w_def)
  next
    case 2
    then have "f_min (Finite burst) (f_add (Finite x) (f_mul (seconds d) (Finite rate))) = Finite burst"
      using scr x p0 by (simp add: sc to_float_nonneg p_def f_min_def)
    then show thesis using that [of burst] tk [of "round64 (x + p)"] 2 B by (simp add: y_def w_def)
  next
    case 3
    then have "f_min (Finite burst) (f_add (Finite x) (f_mul (seconds d) (Finite rate))) = Finite (min burst (round64 (x + p)))"
      using scr x p0 by (auto simp: sc to_float_nonneg p_def f_min_def min_def)
    then show thesis using that [of "min burst (round64 (x + p))"] tk [of "round64 (x + p)"] B round64_nonneg [of "x + p"] x p0
      by (simp add: y_def w_def)
  qed
qed

text \<open>One write: the answer and the tokens left, against exact arithmetic.\<close>

lemma spend_close:
  assumes s: "sane rate burst" and x: "bk_tokens b = Finite x" "0 \<le> x" and t: "0 \<le> bk_last b" "bk_last b \<le> t" "t < 2 ^ 63"
    and sp: "spend (Finite rate) (Finite burst) t b = (ok, b')"
    and A: "A = min burst (x + secs (t - bk_last b) * rate)"
  obtains x' where "bk_tokens b' = Finite x'" and "0 \<le> x'" and "bk_last b' = t" and "ok \<longrightarrow> 1 - 6 * burst / 2 ^ 52 \<le> A"
    and "\<not> ok \<longrightarrow> A < 1 + 6 * burst / 2 ^ 52" and "\<bar>x' - (A - (if ok then 1 else 0))\<bar> \<le> 7 * burst / 2 ^ 52"
proof -
  have d: "0 \<le> t - bk_last b" "t - bk_last b < 2 ^ 63" "time_sub t (bk_last b) = t - bk_last b" using t by (simp_all add: time_sub_def)
  have B: "1 \<le> burst" "burst \<le> max_float" using s by (simp_all add: sane_def)
  obtain tk where tk: "f_min (Finite burst) (f_add (Finite x) (f_mul (seconds (t - bk_last b)) (Finite rate))) = Finite tk"
    "0 \<le> tk" "tk \<le> burst" "\<bar>tk - A\<bar> \<le> 6 * burst / 2 ^ 52"
    unfolding A by (rule refill_close [OF s x(2) d(1,2)])
  have sp': "(ok, b') = (if tk < 1 then (False, \<lparr>bk_tokens = Finite tk, bk_last = t\<rparr>)
      else (True, \<lparr>bk_tokens = to_float (tk - 1), bk_last = t\<rparr>))"
    using sp by (auto simp: spend_def Let_def d(3) x(1) tk(1))
  have b7: "6 * burst / 2 ^ 52 + burst / 2 ^ 52 = 7 * burst / 2 ^ 52" "0 \<le> burst / 2 ^ 52" using B by simp_all
  show thesis
  proof (cases "tk < 1")
    case True
    then have b': "\<not> ok" "b' = \<lparr>bk_tokens = Finite tk, bk_last = t\<rparr>" using sp' by simp_all
    have "A < 1 + 6 * burst / 2 ^ 52" "\<bar>tk - A\<bar> \<le> 7 * burst / 2 ^ 52" using True tk(4) b7 by linarith+
    with b' tk(2) show thesis by (intro that [of tk]) simp_all
  next
    case False
    then have "to_float (tk - 1) = Finite (round64 (tk - 1))"
      using tk(3) B round64_le_max [of "tk - 1"] by (simp add: to_float_nonneg)
    moreover have "\<bar>round64 (tk - 1) - (tk - 1)\<bar> \<le> burst / 2 ^ 52"
    proof -
      have "(tk - 1) / 2 ^ 53 \<le> burst / 2 ^ 52" "1 / 2 ^ 1000 \<le> burst / 2 ^ 52" using tk(3) False B by (simp_all add: field_simps)
      with round64_err [of "tk - 1"] False show ?thesis by (simp add: max_def split: if_splits)
    qed
    then have "\<bar>round64 (tk - 1) - (A - 1)\<bar> \<le> 7 * burst / 2 ^ 52" "1 - 6 * burst / 2 ^ 52 \<le> A" using False tk(4) b7 by linarith+
    moreover have "ok" "b' = \<lparr>bk_tokens = to_float (tk - 1), bk_last = t\<rparr>" using sp' False by simp_all
    ultimately show thesis using round64_nonneg [of "tk - 1"] False by (intro that [of "round64 (tk - 1)"]) simp_all
  qed
qed

text \<open>The refill time of accepted flags: no overflow, and no underflow that matters.\<close>

lemma refillTime_close:
  assumes s: "sane rate burst" and v: "round64 (burst / rate) \<le> 86400"
    and rl: "rl_rate rl = Finite rate" "rl_burst rl = Finite burst"
  obtains X where "refillTime rl = \<lfloor>X\<rfloor>" and "0 \<le> X" and "X < 86400 * 1000000000 + 1"
    and "1 / 2 ^ 800 \<le> burst / rate \<longrightarrow> close 2 X (burst / rate * 1000000000)"
proof -
  have r: "0 < rate" and B: "1 \<le> burst" using s by (auto simp: sane_def intro: less_le_trans [rotated])
  define q where "q = round64 (burst / rate)"
  have q: "0 \<le> q" "q \<le> 86400" using round64_nonneg [of "burst / rate"] r B v by (simp_all add: q_def)
  have "to_float (burst / rate) = Finite q" using r B q by (simp add: to_float_nonneg q_def max_float_def)
  moreover have "to_float (q * 1000000000) = Finite (round64 (q * 1000000000))"
    using q by (intro to_float_finite) simp_all
  moreover have "f_of_int second = Finite 1000000000" using to_float_int [of second] by (simp add: f_of_int_def second_def)
  moreover have n: "0 \<le> round64 (q * 1000000000)" using q by (intro round64_nonneg) simp
  have e: "\<bar>round64 (q * 1000000000) - q * 1000000000\<bar> \<le> 1 / 2"
    using round64_err [of "q * 1000000000"] q by (auto simp: max_def split: if_splits)
  then have u: "round64 (q * 1000000000) < 86400 * 1000000000 + 1" using q(2) by linarith
  ultimately have "refillTime rl = \<lfloor>round64 (q * 1000000000)\<rfloor>"
    using r n u by (simp add: refillTime_def rl Let_def floor_less_iff)
  moreover have "close 2 (round64 (q * 1000000000)) (burst / rate * 1000000000)" if "1 / 2 ^ 800 \<le> burst / rate"
  proof -
    have "close 1 q (burst / rate)" using close_round [of 0 "burst / rate" "burst / rate"] that r B by (simp add: q_def close_refl)
    then have c: "close 1 (q * 1000000000) (burst / rate * 1000000000)" by (rule close_mult) simp
    have "burst / rate * 1 \<le> burst / rate * 1000000000" using r B by (intro mult_left_mono) simp_all
    then have "1 / 2 ^ 800 \<le> burst / rate * 1000000000" using that by linarith
    with close_round [OF c] show ?thesis by (simp add: numeral_2_eq_2)
  qed
  ultimately show thesis using that n u by blast
qed

text \<open>A bucket that has been idle for longer than the refill time is full but for rounding.\<close>

lemma idle_full:
  assumes s: "sane rate burst" and v: "round64 (burst / rate) \<le> 86400" and x: "0 \<le> x"
    and rl: "rl_rate rl = Finite rate" "rl_burst rl = Finite burst" and i: "refillTime rl < d"
  shows "burst - 2 * burst / 2 ^ 52 \<le> min burst (x + secs d * rate)"
proof -
  have r: "0 < rate" and B: "1 \<le> burst" using s by (auto simp: sane_def intro: less_le_trans [rotated])
  obtain X where X: "refillTime rl = \<lfloor>X\<rfloor>" "0 \<le> X" "X < 86400 * 1000000000 + 1"
    "1 / 2 ^ 800 \<le> burst / rate \<longrightarrow> close 2 X (burst / rate * 1000000000)"
    by (rule refillTime_close [OF s v rl])
  have Xd: "X < of_int d" using i by (simp add: X(1) floor_less_iff)
  have "burst - 2 * burst / 2 ^ 52 \<le> secs d * rate"
  proof (cases "1 / 2 ^ 800 \<le> burst / rate")
    case True
    have "burst / rate * 1000000000 * (1 - 2 / 2 ^ 52) \<le> of_int d"
      using closeD [OF mp [OF X(4) True]] Xd by (simp add: algebra_simps)
    then have "burst / rate * 1000000000 * (1 - 2 / 2 ^ 52) * (rate / 1000000000) \<le> of_int d * (rate / 1000000000)"
      using r by (intro mult_right_mono) simp_all
    then show ?thesis using r by (simp add: secs_def algebra_simps)
  next
    case False
    then have "burst * 2 ^ 800 \<le> rate" using r by (simp add: field_simps)
    have "0 < d" using X(2) Xd by (metis of_int_0_less_iff order_le_less_trans)
    then have "(1::rat) \<le> of_int d" by simp
    then have "1 * rate \<le> of_int d * rate" using r by (intro mult_right_mono) simp_all
    moreover have "burst * 1000000000 \<le> burst * 2 ^ 800" using B by (intro mult_left_mono) simp_all
    ultimately have "burst * 1000000000 \<le> of_int d * rate" using \<open>burst * 2 ^ 800 \<le> rate\<close> by linarith
    then have "burst \<le> secs d * rate" by (simp add: secs_def field_simps)
    with B show ?thesis by simp
  qed
  then show ?thesis using x B by (simp add: min_def)
qed

section \<open>The limiter\<close>

lemma sweepLocked_fields [simp]:
  "rl_rate (sweepLocked t rl) = rl_rate rl" "rl_burst (sweepLocked t rl) = rl_burst rl"
  by (simp_all add: sweepLocked_def)

lemma sweepLocked_set: "set (rl_buckets (sweepLocked t rl)) \<subseteq> set (rl_buckets rl)"
  by (auto simp: sweepLocked_def)

lemma map_of_sweep:
  assumes "distinct (keys (rl_buckets rl))"
  shows "map_of (rl_buckets (sweepLocked t rl)) k = map_of (rl_buckets rl) k \<or>
    (map_of (rl_buckets (sweepLocked t rl)) k = None \<and>
     (\<exists>b. map_of (rl_buckets rl) k = Some b \<and> refillTime rl < time_sub t (bk_last b)))"
proof (cases "map_of (rl_buckets (sweepLocked t rl)) k")
  case (Some b)
  then have "(k, b) \<in> set (rl_buckets rl)" using sweepLocked_set by (blast dest: map_of_SomeD)
  with assms Some show ?thesis by simp
next
  case None
  then show ?thesis
  proof (cases "map_of (rl_buckets rl) k")
    case (Some b)
    then have i: "(k, b) \<in> set (rl_buckets rl)" by (rule map_of_SomeD)
    have "\<not> (k, b) \<in> set (rl_buckets (sweepLocked t rl))" using None by (simp add: map_of_eq_None_iff) force
    with i Some None show ?thesis by (auto simp: sweepLocked_def split: if_splits)
  qed simp
qed

fun the_finite :: "f64 \<Rightarrow> rat" where
  "the_finite (Finite x) = x"
| "the_finite _ = 0"

text \<open>A limiter of accepted flags that has seen no instant after \<open>t\<close>.\<close>

definition rl_ok :: "rat \<Rightarrow> rat \<Rightarrow> int \<Rightarrow> rate_limiter \<Rightarrow> bool" where
  "rl_ok rate burst t rl \<longleftrightarrow> sane rate burst \<and> round64 (burst / rate) \<le> 86400 \<and>
     rl_rate rl = Finite rate \<and> rl_burst rl = Finite burst \<and> distinct (keys (rl_buckets rl)) \<and>
     (\<forall>(k, b) \<in> set (rl_buckets rl). (\<exists>x \<ge> 0. bk_tokens b = Finite x) \<and> 0 \<le> bk_last b \<and> bk_last b \<le> t)"

lemma rl_okD:
  assumes "rl_ok rate burst t rl"
  shows "sane rate burst" "round64 (burst / rate) \<le> 86400" "rl_rate rl = Finite rate" "rl_burst rl = Finite burst"
    "distinct (keys (rl_buckets rl))"
    "map_of (rl_buckets rl) k = Some b \<Longrightarrow> bk_tokens b = Finite (the_finite (bk_tokens b)) \<and>
       0 \<le> the_finite (bk_tokens b) \<and> 0 \<le> bk_last b \<and> bk_last b \<le> t"
  using assms by (fastforce simp: rl_ok_def dest: map_of_SomeD)+

lemma rl_ok_sweep: "rl_ok rate burst s rl \<Longrightarrow> s \<le> t \<Longrightarrow> rl_ok rate burst t (sweepLocked t rl)"
  by (fastforce simp: rl_ok_def sweepLocked_def distinct_map_filter)

text \<open>The tokens a client has at instant \<open>t\<close>, with an exact refill since its last write.\<close>

definition avail :: "rat \<Rightarrow> rat \<Rightarrow> int \<Rightarrow> string \<Rightarrow> rate_limiter \<Rightarrow> rat" where
  "avail rate burst t k rl =
     (case map_of (rl_buckets rl) k of
        None \<Rightarrow> burst
      | Some b \<Rightarrow> min burst (the_finite (bk_tokens b) + secs (t - bk_last b) * rate))"

lemma sane_pos: "sane rate burst \<Longrightarrow> 0 < rate \<and> 1 \<le> burst"
  by (auto simp: sane_def intro: less_le_trans [rotated])

text \<open>Time refills exactly, and a sweep drops what is full but for rounding.\<close>

lemma avail_refill:
  assumes ok: "rl_ok rate burst s rl" and t: "s \<le> t"
  shows "avail rate burst t k rl = min burst (avail rate burst s k rl + secs (t - s) * rate)"
proof (cases "map_of (rl_buckets rl) k")
  case (Some b)
  have "secs (t - bk_last b) = secs (s - bk_last b) + secs (t - s)"
    by (simp add: secs_add [symmetric])
  then have "avail rate burst t k rl = min burst (the_finite (bk_tokens b) + secs (s - bk_last b) * rate + secs (t - s) * rate)"
    using Some by (simp add: avail_def distrib_right add.assoc)
  moreover have "0 \<le> secs (t - s) * rate" using sane_pos [OF rl_okD(1) [OF ok]] t by simp
  ultimately show ?thesis using Some by (simp add: avail_def min_def)
qed (use sane_pos [OF rl_okD(1) [OF ok]] t in \<open>simp add: avail_def\<close>)

definition known :: "string \<Rightarrow> rate_limiter \<Rightarrow> rat" where
  "known k rl = (if map_of (rl_buckets rl) k = None then 0 else 1)"

lemma avail_sweep:
  assumes ok: "rl_ok rate burst s rl" and t: "s \<le> t" "t < 2 ^ 63"
  shows "\<bar>avail rate burst t k (sweepLocked t rl) - avail rate burst t k rl\<bar> \<le>
    (known k rl - known k (sweepLocked t rl)) * (2 * burst / 2 ^ 52)"
  using map_of_sweep [OF rl_okD(5) [OF ok], of t k]
proof
  assume "map_of (rl_buckets (sweepLocked t rl)) k = None \<and>
     (\<exists>b. map_of (rl_buckets rl) k = Some b \<and> refillTime rl < time_sub t (bk_last b))"
  then obtain b where n: "map_of (rl_buckets (sweepLocked t rl)) k = None"
    and b: "map_of (rl_buckets rl) k = Some b" and i: "refillTime rl < time_sub t (bk_last b)" by blast
  note d = rl_okD(6) [OF ok b]
  then have "time_sub t (bk_last b) = t - bk_last b" using t by (simp add: time_sub_def)
  with i have "refillTime rl < t - bk_last b" by simp
  from idle_full [OF rl_okD(1,2) [OF ok] _ rl_okD(3,4) [OF ok] this, of "the_finite (bk_tokens b)"] d
  have "burst - 2 * burst / 2 ^ 52 \<le> avail rate burst t k rl" unfolding avail_def b option.case by blast
  moreover have "avail rate burst t k rl \<le> burst" using b by (simp add: avail_def)
  moreover have "avail rate burst t k (sweepLocked t rl) = burst" using n by (simp add: avail_def)
  ultimately show ?thesis using n b by (simp add: known_def) 
next
  assume "map_of (rl_buckets (sweepLocked t rl)) k = map_of (rl_buckets rl) k"
  then show ?thesis unfolding avail_def known_def by simp
qed

text \<open>
  One write.  For every client, its tokens change by the token that the write takes and by
  rounding, and rounding is charged to the client's own writes: \<open>known\<close> keeps for a bucket that a
  sweep may drop what the drop may give away.
\<close>

lemma allow_step:
  assumes ok: "rl_ok rate burst s rl" and t: "s \<le> t" "t < 2 ^ 63" "0 \<le> t" and a: "allow t key rl = (g, rl')"
  shows "rl_ok rate burst t rl'"
    and "g \<Longrightarrow> 1 - 8 * burst / 2 ^ 52 \<le> avail rate burst t key rl"
    and "\<not> g \<Longrightarrow> avail rate burst t key rl < 1 + 8 * burst / 2 ^ 52"
    and "\<bar>avail rate burst t k rl' - (avail rate burst t k rl - (if g \<and> key = k then 1 else 0))\<bar> \<le>
      (known k rl - known k rl') * (2 * burst / 2 ^ 52) + (if key = k then 16 * burst / 2 ^ 52 else 0)"
proof -
  let ?w = "sweepLocked t rl"
  have w: "rl_ok rate burst t ?w" using rl_ok_sweep [OF ok t(1)] .
  note S = rl_okD(1) [OF ok] and B = conjunct2 [OF sane_pos [OF rl_okD(1) [OF ok]]]
  define c where "c = (case map_of (rl_buckets ?w) key of None \<Rightarrow> \<lparr>bk_tokens = Finite burst, bk_last = t\<rparr> | Some b \<Rightarrow> b)"
  define A where "A = avail rate burst t key ?w"
  have c: "bk_tokens c = Finite (the_finite (bk_tokens c))" "0 \<le> the_finite (bk_tokens c)" "0 \<le> bk_last c" "bk_last c \<le> t"
    using rl_okD(6) [OF w, of key] B t(3) by (auto simp: c_def split: option.split)
  have A: "A = min burst (the_finite (bk_tokens c) + secs (t - bk_last c) * rate)"
    by (simp add: A_def avail_def c_def secs_def split: option.split)
  obtain d where sp: "spend (Finite rate) (Finite burst) t c = (g, d)" and rl': "rl' = ?w\<lparr>rl_buckets := AList.update key d (rl_buckets ?w)\<rparr>"
    using a unfolding allow_def Let_def sweepLocked_fields rl_okD(3,4) [OF ok] c_def [symmetric] by (auto split: prod.splits)
  obtain x where x: "bk_tokens d = Finite x" "0 \<le> x" "bk_last d = t" and g: "g \<longrightarrow> 1 - 6 * burst / 2 ^ 52 \<le> A"
    "\<not> g \<longrightarrow> A < 1 + 6 * burst / 2 ^ 52" and xA: "\<bar>x - (A - (if g then 1 else 0))\<bar> \<le> 7 * burst / 2 ^ 52"
    by (rule spend_close [OF S c t(2) sp A])
  show ok': "rl_ok rate burst t rl'"
  proof -
    have "(k, y) \<in> set (AList.update key d m) \<Longrightarrow> y = d \<or> (k, y) \<in> set m" for k y m
      by (induction m) (auto split: if_splits)
    with w x t(3) show ?thesis by (fastforce simp: rl_ok_def rl' distinct_update)
  qed
  have sw: "\<bar>A - avail rate burst t key rl\<bar> \<le> (known key rl - known key ?w) * (2 * burst / 2 ^ 52)"
    unfolding A_def by (rule avail_sweep [OF ok t(1,2)])
  have kn: "(known key rl - known key ?w) * (2 * burst / 2 ^ 52) \<le> 2 * burst / 2 ^ 52" using B by (simp add: known_def)
  show "1 - 8 * burst / 2 ^ 52 \<le> avail rate burst t key rl" if g using that g(1) sw kn by linarith
  show "avail rate burst t key rl < 1 + 8 * burst / 2 ^ 52" if "\<not> g" using that g(2) sw kn by linarith
  show "\<bar>avail rate burst t k rl' - (avail rate burst t k rl - (if g \<and> key = k then 1 else 0))\<bar> \<le>
      (known k rl - known k rl') * (2 * burst / 2 ^ 52) + (if key = k then 16 * burst / 2 ^ 52 else 0)"
  proof (cases "key = k")
    case True
    have eq: "avail rate burst t k rl' = min burst x" "known k rl' = 1"
      using True x by (simp_all add: avail_def known_def rl' update_conv' secs_def)
    have m: "\<bar>min burst x - (A - (if g then 1 else 0))\<bar> \<le> 7 * burst / 2 ^ 52"
    proof -
      have "A \<le> burst" unfolding A by simp
      then have "A - (if g then 1 else 0) \<le> burst" by simp
      moreover have "\<bar>min b y - z\<bar> \<le> e" if "z \<le> b" "\<bar>y - z\<bar> \<le> e" for b y z e :: rat
        using that by (auto simp: min_def)
      ultimately show ?thesis using xA by blast
    qed
    have "\<bar>min burst x - (avail rate burst t key rl - (if g then 1 else 0))\<bar> \<le> 9 * burst / 2 ^ 52"
      using m sw kn by linarith
    moreover have "9 * burst / 2 ^ 52 \<le> (known key rl - 1) * (2 * burst / 2 ^ 52) + 16 * burst / 2 ^ 52"
      using B by (auto simp: known_def)
    ultimately have "\<bar>min burst x - (avail rate burst t key rl - (if g then 1 else 0))\<bar> \<le>
        (known key rl - 1) * (2 * burst / 2 ^ 52) + 16 * burst / 2 ^ 52" by linarith
    with eq True show ?thesis by simp
  next
    case False
    then have "avail rate burst t k rl' = avail rate burst t k ?w" "known k rl' = known k ?w"
      by (simp_all add: avail_def known_def rl' update_conv')
    with False show ?thesis using avail_sweep [OF ok t(1,2), of k] by simp
  qed
qed

end
