(* ===== verification/Write_Limits.thy ===== *)
theory Write_Limits
  imports Http Ratelimit Kvstore
begin

text \<open>
  The limits of the HTTP gateway, \<open>internal/transport/limits.go\<close>, and the identification of
  clients, \<open>clientIP\<close> of \<open>internal/transport/ratelimit.go\<close>.
\<close>

section \<open>The flags\<close>

record limits =
  MaxKeyBytes :: int
  MaxValueBytes :: int
  MaxKeys :: int
  WriteRate :: f64
  WriteBurst :: int
  TrustProxy :: bool
  CORSOrigin :: string

text \<open>The burst the flags ask for.\<close>

definition flag_burst :: "limits \<Rightarrow> f64" where
  "flag_burst l = (if WriteBurst l = 0 then f_ceil (WriteRate l) else f_of_int (WriteBurst l))"

definition Validate :: "limits \<Rightarrow> go_error option" where
  "Validate l =
     (if MaxKeyBytes l < 0 then Some (Err ''-max-key-bytes must be >= 0'')
      else if MaxValueBytes l < 0 then Some (Err ''-max-value-bytes must be >= 0'')
      else if MaxKeys l < 0 then Some (Err ''-max-keys must be >= 0'')
      else if WriteBurst l < 0 then Some (Err ''-write-burst must be >= 0'')
      else if WriteRate l = NaN \<or> WriteRate l = PosInf \<or> WriteRate l = NegInf \<or> f_less (WriteRate l) (Finite 0)
      then Some (Err ''-write-rate must be a finite number >= 0'')
      else if f_less (Finite 0) (WriteRate l) \<and>
        f_less (Finite 86400) (f_div (flag_burst l) (WriteRate l))
      then Some (Err ''-write-burst / -write-rate must refill within 24h (raise -write-rate or lower -write-burst)'')
      else None)"

section \<open>Clients\<close>

text \<open>
  Parsing and printing of addresses is the standard library's: \<open>net.ParseIP\<close> yields the
  16-byte form, \<open>net.SplitHostPort\<close> the host.
\<close>

record net_lib =
  ParseIP :: "string \<Rightarrow> bytes option"
  SplitHostPort :: "string \<Rightarrow> string option"
  IP_String :: "bytes \<Rightarrow> string"

definition To4 :: "bytes \<Rightarrow> bytes option" where
  "To4 ip = (if take 12 ip = replicate 10 0 @ [255, 255] then Some (drop 12 ip) else None)"

text \<open>\<open>ip.Mask(net.CIDRMask(64, 128))\<close>.\<close>

definition mask64 :: "bytes \<Rightarrow> bytes" where
  "mask64 ip = take 8 ip @ replicate 8 0"

definition clientIP :: "net_lib \<Rightarrow> http_request \<Rightarrow> bool \<Rightarrow> string" where
  "clientIP net r trustProxy =
     (let hop = (if trustProxy \<and> r_XForwardedFor r \<noteq> []
                 then (let h = TrimSpace (last (Split (CHR '','') (last (r_XForwardedFor r))))
                       in if ParseIP net h \<noteq> None then h else '''')
                 else '''');
          addr = (if hop = '''' then (case SplitHostPort net (r_RemoteAddr r) of None \<Rightarrow> r_RemoteAddr r | Some host \<Rightarrow> host)
                  else hop)
      in case ParseIP net addr of
           None \<Rightarrow> addr
         | Some ip \<Rightarrow> (case To4 ip of Some ip4 \<Rightarrow> IP_String net ip4 | None \<Rightarrow> IP_String net (mask64 ip)))"

section \<open>The gateway's state\<close>

text \<open>
  The HTTP server keeps its own address, the addresses of the members, the limits and the
  limiter; the metrics object may be the node's.  The mux and the time-outs are left to
  \<open>net/http\<close>, and of the listener only whether it runs is kept.
\<close>

record http_server =
  hs_Addr :: string
  hs_serving :: bool
  hs_peerHTTPAddrs :: "(string \<times> string) list"
  hs_metrics :: "metrics option"
  hs_limits :: limits
  hs_limiter :: "rate_limiter option"

definition NewHTTPServer :: "string \<Rightarrow> (string \<times> string) list \<Rightarrow> metrics option \<Rightarrow> limits \<Rightarrow> int \<Rightarrow> http_server" where
  "NewHTTPServer addr addrs m l t =
     \<lparr>hs_Addr = addr, hs_serving = False, hs_peerHTTPAddrs = addrs, hs_metrics = m, hs_limits = l,
      hs_limiter = (if f_less (Finite 0) (WriteRate l) then Some (newRateLimiter (WriteRate l) (WriteBurst l) t) else None)\<rparr>"

section \<open>Enforcement\<close>

definition writeJSONError :: "nat \<Rightarrow> string \<Rightarrow> http_response" where
  "writeJSONError status msg = json_response status [(''error'', JString msg)]"

text \<open>
  \<open>node_at i\<close> is the node when the handler takes its mutex: 2 for the size of the store, 3 for the
  lookup of the key.  \<^const>\<open>Some\<close> is the response of a rejected write.
\<close>

definition enforceWriteLimits ::
    "net_lib \<Rightarrow> int \<Rightarrow> (nat \<Rightarrow> 's raft_node) \<Rightarrow> http_request \<Rightarrow> string \<Rightarrow> bool \<Rightarrow> http_server \<Rightarrow>
     http_response option \<times> http_server" where
  "enforceWriteLimits net t node_at r key createsKey s =
     (let (limited, s) =
        (case hs_limiter s of
           None \<Rightarrow> (False, s)
         | Some rl \<Rightarrow>
             (case allow t (clientIP net r (TrustProxy (hs_limits s))) rl of
                (ok, rl) \<Rightarrow> (\<not> ok, s\<lparr>hs_limiter := Some rl\<rparr>)))
      in if limited then
           (Some ((writeJSONError StatusTooManyRequests ''rate limit exceeded: slow down and retry in a second'')
                  \<lparr>w_Header := [(''Retry-After'', ''1''), (''Content-Type'', ''application/json'')]\<rparr>), s)
         else if 0 < MaxKeyBytes (hs_limits s) \<and> MaxKeyBytes (hs_limits s) < int (length key) then
           (Some (writeJSONError StatusRequestEntityTooLarge
              (''key too large (max '' @ decimal (nat (MaxKeyBytes (hs_limits s))) @ '' bytes)'')), s)
         else if createsKey \<and> 0 < MaxKeys (hs_limits s) \<and> MaxKeys (hs_limits s) \<le> int (KVStoreSize (node_at 2))
           \<and> \<not> snd (Get (node_at 3) key) then
           (Some (writeJSONError StatusInsufficientStorage
              (''store is full (max '' @ decimal (nat (MaxKeys (hs_limits s))) @ '' keys)'')), s)
         else (None, s))"

text \<open>
  \<open>http.MaxBytesReader\<close> fails on the first byte past the limit, an unlimited reader on a
  failing body only.
\<close>

definition readValue :: "http_server \<Rightarrow> http_request \<Rightarrow> http_response + string" where
  "readValue s r =
     (if 0 < MaxValueBytes (hs_limits s) \<and> MaxValueBytes (hs_limits s) < int (length (r_Body r)) then
        Inl (writeJSONError StatusRequestEntityTooLarge
          (''value too large (max '' @ decimal (nat (MaxValueBytes (hs_limits s))) @ '' bytes)''))
      else if r_BodyFails r then Inl (writeJSONError StatusBadRequest ''failed to read body'')
      else Inr (bytes_to_string (r_Body r)))"

section \<open>Lemmas\<close>

lemma enforceWriteLimits_passes:
  assumes "enforceWriteLimits net t node_at r key createsKey s = (None, s')"
  shows "0 < MaxKeyBytes (hs_limits s) \<Longrightarrow> int (length key) \<le> MaxKeyBytes (hs_limits s)"
    "createsKey \<Longrightarrow> 0 < MaxKeys (hs_limits s) \<Longrightarrow>
      int (KVStoreSize (node_at 2)) < MaxKeys (hs_limits s) \<or> snd (Get (node_at 3) key)"
    "hs_limiter s = Some rl \<Longrightarrow> fst (allow t (clientIP net r (TrustProxy (hs_limits s))) rl)"
    "hs_limits s' = hs_limits s" "hs_peerHTTPAddrs s' = hs_peerHTTPAddrs s"
  using assms by (auto simp: enforceWriteLimits_def Let_def split: option.splits if_splits prod.splits)

lemma enforceWriteLimits_rejects:
  assumes "enforceWriteLimits net t node_at r key createsKey s = (Some w, s')"
  shows "w_Status w \<in> {StatusTooManyRequests, StatusRequestEntityTooLarge, StatusInsufficientStorage}"
  using assms by (auto simp: enforceWriteLimits_def Let_def writeJSONError_def json_response_def
      split: option.splits if_splits prod.splits)

lemma readValue_bound:
  "readValue s r = Inr v \<Longrightarrow> v = bytes_to_string (r_Body r) \<and>
   (0 < MaxValueBytes (hs_limits s) \<longrightarrow> int (length v) \<le> MaxValueBytes (hs_limits s))"
  by (auto simp: readValue_def bytes_to_string_def split: if_splits)

end
