(* ===== verification/Limit_Properties.thy ===== *)
theory Limit_Properties
  imports Write_Limits
begin

text \<open>
  What the write limits of the HTTP gateway guarantee: a token bucket for every client, whatever
  the limiter forgets; a bound on the accepted writes; flags that cannot make it overflow; and
  who counts as one client.
\<close>

section \<open>The limiter of accepted flags\<close>

lemma accepted_limiter:
  assumes v: "Validate l = None" and rl: "hs_limiter (NewHTTPServer addr addrs m l t) = Some rl"
  obtains rate burst where "WriteRate l = Finite rate" and "flag_burst l = Finite burst" and "rl_ok rate burst t rl"
    and "0 < rate" and "1 \<le> burst" and "rl_buckets rl = []"
proof -
  have n: "WriteRate l \<noteq> NaN" "WriteRate l \<noteq> PosInf" "WriteRate l \<noteq> NegInf" and wb: "0 \<le> WriteBurst l"
    and d: "\<not> f_less (Finite 86400) (f_div (flag_burst l) (WriteRate l))" and p: "f_less (Finite 0) (WriteRate l)"
    using v rl by (auto simp: Validate_def NewHTTPServer_def split: if_splits)
  from n p obtain rate where r: "WriteRate l = Finite rate" "0 < rate" by (cases "WriteRate l") auto
  define k where "k = (if WriteBurst l = 0 then \<lceil>rate\<rceil> else WriteBurst l)"
  have k: "flag_burst l = to_float (of_int k)" by (simp add: flag_burst_def k_def r f_of_int_def)
  have k1: "1 \<le> k" using wb r(2) by (auto simp: k_def int_one_le_iff_zero_less)
  define b where "b = round64 (of_int k)"
  have b1: "1 \<le> b" unfolding b_def using k1 by (intro round64_ge_one) simp
  have "b \<le> max_float"
  proof (rule ccontr)
    assume "\<not> b \<le> max_float"
    then have "flag_burst l = PosInf" using k1 by (simp add: k to_float_nonneg b_def)
    with d r show False by (simp add: inf_of_def)
  qed
  then have fb: "flag_burst l = Finite b" using k1 by (simp add: k to_float_nonneg b_def)
  have q: "round64 (b / rate) \<le> 86400"
    using d r b1 by (simp add: fb r(1) to_float_nonneg split: if_splits)
  have "0 \<le> b / rate" using b1 r(2) by simp
  moreover have "max (b / rate / 2 ^ 53) (1 / 2 ^ 1000) \<le> b / rate / 2 ^ 53 + 1"
    using \<open>0 \<le> b / rate\<close> by (simp add: max_def)
  with round64_err [of "b / rate"] \<open>0 \<le> b / rate\<close> have "\<bar>round64 (b / rate) - b / rate\<bar> \<le> b / rate / 2 ^ 53 + 1"
    by (metis abs_of_nonneg order_trans)
  moreover have "z \<le> 172800" if "0 \<le> z" "\<bar>y - z\<bar> \<le> z / 2 ^ 53 + 1" "y \<le> 86400" for y z :: rat
  proof -
    have "z / 2 ^ 53 \<le> z / 4" using that(1) by simp
    with that show ?thesis by linarith
  qed
  ultimately have "b / rate \<le> 172800" using q by blast
  then have "1 \<le> 172800 * rate" using b1 r(2) by (simp add: field_simps)
  then have s: "sane rate b" using b1 \<open>b \<le> max_float\<close> by (simp add: sane_def)
  have "f_le (f_of_int (WriteBurst l)) (Finite 0) \<longleftrightarrow> WriteBurst l = 0"
  proof (cases "WriteBurst l = 0")
    case False
    then have "1 \<le> round64 (of_int (WriteBurst l))" using wb by (intro round64_ge_one) simp
    with wb False show ?thesis by (auto simp: f_le_def f_of_int_def to_float_nonneg)
  qed (simp add: f_le_def f_of_int_def to_float_int [of 0, simplified])
  then have "rl = \<lparr>rl_rate = Finite rate, rl_burst = Finite b, rl_buckets = [], rl_lastSweep = t\<rparr>"
    using rl p fb by (auto simp: NewHTTPServer_def newRateLimiter_def Let_def flag_burst_def r)
  then show thesis using that [OF r(1) fb] s q r(2) b1 by (simp add: rl_ok_def)
qed

section \<open>The specification\<close>

text \<open>
  Token buckets with exact arithmetic: every client has an account \<open>a\<close>, which is never forgotten,
  fills at the rate up to the burst, and pays a token for every write that is accepted.  The
  answers must be the right ones up to a tolerance \<open>tol\<close> for every write of the client so far: a
  write is accepted only if the account holds a token, and refused only if it does not.
\<close>

fun bucket_spec ::
    "rat \<Rightarrow> rat \<Rightarrow> rat \<Rightarrow> int \<Rightarrow> (string \<Rightarrow> rat) \<Rightarrow> (string \<Rightarrow> nat) \<Rightarrow> (int \<times> string) list \<Rightarrow> bool list \<Rightarrow> bool" where
  "bucket_spec rate burst tol s a n [] oks \<longleftrightarrow> oks = []"
| "bucket_spec rate burst tol s a n ((t, k) # ws) [] \<longleftrightarrow> False"
| "bucket_spec rate burst tol s a n ((t, k) # ws) (ok # oks) \<longleftrightarrow>
     (let a = (\<lambda>c. min burst (a c + secs (t - s) * rate)); n = n(k := Suc (n k)) in
      (if ok then 1 - of_nat (n k) * tol \<le> a k else a k < 1 + of_nat (n k) * tol) \<and>
      bucket_spec rate burst tol t (a(k := a k - (if ok then 1 else 0))) n ws oks)"

fun allow_all :: "(int \<times> string) list \<Rightarrow> rate_limiter \<Rightarrow> bool list" where
  "allow_all [] rl = []"
| "allow_all ((t, key) # ws) rl = (case allow t key rl of (b, rl) \<Rightarrow> b # allow_all ws rl)"

text \<open>The account and the limiter differ by the roundings of the client's own writes.\<close>

definition tracks :: "rat \<Rightarrow> rat \<Rightarrow> int \<Rightarrow> (string \<Rightarrow> rat) \<Rightarrow> (string \<Rightarrow> nat) \<Rightarrow> rate_limiter \<Rightarrow> bool" where
  "tracks rate burst t a n rl \<longleftrightarrow>
     (\<forall>k. \<bar>avail rate burst t k rl - a k\<bar> \<le> of_nat (n k) * (burst / 2 ^ 48) - known k rl * (2 * burst / 2 ^ 52))"

lemma tracks_refill:
  assumes tr: "tracks rate burst s a n rl" and ok: "rl_ok rate burst s rl" and t: "s \<le> t"
  shows "tracks rate burst t (\<lambda>c. min burst (a c + secs (t - s) * rate)) n rl"
proof -
  have "\<bar>min b (x + d) - min b (y + d)\<bar> \<le> \<bar>x - y\<bar>" for b x y d :: rat by (auto simp: min_def)
  with tr show ?thesis unfolding tracks_def avail_refill [OF ok t] by (meson order_trans)
qed

lemma tracks_write:
  assumes tr: "tracks rate burst t a n rl" and ok: "rl_ok rate burst s rl" and t: "s \<le> t" "t < 2 ^ 63" "0 \<le> t"
    and al: "allow t k rl = (g, rl')"
  shows "tracks rate burst t (a(k := a k - (if g then 1 else 0))) (n(k := Suc (n k))) rl'"
    and "if g then 1 - of_nat (Suc (n k)) * (burst / 2 ^ 48) \<le> a k else a k < 1 + of_nat (Suc (n k)) * (burst / 2 ^ 48)"
proof -
  have B: "0 \<le> burst / 2 ^ 52" using sane_pos [OF rl_okD(1) [OF ok]] by simp
  note st = allow_step [OF ok t al]
  have e16: "16 * burst / 2 ^ 52 = burst / 2 ^ 48" by simp
  have sum: "\<bar>x' - (y - d)\<bar> \<le> (p - q') + r" if "\<bar>x' - (x - d)\<bar> \<le> (q - q') + r" "\<bar>x - y\<bar> \<le> p - q" for x x' y d p q q' r :: rat
    using that by linarith
  show "tracks rate burst t (a(k := a k - (if g then 1 else 0))) (n(k := Suc (n k))) rl'"
    unfolding tracks_def
  proof
    fix c
    define e d where "e = burst / 2 ^ 48" and "d = 2 * burst / 2 ^ 52"
    have "\<bar>avail rate burst t c rl' - (a c - (if g \<and> k = c then 1 else 0))\<bar> \<le>
        (of_nat (n c) * e - known c rl' * d) + (if k = c then e else 0)"
    proof (rule sum)
      show "\<bar>avail rate burst t c rl' - (avail rate burst t c rl - (if g \<and> k = c then 1 else 0))\<bar> \<le>
          (known c rl * d - known c rl' * d) + (if k = c then e else 0)"
        using st(4) [of c] unfolding left_diff_distrib e16 e_def d_def .
      show "\<bar>avail rate burst t c rl - a c\<bar> \<le> of_nat (n c) * e - known c rl * d" using tr by (simp only: tracks_def e_def d_def)
    qed
    then show "\<bar>avail rate burst t c rl' - (a(k := a k - (if g then 1 else 0))) c\<bar> \<le>
        of_nat ((n(k := Suc (n k))) c) * (burst / 2 ^ 48) - known c rl' * (2 * burst / 2 ^ 52)"
      unfolding e_def [symmetric] d_def [symmetric] by (cases "k = c") (simp_all add: distrib_right)
  qed
  have "\<bar>avail rate burst t k rl - a k\<bar> \<le> of_nat (n k) * (burst / 2 ^ 48)"
    using tr B unfolding tracks_def known_def by (auto dest!: spec [of _ k] split: if_splits)
  moreover have "of_nat (Suc (n k)) * (burst / 2 ^ 48) = of_nat (n k) * (burst / 2 ^ 48) + burst / 2 ^ 48"
    by (simp add: distrib_right add_divide_distrib)
  moreover have "8 * burst / 2 ^ 52 \<le> burst / 2 ^ 48" using B by simp
  ultimately have tol: "1 - 8 * burst / 2 ^ 52 \<le> avail rate burst t k rl \<Longrightarrow> 1 - of_nat (Suc (n k)) * (burst / 2 ^ 48) \<le> a k"
    "avail rate burst t k rl < 1 + 8 * burst / 2 ^ 52 \<Longrightarrow> a k < 1 + of_nat (Suc (n k)) * (burst / 2 ^ 48)"
    by linarith+
  show "if g then 1 - of_nat (Suc (n k)) * (burst / 2 ^ 48) \<le> a k else a k < 1 + of_nat (Suc (n k)) * (burst / 2 ^ 48)"
    using tol st(2,3) by (cases g) (simp_all only: if_True if_False not_True_eq_False simp_thms)
qed

lemma allow_all_spec:
  "rl_ok rate burst s rl \<Longrightarrow> tracks rate burst s a n rl \<Longrightarrow> 0 \<le> s \<Longrightarrow> sorted (s # map fst ws) \<Longrightarrow> \<forall>w\<in>set ws. fst w < 2 ^ 63 \<Longrightarrow>
   bucket_spec rate burst (burst / 2 ^ 48) s a n ws (allow_all ws rl)"
proof (induction ws arbitrary: s a n rl)
  case (Cons w ws)
  obtain t k where w: "w = (t, k)" by (cases w)
  obtain g rl' where al: "allow t k rl = (g, rl')" by (cases "allow t k rl")
  have t: "s \<le> t" "t < 2 ^ 63" "0 \<le> t" using Cons.prems w by auto
  note tr = tracks_write [OF tracks_refill [OF Cons.prems(2,1) t(1)] Cons.prems(1) t al]
  have "sorted (t # map fst ws)" "\<forall>w\<in>set ws. fst w < 2 ^ 63" using Cons.prems(4,5) w by simp_all
  from Cons.IH [OF allow_step(1) [OF Cons.prems(1) t al] tr(1) t(3) this] tr(2) show ?case
    unfolding w al allow_all.simps prod.case bucket_spec.simps Let_def fun_upd_same by blast
qed simp

text \<open>
  C32: the limiter is a token bucket for every client.  For limits that \<open>Validate\<close> accepts and any
  sequence of writes in the order of their instants, the limiter of the gateway, which rounds and
  drops the buckets of idle clients, answers as exact accounts that are kept for ever prescribe, up
  to a tolerance of the burst divided by \<open>2 ^ 48\<close> for every write of the client so far.
\<close>

theorem limiter_refines_buckets:
  assumes v: "Validate l = None" and rl: "hs_limiter (NewHTTPServer addr addrs m l t0) = Some rl"
    and t: "0 \<le> t0" "sorted (t0 # map fst ws)" "\<forall>w\<in>set ws. fst w < 2 ^ 63"
  shows "\<exists>rate burst. WriteRate l = Finite rate \<and> flag_burst l = Finite burst \<and>
    bucket_spec rate burst (burst / 2 ^ 48) t0 (\<lambda>k. burst) (\<lambda>k. 0) ws (allow_all ws rl)"
proof -
  obtain rate burst where a: "WriteRate l = Finite rate" "flag_burst l = Finite burst" "rl_ok rate burst t0 rl" "rl_buckets rl = []"
    by (rule accepted_limiter [OF v rl])
  have "tracks rate burst t0 (\<lambda>k. burst) (\<lambda>k. 0) rl" using a(4) by (simp add: tracks_def avail_def known_def)
  from allow_all_spec [OF a(3) this t] a(1,2) show ?thesis by simp
qed

section \<open>How many writes a client gets\<close>

definition granted :: "string \<Rightarrow> (int \<times> string) list \<Rightarrow> rate_limiter \<Rightarrow> nat" where
  "granted k ws rl = length (filter (\<lambda>(w, b). snd w = k \<and> b) (zip ws (allow_all ws rl)))"

definition asked :: "string \<Rightarrow> (int \<times> string) list \<Rightarrow> nat" where
  "asked k ws = length (filter (\<lambda>w. snd w = k) ws)"

lemma bucket_spec_bound:
  "bucket_spec rate burst tol s a n ws oks \<Longrightarrow> 0 \<le> rate \<Longrightarrow> 0 \<le> tol \<Longrightarrow> sorted (s # map fst ws @ [T]) \<Longrightarrow>
   - (of_nat (n k) * tol) \<le> a k \<Longrightarrow> 0 \<le> burst \<Longrightarrow>
   of_nat (length (filter (\<lambda>(w, b). snd w = k \<and> b) (zip ws oks))) \<le> a k + secs (T - s) * rate + of_nat (n k + asked k ws) * tol"
proof (induction rate burst tol s a n ws oks rule: bucket_spec.induct)
  case (1 rate burst tol s a n oks)
  then have "0 \<le> secs (T - s) * rate" by simp
  with 1(5) have "0 \<le> a k + secs (T - s) * rate + of_nat (n k) * tol" by linarith
  with 1(1) show ?case by (simp add: asked_def)
next
  case (3 rate burst tol s a n t c ws ok oks)
  let ?a = "\<lambda>c. min burst (a c + secs (t - s) * rate)" and ?n = "n(c := Suc (n c))"
  let ?a' = "?a(c := ?a c - (if ok then 1 else 0))"
  have t: "s \<le> t" "sorted (t # map fst ws @ [T])" using 3(5) by simp_all
  have d: "0 \<le> secs (t - s) * rate" using t(1) 3(3) by simp
  have h: "if ok then 1 - of_nat (Suc (n c)) * tol \<le> ?a c else ?a c < 1 + of_nat (Suc (n c)) * tol"
    and sp: "bucket_spec rate burst tol t ?a' ?n ws oks" using 3(2) unfolding bucket_spec.simps Let_def fun_upd_same by blast+
  have nt: "0 \<le> of_nat (n k) * tol" using 3(4) by simp
  have ak: "- (of_nat (n k) * tol) \<le> ?a k" using 3(6,7) d nt by (simp add: min_def)
  have "- (of_nat (?n k) * tol) \<le> ?a' k"
  proof (cases "c = k \<and> ok")
    case True
    then have "1 - of_nat (Suc (n k)) * tol \<le> ?a k" using h by simp
    then have "- (of_nat (Suc (n k)) * tol) \<le> ?a k - 1" by linarith
    then show ?thesis using True by simp
  next
    case False
    then have "?a' k = ?a k" by auto
    moreover have "of_nat (n k) * tol \<le> of_nat (?n k) * tol" using 3(4) by (intro mult_right_mono) simp_all
    ultimately show ?thesis using ak by linarith
  qed
  from 3(1) [OF refl refl sp 3(3,4) t(2) this 3(7)]
  have IH: "of_nat (length (filter (\<lambda>(w, b). snd w = k \<and> b) (zip ws oks))) \<le> ?a' k + secs (T - t) * rate + of_nat (?n k + asked k ws) * tol" .
  have "secs (T - s) = secs (t - s) + secs (T - t)" by (simp add: secs_add [symmetric])
  then have e: "secs (T - s) * rate = secs (t - s) * rate + secs (T - t) * rate" by (simp add: distrib_right)
  have "?a k \<le> a k + secs (t - s) * rate" by simp
  with IH e show ?case by (cases "c = k"; cases ok) (simp_all add: asked_def)
qed simp

text \<open>
  C33: accepted writes are bounded.  From the start of the gateway to instant \<open>T\<close>, one client gets
  at most the burst plus the rate times the elapsed seconds, up to the burst divided by \<open>2 ^ 48\<close>
  for each of its writes.
\<close>

theorem write_rate_bounded:
  assumes v: "Validate l = None" and rl: "hs_limiter (NewHTTPServer addr addrs m l t0) = Some rl"
    and t: "0 \<le> t0" "sorted (t0 # map fst ws @ [T])" "T < 2 ^ 63"
  shows "\<exists>rate burst. WriteRate l = Finite rate \<and> flag_burst l = Finite burst \<and>
    of_nat (granted client ws rl) \<le> burst + secs (T - t0) * rate + of_nat (asked client ws) * (burst / 2 ^ 48)"
proof -
  obtain rate burst where a: "WriteRate l = Finite rate" "flag_burst l = Finite burst" "rl_ok rate burst t0 rl" "rl_buckets rl = []"
    "0 < rate" "1 \<le> burst" by (rule accepted_limiter [OF v rl])
  have "tracks rate burst t0 (\<lambda>k. burst) (\<lambda>k. 0) rl" using a(4) by (simp add: tracks_def avail_def known_def)
  moreover have "sorted (t0 # map fst ws)" "\<forall>w\<in>set ws. fst w < 2 ^ 63" using t(2,3) by (fastforce simp: sorted_append)+
  ultimately have "bucket_spec rate burst (burst / 2 ^ 48) t0 (\<lambda>k. burst) (\<lambda>k. 0) ws (allow_all ws rl)"
    by (intro allow_all_spec a(3) t(1))
  from bucket_spec_bound [OF this _ _ t(2), of client] a(1,2,5,6) show ?thesis by (simp add: granted_def)
qed

text \<open>
  C34: accepted flags keep the limiter in range.  When \<open>Validate\<close> accepts the limits, the time a
  bucket of the gateway's limiter takes to refill is between zero and 24 hours, so its conversion
  to a \<open>Duration\<close> does not overflow, and the burst admits at least one write.
\<close>

theorem refill_time_fits:
  assumes v: "Validate l = None" and rl: "hs_limiter (NewHTTPServer addr addrs m l t) = Some rl"
  shows "0 \<le> refillTime rl \<and> refillTime rl \<le> 24 * 60 * 60 * 1000000000 \<and> refillTime rl < 2 ^ 63 \<and>
    f_less (Finite 0) (rl_rate rl) \<and> f_le (Finite 1) (rl_burst rl)"
proof -
  obtain rate burst where a: "rl_ok rate burst t rl" "0 < rate" "1 \<le> burst" by (rule accepted_limiter [OF v rl])
  note d = rl_okD [OF a(1)]
  obtain X where X: "refillTime rl = \<lfloor>X\<rfloor>" "0 \<le> X" "X < 86400 * 1000000000 + 1"
    "1 / 2 ^ 800 \<le> burst / rate \<longrightarrow> close 2 X (burst / rate * 1000000000)" by (rule refillTime_close [OF d(1-4)])
  then have "0 \<le> \<lfloor>X\<rfloor>" "\<lfloor>X\<rfloor> \<le> 86400000000000" by (simp_all add: floor_le_iff)
  with X(1) d(3,4) a(2,3) show ?thesis by (auto simp: f_le_def)
qed

definition demo_limits :: limits where
  "demo_limits = \<lparr>MaxKeyBytes = 64, MaxValueBytes = 256, MaxKeys = 1000, WriteRate = Finite 5, WriteBurst = 10,
     TrustProxy = False, CORSOrigin = ''''\<rparr>"

lemma demo_limits_accepted: "Validate demo_limits = None"
  using to_float_int [of 10] to_float_int [of 2]
  by (simp add: demo_limits_def Validate_def flag_burst_def f_of_int_def)

lemma demo_limiter:
  "hs_limiter (NewHTTPServer '''' [] None demo_limits 0) = Some (newRateLimiter (Finite 5) 10 0)"
  by (simp add: demo_limits_def NewHTTPServer_def)

lemma demo_flags: "WriteRate demo_limits = Finite 5" "flag_burst demo_limits = Finite 10"
  using to_float_int [of 10] by (simp_all add: demo_limits_def flag_burst_def f_of_int_def)

theorem limiter_refines_buckets_witness:
  "bucket_spec 5 10 (10 / 2 ^ 48) 0 (\<lambda>k. 10) (\<lambda>k. 0) [(0, ''a''), (0, ''a''), (100000000000, ''b''), (100000000000, ''a'')]
     (allow_all [(0, ''a''), (0, ''a''), (100000000000, ''b''), (100000000000, ''a'')] (newRateLimiter (Finite 5) 10 0))"
  using limiter_refines_buckets [OF demo_limits_accepted demo_limiter,
      of "[(0, ''a''), (0, ''a''), (100000000000, ''b''), (100000000000, ''a'')]"] by (simp add: demo_flags)

theorem write_rate_bounded_witness:
  "of_nat (granted ''a'' [(0, ''a''), (0, ''a''), (1, ''a'')] (newRateLimiter (Finite 5) 10 0)) \<le>
     (10 + secs 1 * 5 + 3 * (10 / 2 ^ 48) :: rat)"
  using write_rate_bounded [OF demo_limits_accepted demo_limiter, of "[(0, ''a''), (0, ''a''), (1, ''a'')]" 1 "''a''"]
  by (simp add: demo_flags asked_def)

theorem refill_time_fits_witness: "0 \<le> refillTime (newRateLimiter (Finite 5) 10 0)"
  using refill_time_fits [OF demo_limits_accepted demo_limiter] by blast

section \<open>Clients\<close>

text \<open>
  Who is a client.  Without a trusted proxy the request's \<open>X-Forwarded-For\<close> headers do not
  matter, so a client cannot choose its bucket; with one only the last hop of the last header
  does; and two IPv6 addresses of one /64 network are one client.
\<close>

theorem client_identity:
  "clientIP net (r\<lparr>r_XForwardedFor := h\<rparr>) False = clientIP net r False \<and>
   (h \<noteq> [] \<and> h' \<noteq> [] \<and> last (Split (CHR '','') (last h)) = last (Split (CHR '','') (last h')) \<longrightarrow>
      clientIP net (r\<lparr>r_XForwardedFor := h\<rparr>) True = clientIP net (r\<lparr>r_XForwardedFor := h'\<rparr>) True) \<and>
   (SplitHostPort net (r_RemoteAddr r) = Some a \<and> SplitHostPort net (r_RemoteAddr r') = Some a' \<and>
    ParseIP net a = Some ip \<and> ParseIP net a' = Some ip' \<and> To4 ip = None \<and> To4 ip' = None \<and> take 8 ip = take 8 ip' \<longrightarrow>
      clientIP net r False = clientIP net r' False)"
proof (intro conjI impI)
  have f: "r_RemoteAddr (r\<lparr>r_XForwardedFor := h\<rparr>) = r_RemoteAddr r" "r_XForwardedFor (r\<lparr>r_XForwardedFor := h\<rparr>) = h" for h
    by simp_all
  show "clientIP net (r\<lparr>r_XForwardedFor := h\<rparr>) False = clientIP net r False"
    unfolding clientIP_def f by simp
  show "clientIP net (r\<lparr>r_XForwardedFor := h\<rparr>) True = clientIP net (r\<lparr>r_XForwardedFor := h'\<rparr>) True"
    if "h \<noteq> [] \<and> h' \<noteq> [] \<and> last (Split (CHR '','') (last h)) = last (Split (CHR '','') (last h'))"
    using that unfolding clientIP_def f by simp
qed (auto simp: clientIP_def mask64_def)

definition demo_net :: net_lib where
  "demo_net = \<lparr>ParseIP = (\<lambda>s. if length s = 16 then Some (string_to_bytes s) else None),
     SplitHostPort = (\<lambda>s. Some s), IP_String = bytes_to_string\<rparr>"

definition demo_request :: http_request where
  "demo_request = \<lparr>r_Method = ''PUT'', r_Path = ''/api/v1/kv/key'', r_EscapedPath = ''/api/v1/kv/key'', r_RawQuery = '''',
     r_RemoteAddr = ''0123456789abcdef'', r_XForwardedFor = [], r_Body = string_to_bytes ''value'', r_BodyFails = False\<rparr>"

theorem client_identity_witness:
  "clientIP demo_net demo_request False = clientIP demo_net (demo_request\<lparr>r_RemoteAddr := ''01234567ABCDEFGH''\<rparr>) False"
  using client_identity [where net = demo_net and r = demo_request and a = "''0123456789abcdef''"
      and r' = "demo_request\<lparr>r_RemoteAddr := ''01234567ABCDEFGH''\<rparr>" and a' = "''01234567ABCDEFGH''"
      and ip = "string_to_bytes ''0123456789abcdef''" and ip' = "string_to_bytes ''01234567ABCDEFGH''"]
  by (simp add: demo_net_def demo_request_def To4_def string_to_bytes_def)

end
