(* ===== verification/Http_Gateway.thy ===== *)
theory Http_Gateway
  imports Write_Limits Election
begin

text \<open>
  The REST gateway, \<open>internal/transport/http_server.go\<close>: status, redirects to the leader, and
  the handlers of the key-value API.  \<open>node_at i\<close> is the node when a handler takes its mutex:
  0 for \<open>IsLeader\<close>, 1 for \<open>LeaderID\<close>, 2 and 3 for the limits, 4 for the handler's own \<open>Get\<close>.
\<close>

section \<open>Start and stop\<close>

definition http_Start :: "http_server \<Rightarrow> go_error option \<times> http_server" where
  "http_Start s = (None, s\<lparr>hs_serving := True\<rparr>)"

text \<open>The argument is what the library's \<open>Shutdown\<close> returns when it is done or out of time.\<close>

definition http_Stop :: "go_error option \<Rightarrow> http_server \<Rightarrow> go_error option \<times> http_server" where
  "http_Stop shutdown s = (shutdown, s\<lparr>hs_serving := False\<rparr>)"

section \<open>Status\<close>

text \<open>Here the six reads are numbered in their order.\<close>

definition handleStatus :: "(nat \<Rightarrow> 's raft_node) \<Rightarrow> http_request \<Rightarrow> http_server \<Rightarrow> http_response" where
  "handleStatus node_at r s =
     (if r_Method r \<noteq> ''GET'' then http_Error ''method not allowed'' StatusMethodNotAllowed
      else let w = json_response StatusOK
             [(''role'', JString (role_String (Role (node_at 0)))),
              (''term'', JNumber (uint (Term (node_at 1)))),
              (''is_leader'', JBool (IsLeader (node_at 2))),
              (''leader_id'', JString (LeaderID (node_at 3))),
              (''commit_index'', JNumber (uint (CommitIndex (node_at 4)))),
              (''last_applied'', JNumber (uint (LastApplied (node_at 5))))]
           in if CORSOrigin (hs_limits s) \<noteq> ''''
              then w\<lparr>w_Header := w_Header w @ [(''Access-Control-Allow-Origin'', CORSOrigin (hs_limits s))]\<rparr>
              else w)"

section \<open>Redirects\<close>

definition leaderRedirectURL :: "string \<Rightarrow> http_request \<Rightarrow> string" where
  "leaderRedirectURL leaderAddr r =
     (let target = leaderAddr @ r_EscapedPath r in
      if r_RawQuery r \<noteq> '''' then target @ ''?'' @ r_RawQuery r else target)"

definition redirectIfFollower :: "(nat \<Rightarrow> 's raft_node) \<Rightarrow> http_request \<Rightarrow> http_server \<Rightarrow> http_response option" where
  "redirectIfFollower node_at r s =
     (if IsLeader (node_at 0) then None
      else case map_of (hs_peerHTTPAddrs s) (LeaderID (node_at 1)) of
             Some leaderAddr \<Rightarrow>
               if leaderAddr \<noteq> '''' then Some (http_Redirect (leaderRedirectURL leaderAddr r) StatusTemporaryRedirect)
               else Some (json_response StatusServiceUnavailable
                      [(''error'', JString ''cluster currently has no leader (election in progress)'')])
           | None \<Rightarrow> Some (json_response StatusServiceUnavailable
                      [(''error'', JString ''cluster currently has no leader (election in progress)'')]))"

section \<open>The key-value API\<close>

definition http_handleGet :: "(nat \<Rightarrow> 's raft_node) \<Rightarrow> string \<Rightarrow> http_response" where
  "http_handleGet node_at key =
     (case Get (node_at 4) key of
        (val, found) \<Rightarrow>
          if \<not> found then json_response StatusNotFound [(''error'', JString ''key not found''), (''key'', JString key)]
          else json_response StatusOK [(''key'', JString key), (''value'', JString val)])"

text \<open>The answer to a proposal: the error of the node, or success.\<close>

definition propose_answer ::
    "nat \<Rightarrow> (string \<times> json) list \<Rightarrow> u64 \<times> go_error option \<Rightarrow> http_response" where
  "propose_answer status obj res =
     (case snd res of
        Some err \<Rightarrow> json_response StatusInternalServerError [(''error'', JString (error_text err))]
      | None \<Rightarrow> json_response status obj)"

definition handlePut ::
    "gob \<Rightarrow> net_lib \<Rightarrow> int \<Rightarrow> (nat \<Rightarrow> 's raft_node) \<Rightarrow> http_request \<Rightarrow> string \<Rightarrow> http_server \<Rightarrow>
     http_response handler_step \<times> http_server" where
  "handlePut G net t node_at r key s =
     (case redirectIfFollower node_at r s of
        Some w \<Rightarrow> (Respond w, s)
      | None \<Rightarrow>
     (case enforceWriteLimits net t node_at r key True s of
        (Some w, s) \<Rightarrow> (Respond w, s)
      | (None, s) \<Rightarrow>
     (case readValue s r of
        Inl w \<Rightarrow> (Respond w, s)
      | Inr value \<Rightarrow>
     (case Encode G \<lparr>cmd_type = CmdSet, cmd_key = key, cmd_value = value\<rparr> of
        Inl _ \<Rightarrow> (Respond (http_Error ''internal encoding error'' StatusInternalServerError), s)
      | Inr encoded \<Rightarrow>
          (Submit encoded (propose_answer StatusOK
             [(''success'', JBool True), (''key'', JString key), (''value'', JString value)]), s)))))"

text \<open>The encoder's error is ignored: the command is then the nil slice.\<close>

definition encode_or_nil :: "gob \<Rightarrow> command \<Rightarrow> bytes" where
  "encode_or_nil G c = (case Encode G c of Inl _ \<Rightarrow> [] | Inr b \<Rightarrow> b)"

definition handlePost ::
    "gob \<Rightarrow> net_lib \<Rightarrow> int \<Rightarrow> (nat \<Rightarrow> 's raft_node) \<Rightarrow> http_request \<Rightarrow> string \<Rightarrow> http_server \<Rightarrow>
     http_response handler_step \<times> http_server" where
  "handlePost G net t node_at r key s =
     (case redirectIfFollower node_at r s of
        Some w \<Rightarrow> (Respond w, s)
      | None \<Rightarrow>
     (case enforceWriteLimits net t node_at r key True s of
        (Some w, s) \<Rightarrow> (Respond w, s)
      | (None, s) \<Rightarrow>
          if snd (Get (node_at 4) key) then
            (Respond (json_response StatusConflict
               [(''error'', JString ''key already exists''), (''key'', JString key)]), s)
          else
     (case readValue s r of
        Inl w \<Rightarrow> (Respond w, s)
      | Inr value \<Rightarrow>
          (Submit (encode_or_nil G \<lparr>cmd_type = CmdSet, cmd_key = key, cmd_value = value\<rparr>)
             (propose_answer StatusCreated
                [(''success'', JBool True), (''key'', JString key), (''value'', JString value)]), s))))"

definition handleDelete ::
    "gob \<Rightarrow> net_lib \<Rightarrow> int \<Rightarrow> (nat \<Rightarrow> 's raft_node) \<Rightarrow> http_request \<Rightarrow> string \<Rightarrow> http_server \<Rightarrow>
     http_response handler_step \<times> http_server" where
  "handleDelete G net t node_at r key s =
     (case redirectIfFollower node_at r s of
        Some w \<Rightarrow> (Respond w, s)
      | None \<Rightarrow>
     (case enforceWriteLimits net t node_at r key False s of
        (Some w, s) \<Rightarrow> (Respond w, s)
      | (None, s) \<Rightarrow>
          (Submit (encode_or_nil G \<lparr>cmd_type = CmdDelete, cmd_key = key, cmd_value = ''''\<rparr>)
             (propose_answer StatusOK [(''success'', JBool True), (''deleted'', JString key)]), s)))"

definition handleKV ::
    "gob \<Rightarrow> net_lib \<Rightarrow> int \<Rightarrow> (nat \<Rightarrow> 's raft_node) \<Rightarrow> http_request \<Rightarrow> http_server \<Rightarrow>
     http_response handler_step \<times> http_server" where
  "handleKV G net t node_at r s =
     (let key = TrimPrefix (r_Path r) ''/api/v1/kv/'' in
      if key = '''' then (Respond (http_Error ''missing key in path'' StatusBadRequest), s)
      else if r_Method r = ''GET'' then (Respond (http_handleGet node_at key), s)
      else if r_Method r = ''PUT'' then handlePut G net t node_at r key s
      else if r_Method r = ''POST'' then handlePost G net t node_at r key s
      else if r_Method r = ''DELETE'' then handleDelete G net t node_at r key s
      else (Respond (http_Error ''method not allowed'' StatusMethodNotAllowed), s))"

text \<open>The deferred function of \<open>handleKV\<close>, once the handler has answered.\<close>

definition handleKV_deferred :: "'s raft_node \<Rightarrow> http_request \<Rightarrow> int \<Rightarrow> http_server \<Rightarrow> http_server" where
  "handleKV_deferred rn r elapsed s =
     (let opType = ToLower (r_Method r) in
      s\<lparr>hs_metrics := SetKVStoreSize (int (KVStoreSize rn))
          (ObserveKVRequestDuration opType elapsed (IncKVRequests opType (hs_metrics s)))\<rparr>)"

end
