(* ===== verification/Demo_Cluster.thy ===== *)
theory Demo_Cluster
  imports Cluster_Safety
begin

text \<open>
  A concrete run of a three-node cluster on memory stores, which shows that the hypotheses of the
  cluster properties can hold: node \<open>a\<close> wins an election, commits and acknowledges a write;
  then \<open>b\<close> and \<open>c\<close> lose contact with it and elect \<open>b\<close> in term 2, while \<open>a\<close> still believes
  to lead term 1.
\<close>

section \<open>The run\<close>

text \<open>A codec for commands: the type, the length of the key in unary, the key and the value.\<close>

definition unary_gob :: gob where
  "unary_gob = \<lparr>gob_encode = (\<lambda>c. Inr (cmd_type c # replicate (length (cmd_key c)) 1 @ 0 #
       string_to_bytes (cmd_key c @ cmd_value c))),
     gob_decode = (\<lambda>b. let n = length (takeWhile (\<lambda>x. x = 1) (tl b)); r = bytes_to_string (drop (n + 2) b) in
       Inr \<lparr>cmd_type = hd b, cmd_key = take n r, cmd_value = drop n r\<rparr>)\<rparr>"

lemma unary_roundtrip: "gob_roundtrip unary_gob"
proof -
  have "takeWhile (\<lambda>x. x = 1) (replicate n 1 @ 0 # xs) = replicate n (1 :: byte)" for n xs
    by (induction n) simp_all
  moreover have "drop (n + 2) (x # replicate n y @ z # xs) = xs" for n x y z and xs :: bytes
    by (induction n) simp_all
  ultimately show ?thesis by (simp add: gob_roundtrip_def unary_gob_def Let_def)
qed

definition demo_deps :: "memory_store deps" where
  "demo_deps = memory_deps unary_gob"

definition demo_env :: "int \<Rightarrow> env" where
  "demo_env t = \<lparr>now = t * 1000000000, now_deadline = t * 1000000000, now_armed = t * 1000000000, Int63n = (\<lambda>n. 0)\<rparr>"

definition demo_members :: "string set" where
  "demo_members = {''a'', ''b'', ''c''}"

definition demo_node :: "string \<Rightarrow> string list \<Rightarrow> memory_store raft_node" where
  "demo_node n ps = projr (boot demo_deps
     (DefaultConfig n (map (\<lambda>p. \<lparr>pc_ID = p, pc_Address = p\<rparr>) ps)) NewMemoryStore None (demo_env 0))"

definition demo_init :: "memory_store cluster" where
  "demo_init = \<lparr>c_nodes = (\<lambda>n. if n = ''a'' then demo_node ''a'' [''b'', ''c'']
       else if n = ''b'' then demo_node ''b'' [''a'', ''c'']
       else demo_node ''c'' [''a'', ''b'']),
     c_calls = [], c_waiting = [], c_replies = [], c_next = 0, c_waiters = [], c_acked = []\<rparr>"

definition demo_vote :: "u64 \<Rightarrow> reply" where
  "demo_vote t = VoteReply \<lparr>rvr_term = t, rvr_vote_granted = True\<rparr>"

definition demo_ack :: reply where
  "demo_ack = AppendReply \<lparr>aer_term = 1, aer_success = True\<rparr>"

definition demo_command :: bytes where
  "demo_command = 0 # 1 # 0 # string_to_bytes ''kv''"

definition demo_events :: "event list" where
  "demo_events =
    [ElectionTimer ''a'' Follower (demo_env 1) (demo_env 1),
     Deliver 0 (demo_env 1), Reply 0 (demo_vote 0) (demo_env 1),
     Deliver 2 (demo_env 1), Reply 2 (demo_vote 1) (demo_env 1),
     Deliver 4 (demo_env 1), Deliver 5 (demo_env 1), Reply 4 demo_ack (demo_env 1),
     Propose ''a'' demo_command,
     Deliver 6 (demo_env 1), Deliver 7 (demo_env 1), Reply 7 demo_ack (demo_env 1),
     ProposeReturn ''a'' 0 5,
     ElectionTimer ''b'' Follower (demo_env 2) (demo_env 2),
     Deliver 9 (demo_env 2), Reply 9 (demo_vote 1) (demo_env 2),
     Deliver 11 (demo_env 2), Reply 11 (demo_vote 2) (demo_env 2)]"

text \<open>The cluster after the first \<open>k\<close> events.\<close>

definition demo_at :: "nat \<Rightarrow> memory_store cluster" where
  "demo_at k = (case run demo_deps demo_members (take k demo_events) demo_init of Some c \<Rightarrow> c | None \<Rightarrow> demo_init)"

section \<open>Its states are reachable\<close>

definition small :: "string set \<Rightarrow> 's cluster \<Rightarrow> bool" where
  "small N c \<longleftrightarrow> (\<forall>n\<in>N. CurrentTerm (c_nodes c n) < 10 \<and> length (Log (c_nodes c n)) < 10)"

lemma small_no_wrap: "small N c \<Longrightarrow> no_wrap N c"
  unfolding small_def no_wrap_def
proof (intro ballI)
  fix n
  assume "\<forall>n\<in>N. CurrentTerm (c_nodes c n) < 10 \<and> length (Log (c_nodes c n)) < 10" "n \<in> N"
  then have "CurrentTerm (c_nodes c n) < 10" "length (Log (c_nodes c n)) < 10" by auto
  moreover have "(10 :: u64) < - 1" by simp
  ultimately show "CurrentTerm (c_nodes c n) < - 1 \<and> length (Log (c_nodes c n)) < 2 ^ 64 - 1"
    by (auto intro: less_trans)
qed

fun run_ok :: "'s deps \<Rightarrow> string set \<Rightarrow> event list \<Rightarrow> 's cluster \<Rightarrow> bool" where
  "run_ok D N [] c = small N c"
| "run_ok D N (ev # evs) c =
     (small N c \<and> (case exec D N ev c of None \<Rightarrow> False | Some c' \<Rightarrow> run_ok D N evs c'))"

lemma run_ok_take: "run_ok D N evs c \<Longrightarrow> run_ok D N (take k evs) c"
  by (induction evs arbitrary: c k) (auto split: option.splits simp: take_Cons')

lemma run_reach:
  "cluster_reach D fresh (\<lambda>_. True) N c \<Longrightarrow> run_ok D N evs c \<Longrightarrow>
   \<exists>c'. run D N evs c = Some c' \<and> cluster_reach D fresh (\<lambda>_. True) N c'"
proof (induction evs arbitrary: c)
  case (Cons ev evs)
  from Cons.prems(2) obtain c' where x: "exec D N ev c = Some c'" and r: "run_ok D N evs c'"
    by (auto split: option.splits)
  have "no_wrap N c'" using r by (cases evs) (simp_all add: small_no_wrap)
  moreover have "event_ok (\<lambda>_. True) ev" by (cases ev) simp_all
  ultimately have "cluster_reach D fresh (\<lambda>_. True) N c'"
    using Cons.prems(1) x by (blast intro: cluster_reach.step)
  from Cons.IH [OF this r] x show ?case by simp
qed simp

lemma demo_run_ok: "run_ok demo_deps demo_members demo_events demo_init"
  by code_simp

abbreviation demo_fresh :: "memory_store \<Rightarrow> bool" where
  "demo_fresh \<equiv> \<lambda>st. st = NewMemoryStore"

abbreviation demo_fits :: "bytes \<Rightarrow> bool" where
  "demo_fits \<equiv> \<lambda>_. True"

lemma demo_backend_ok: "backend_ok demo_deps demo_fresh demo_fits"
  unfolding demo_deps_def by (rule memory_backend_ok)

lemma demo_members_ok: "members_ok demo_fits demo_members"
  by (simp add: members_ok_def demo_members_def)

lemma demo_boot: "\<exists>rn. boot demo_deps cfg NewMemoryStore m e = Inr (rn :: memory_store raft_node)"
  unfolding demo_deps_def by (rule memory_engine.boot_total [OF ms_ok_New])

lemma demo_node_boot:
  "boot demo_deps (DefaultConfig n (map (\<lambda>p. \<lparr>pc_ID = p, pc_Address = p\<rparr>) ps)) NewMemoryStore None (demo_env 0) =
   Inr (demo_node n ps)"
proof -
  from demo_boot obtain rn where rn: "boot demo_deps (DefaultConfig n (map (\<lambda>p. \<lparr>pc_ID = p, pc_Address = p\<rparr>) ps))
      NewMemoryStore None (demo_env 0) = Inr rn" by blast
  show ?thesis unfolding demo_node_def rn by simp
qed

lemma demo_init_reach: "cluster_reach demo_deps demo_fresh demo_fits demo_members demo_init"
proof (rule cluster_reach.init)
  have "\<exists>cfg st m e. demo_fresh st \<and> NodeID cfg = n \<and> pc_ID ` set (Peers cfg) = demo_members - {n} \<and>
      boot demo_deps cfg st m e = Inr (c_nodes demo_init n)" if n: "n \<in> demo_members" for n
  proof -
    have "\<exists>ps. c_nodes demo_init n = demo_node n ps \<and> set ps = demo_members - {n}"
      using n [unfolded demo_members_def]
    proof (elim insertE)
      assume "n = ''a''"
      then show ?thesis by (intro exI [of _ "[''b'', ''c'']"]) (auto simp: demo_init_def demo_members_def)
    next
      assume "n = ''b''"
      then show ?thesis by (intro exI [of _ "[''a'', ''c'']"]) (auto simp: demo_init_def demo_members_def)
    next
      assume "n = ''c''"
      then show ?thesis by (intro exI [of _ "[''a'', ''b'']"]) (auto simp: demo_init_def demo_members_def)
    qed simp
    then obtain ps where ps: "c_nodes demo_init n = demo_node n ps" "set ps = demo_members - {n}" by blast
    then show ?thesis
      using demo_node_boot [of n ps]
      by (intro exI [of _ "DefaultConfig n (map (\<lambda>p. \<lparr>pc_ID = p, pc_Address = p\<rparr>) ps)"] exI [of _ NewMemoryStore]
          exI [of _ None] exI [of _ "demo_env 0"]) (simp add: DefaultConfig_def image_image)
  qed
  then show "cluster_init demo_deps demo_fresh demo_members demo_init"
    by (simp add: cluster_init_def demo_init_def)
  show "no_wrap demo_members demo_init" using demo_run_ok by (simp add: demo_events_def small_no_wrap)
qed

lemma demo_reach: "cluster_reach demo_deps demo_fresh demo_fits demo_members (demo_at k)"
  using run_reach [OF demo_init_reach run_ok_take [OF demo_run_ok, of k]] by (auto simp: demo_at_def)

lemma run_snoc:
  "run D N (evs @ [ev]) c = (case run D N evs c of None \<Rightarrow> None | Some c' \<Rightarrow> exec D N ev c')"
  by (induction evs arbitrary: c) (auto split: option.splits)

lemma demo_step:
  assumes "k < 18"
  shows "exec demo_deps demo_members (demo_events ! k) (demo_at k) = Some (demo_at (Suc k))"
proof -
  have t: "take (Suc k) demo_events = take k demo_events @ [demo_events ! k]"
    using assms by (intro take_Suc_conv_app_nth) (simp add: demo_events_def)
  have "\<exists>c'. run demo_deps demo_members (take j demo_events) demo_init = Some c'" for j
    using run_reach [OF demo_init_reach run_ok_take [OF demo_run_ok, of j]] by blast
  then obtain c1 c2 where "run demo_deps demo_members (take k demo_events) demo_init = Some c1"
    "run demo_deps demo_members (take (Suc k) demo_events) demo_init = Some c2" by meson
  then show ?thesis unfolding demo_at_def t by (simp add: run_snoc)
qed

lemmas demo_setting = demo_backend_ok demo_members_ok demo_reach

section \<open>What they look like\<close>

definition demo_view :: "memory_store cluster \<Rightarrow> (u64 \<times> bytes) list \<times>
    (node_role \<times> u64 \<times> u64 \<times> u64 \<times> u64 list) list" where
  "demo_view c = (c_acked c, map (\<lambda>n. let rn = c_nodes c n in
     (rn_role rn, CurrentTerm rn, commitIndex rn, lastApplied rn, map le_term (Log rn))) [''a'', ''b'', ''c''])"

lemma demo_final:
  "demo_view (demo_at 18) = ([(2, demo_command)],
     [(Leader, 1, 2, 2, [0, 1, 1]), (Leader, 2, 1, 1, [0, 1, 1, 2]), (Follower, 2, 1, 1, [0, 1, 1])])"
  by code_simp

lemmas demo_facts = demo_final [unfolded demo_view_def Let_def, simplified]

lemma demo_entries:
  "length (Log (c_nodes (demo_at 18) ''c'')) = 3" "length (Log (c_nodes (demo_at 18) ''b'')) = 4"
  "le_term (Log (c_nodes (demo_at 18) ''c'') ! 2) = 1" "le_term (Log (c_nodes (demo_at 18) ''b'') ! 2) = 1"
proof -
  have c: "map le_term (Log (c_nodes (demo_at 18) ''c'')) = [0, 1, 1]"
    and b: "map le_term (Log (c_nodes (demo_at 18) ''b'')) = [0, 1, 1, 2]" by (simp_all add: demo_facts)
  from arg_cong [OF c, where f = length] arg_cong [OF b, where f = length]
  show len: "length (Log (c_nodes (demo_at 18) ''c'')) = 3" "length (Log (c_nodes (demo_at 18) ''b'')) = 4" by simp_all
  from arg_cong [OF c, where f = "\<lambda>xs. xs ! 2"] arg_cong [OF b, where f = "\<lambda>xs. xs ! 2"] len
  show "le_term (Log (c_nodes (demo_at 18) ''c'') ! 2) = 1" "le_term (Log (c_nodes (demo_at 18) ''b'') ! 2) = 1"
    by simp_all
qed

lemma demo_leading:
  "demo_view (demo_at 8) = ([], [(Leader, 1, 1, 1, [0, 1]), (Follower, 1, 0, 0, [0, 1]), (Follower, 1, 0, 0, [0, 1])]) \<and>
   demo_view (demo_at 9) = ([], [(Leader, 1, 1, 1, [0, 1, 1]), (Follower, 1, 0, 0, [0, 1]), (Follower, 1, 0, 0, [0, 1])])"
  by code_simp

lemmas demo_leading_facts = demo_leading [unfolded demo_view_def Let_def, simplified]

lemma demo_member [simp]: "''a'' \<in> demo_members" "''b'' \<in> demo_members" "''c'' \<in> demo_members"
  by (simp_all add: demo_members_def)

text \<open>The proposal at node \<open>a\<close>, and a vote request of node \<open>a\<close> that has been answered.\<close>

lemma demo_propose: "exec demo_deps demo_members (Propose ''a'' demo_command) (demo_at 8) = Some (demo_at 9)"
  using demo_step [of 8] by (simp add: demo_events_def)

lemma demo_vote_call:
  "\<exists>p k req. map_of (c_calls (demo_at 4)) 2 = Some (''a'', p, VoteCall k req) \<and>
     (2, demo_vote 1) \<in> set (c_replies (demo_at 4)) \<and> 2 \<in> set (c_waiting (demo_at 4))"
proof -
  have "(case map_of (c_calls (demo_at 4)) 2 of Some (n, p, VoteCall k req) \<Rightarrow> n = ''a'' | _ \<Rightarrow> False) \<and>
     (2, demo_vote 1) \<in> set (c_replies (demo_at 4)) \<and> 2 \<in> set (c_waiting (demo_at 4))"
    by code_simp
  then show ?thesis
    by (auto split: option.splits) (auto split: rpc_call.split_asm)
qed

end
