(* ===== verification/Election_Properties.thy ===== *)
theory Election_Properties
  imports Demo_Cluster
begin

text \<open>
  Elections of a single node: when a node may disturb a leader, when its timer starts an
  election, when it wins one, and what its vote is worth after a crash.
\<close>

section \<open>What hearing from a leader changes\<close>

lemma append_loop_shape: "\<exists>l st. snd (append_loop D req i es rn) = (set_Log l rn)\<lparr>rn_storage := st\<rparr>"
proof (induction D req i es rn rule: append_loop.induct)
  case (1 D req i rn)
  show ?case by (rule exI [of _ "Log rn"], rule exI [of _ "rn_storage rn"]) simp
next
  case (2 D req i e es rn)
  have same: "\<exists>l st. rn\<lparr>rn_storage := s\<rparr> = (set_Log l rn)\<lparr>rn_storage := st\<rparr>" for s
    by (rule exI [of _ "Log rn"], rule exI [of _ s]) simp
  from 2 same show ?case
    by (auto simp: Let_def split: sum.split prod.split option.split)
qed

text \<open>The fields that only hearing from a leader writes.\<close>

definition contact :: "'s raft_node \<Rightarrow> int \<times> config \<times> int \<times> timer option" where
  "contact rn = (rn_lastLeaderContact rn, rn_config rn, rn_electionDeadline rn, rn_electionTimer rn)"

lemma contact_apply_one: "contact (apply_one D rn) = contact rn"
  by (simp add: contact_def apply_one_def Let_def split: sum.split option.split)

lemma contact_apply: "contact (applyCommittedEntriesLocked D rn) = contact rn"
proof (induction rn rule: apply_induct [where D = D])
  case (1 rn)
  then show ?case by (subst applyCommittedEntriesLocked.simps) (simp add: contact_apply_one)
qed

lemma contact_append_loop: "contact (snd (append_loop D req i es rn)) = contact rn"
  using append_loop_shape [of D req i es rn] by (auto simp: contact_def)

lemma contact_follower_commit: "contact (follower_commit D req rn) = contact rn"
proof -
  have "contact (set_commitIndex i rn) = contact rn" for i by (simp add: contact_def)
  then show ?thesis by (simp add: follower_commit_def Let_def contact_apply)
qed

lemma checkTerm_timers [frame]:
  "rn_electionTimer (snd (checkTerm D t rn)) = rn_electionTimer rn"
  "rn_electionDeadline (snd (checkTerm D t rn)) = rn_electionDeadline rn"
  by (simp_all add: checkTerm_def abort_pending_def Let_def)

lemma resetElectionTimer_timers:
  "rn_electionTimer (resetElectionTimer e rn) =
     map_option (rearm (now_armed e) (randomizedElectionTimeout e (rn_config rn))) (rn_electionTimer rn)"
  "rn_electionDeadline (resetElectionTimer e rn) =
     (if rn_electionTimer rn = None then rn_electionDeadline rn
      else now_deadline e + randomizedElectionTimeout e (rn_config rn))"
  by (auto simp: resetElectionTimer_def Let_def split: option.split)

lemma hearing_contact:
  assumes h: "HandleAppendEntries D e req rn = (resp, rn')" and t: "CurrentTerm rn \<le> ae_term req"
  shows "rn_lastLeaderContact rn' = now e" "rn_config rn' = rn_config rn"
    "rn_electionTimer rn \<noteq> None \<Longrightarrow>
       rn_electionDeadline rn' = now_deadline e + randomizedElectionTimeout e (rn_config rn)"
proof -
  let ?c = "snd (checkTerm D (ae_term req) rn)"
  have nt: "\<not> ae_term req < CurrentTerm rn" using t by simp
  let ?r = "if rn_role ?c = Candidate then Follower else rn_role ?c"
  define rn1 where rn1: "rn1 = resetElectionTimer e
      (?c\<lparr>rn_role := ?r, rn_leaderID := ae_leader_id req, rn_lastLeaderContact := now e\<rparr>)"
  have cc: "(if CurrentTerm rn < ae_term req then ?c else rn) = ?c" by (simp add: checkTerm_id)
  have tt: "CurrentTerm ?c = ae_term req" using t by (auto simp: effects)
  have eq: "(if rn_role ?c = Candidate \<and> ae_term req = CurrentTerm ?c then ?c\<lparr>rn_role := Follower\<rparr> else ?c) =
      ?c\<lparr>rn_role := ?r\<rparr>"
    using tt by simp
  obtain ok rn2 where l: "append_loop D req 0 (ae_entries req) rn1 = (ok, rn2)" by fastforce
  have c2: "contact rn2 = contact rn1" using contact_append_loop [of D req 0 "ae_entries req" rn1] l by simp
  have "rn' = rn1 \<or> rn' = rn2 \<or> rn' = follower_commit D req rn2"
    using h nt l unfolding HandleAppendEntries_def cc Let_def eq
    by (cases ok) (auto simp: rn1 split: if_splits)
  then have c: "contact rn' = contact rn1" using c2 by (auto simp: contact_follower_commit)
  have "rn_lastLeaderContact rn1 = now e" "rn_config rn1 = rn_config rn"
    "rn_electionTimer rn \<noteq> None \<Longrightarrow> rn_electionDeadline rn1 = now_deadline e + randomizedElectionTimeout e (rn_config rn)"
    by (auto simp: rn1 frame resetElectionTimer_timers)
  with c show "rn_lastLeaderContact rn' = now e" "rn_config rn' = rn_config rn"
    "rn_electionTimer rn \<noteq> None \<Longrightarrow>
       rn_electionDeadline rn' = now_deadline e + randomizedElectionTimeout e (rn_config rn)"
    by (simp_all add: contact_def)
qed

section \<open>Timers\<close>

text \<open>A running timer has not put a fire into its channel.\<close>

definition timer_ok :: "timer \<Rightarrow> bool" where
  "timer_ok tm \<longleftrightarrow> tm_due tm \<noteq> None \<longrightarrow> \<not> tm_fired tm"

lemma rearm_timer: "timer_ok tm \<Longrightarrow> rearm at d tm = \<lparr>tm_due = Some (at + d), tm_fired = False\<rparr>"
  by (cases tm) (simp add: rearm_def timer_Stop_def timer_Reset_def timer_Drain_def timer_ok_def)

lemma demo_timeouts: "env_ok (demo_env t)"
    "rn_electionTimer (demo_node n ps) \<noteq> None"
    "ElectionTimeoutMin (rn_config (demo_node n ps)) = 150000000"
    "ElectionTimeoutMax (rn_config (demo_node n ps)) = 300000000"
    "CurrentTerm (demo_node n ps) = 0" "rn_role (demo_node n ps) = Follower"
    "rn_peers (demo_node n ps) = peer_map (map (\<lambda>p. \<lparr>pc_ID = p, pc_Address = p\<rparr>) ps)"
  by (simp_all add: env_ok_def demo_env_def demo_node_def boot_def NewRaftNode_def Start_def Let_def SetMetrics_def
      DefaultConfig_def millisecond_def demo_deps_def memory_deps_def memory_store_defs NewMemoryStore_def)

definition demo_heartbeat :: append_entries_request where
  "demo_heartbeat = \<lparr>ae_term = 1, ae_leader_id = ''a'', ae_prev_log_index = 0, ae_prev_log_term = 0,
     ae_entries = [], ae_leader_commit = 0\<rparr>"

definition demo_prevote :: request_vote_request where
  "demo_prevote = \<lparr>rv_term = 9, rv_candidate_id = ''c'', rv_last_log_index = 9, rv_last_log_term = 9, rv_pre_vote = True\<rparr>"

text \<open>
  C22: no disruption.  A node that has heard from a current leader refuses every pre-vote for the
  minimum election timeout, whatever term and log the candidate claims, and is not changed by it;
  so a node that was cut off cannot depose a leader the others still hear.
\<close>

theorem prevote_refused_near_leader:
  assumes h: "HandleAppendEntries D e req rn = (resp, rn')" and t: "CurrentTerm rn \<le> ae_term req"
    and p: "rv_pre_vote pv" and w: "now e \<le> now e'" "now e' < now e + ElectionTimeoutMin (rn_config rn)"
  shows "HandleRequestVote D e' pv rn' = (\<lparr>rvr_term = CurrentTerm rn', rvr_vote_granted = False\<rparr>, rn')"
proof -
  have "time_sub (now e') (now e) < ElectionTimeoutMin (rn_config rn)" using w by (simp add: time_sub_def)
  with hearing_contact(1,2) [OF h t] p show ?thesis
    by (simp add: HandleRequestVote_def handlePreVoteLocked_def Let_def)
qed

theorem prevote_refused_near_leader_witness:
  "fst (HandleRequestVote demo_deps (demo_env 1) demo_prevote
     (snd (HandleAppendEntries demo_deps (demo_env 1) demo_heartbeat (demo_node ''b'' [''a'', ''c''])))) =
   \<lparr>rvr_term = CurrentTerm (snd (HandleAppendEntries demo_deps (demo_env 1) demo_heartbeat (demo_node ''b'' [''a'', ''c'']))),
    rvr_vote_granted = False\<rparr>"
  by (subst prevote_refused_near_leader [OF prod.collapse [symmetric], of "demo_node ''b'' [''a'', ''c'']" demo_heartbeat
        demo_prevote "demo_env 1" "demo_env 1" demo_deps])
    (simp_all add: demo_timeouts demo_heartbeat_def demo_prevote_def)

text \<open>
  A stale fire is ignored.  A fire of the election timer that was queued before a message
  from the leader was handled, and is taken from the channel within the minimum timeout after
  it, changes nothing and sends nothing.
\<close>

theorem stale_timer_ignored:
  assumes h: "HandleAppendEntries D e req rn = (resp, rn')" and t: "CurrentTerm rn \<le> ae_term req"
    and tm: "rn_electionTimer rn \<noteq> None" and e: "env_ok e"
    and cfg: "ElectionTimeoutMin (rn_config rn) < ElectionTimeoutMax (rn_config rn)"
    and w: "now e' < now e + ElectionTimeoutMin (rn_config rn)" and r: "r \<noteq> Leader"
  shows "on_election_timer D r e' e'' rn' = (rn', [])"
proof -
  have "ElectionTimeoutMin (rn_config rn) \<le> randomizedElectionTimeout e (rn_config rn)"
    using randomizedElectionTimeout_bounds [OF e cfg] by simp
  moreover have "now e \<le> now_deadline e" using e by (simp add: env_ok_def)
  ultimately have "now e' < rn_electionDeadline rn'" using hearing_contact(3) [OF h t tm] w by simp
  with r show ?thesis by (simp add: on_election_timer_def startElection_def)
qed

theorem stale_timer_ignored_witness:
  "snd (on_election_timer demo_deps Follower (demo_env 1) (demo_env 1)
     (snd (HandleAppendEntries demo_deps (demo_env 1) demo_heartbeat (demo_node ''b'' [''a'', ''c''])))) = []"
  by (subst stale_timer_ignored [OF prod.collapse [symmetric], of "demo_node ''b'' [''a'', ''c'']" demo_heartbeat
        "demo_env 1" "demo_env 1" Follower])
    (simp_all add: demo_timeouts demo_heartbeat_def)

text \<open>
  A due timer starts an election.  Resetting the election timer leaves one pending fire, due
  after a timeout of the configured range and not before the deadline; when it comes and the
  node is not a leader, the node asks every peer for a pre-vote, in the next term and without
  changing its own.
\<close>

theorem due_timer_campaigns:
  assumes tm: "rn_electionTimer rn = Some tm" "timer_ok tm" and e: "env_ok e"
    and cfg: "ElectionTimeoutMin (rn_config rn) < ElectionTimeoutMax (rn_config rn)"
  shows "\<exists>due. rn_electionTimer (resetElectionTimer e rn) = Some \<lparr>tm_due = Some due, tm_fired = False\<rparr> \<and>
    ElectionTimeoutMin (rn_config rn) \<le> due - now_armed e \<and> due - now_armed e < ElectionTimeoutMax (rn_config rn) \<and>
    rn_electionDeadline (resetElectionTimer e rn) \<le> due \<and>
    (\<forall>e1 e2. due \<le> now e1 \<and> rn_role rn \<noteq> Leader \<and> rn_peers rn \<noteq> [] \<longrightarrow>
      (case startElection D e1 e2 (resetElectionTimer e rn) of (rn', cs) \<Rightarrow>
        map fst cs = map fst (rn_peers rn) \<and> rn_persistent rn' = rn_persistent rn \<and>
        (\<forall>(p, c) \<in> set cs. \<exists>k req. c = PreVoteCall k req \<and> rv_pre_vote req \<and>
           rv_term req = CurrentTerm rn + 1 \<and> rv_candidate_id req = node_id rn)))"
proof -
  let ?d = "randomizedElectionTimeout e (rn_config rn)"
  have b: "ElectionTimeoutMin (rn_config rn) \<le> ?d" "?d < ElectionTimeoutMax (rn_config rn)"
    using randomizedElectionTimeout_bounds [OF e cfg] by simp_all
  have d: "rn_electionDeadline (resetElectionTimer e rn) = now_deadline e + ?d"
    using tm(1) by (simp add: resetElectionTimer_timers)
  have "now_deadline e \<le> now_armed e" using e by (simp add: env_ok_def)
  then show ?thesis
    using b d tm by (intro exI [of _ "now_armed e + ?d"])
      (auto simp: resetElectionTimer_timers rearm_timer startElection_def Let_def frame comp_def)
qed

theorem due_timer_campaigns_witness:
  "\<exists>due. rn_electionTimer (resetElectionTimer (demo_env 3) (demo_node ''b'' [''a'', ''c''])) =
      Some \<lparr>tm_due = Some due, tm_fired = False\<rparr> \<and> 150000000 \<le> due - 3000000000"
proof -
  obtain tm where tm: "rn_electionTimer (demo_node ''b'' [''a'', ''c'']) = Some tm" "timer_ok tm"
    by (simp add: timer_ok_def demo_node_def boot_def NewRaftNode_def Start_def Let_def SetMetrics_def NewTimer_def
        demo_deps_def memory_deps_def memory_store_defs NewMemoryStore_def)
  have cfg: "ElectionTimeoutMin (rn_config (demo_node ''b'' [''a'', ''c''])) <
      ElectionTimeoutMax (rn_config (demo_node ''b'' [''a'', ''c'']))" by (simp add: demo_timeouts)
  from due_timer_campaigns [OF tm demo_timeouts(1) [of 3] cfg, where D = demo_deps] obtain due where
    "rn_electionTimer (resetElectionTimer (demo_env 3) (demo_node ''b'' [''a'', ''c''])) =
      Some \<lparr>tm_due = Some due, tm_fired = False\<rparr>"
    "ElectionTimeoutMin (rn_config (demo_node ''b'' [''a'', ''c''])) \<le> due - now_armed (demo_env 3)"
    by blast
  moreover have "now_armed (demo_env 3) = 3000000000" by (simp add: demo_env_def)
  ultimately show ?thesis by (simp add: demo_timeouts)
qed

section \<open>Votes that are not durable\<close>

definition demo_candidacy :: request_vote_request where
  "demo_candidacy = \<lparr>rv_term = 0, rv_candidate_id = ''a'', rv_last_log_index = 0, rv_last_log_term = 0, rv_pre_vote = False\<rparr>"

definition failing_backend :: "memory_store storage_backend" where
  "failing_backend = memory_backend\<lparr>SaveVotedFor := (\<lambda>v st. (Some (Err ''disk full''), st))\<rparr>"

definition failing_deps :: "memory_store deps" where
  "failing_deps = \<lparr>d_backend = failing_backend, d_gob = unary_gob\<rparr>"

text \<open>
  C25: a failed save of a vote is ignored.  When the store refuses the write, the vote is granted
  all the same; after a restart the node has no memory of it and grants a vote of the same term
  to any other candidate whose log is as good.
\<close>

theorem vote_lost_when_save_fails:
  assumes v: "\<not> rv_pre_vote req" "rv_term req = CurrentTerm rn" "VotedFor rn = ''''"
      "candidateLogUpToDateLocked D req rn"
    and fail: "SaveVotedFor (d_backend D) (rv_candidate_id req) (rn_storage rn) = (Some err, rn_storage rn)"
    and disk: "LoadTerm (d_backend D) (rn_storage rn) = Inr (CurrentTerm rn)"
      "LoadVotedFor (d_backend D) (rn_storage rn) = Inr ''''" "LoadAllEntries (d_backend D) (rn_storage rn) = Inr (Log rn)"
  shows "rvr_vote_granted (fst (HandleRequestVote D e req rn)) \<and>
    (\<exists>rn2. boot D cfg (rn_storage (snd (HandleRequestVote D e req rn))) m e1 = Inr rn2 \<and>
       rvr_vote_granted (fst (HandleRequestVote D e2 (req\<lparr>rv_candidate_id := other\<rparr>) rn2)))"
  using assms
  by (simp add: HandleRequestVote_def candidateLogUpToDateLocked_def Let_def frame boot_def NewRaftNode_def
      Start_def SetMetrics_def)

theorem vote_lost_when_save_fails_witness:
  "rvr_vote_granted (fst (HandleRequestVote failing_deps (demo_env 1) demo_candidacy (demo_node ''b'' [''a'', ''c'']))) \<and>
   (\<exists>rn2. boot failing_deps (DefaultConfig ''b'' []) (rn_storage (snd (HandleRequestVote failing_deps (demo_env 1)
        demo_candidacy (demo_node ''b'' [''a'', ''c''])))) None (demo_env 2) = Inr rn2 \<and>
     rvr_vote_granted (fst (HandleRequestVote failing_deps (demo_env 2) (demo_candidacy\<lparr>rv_candidate_id := ''c''\<rparr>) rn2)))"
  by (rule vote_lost_when_save_fails [where err = "Err ''disk full''"])
    (simp_all add: demo_candidacy_def failing_deps_def failing_backend_def candidateLogUpToDateLocked_def
      demo_node_def boot_def NewRaftNode_def Start_def Let_def SetMetrics_def DefaultConfig_def
      demo_deps_def memory_deps_def memory_store_defs NewMemoryStore_def)

end
