(* ===== verification/Replication_Properties.thy ===== *)
theory Replication_Properties
  imports Election_Properties
begin

text \<open>
  Replication on one node, over any backend that meets the storage contract: the commit rule
  against its specification, what an AppendEntries carries and what accepting one means, the
  application of committed entries, and the outcome of proposals.
\<close>

section \<open>The commit rule\<close>

text \<open>Index \<open>n\<close> is held by a majority, the leader itself included.\<close>

definition on_majority :: "'s raft_node \<Rightarrow> leader_state \<Rightarrow> nat \<Rightarrow> bool" where
  "on_majority rn ls n \<longleftrightarrow>
     length (rn_peers rn) + 1 < 2 * (1 + length (filter (\<lambda>(p, m). n \<le> unat m) (ls_MatchIndex ls)))"

text \<open>The entries the leader may commit: of its own term, on a majority, above the commit index.\<close>

definition committable :: "'s raft_node \<Rightarrow> leader_state \<Rightarrow> nat set" where
  "committable rn ls = {n. unat (commitIndex rn) < n \<and> n < length (Log rn) \<and>
     le_term (Log rn ! n) = CurrentTerm rn \<and> on_majority rn ls n}"

text \<open>The request for a peer that is to be sent the entries from position \<open>x\<close> on.\<close>

definition request_from :: "'s raft_node \<Rightarrow> nat \<Rightarrow> append_entries_request" where
  "request_from rn x = \<lparr>ae_term = CurrentTerm rn, ae_leader_id = node_id rn, ae_prev_log_index = of_nat (x - 1),
     ae_prev_log_term = (if x - 1 < length (Log rn) then le_term (Log rn ! (x - 1)) else 0),
     ae_entries = take 256 (drop x (Log rn)), ae_leader_commit = commitIndex rn\<rparr>"

definition next_of :: "leader_state \<Rightarrow> string \<Rightarrow> nat" where
  "next_of ls p = max 1 (unat (map_get 0 (ls_NextIndex ls) p))"

text \<open>
  The log holds an entry of the stated term at the position before the request's entries, and the
  request's entries after it.
\<close>

definition prev_held :: "'s raft_node \<Rightarrow> append_entries_request \<Rightarrow> bool" where
  "prev_held rn req \<longleftrightarrow> ae_prev_log_index req = 0 \<or>
     (unat (ae_prev_log_index req) < length (Log rn) \<and>
      le_term (Log rn ! unat (ae_prev_log_index req)) = ae_prev_log_term req)"

definition holds_entries :: "append_entries_request \<Rightarrow> log_entry list \<Rightarrow> bool" where
  "holds_entries req L \<longleftrightarrow> Suc (unat (ae_prev_log_index req)) + length (ae_entries req) \<le> length L \<and>
     (ae_prev_log_index req = 0 \<or> le_term (L ! unat (ae_prev_log_index req)) = ae_prev_log_term req) \<and>
     (\<forall>j < length (ae_entries req).
        le_term (L ! (Suc (unat (ae_prev_log_index req)) + j)) = le_term (ae_entries req ! j))"

text \<open>
  What accepting the entries \<open>es\<close> from position \<open>q\<close> on makes of a log: the entries on which the
  terms agree stay, and from the first on which they do not, or which the log does not have, the
  log is cut and the rest of \<open>es\<close> follows.
\<close>

definition merged :: "nat \<Rightarrow> log_entry list \<Rightarrow> log_entry list \<Rightarrow> log_entry list" where
  "merged q es L =
     (let k = length (takeWhile (\<lambda>(x, y). le_term x = le_term y) (zip (drop q L) es))
      in if k = length es then L else take (q + k) L @ drop k es)"

lemma merged_Nil: "merged q [] L = L"
  by (simp add: merged_def)

lemma merged_end: "length L = q \<Longrightarrow> merged q es L = L @ es"
  by (simp add: merged_def)

lemma merged_agree: "q < length L \<Longrightarrow> le_term (L ! q) = le_term e \<Longrightarrow> merged q (e # es) L = merged (Suc q) es L"
  by (simp add: merged_def Let_def Cons_nth_drop_Suc [symmetric])

lemma merged_conflict: "q < length L \<Longrightarrow> le_term (L ! q) \<noteq> le_term e \<Longrightarrow> merged q (e # es) L = take q L @ e # es"
  by (simp add: merged_def Let_def Cons_nth_drop_Suc [symmetric])

text \<open>The entry a new leader appends.\<close>

definition noop_of :: "'s raft_node \<Rightarrow> log_entry" where
  "noop_of rn = \<lparr>le_index = of_nat (length (Log rn)), le_term = CurrentTerm rn, le_command = []\<rparr>"

text \<open>The entry of a proposal.\<close>

definition entry_of :: "'s raft_node \<Rightarrow> bytes \<Rightarrow> log_entry" where
  "entry_of rn cmd = \<lparr>le_index = of_nat (length (Log rn)), le_term = CurrentTerm rn, le_command = cmd\<rparr>"

lemma sorted_le_last: "sorted xs \<Longrightarrow> x \<in> set xs \<Longrightarrow> x \<le> last xs"
  by (induction xs) auto

context engine
begin

lemma commit_fold:
  assumes "mirroring rn" and "\<forall>n\<in>set xs. unat n < length (Log rn)"
  shows "commitIndex (foldl (commit_at D ls ((length (rn_peers rn) + 1) div 2 + 1)) rn xs) =
    (let good = filter (\<lambda>n. le_term (Log rn ! unat n) = CurrentTerm rn \<and> on_majority rn ls (unat n)) xs
     in if good = [] then commitIndex rn else last good)"
  using assms
proof (induction xs rule: rev_induct)
  case (snoc x xs)
  let ?f = "commit_at D ls ((length (rn_peers rn) + 1) div 2 + 1)"
  have g: "GetEntry B x (rn_storage rn) = Inr (Log rn ! unat x)"
    using snoc.prems by (intro mirrors_GetEntry_in) simp_all
  have m: "(length (rn_peers rn) + 1) div 2 + 1 \<le> 1 + length (filter (\<lambda>(p, m). x \<le> m) (ls_MatchIndex ls)) \<longleftrightarrow>
      on_majority rn ls (unat x)"
    unfolding majority_threshold on_majority_def unat_le_u64 by (rule refl)
  have "commitIndex (?f (foldl ?f rn xs) x) =
      (if le_term (Log rn ! unat x) = CurrentTerm rn \<and> on_majority rn ls (unat x) then x
       else commitIndex (foldl ?f rn xs))"
    by (simp only: commit_at_def backend commit_fold_frame g m sum.case) (simp add: commit_fold_frame)
  moreover have "commitIndex (foldl ?f rn xs) = (let good = filter (\<lambda>n. le_term (Log rn ! unat n) = CurrentTerm rn \<and>
      on_majority rn ls (unat n)) xs in if good = [] then commitIndex rn else last good)"
    using snoc by simp
  ultimately show ?case by (simp add: Let_def)
qed simp

lemma index_range_props:
  assumes "b = of_nat (n - 1)" and "0 < n" and "n < 2 ^ 64" and "unat a < n"
  shows "map unat (index_range (a + 1) b) = [Suc (unat a) ..< n]"
proof -
  have n: "unat (of_nat (n - 1) :: u64) = n - 1" using assms(3) by (intro unat_of_nat_u64) simp
  have b: "Suc (unat b) = n" unfolding assms(1) n using assms(2) by simp
  have "unat a < 2 ^ 64 - 1" using assms(3,4) by linarith
  then have a: "unat (a + 1) = Suc (unat a)" by simp
  have "map unat (index_range (a + 1) b) = map (\<lambda>k. unat (of_nat k :: u64)) [Suc (unat a) ..< n]"
    unfolding index_range_def a b by simp
  also have "\<dots> = [Suc (unat a) ..< n]"
    using assms(3) by (intro map_idI) (simp add: unat_of_nat_u64)
  finally show ?thesis .
qed

lemma commit_rule:
  assumes m: "mirroring rn" and L: "rn_role rn = Leader" and ls: "rn_leader rn = Some ls"
    and c: "unat (commitIndex rn) < length (Log rn)"
  shows "unat (commitIndex (checkAndUpdateCommitIndexLocked D rn)) = Max (insert (unat (commitIndex rn)) (committable rn ls))"
proof -
  let ?c = "unat (commitIndex rn)"
  let ?xs = "index_range (commitIndex rn + 1) (fst (LastIndex B (rn_storage rn)))"
  let ?good = "\<lambda>k. le_term (Log rn ! k) = CurrentTerm rn \<and> on_majority rn ls k"
  note lo = log_okD [OF mirrors_log_ok [OF m]]
  have "fst (LastIndex B (rn_storage rn)) = of_nat (length (Log rn) - 1)"
    using m by (simp add: mirrors_def LastIndex_ok)
  from index_range_props [OF this lo(6) lo(5) c] have r: "map unat ?xs = [Suc ?c ..< length (Log rn)]" .
  then have "set (map unat ?xs) = {Suc ?c ..< length (Log rn)}" by simp
  then have "\<forall>n\<in>set ?xs. unat n < length (Log rn)" by auto
  note fold = commit_fold [OF m this, of ls]
  have u: "checkAndUpdateCommitIndexLocked D rn = applyCommittedEntriesLocked D
      (foldl (commit_at D ls ((length (rn_peers rn) + 1) div 2 + 1)) rn ?xs)"
    using L ls by (simp add: checkAndUpdateCommitIndexLocked_def Let_def)
  have v: "commitIndex (checkAndUpdateCommitIndexLocked D rn) =
      (let good = filter (\<lambda>n. ?good (unat n)) ?xs in if good = [] then commitIndex rn else last good)"
    unfolding u applyCommitted_frame by (rule fold)
  have g: "map unat (filter (\<lambda>n. ?good (unat n)) ?xs) = filter ?good [Suc ?c ..< length (Log rn)]"
    unfolding r [symmetric] by (simp add: filter_map comp_def)
  have S: "set (filter ?good [Suc ?c ..< length (Log rn)]) = committable rn ls"
    by (auto simp: committable_def)
  have fin: "finite (committable rn ls)" unfolding S [symmetric] by simp
  show ?thesis
  proof (cases "filter (\<lambda>n. ?good (unat n)) ?xs = []")
    case True
    with g S have "committable rn ls = {}" by simp
    with v True show ?thesis by simp
  next
    case False
    let ?l = "unat (last (filter (\<lambda>n. ?good (unat n)) ?xs))"
    have l: "?l = last (filter ?good [Suc ?c ..< length (Log rn)])"
      unfolding g [symmetric] using False by (rule last_map [symmetric])
    have ne: "filter ?good [Suc ?c ..< length (Log rn)] \<noteq> []" unfolding g [symmetric] map_is_Nil_conv by (rule False)
    have "sorted (filter ?good [Suc ?c ..< length (Log rn)])" by (simp add: sorted_wrt_filter)
    then have "x \<le> ?l" if "x \<in> committable rn ls" for x
      using that sorted_le_last unfolding l S [symmetric] by blast
    moreover have "?l \<in> committable rn ls" unfolding l S [symmetric] using ne by (rule last_in_set)
    moreover have "?c < ?l" using \<open>?l \<in> committable rn ls\<close> by (simp add: committable_def)
    ultimately have "Max (insert ?c (committable rn ls)) = ?l" using fin by (intro Max_eqI) auto
    with v False show ?thesis by (simp add: Let_def)
  qed
qed

section \<open>Sending\<close>

lemma send_request:
  assumes m: "mirroring rn" and L: "rn_role rn = Leader" and ls: "rn_leader rn = Some ls"
  shows "snd (sendAppendEntriesToPeerLocked D p rn) =
    [(p, AppendCall (request_from rn (next_of ls p)) (length (ae_entries (request_from rn (next_of ls p)))))]"
proof -
  let ?x0 = "map_get 0 (ls_NextIndex ls) p"
  define x where "x = (if ?x0 = 0 then 1 else ?x0)"
  have x: "unat x = next_of ls p" "0 < unat x"
    by (auto simp: x_def next_of_def unat_gt_0 max_def unat_eq_0)
       (metis One_nat_def Suc_leI unat_gt_0)
  have pu: "unat (x - 1) = next_of ls p - 1"
    using x by (simp add: unat_sub word_le_nat_alt)
  have "x - 1 = of_nat (unat (x - 1))" by simp
  then have px: "x - 1 = of_nat (next_of ls p - 1)" unfolding pu .
  have g: "(case GetEntry B (x - 1) (rn_storage rn) of Inl _ \<Rightarrow> 0 | Inr prev \<Rightarrow> le_term prev) =
      (if next_of ls p - 1 < length (Log rn) then le_term (Log rn ! (next_of ls p - 1)) else 0)"
  proof (cases "next_of ls p - 1 < length (Log rn)")
    case True
    with mirrors_GetEntry_in [OF m, of "x - 1"] pu show ?thesis by simp
  next
    case False
    then obtain err where "GetEntry B (x - 1) (rn_storage rn) = Inl err"
      using GetEntry_out [of "rn_storage rn" "x - 1"] m pu by (auto simp: mirrors_def)
    with False show ?thesis by simp
  qed
  have f: "fst (GetEntriesFrom B x (rn_storage rn)) = drop (next_of ls p) (Log rn)"
    using m x by (simp add: mirrors_def GetEntriesFrom_ok)
  show ?thesis
    using L ls by (simp add: sendAppendEntriesToPeerLocked_def Let_def x_def [symmetric] f request_from_def
        maxEntriesPerAppend_def g [unfolded px One_nat_def] px)
qed

section \<open>Accepting entries\<close>

lemma mirrors_truncate:
  assumes m: "mirroring rn" and i: "0 < unat x" "unat x < length (Log rn)"
  obtains st where "TruncateFrom B x (rn_storage rn) = (None, st)"
    and "mirroring ((set_Log (take (unat x) (Log rn)) rn)\<lparr>rn_storage := st\<rparr>)"
  using assms TruncateFrom_ok [of "rn_storage rn" x] by (auto simp: mirrors_def unat_gt_0 word_gt_0)

lemma append_loop_accepts:
  assumes p: "p = unat (ae_prev_log_index req)"
  shows "mirroring rn \<Longrightarrow> Suc (p + i) \<le> length (Log rn) \<Longrightarrow> numbered (Suc (p + i)) es \<Longrightarrow>
    Suc (p + i) + length es < 2 ^ 64 \<Longrightarrow> \<forall>e\<in>set es. fits (le_command e) \<Longrightarrow>
    \<exists>rn'. append_loop D req i es rn = (True, rn') \<and> mirroring rn' \<and> Log rn' = merged (Suc (p + i)) es (Log rn) \<and>
      take (Suc (p + i)) (Log rn') = take (Suc (p + i)) (Log rn) \<and>
      Suc (p + i) + length es \<le> length (Log rn') \<and>
      length (Log rn') \<le> max (length (Log rn)) (Suc (p + i) + length es) \<and>
      (\<forall>j < length es. le_term (Log rn' ! (Suc (p + i) + j)) = le_term (es ! j))"
proof (induction es arbitrary: i rn)
  case (Cons e es)
  let ?x = "ae_prev_log_index req + 1 + of_nat i"
  let ?q = "Suc (p + i)"
  have "?x = of_nat ?q" using p by simp
  then have q: "unat ?x = ?q" using Cons.prems(4) by (simp only: unat_of_nat_u64)
  have len: "length (Log rn) < 2 ^ 64" using log_okD(5) [OF mirrors_log_ok [OF Cons.prems(1)]] .
  show ?case
  proof (cases "?q < length (Log rn)")
    case False
    then have eq: "length (Log rn) = ?q" using Cons.prems(2) by simp
    then obtain err where g: "GetEntry B ?x (rn_storage rn) = Inl err"
      using GetEntry_out [of "rn_storage rn" ?x] Cons.prems(1) q by (auto simp: mirrors_def)
    obtain st where st: "AppendEntries B (e # es) (rn_storage rn) = (None, st)"
      "mirroring ((set_Log (Log rn @ e # es) rn)\<lparr>rn_storage := st\<rparr>)"
      using mirrors_append [OF Cons.prems(1), of "e # es"] Cons.prems(3-5) eq by auto
    then show ?thesis using g eq by (auto simp: nth_append merged_end)
  next
    case True
    then have g: "GetEntry B ?x (rn_storage rn) = Inr (Log rn ! ?q)"
      using mirrors_GetEntry_in [OF Cons.prems(1), of ?x] q by simp
    show ?thesis
    proof (cases "le_term (Log rn ! ?q) = le_term e")
      case True
      have "numbered (Suc (p + Suc i)) es" using numbered_drop [OF Cons.prems(3), of 1] by simp
      from Cons.IH [OF Cons.prems(1) _ this] Cons.prems(4,5) \<open>?q < length (Log rn)\<close>
      obtain rn' where r: "append_loop D req (Suc i) es rn = (True, rn')" "mirroring rn'"
        "take (Suc ?q) (Log rn') = take (Suc ?q) (Log rn)" "Suc ?q + length es \<le> length (Log rn')"
        "length (Log rn') \<le> max (length (Log rn)) (Suc ?q + length es)"
        "\<forall>j < length es. le_term (Log rn' ! (Suc ?q + j)) = le_term (es ! j)"
        "Log rn' = merged (Suc ?q) es (Log rn)" by fastforce
      have mg: "Log rn' = merged ?q (e # es) (Log rn)"
        unfolding r(7) by (rule merged_agree [OF \<open>?q < length (Log rn)\<close> True, symmetric])
      have "Log rn' ! ?q = Log rn ! ?q" using take_Suc_eq_nth [OF r(3)] r(4) \<open>?q < length (Log rn)\<close> by simp
      then have "le_term (Log rn' ! (?q + j)) = le_term ((e # es) ! j)" if "j < length (e # es)" for j
        using that r(6) True by (cases j) auto
      note terms = this
      have "take ?q (Log rn') = take ?q (Log rn)" using r(3) take_mono_eq by (metis lessI less_imp_le)
      with terms mg show ?thesis using r(1,2,4,5) g True by auto
    next
      case False
      obtain st where st: "TruncateFrom B ?x (rn_storage rn) = (None, st)"
        "mirroring ((set_Log (take ?q (Log rn)) rn)\<lparr>rn_storage := st\<rparr>)"
        using mirrors_truncate [OF Cons.prems(1), of ?x] q \<open>?q < length (Log rn)\<close> by auto
      have l: "length (take ?q (Log rn)) = ?q" using \<open>?q < length (Log rn)\<close> by simp
      obtain st' where st': "AppendEntries B (e # es) st = (None, st')"
        "mirroring ((set_Log (take ?q (Log rn) @ e # es) rn)\<lparr>rn_storage := st'\<rparr>)"
        using mirrors_append [OF st(2), of "e # es"] Cons.prems(3-5) l by auto
      have "?x < of_nat (length (Log rn))"
        using q len \<open>?q < length (Log rn)\<close> by (simp only: unat_less_u64 unat_of_nat_u64)
      then show ?thesis using g st st' False q l \<open>?q < length (Log rn)\<close> by (auto simp: nth_append merged_conflict)
    qed
  qed
qed (simp add: merged_Nil)

lemma prev_matches_iff:
  assumes "mirroring rn"
  shows "prev_matches D req rn \<longleftrightarrow> prev_held rn req"
proof (cases "unat (ae_prev_log_index req) < length (Log rn)")
  case True
  with mirrors_GetEntry_in [OF assms True] show ?thesis by (auto simp: prev_matches_def prev_held_def word_gt_0)
next
  case False
  then obtain err where "GetEntry B (ae_prev_log_index req) (rn_storage rn) = Inl err"
    using GetEntry_out [of "rn_storage rn" "ae_prev_log_index req"] assms by (auto simp: mirrors_def)
  with False show ?thesis by (auto simp: prev_matches_def prev_held_def word_gt_0)
qed

lemma append_loop_term:
  "CurrentTerm (snd (append_loop D req i es rn)) = CurrentTerm rn"
  by (induction D req i es rn rule: append_loop.induct) (auto simp: Let_def split: sum.split option.split prod.split)

lemma loop_holds_entries:
  assumes m: "mirroring rn" and ph: "prev_held rn req" and n: "numbered (Suc (unat (ae_prev_log_index req))) (ae_entries req)"
    and len: "Suc (unat (ae_prev_log_index req)) + length (ae_entries req) < 2 ^ 64"
    and f: "\<forall>e\<in>set (ae_entries req). fits (le_command e)"
  shows "\<exists>rn2. append_loop D req 0 (ae_entries req) rn = (True, rn2) \<and> mirroring rn2 \<and> holds_entries req (Log rn2) \<and>
    Log rn2 = merged (Suc (unat (ae_prev_log_index req))) (ae_entries req) (Log rn) \<and>
    length (Log rn2) \<le> max (length (Log rn)) (Suc (unat (ae_prev_log_index req)) + length (ae_entries req))"
proof -
  let ?p = "unat (ae_prev_log_index req)"
  have p: "?p < length (Log rn)" using ph log_okD(6) [OF mirrors_log_ok [OF m]] by (auto simp: prev_held_def)
  then have "Suc (?p + 0) \<le> length (Log rn)" by simp
  from append_loop_accepts [OF refl m this, of "ae_entries req"] n len f
  obtain rn2 where r: "append_loop D req 0 (ae_entries req) rn = (True, rn2)" "mirroring rn2"
    "take (Suc ?p) (Log rn2) = take (Suc ?p) (Log rn)" "Suc ?p + length (ae_entries req) \<le> length (Log rn2)"
    "length (Log rn2) \<le> max (length (Log rn)) (Suc ?p + length (ae_entries req))"
    "\<forall>j < length (ae_entries req). le_term (Log rn2 ! (Suc ?p + j)) = le_term (ae_entries req ! j)"
    "Log rn2 = merged (Suc ?p) (ae_entries req) (Log rn)"
    by auto
  have "Log rn2 ! ?p = Log rn ! ?p" using take_Suc_eq_nth [OF r(3)] r(4) p by simp
  with r ph show ?thesis by (auto simp: holds_entries_def prev_held_def)
qed

lemma accept_entries:
  assumes m: "mirroring rn" and n: "numbered (Suc (unat (ae_prev_log_index req))) (ae_entries req)"
    and len: "Suc (unat (ae_prev_log_index req)) + length (ae_entries req) < 2 ^ 64"
    and f: "\<forall>e\<in>set (ae_entries req). fits (le_command e)"
    and h: "HandleAppendEntries D e req rn = (resp, rn')"
  shows "aer_success resp \<longleftrightarrow> CurrentTerm rn \<le> ae_term req \<and> prev_held rn req"
    and "if aer_success resp then mirroring rn' \<and> holds_entries req (Log rn') \<and>
      Log rn' = merged (Suc (unat (ae_prev_log_index req))) (ae_entries req) (Log rn) else Log rn' = Log rn"
    and "CurrentTerm rn \<le> ae_term req \<Longrightarrow> mirroring rn' \<and> CurrentTerm rn' = ae_term req \<and> aer_term resp = ae_term req"
    and "length (Log rn') \<le> max (length (Log rn)) (Suc (unat (ae_prev_log_index req)) + length (ae_entries req))"
proof -
  let ?c = "snd (checkTerm D (ae_term req) rn)"
  let ?r = "if rn_role ?c = Candidate then Follower else rn_role ?c"
  let ?rn1 = "resetElectionTimer e (?c\<lparr>rn_role := ?r, rn_leaderID := ae_leader_id req, rn_lastLeaderContact := now e\<rparr>)"
  let ?p = "unat (ae_prev_log_index req)"
  have m1: "mirroring ?rn1" using checkTerm_storage [OF m, of "ae_term req"] by (simp add: mirrors_def frame)
  have l1: "Log ?rn1 = Log rn" by (simp add: frame)
  have pm: "prev_matches D req ?rn1 \<longleftrightarrow> prev_held rn req"
    using prev_matches_iff [OF m1, of req] l1 by (simp add: prev_held_def)
  have cc: "(if CurrentTerm rn < ae_term req then ?c else rn) = ?c" by (simp add: checkTerm_id)
  have "prev_held ?rn1 req \<longleftrightarrow> prev_held rn req" by (simp add: prev_held_def l1)
  note loop = loop_holds_entries [OF m1 _ n len f, unfolded this l1]
  have commit: "Log (follower_commit D req x) = Log x" "mirroring x \<Longrightarrow> mirroring (follower_commit D req x)"
      "CurrentTerm (follower_commit D req x) = CurrentTerm x" for x
    by (simp_all add: follower_commit_def Let_def frame mirrors_def)
  have t1: "CurrentTerm ?rn1 = CurrentTerm ?c" by (simp add: frame)
  have "(aer_success resp \<longleftrightarrow> CurrentTerm rn \<le> ae_term req \<and> prev_held rn req) \<and>
      (if aer_success resp then mirroring rn' \<and> holds_entries req (Log rn') \<and>
      Log rn' = merged (Suc (unat (ae_prev_log_index req))) (ae_entries req) (Log rn) else Log rn' = Log rn) \<and>
      (CurrentTerm rn \<le> ae_term req \<longrightarrow> mirroring rn' \<and> CurrentTerm rn' = ae_term req \<and> aer_term resp = ae_term req) \<and>
      length (Log rn') \<le> max (length (Log rn)) (Suc ?p + length (ae_entries req))"
  proof (cases "ae_term req < CurrentTerm rn")
    case True
    with h show ?thesis by (auto simp: HandleAppendEntries_def)
  next
    case False
    have tt: "CurrentTerm ?c = ae_term req" using False by (auto simp: effects)
    have eq: "(if rn_role ?c = Candidate \<and> ae_term req = CurrentTerm ?c then ?c\<lparr>rn_role := Follower\<rparr> else ?c) =
        ?c\<lparr>rn_role := ?r\<rparr>"
      using tt by simp
    have "(resp, rn') = (if \<not> prev_held rn req
        then (\<lparr>aer_term = CurrentTerm ?rn1, aer_success = False\<rparr>, ?rn1)
        else case append_loop D req 0 (ae_entries req) ?rn1 of
          (False, rn) \<Rightarrow> (\<lparr>aer_term = CurrentTerm rn, aer_success = False\<rparr>, rn)
        | (True, rn) \<Rightarrow> (\<lparr>aer_term = CurrentTerm (follower_commit D req rn), aer_success = True\<rparr>, follower_commit D req rn))"
      using h False pm unfolding HandleAppendEntries_def cc Let_def eq by simp
    moreover have "CurrentTerm (snd (append_loop D req 0 (ae_entries req) ?rn1)) = ae_term req"
      unfolding append_loop_term t1 by (rule tt)
    ultimately show ?thesis using loop commit l1 m1 t1 tt False by (auto split: if_splits)
  qed
  then show "aer_success resp \<longleftrightarrow> CurrentTerm rn \<le> ae_term req \<and> prev_held rn req"
    and "if aer_success resp then mirroring rn' \<and> holds_entries req (Log rn') \<and>
      Log rn' = merged (Suc (unat (ae_prev_log_index req))) (ae_entries req) (Log rn) else Log rn' = Log rn"
    and "CurrentTerm rn \<le> ae_term req \<Longrightarrow> mirroring rn' \<and> CurrentTerm rn' = ae_term req \<and> aer_term resp = ae_term req"
    and "length (Log rn') \<le> max (length (Log rn)) (Suc (unat (ae_prev_log_index req)) + length (ae_entries req))"
    by blast+
qed

section \<open>Broadcasts\<close>

lemma send_state:
  assumes "rn_role rn = Leader" and "rn_leader rn = Some ls"
  obtains ls' mt where "fst (sendAppendEntriesToPeerLocked D p rn) = rn\<lparr>rn_leader := Some ls', rn_metrics := mt\<rparr>"
    and "\<And>q. next_of ls' q = next_of ls q" and "ls_MatchIndex ls' = ls_MatchIndex ls"
proof -
  let ?ls = "if map_get 0 (ls_NextIndex ls) p = 0 then ls\<lparr>ls_NextIndex := AList.update p 1 (ls_NextIndex ls)\<rparr> else ls"
  have "fst (sendAppendEntriesToPeerLocked D p rn) = rn\<lparr>rn_leader := Some ?ls, rn_metrics := IncAppendEntriesTotal (rn_metrics rn)\<rparr>"
    using assms by (simp add: sendAppendEntriesToPeerLocked_def Let_def)
  moreover have "next_of ?ls q = next_of ls q" for q by (simp add: next_of_def)
  moreover have "ls_MatchIndex ?ls = ls_MatchIndex ls" by simp
  ultimately show thesis using that by blast
qed

abbreviation (input) append_call :: "'s raft_node \<Rightarrow> nat \<Rightarrow> rpc_call" where
  "append_call rn x \<equiv> AppendCall (request_from rn x) (length (ae_entries (request_from rn x)))"

lemma send_to_all_calls:
  "mirroring rn \<Longrightarrow> rn_role rn = Leader \<Longrightarrow> rn_leader rn = Some ls \<Longrightarrow>
   snd (send_to_all D ps rn) = map (\<lambda>p. (p, append_call rn (next_of ls p))) ps"
proof (induction ps arbitrary: rn ls)
  case (Cons p ps)
  obtain ls' mt where f: "fst (sendAppendEntriesToPeerLocked D p rn) = rn\<lparr>rn_leader := Some ls', rn_metrics := mt\<rparr>"
    and n: "\<And>q. next_of ls' q = next_of ls q"
    using send_state [OF Cons.prems(2,3), of p] by blast
  let ?rn = "rn\<lparr>rn_leader := Some ls', rn_metrics := mt\<rparr>"
  have s: "sendAppendEntriesToPeerLocked D p rn = (?rn, [(p, append_call rn (next_of ls p))])"
    using f send_request [OF Cons.prems, of p] by (simp add: prod_eq_iff)
  have "snd (send_to_all D ps ?rn) = map (\<lambda>p. (p, append_call ?rn (next_of ls' p))) ps"
    using Cons.prems by (intro Cons.IH) simp_all
  moreover have "request_from ?rn x = request_from rn x" for x by (simp add: request_from_def)
  moreover have "snd (send_to_all D (p # ps) rn) = (p, append_call rn (next_of ls p)) # snd (send_to_all D ps ?rn)"
    using s by (simp split: prod.split)
  ultimately show ?case using n by simp
qed simp

lemma send_to_all_state:
  "rn_role rn = Leader \<Longrightarrow> rn_leader rn = Some ls \<Longrightarrow>
   \<exists>ls' mt. fst (send_to_all D ps rn) = rn\<lparr>rn_leader := Some ls', rn_metrics := mt\<rparr> \<and>
     (\<forall>q. next_of ls' q = next_of ls q) \<and> ls_MatchIndex ls' = ls_MatchIndex ls"
proof (induction ps arbitrary: rn ls)
  case (Cons p ps)
  obtain ls1 mt where f: "fst (sendAppendEntriesToPeerLocked D p rn) = rn\<lparr>rn_leader := Some ls1, rn_metrics := mt\<rparr>"
    and n: "\<And>q. next_of ls1 q = next_of ls q" "ls_MatchIndex ls1 = ls_MatchIndex ls"
    using send_state [OF Cons.prems, of p] by blast
  have "fst (send_to_all D (p # ps) rn) = fst (send_to_all D ps (rn\<lparr>rn_leader := Some ls1, rn_metrics := mt\<rparr>))"
    unfolding f [symmetric] by (simp split: prod.split)
  with Cons.IH [of "rn\<lparr>rn_leader := Some ls1, rn_metrics := mt\<rparr>" ls1] Cons.prems n show ?case by auto
next
  case Nil
  then have "rn = rn\<lparr>rn_leader := Some ls, rn_metrics := rn_metrics rn\<rparr>" by simp
  then show ?case by (metis fst_conv send_to_all.simps(1))
qed

lemma broadcast_calls:
  assumes "mirroring rn" and "rn_role rn = Leader" and "rn_leader rn = Some ls"
  shows "snd (broadcastAppendEntriesLocked D rn) = map (\<lambda>p. (p, append_call rn (next_of ls p))) (keys (rn_peers rn))"
  using send_to_all_calls [OF assms] assms(2) by (simp add: broadcastAppendEntriesLocked_def)

section \<open>Winning an election\<close>

lemma becomeLeader_wins:
  assumes m: "mirroring rn" and C: "rn_role rn = Candidate" and len: "length (Log rn) < 2 ^ 64 - 1"
    and b: "becomeLeader D e rn = (rn', cs)"
  shows "rn_role rn' = Leader" "CurrentTerm rn' = CurrentTerm rn" "Log rn' = Log rn @ [noop_of rn]" "mirroring rn'"
    "map fst cs = keys (rn_peers rn)"
    "\<forall>(p, c) \<in> set cs. \<exists>req. c = AppendCall req 1 \<and> ae_entries req = [noop_of rn] \<and>
       ae_term req = CurrentTerm rn \<and> Suc (unat (ae_prev_log_index req)) = length (Log rn)"
proof -
  let ?l = "fst (LastIndex B (rn_storage rn))"
  let ?ls = "\<lparr>ls_NextIndex = map (\<lambda>p. (p, ?l + 1)) (keys (rn_peers rn)), ls_MatchIndex = map (\<lambda>p. (p, 0)) (keys (rn_peers rn))\<rparr>"
  have l1: "unat (?l + 1) = length (Log rn)" by (rule mirrors_LastIndex_Suc [OF m])
  then have l: "?l + 1 = of_nat (length (Log rn))" by (metis of_nat_unat ucast_id)
  have pos: "0 < length (Log rn)" by (rule log_okD(6) [OF mirrors_log_ok [OF m]])
  have n: "numbered (length (Log rn)) [noop_of rn]" by (simp add: numbered_single noop_of_def)
  have noop: "\<lparr>le_index = ?l + 1, le_term = CurrentTerm rn, le_command = []\<rparr> = noop_of rn"
    by (simp add: noop_of_def l)
  obtain st where st: "AppendEntries B [noop_of rn] (rn_storage rn) = (None, st)"
    and m2: "mirroring ((set_Log (Log rn @ [noop_of rn]) rn)\<lparr>rn_storage := st\<rparr>)"
    using mirrors_append [OF m n] len by (auto simp: noop_of_def fits_Nil)
  define rn2 where rn2: "rn2 = (set_Log (Log rn @ [noop_of rn]) (rn\<lparr>rn_role := Leader,
      rn_metrics := SetNodeRole 2 (rn_metrics rn), rn_leader := Some ?ls\<rparr>))\<lparr>rn_storage := st\<rparr>"
  define rn3 where rn3: "rn3 = checkAndUpdateCommitIndexLocked D rn2"
  have f: "rn_role rn3 = Leader" "CurrentTerm rn3 = CurrentTerm rn" "VotedFor rn3 = VotedFor rn"
      "Log rn3 = Log rn @ [noop_of rn]" "rn_leader rn3 = Some ?ls" "rn_peers rn3 = rn_peers rn" "rn_storage rn3 = st"
    by (simp_all add: rn3 checkAndUpdate_frame) (simp_all add: rn2)
  have m3: "mirroring rn3" using m2 by (simp add: mirrors_def f)
  obtain rn4 cs' where b4: "broadcastAppendEntriesLocked D rn3 = (rn4, cs')" by fastforce
  have eq: "rn' = resetHeartbeatTimer e rn4" "cs = cs'"
    using b C st b4 noop by (simp_all add: becomeLeader_def Let_def rn2 rn3)
  obtain x y where sh: "rn4 = rn3\<lparr>rn_leader := x, rn_metrics := y\<rparr>" using broadcast_shape [OF b4] by blast
  show "rn_role rn' = Leader" "CurrentTerm rn' = CurrentTerm rn" "Log rn' = Log rn @ [noop_of rn]"
    by (simp_all add: eq sh f frame)
  show "mirroring rn'" using m3 by (simp add: eq sh frame mirrors_def)
  have cs: "cs = map (\<lambda>p. (p, append_call rn3 (next_of ?ls p))) (keys (rn_peers rn))"
    using broadcast_calls [OF m3 f(1,5)] b4 by (simp add: eq f)
  then show "map fst cs = keys (rn_peers rn)" by (simp add: comp_def)
  have nx: "next_of ?ls p = length (Log rn)" if "p \<in> set (keys (rn_peers rn))" for p
    using that l1 pos by (simp add: next_of_def map_get_const o_def max_def Suc_le_eq)
  have req: "ae_entries (request_from rn3 (length (Log rn))) = [noop_of rn]"
      "ae_term (request_from rn3 (length (Log rn))) = CurrentTerm rn"
      "Suc (unat (ae_prev_log_index (request_from rn3 (length (Log rn))))) = length (Log rn)"
    using len pos by (simp_all add: request_from_def f unat_of_nat_u64 del: of_nat_diff)
  have calls: "\<exists>req. append_call rn3 (next_of ?ls p) = AppendCall req 1 \<and> ae_entries req = [noop_of rn] \<and>
      ae_term req = CurrentTerm rn \<and> Suc (unat (ae_prev_log_index req)) = length (Log rn)"
    if "p \<in> set (keys (rn_peers rn))" for p
    using nx [OF that] req by (intro exI [of _ "request_from rn3 (length (Log rn))"]) simp
  show "\<forall>(p, c) \<in> set cs. \<exists>req. c = AppendCall req 1 \<and> ae_entries req = [noop_of rn] \<and>
       ae_term req = CurrentTerm rn \<and> Suc (unat (ae_prev_log_index req)) = length (Log rn)"
    unfolding cs using calls by auto
qed

section \<open>Proposals\<close>

lemma propose_single:
  assumes m: "mirroring rn" and L: "rn_role rn = Leader" and p: "rn_peers rn = []" and a: "applied D rn"
    and len: "length (Log rn) < 2 ^ 64 - 1" and f: "fits cmd" and b: "ProposeCommand D cmd rn = (res, rn', cs)"
  shows "res = ProposeDone (of_nat (length (Log rn)))" "cs = []" "Log rn' = Log rn @ [entry_of rn cmd]" "mirroring rn'"
    "commitIndex rn' = of_nat (length (Log rn))" "lastApplied rn' = of_nat (length (Log rn))"
    "rn_kvStore rn' = replay D (Log rn')" "rn_role rn' = Leader"
proof -
  let ?l = "fst (LastIndex B (rn_storage rn))" and ?i = "of_nat (length (Log rn)) :: u64"
  have "unat (?l + 1) = length (Log rn)" by (rule mirrors_LastIndex_Suc [OF m])
  then have l: "?l + 1 = ?i" by (metis of_nat_unat ucast_id)
  have i: "unat ?i = length (Log rn)" using len by (simp add: unat_of_nat_u64)
  have n: "numbered (length (Log rn)) [entry_of rn cmd]" by (simp add: numbered_single entry_of_def)
  obtain st where st: "AppendEntries B [entry_of rn cmd] (rn_storage rn) = (None, st)"
    and m2: "mirroring ((set_Log (Log rn @ [entry_of rn cmd]) rn)\<lparr>rn_storage := st\<rparr>)"
    using mirrors_append [OF m n] len f by (auto simp: entry_of_def)
  define rn2 where rn2: "rn2 = set_commitIndex ?i ((set_Log (Log rn @ [entry_of rn cmd]) rn)\<lparr>rn_storage := st\<rparr>)"
  have e: "\<lparr>le_index = ?i, le_term = CurrentTerm rn, le_command = cmd\<rparr> = entry_of rn cmd" by (simp add: entry_of_def)
  have r: "res = ProposeDone ?i" "rn' = applyCommittedEntriesLocked D rn2" "cs = []"
    using b L p st by (simp_all add: ProposeCommand_def Let_def l e rn2)
  have f2: "commitIndex rn2 = ?i" "lastApplied rn2 = lastApplied rn" "Log rn2 = Log rn @ [entry_of rn cmd]"
    "rn_kvStore rn2 = rn_kvStore rn" "rn_role rn2 = Leader" using L by (simp_all add: rn2)
  have m3: "mirroring rn2" using m2 by (simp add: mirrors_def rn2)
  have la: "unat (lastApplied rn) < length (Log rn)" "rn_kvStore rn = replay D (take (Suc (unat (lastApplied rn))) (Log rn))"
    using a by (simp_all add: applied_def)
  have lt: "lastApplied rn2 < commitIndex rn2" using la(1) i by (simp add: f2 unat_less_u64)
  show "res = ProposeDone ?i" "cs = []" "Log rn' = Log rn @ [entry_of rn cmd]" "rn_role rn' = Leader"
    by (simp_all add: r applyCommitted_frame f2)
  show "mirroring rn'" using m3 by (simp add: r mirrors_def applyCommitted_frame)
  show "commitIndex rn' = ?i" "lastApplied rn' = ?i"
    using lt by (simp_all add: r applyCommitted_frame applyCommitted_lastApplied f2)
  have "rn_kvStore rn' = replay D (take (Suc (unat (commitIndex rn2))) (Log rn2))"
    using m3 i lt la unfolding r by (intro applyCommitted_kv) (simp_all add: f2)
  then show "rn_kvStore rn' = replay D (Log rn')" by (simp add: r applyCommitted_frame f2 i)
qed

end

lemma engine_of: "storage (d_backend D) ok term_of vote_of log_of fits \<Longrightarrow> engine (d_backend D) ok term_of vote_of log_of fits D"
  by (simp add: engine_def engine_axioms_def)

section \<open>A leader to evaluate the properties on\<close>

definition demo_log :: "log_entry list" where
  "demo_log = [sentinel, \<lparr>le_index = 1, le_term = 1, le_command = []\<rparr>, \<lparr>le_index = 2, le_term = 1, le_command = demo_command\<rparr>]"

definition demo_state :: "node_role \<Rightarrow> string list \<Rightarrow> memory_store raft_node" where
  "demo_state r ps = (demo_node ''a'' ps)\<lparr>rn_role := r,
     rn_persistent := \<lparr>ps_CurrentTerm = 1, ps_VotedFor = ''a'', ps_Log = demo_log\<rparr>,
     rn_leader := Some \<lparr>ls_NextIndex = [(''b'', 1), (''c'', 3)], ls_MatchIndex = [(''b'', 2), (''c'', 0)]\<rparr>,
     rn_storage := \<lparr>ms_term = 1, ms_votedFor = ''a'', ms_entries = demo_log\<rparr>,
     rn_campaigns := [(0, \<lparr>cp_term = 1, cp_votes = 1, cp_majority = 2\<rparr>)]\<rparr>"

lemma demo_state_simps [simp]:
  "rn_role (demo_state r ps) = r" "CurrentTerm (demo_state r ps) = 1" "Log (demo_state r ps) = demo_log"
  "rn_leader (demo_state r ps) = Some \<lparr>ls_NextIndex = [(''b'', 1), (''c'', 3)], ls_MatchIndex = [(''b'', 2), (''c'', 0)]\<rparr>"
  "commitIndex (demo_state r ps) = 0" "lastApplied (demo_state r ps) = 0" "length demo_log = 3"
  "rn_kvStore (demo_state r ps) = []" "rn_campaigns (demo_state r ps) = [(0, \<lparr>cp_term = 1, cp_votes = 1, cp_majority = 2\<rparr>)]"
  "rn_peers (demo_state r ps) = peer_map (map (\<lambda>p. \<lparr>pc_ID = p, pc_Address = p\<rparr>) ps)"
  by (simp_all add: demo_state_def demo_log_def demo_timeouts)
   (simp_all add: demo_node_def boot_def NewRaftNode_def Start_def Let_def SetMetrics_def NewKVStore_def
      demo_deps_def memory_deps_def memory_store_defs NewMemoryStore_def)

lemma demo_mirrors: "mirrors ms_ok ms_term ms_votedFor ms_entries (demo_state r ps)"
  by (simp add: mirrors_def demo_state_def ms_ok_def log_ok_def demo_log_def numbered_def less_Suc_eq nth_Cons')

lemma demo_storage: "storage (d_backend demo_deps) ms_ok ms_term ms_votedFor ms_entries (\<lambda>_. True)"
  using memory.storage_axioms by (simp add: demo_deps_def memory_deps_def)

section \<open>Properties\<close>

text \<open>
  C26: the commit rule.  A leader's commit index after an update is the greatest index above the
  old one that a majority holds and whose entry is of the leader's own term, and the old one if
  there is none.
\<close>

theorem commit_rule_majority:
  assumes s: "storage (d_backend D) ok term_of vote_of log_of fits" and m: "mirrors ok term_of vote_of log_of rn"
    and L: "rn_role rn = Leader" and ls: "rn_leader rn = Some ls" and c: "unat (commitIndex rn) < length (Log rn)"
  shows "unat (commitIndex (checkAndUpdateCommitIndexLocked D rn)) =
    Max (insert (unat (commitIndex rn)) {n. unat (commitIndex rn) < n \<and> n < length (Log rn) \<and>
      le_term (Log rn ! n) = CurrentTerm rn \<and>
      length (rn_peers rn) + 1 < 2 * (1 + length (filter (\<lambda>(p, m). n \<le> unat m) (ls_MatchIndex ls)))})"
  using engine.commit_rule [OF engine_of [OF s] m L ls c] by (simp add: committable_def on_majority_def)

theorem commit_rule_majority_witness:
  "unat (commitIndex (checkAndUpdateCommitIndexLocked demo_deps (demo_state Leader [''b'', ''c'']))) =
    Max (insert 0 {n. 0 < n \<and> n < 3 \<and> le_term (demo_log ! n) = 1 \<and>
      length (rn_peers (demo_state Leader [''b'', ''c''])) + 1 <
        2 * (1 + length (filter (\<lambda>(p, m). n \<le> unat m) [(''b'', 2 :: u64), (''c'', 0)]))})"
  using commit_rule_majority [OF demo_storage demo_mirrors, of Leader "[''b'', ''c'']"] by simp

text \<open>
  C27: what a leader sends.  The entries of an AppendEntries are at most 256 consecutive entries of
  the leader's log from the peer's \<open>nextIndex\<close> on, which is never taken below 1; the request
  names the position and the term of the entry before them.
\<close>

theorem append_batch:
  assumes s: "storage (d_backend D) ok term_of vote_of log_of fits" and m: "mirrors ok term_of vote_of log_of rn"
    and L: "rn_role rn = Leader" and ls: "rn_leader rn = Some ls"
    and x: "x = max 1 (unat (map_get 0 (ls_NextIndex ls) p))" "x \<le> length (Log rn)"
    and c: "sendAppendEntriesToPeerLocked D p rn = (rn', cs)"
  shows "\<exists>req. cs = [(p, AppendCall req (length (ae_entries req)))] \<and>
    ae_entries req = take 256 (drop x (Log rn)) \<and> length (ae_entries req) \<le> 256 \<and>
    Suc (unat (ae_prev_log_index req)) = x \<and> ae_prev_log_term req = le_term (Log rn ! (x - 1)) \<and>
    (\<forall>i < length (ae_entries req). unat (le_index (ae_entries req ! i)) = Suc (unat (ae_prev_log_index req) + i))"
proof -
  note e = engine_of [OF s]
  have lo: "log_ok (Log rn)" by (rule engine.mirrors_log_ok [OF e m])
  have x1: "x = next_of ls p" "0 < x" using x(1) by (simp_all add: next_of_def)
  let ?req = "request_from rn x"
  have cs: "cs = [(p, AppendCall ?req (length (ae_entries ?req)))]"
    using engine.send_request [OF e m L ls, of p] c x1 by simp
  have len: "length (Log rn) < 2 ^ 64" by (rule log_okD(5) [OF lo])
  have u: "unat (of_nat (x - 1) :: u64) = x - 1" using x(2) len by (intro unat_of_nat_u64) simp
  have "unat (le_index (Log rn ! (x + i))) = x + i" if "x + i < length (Log rn)" for i
  proof -
    have "le_index (Log rn ! (x + i)) = of_nat (x + i)"
      using log_okD(4) [OF lo] that by (simp add: numbered_def)
    moreover have "unat (of_nat (x + i) :: u64) = x + i" using that len by (intro unat_of_nat_u64) simp
    ultimately show ?thesis by simp
  qed
  then have "unat (le_index (ae_entries ?req ! i)) = Suc ((x - 1) + i)" if "i < length (ae_entries ?req)" for i
    using that x1(2) x(2) by (simp add: request_from_def less_diff_conv)
  moreover have "x - Suc 0 < length (Log rn)" using x1(2) x(2) by simp
  ultimately show ?thesis
    using cs x1(2) u by (intro exI [of _ ?req]) (simp add: request_from_def)
qed

theorem append_batch_witness:
  "\<exists>req. snd (sendAppendEntriesToPeerLocked demo_deps ''b'' (demo_state Leader [''b'', ''c''])) =
      [(''b'', AppendCall req (length (ae_entries req)))] \<and> ae_entries req = take 256 (drop 1 demo_log)"
proof -
  have x: "(1 :: nat) = max 1 (unat (map_get 0 (ls_NextIndex \<lparr>ls_NextIndex = [(''b'', 1), (''c'', 3)],
      ls_MatchIndex = [(''b'', 2), (''c'', 0)]\<rparr>) ''b'' :: u64))" by (simp add: map_get_def)
  show ?thesis
    using append_batch [OF demo_storage demo_mirrors _ _ x _ prod.collapse [symmetric], of Leader "[''b'', ''c'']"] by auto
qed

text \<open>
  C28: accepting entries.  Over a store that works, \<open>HandleAppendEntries\<close> answers success exactly
  when the request's term is current and the log holds the entry the request's entries follow;
  then the log, in memory and on disk, is the old one merged with the request's entries, commands
  included: what stood where the terms agree stays, and from the first entry that is missing or of
  another term the request's entries replace the rest.  It then holds, term by term, that entry and
  all of the request's after it.  A refusal leaves the log alone.
\<close>

theorem append_accepted_iff:
  assumes s: "storage (d_backend D) ok term_of vote_of log_of fits" and m: "mirrors ok term_of vote_of log_of rn"
    and n: "numbered (Suc (unat (ae_prev_log_index req))) (ae_entries req)"
    and len: "Suc (unat (ae_prev_log_index req)) + length (ae_entries req) < 2 ^ 64"
    and f: "\<forall>e\<in>set (ae_entries req). fits (le_command e)" and h: "HandleAppendEntries D e req rn = (resp, rn')"
  shows "(aer_success resp \<longleftrightarrow> CurrentTerm rn \<le> ae_term req \<and> (ae_prev_log_index req = 0 \<or>
      (unat (ae_prev_log_index req) < length (Log rn) \<and>
       le_term (Log rn ! unat (ae_prev_log_index req)) = ae_prev_log_term req))) \<and>
    (aer_success resp \<longrightarrow> mirrors ok term_of vote_of log_of rn' \<and>
      Log rn' = merged (Suc (unat (ae_prev_log_index req))) (ae_entries req) (Log rn) \<and>
      (ae_prev_log_index req = 0 \<or> le_term (Log rn' ! unat (ae_prev_log_index req)) = ae_prev_log_term req) \<and>
      Suc (unat (ae_prev_log_index req)) + length (ae_entries req) \<le> length (Log rn') \<and>
      (\<forall>j < length (ae_entries req).
        le_term (Log rn' ! (Suc (unat (ae_prev_log_index req)) + j)) = le_term (ae_entries req ! j))) \<and>
    (\<not> aer_success resp \<longrightarrow> Log rn' = Log rn)"
  using engine.accept_entries(1,2) [OF engine_of [OF s] m n len f h, unfolded prev_held_def holds_entries_def]
  by (metis (full_types))

definition demo_append :: append_entries_request where
  "demo_append = \<lparr>ae_term = 2, ae_leader_id = ''b'', ae_prev_log_index = 1, ae_prev_log_term = 1,
     ae_entries = [\<lparr>le_index = 2, le_term = 2, le_command = []\<rparr>], ae_leader_commit = 0\<rparr>"

theorem append_accepted_iff_witness:
  "aer_success (fst (HandleAppendEntries demo_deps (demo_env 1) demo_append (demo_state Leader [''b'', ''c'']))) \<and>
   Log (snd (HandleAppendEntries demo_deps (demo_env 1) demo_append (demo_state Leader [''b'', ''c'']))) =
     take 2 demo_log @ ae_entries demo_append"
proof -
  have n: "numbered (Suc (unat (ae_prev_log_index demo_append))) (ae_entries demo_append)"
    by (simp add: demo_append_def numbered_single)
  obtain resp rn' where h: "HandleAppendEntries demo_deps (demo_env 1) demo_append (demo_state Leader [''b'', ''c'']) = (resp, rn')"
    by fastforce
  have l: "length (ae_entries demo_append) = 1" "unat (ae_prev_log_index demo_append) = 1" "ae_term demo_append = 2"
    "ae_prev_log_term demo_append = 1" "le_term (ae_entries demo_append ! 0) = 2" by (simp_all add: demo_append_def)
  note A = append_accepted_iff [OF demo_storage demo_mirrors n _ _ h]
  have ok: "aer_success resp" using A l by (simp add: demo_log_def)
  have "Log rn' = merged (Suc (unat (ae_prev_log_index demo_append))) (ae_entries demo_append) demo_log"
    using A ok l by (simp add: demo_append_def)
  also have "\<dots> = take 2 demo_log @ ae_entries demo_append" by code_simp
  finally have "Log rn' = take 2 demo_log @ ae_entries demo_append" .
  with ok h show ?thesis by simp
qed

text \<open>
  C29: applying committed entries ends and catches up.  The loop of \<open>applyCommittedEntriesLocked\<close>
  ends with the last applied index at the commit index, and the key-value map is then the replay
  of the log up to it.
\<close>

theorem apply_catches_up:
  assumes s: "storage (d_backend D) ok term_of vote_of log_of fits" and m: "mirrors ok term_of vote_of log_of rn"
    and c: "unat (commitIndex rn) < length (Log rn)" and l: "lastApplied rn \<le> commitIndex rn"
    and kv: "rn_kvStore rn = replay D (take (Suc (unat (lastApplied rn))) (Log rn))"
  shows "lastApplied (applyCommittedEntriesLocked D rn) = commitIndex rn \<and>
    commitIndex (applyCommittedEntriesLocked D rn) = commitIndex rn \<and>
    rn_kvStore (applyCommittedEntriesLocked D rn) = replay D (take (Suc (unat (commitIndex rn))) (Log rn))"
  using engine.applyCommitted_kv [OF engine_of [OF s] m c l kv] l
  by (auto simp: applyCommitted_lastApplied applyCommitted_frame)

theorem apply_catches_up_witness:
  "lastApplied (applyCommittedEntriesLocked demo_deps (set_commitIndex 2 (demo_state Leader [''b'', ''c'']))) = 2"
proof -
  let ?rn = "set_commitIndex 2 (demo_state Leader [''b'', ''c''])"
  have m: "mirrors ms_ok ms_term ms_votedFor ms_entries ?rn"
    using demo_mirrors [of Leader "[''b'', ''c'']"] by (simp only: mirrors_update)
  have "rn_kvStore ?rn = replay demo_deps (take (Suc (unat (lastApplied ?rn))) (Log ?rn))"
    by (simp add: demo_log_def replay_def NewKVStore_def apply_entry_def)
  then show ?thesis using apply_catches_up [OF demo_storage m] by simp
qed

text \<open>
  A refused proposal has no effect.  When \<open>ProposeCommand\<close> returns an error before waiting,
  nothing is sent and nothing of the node changes but what a failed write did to its store; on a
  node that is not the leader nothing changes at all, and the error says so.
\<close>

theorem refused_proposal_no_effect:
  assumes "ProposeCommand D cmd rn = (ProposeError err, rn', cs)"
  shows "cs = [] \<and> rn' = rn\<lparr>rn_storage := rn_storage rn'\<rparr> \<and>
    (if rn_role rn = Leader then (\<exists>entry. AppendEntries (d_backend D) [entry] (rn_storage rn) = (Some err, rn_storage rn'))
     else rn' = rn \<and> err = ErrNotLeader)"
  using assms by (auto simp: ProposeCommand_def Let_def split: if_splits prod.splits option.splits)

theorem refused_proposal_no_effect_witness:
  "snd (ProposeCommand demo_deps demo_command (demo_state Follower [''b''])) = (demo_state Follower [''b''], [])"
proof -
  obtain rn' cs where p: "ProposeCommand demo_deps demo_command (demo_state Follower [''b'']) = (ProposeError ErrNotLeader, rn', cs)"
    by (simp add: ProposeCommand_def)
  from refused_proposal_no_effect [OF p] have "rn' = demo_state Follower [''b'']" "cs = []" by simp_all
  with p show ?thesis by simp
qed

text \<open>
  C30: a single node serves writes.  A leader without peers answers a write at once: the entry is
  appended, committed and applied, and reading the key returns the value.
\<close>

theorem single_node_write:
  assumes s: "storage (d_backend D) ok term_of vote_of log_of fits" and m: "mirrors ok term_of vote_of log_of rn"
    and L: "rn_role rn = Leader" and p: "rn_peers rn = []" and a: "applied D rn" and len: "length (Log rn) < 2 ^ 64 - 1"
    and g: "gob_roundtrip (d_gob D)"
    and c: "Encode (d_gob D) \<lparr>cmd_type = CmdSet, cmd_key = k, cmd_value = v\<rparr> = Inr cmd" and f: "fits cmd"
  shows "\<exists>rn'. ProposeCommand D cmd rn = (ProposeDone (of_nat (length (Log rn))), rn', []) \<and>
    le_command (last (Log rn')) = cmd \<and> commitIndex rn' = of_nat (length (Log rn)) \<and>
    lastApplied rn' = commitIndex rn' \<and> Get rn' k = (v, True) \<and>
    (\<forall>k'. k' \<noteq> k \<longrightarrow> Get rn' k' = kv_Get (replay D (Log rn)) k')"
proof -
  obtain res rn' cs where b: "ProposeCommand D cmd rn = (res, rn', cs)" by (cases "ProposeCommand D cmd rn")
  note r = engine.propose_single [OF engine_of [OF s] m L p a len f b]
  have "cmd \<noteq> [] \<and> DecodeCommand (d_gob D) cmd = Inr \<lparr>cmd_type = CmdSet, cmd_key = k, cmd_value = v\<rparr>"
    using EncodeD [OF g, of "\<lparr>cmd_type = CmdSet, cmd_key = k, cmd_value = v\<rparr>"] c by auto
  then have "rn_kvStore rn' = kv_Apply \<lparr>cmd_type = CmdSet, cmd_key = k, cmd_value = v\<rparr> (replay D (Log rn))"
    by (simp add: r(3,7) replay_snoc apply_entry_def entry_of_def)
  then have "Get rn' k = (v, True)" "\<forall>k'. k' \<noteq> k \<longrightarrow> Get rn' k' = kv_Get (replay D (Log rn)) k'"
    by (simp_all add: Get_def kv_Get_def kv_Apply_map_of)
  with b r show ?thesis by (simp add: entry_of_def)
qed

theorem single_node_write_witness:
  "\<exists>cmd rn'. ProposeCommand (memory_deps unary_gob) cmd ((demo_state Leader [])\<lparr>rn_volatile := \<lparr>vs_CommitIndex = 1, vs_LastApplied = 1\<rparr>\<rparr>) =
     (ProposeDone 3, rn', []) \<and> Get rn' ''key'' = (''value'', True)"
proof -
  let ?rn = "(demo_state Leader [])\<lparr>rn_volatile := \<lparr>vs_CommitIndex = 1, vs_LastApplied = 1\<rparr>\<rparr>"
  obtain cmd where c: "Encode unary_gob \<lparr>cmd_type = CmdSet, cmd_key = ''key'', cmd_value = ''value''\<rparr> = Inr cmd"
    by (simp add: Encode_def unary_gob_def)
  have s: "storage (d_backend (memory_deps unary_gob)) ms_ok ms_term ms_votedFor ms_entries (\<lambda>_. True)"
    using memory.storage_axioms by (simp add: memory_deps_def)
  have m: "mirrors ms_ok ms_term ms_votedFor ms_entries ?rn"
    using demo_mirrors [of Leader "[]"] by (simp only: mirrors_update)
  have "applied (memory_deps unary_gob) ?rn"
    by (simp add: applied_def demo_log_def replay_def NewKVStore_def apply_entry_def)
  from single_node_write [OF s m _ _ this _ _ _ TrueI, of "''key''" "''value''" cmd] c show ?thesis
    by (auto simp: peer_map_def memory_deps_def unary_roundtrip)
qed

text \<open>
  A majority elects.  When the answer that completes a majority of votes arrives and the node
  still campaigns in that term, it leads the term: it appends an empty entry of its term and sends
  it to every peer.
\<close>

theorem majority_elects:
  assumes s: "storage (d_backend D) ok term_of vote_of log_of fits" and m: "mirrors ok term_of vote_of log_of rn"
    and cp: "map_of (rn_campaigns rn) k = Some cp" "cp_majority cp \<le> cp_votes cp + 1"
    and C: "rn_role rn = Candidate" and t: "CurrentTerm rn = cp_term cp" "rvr_term res \<le> CurrentTerm rn"
    and g: "rvr_vote_granted res" and len: "length (Log rn) < 2 ^ 64 - 1"
  shows "\<exists>rn' cs noop. on_vote_response D e k res rn = Some (rn', cs) \<and>
    rn_role rn' = Leader \<and> CurrentTerm rn' = CurrentTerm rn \<and> Log rn' = Log rn @ [noop] \<and>
    le_term noop = CurrentTerm rn \<and> le_command noop = [] \<and> map fst cs = map fst (rn_peers rn) \<and>
    (\<forall>(p, c) \<in> set cs. \<exists>req. c = AppendCall req 1 \<and> ae_entries req = [noop] \<and> ae_term req = CurrentTerm rn \<and>
       Suc (unat (ae_prev_log_index req)) = length (Log rn))"
proof -
  let ?rn = "rn\<lparr>rn_campaigns := AList.update k (cp\<lparr>cp_votes := cp_votes cp + 1\<rparr>) (rn_campaigns rn)\<rparr>"
  obtain rn' cs where b: "becomeLeader D e ?rn = (rn', cs)" by (cases "becomeLeader D e ?rn")
  have m': "mirrors ok term_of vote_of log_of ?rn" using m by (simp add: mirrors_def)
  have "on_vote_response D e k res rn = Some (rn', cs)"
    using cp C t g b leD [OF t(2)] by (simp add: on_vote_response_def checkTerm_def Let_def)
  moreover from engine.becomeLeader_wins [OF engine_of [OF s] m' _ _ b] C len
  have "rn_role rn' = Leader" "CurrentTerm rn' = CurrentTerm rn" "Log rn' = Log rn @ [noop_of rn]"
    "map fst cs = map fst (rn_peers rn)"
    "\<forall>(p, c) \<in> set cs. \<exists>req. c = AppendCall req 1 \<and> ae_entries req = [noop_of rn] \<and> ae_term req = CurrentTerm rn \<and>
       Suc (unat (ae_prev_log_index req)) = length (Log rn)"
    by (simp_all add: noop_of_def)
  ultimately show ?thesis by (intro exI conjI) (simp_all add: noop_of_def)
qed

theorem majority_elects_witness:
  "\<exists>rn' cs. on_vote_response demo_deps (demo_env 1) 0 \<lparr>rvr_term = 1, rvr_vote_granted = True\<rparr>
      (demo_state Candidate [''b'', ''c'']) = Some (rn', cs) \<and> rn_role rn' = Leader \<and>
      map fst cs = map fst (rn_peers (demo_state Candidate [''b'', ''c'']))"
proof -
  let ?rn = "demo_state Candidate [''b'', ''c'']"
  have "map_of (rn_campaigns ?rn) 0 = Some \<lparr>cp_term = 1, cp_votes = 1, cp_majority = 2\<rparr>" by simp
  moreover have "cp_majority \<lparr>cp_term = 1, cp_votes = 1, cp_majority = 2\<rparr> \<le> cp_votes \<lparr>cp_term = 1, cp_votes = 1, cp_majority = 2\<rparr> + 1"
    "rn_role ?rn = Candidate" "CurrentTerm ?rn = cp_term \<lparr>cp_term = 1, cp_votes = 1, cp_majority = 2\<rparr>"
    "rvr_term \<lparr>rvr_term = 1, rvr_vote_granted = True\<rparr> \<le> CurrentTerm ?rn"
    "rvr_vote_granted \<lparr>rvr_term = 1, rvr_vote_granted = True\<rparr>" "length (Log ?rn) < 2 ^ 64 - 1" by simp_all
  ultimately obtain rn' cs where
    "on_vote_response demo_deps (demo_env 1) 0 \<lparr>rvr_term = 1, rvr_vote_granted = True\<rparr> ?rn = Some (rn', cs)"
    "rn_role rn' = Leader" "map fst cs = map fst (rn_peers ?rn)"
    using majority_elects [OF demo_storage demo_mirrors, where e = "demo_env 1"] by blast
  then show ?thesis by blast
qed

text \<open>
  C31: no send blocks.  In every reachable cluster the commit channels a node may still send to are
  empty and distinct, and a channel that holds a message holds one and is no longer waiting, so
  with room for one message no handler blocks while it holds the mutex; and only a leader has
  proposals waiting.
\<close>

theorem commit_channels_never_block:
  assumes b: "backend_ok D fresh fits" and N: "members_ok fits N" and r: "cluster_reach D fresh fits N c" and n: "n \<in> N"
  shows "distinct (map fst (rn_chans (c_nodes c n)) @ map snd (rn_pendingCommits (c_nodes c n))) \<and>
    (rn_pendingCommits (c_nodes c n) \<noteq> [] \<longrightarrow> rn_role (c_nodes c n) = Leader)"
proof -
  obtain ok term_of vote_of log_of a where e: "engine (d_backend D) ok term_of vote_of log_of fits D"
    and c: "engine.csim ok term_of vote_of log_of fits D N c a" by (rule cluster_abs [OF b N r])
  from abs_node(7) [OF e c n] show ?thesis by (auto simp: client_ok_def chan_ids_def)
qed

theorem commit_channels_never_block_witness:
  "distinct (map fst (rn_chans (c_nodes (demo_at 9) ''a'')) @ map snd (rn_pendingCommits (c_nodes (demo_at 9) ''a'')))"
  using commit_channels_never_block [OF demo_setting, of "''a''" 9] by simp

end
