(* ===== verification/Gateway_Properties.thy ===== *)
theory Gateway_Properties
  imports Limit_Properties Http_Gateway Replication_Properties
begin

text \<open>
  What a client of the HTTP gateway observes: the map it writes to and reads from, redirects,
  the limits on what a leader proposes, and what a conditional create is worth.
\<close>

abbreviation (input) kv_path :: "http_request \<Rightarrow> string" where
  "kv_path r \<equiv> TrimPrefix (r_Path r) ''/api/v1/kv/''"

lemma methods [simp]:
  "''PUT'' \<noteq> ''GET''" "''POST'' \<noteq> ''GET''" "''DELETE'' \<noteq> ''GET''" "''POST'' \<noteq> ''PUT''" "''DELETE'' \<noteq> ''PUT''"
  "''DELETE'' \<noteq> ''POST''"
  by simp_all

lemma redirectIfFollower_None: "redirectIfFollower node_at r s = None \<longleftrightarrow> IsLeader (node_at 0)"
  by (auto simp: redirectIfFollower_def Let_def split: option.split if_splits)

text \<open>
  The state machine is a map.  Applying a command keeps the keys distinct; a set makes its
  key read back as its value, a delete makes it absent, every other key and every other command
  type leaves the map alone; and the size counts the keys that are present.
\<close>

theorem kv_is_a_map:
  assumes "kv_wf kv"
  shows "kv_wf (kv_Apply c kv) \<and>
    (\<forall>k. kv_Get (kv_Apply c kv) k =
       (if k = cmd_key c \<and> cmd_type c = CmdSet then (cmd_value c, True)
        else if k = cmd_key c \<and> cmd_type c = CmdDelete then ('''', False) else kv_Get kv k)) \<and>
    kv_Size kv = card {k. snd (kv_Get kv k)}"
proof -
  have "CmdSet \<noteq> CmdDelete" by (simp add: CmdSet_def CmdDelete_def)
  then have "kv_Get (kv_Apply c kv) k =
       (if k = cmd_key c \<and> cmd_type c = CmdSet then (cmd_value c, True)
        else if k = cmd_key c \<and> cmd_type c = CmdDelete then ('''', False) else kv_Get kv k)" for k
    by (auto simp: kv_Get_def kv_Apply_map_of)
  moreover have "{k. snd (kv_Get kv k)} = dom (map_of kv)"
    by (auto simp: kv_Get_def dom_def split: option.split_asm)
  ultimately show ?thesis using kv_wf_Apply [OF assms] kv_Size_card [OF assms] by simp
qed

theorem kv_is_a_map_witness: "kv_Size [(''a'', ''1''), (''b'', ''2'')] = card {k. snd (kv_Get [(''a'', ''1''), (''b'', ''2'')] k)}"
  using kv_is_a_map [of "[(''a'', ''1''), (''b'', ''2'')]"] by (simp add: kv_wf_def)

text \<open>
  C35: followers do not write.  On a node that is not the leader, every write is answered at once
  and spends nothing of the client's budget: with a temporary redirect to the same path and query
  at the leader's address if it knows one, and with 503 otherwise.
\<close>

theorem followers_redirect:
  assumes f: "\<not> IsLeader (node_at 0)" and m: "r_Method r \<in> {''PUT'', ''POST'', ''DELETE''}" and k: "kv_path r \<noteq> ''''"
  shows "\<exists>w. handleKV G net t node_at r s = (Respond w, s) \<and>
    (case map_of (hs_peerHTTPAddrs s) (LeaderID (node_at 1)) of
       Some addr \<Rightarrow> if addr = '''' then w_Status w = 503
         else w_Status w = 307 \<and> w_Header w = [(''Location'', addr @ r_EscapedPath r @
           (if r_RawQuery r = '''' then '''' else ''?'' @ r_RawQuery r))]
     | None \<Rightarrow> w_Status w = 503)"
proof -
  from f redirectIfFollower_None [of node_at r s] obtain w where w: "redirectIfFollower node_at r s = Some w"
    by (cases "redirectIfFollower node_at r s") auto
  have "handleKV G net t node_at r s = (Respond w, s)"
    using m k w by (auto simp: handleKV_def Let_def handlePut_def handlePost_def handleDelete_def)
  then show ?thesis
    using w f by (auto simp: redirectIfFollower_def http_Redirect_def leaderRedirectURL_def json_response_def Let_def
        status_defs split: option.splits if_splits)
qed

definition demo_server :: http_server where
  "demo_server = \<lparr>hs_Addr = ''0.0.0.0:8001'', hs_serving = True, hs_peerHTTPAddrs = [(''a'', ''http://localhost:8001'')], hs_metrics = None,
     hs_limits = demo_limits\<lparr>WriteRate := Finite 0, MaxKeyBytes := 0, MaxValueBytes := 0, MaxKeys := 0\<rparr>, hs_limiter = None\<rparr>"

theorem followers_redirect_witness:
  "\<exists>w. handleKV unary_gob demo_net 0 (\<lambda>_. demo_state Follower [''b''] \<lparr>rn_leaderID := ''a''\<rparr>) demo_request demo_server =
     (Respond w, demo_server) \<and> w_Status w = 307"
proof -
  have "\<not> IsLeader (demo_state Follower [''b''] \<lparr>rn_leaderID := ''a''\<rparr>)" by (simp add: IsLeader_def)
  from followers_redirect [of "\<lambda>_. demo_state Follower [''b''] \<lparr>rn_leaderID := ''a''\<rparr>", OF this, of demo_request
      unary_gob demo_net 0 demo_server]
  show ?thesis
    by (auto simp: demo_request_def demo_server_def TrimPrefix_def HasPrefix_def LeaderID_def)
qed

text \<open>
  C36: what a leader proposes is within the limits.  A request that reaches \<open>ProposeCommand\<close> is a
  write on a leader, was granted by the limiter, has a key within the key limit and, unless it is
  a delete, a value within the value limit and a key that exists or fits into the store; a POST
  found no value for its key.
\<close>

theorem submitted_writes_within_limits:
  assumes h: "handleKV G net t node_at r s = (Submit cmd answer, s')"
  shows "IsLeader (node_at 0) \<and> kv_path r \<noteq> '''' \<and> r_Method r \<in> {''PUT'', ''POST'', ''DELETE''} \<and>
    (\<forall>rl. hs_limiter s = Some rl \<longrightarrow> fst (allow t (clientIP net r (TrustProxy (hs_limits s))) rl)) \<and>
    (0 < MaxKeyBytes (hs_limits s) \<longrightarrow> int (length (kv_path r)) \<le> MaxKeyBytes (hs_limits s)) \<and>
    (r_Method r \<noteq> ''DELETE'' \<longrightarrow>
      (0 < MaxValueBytes (hs_limits s) \<longrightarrow> int (length (r_Body r)) \<le> MaxValueBytes (hs_limits s)) \<and>
      (0 < MaxKeys (hs_limits s) \<longrightarrow> int (KVStoreSize (node_at 2)) < MaxKeys (hs_limits s) \<or> snd (Get (node_at 3) (kv_path r)))) \<and>
    (r_Method r = ''POST'' \<longrightarrow> \<not> snd (Get (node_at 4) (kv_path r)))"
proof -
  have k: "kv_path r \<noteq> ''''" and m: "r_Method r \<in> {''PUT'', ''POST'', ''DELETE''}"
    using h by (auto simp: handleKV_def Let_def split: if_splits)
  from h k m obtain s1 where L: "IsLeader (node_at 0)"
    and lim: "enforceWriteLimits net t node_at r (kv_path r) (r_Method r \<noteq> ''DELETE'') s = (None, s1)"
    by (auto simp: handleKV_def Let_def handlePut_def handlePost_def handleDelete_def redirectIfFollower_None
        split: if_splits option.splits prod.splits)
  note p = enforceWriteLimits_passes [OF lim]
  have v: "0 < MaxValueBytes (hs_limits s) \<longrightarrow> int (length (r_Body r)) \<le> MaxValueBytes (hs_limits s)"
    if "r_Method r \<noteq> ''DELETE''"
  proof -
    have "\<exists>value. readValue s1 r = Inr value"
      using h k m L lim that by (auto simp: handleKV_def Let_def handlePut_def handlePost_def redirectIfFollower_None
          split: if_splits option.splits prod.splits sum.splits)
    with readValue_bound [of s1 r] p(4) show ?thesis by (auto simp: bytes_to_string_def)
  qed
  have post: "\<not> snd (Get (node_at 4) (kv_path r))" if "r_Method r = ''POST''"
    using h k L lim that by (auto simp: handleKV_def Let_def handlePost_def redirectIfFollower_None
        split: if_splits option.splits prod.splits sum.splits)
  show ?thesis using k m L p(1-3) v post by auto
qed

text \<open>Only a leader's gateway proposes.\<close>

lemma submit_leader:
  assumes "handleKV G net t node_at r s = (Submit cmd answer, s')"
  shows "IsLeader (node_at 0)"
  using assms by (auto simp: handleKV_def Let_def handlePut_def handlePost_def handleDelete_def redirectIfFollower_None
      split: if_splits option.splits prod.splits)

lemma demo_path: "kv_path demo_request = ''key''" "kv_path (demo_request\<lparr>r_Method := m\<rparr>) = ''key''"
    "kv_path (demo_request\<lparr>r_Method := m, r_Body := b\<rparr>) = ''key''"
  by (simp_all add: demo_request_def TrimPrefix_def HasPrefix_def)

lemma demo_server_open: "hs_limiter demo_server = None" "MaxKeyBytes (hs_limits demo_server) = 0"
    "MaxKeys (hs_limits demo_server) = 0" "MaxValueBytes (hs_limits demo_server) = 0"
  by (simp_all add: demo_server_def)

text \<open>A gateway without limits proposes every write of a leader.\<close>

lemma open_gateway:
  assumes "IsLeader (node_at 0)" and "hs_limiter s = None" and "MaxKeyBytes (hs_limits s) = 0"
    and "MaxKeys (hs_limits s) = 0" and "MaxValueBytes (hs_limits s) = 0"
  shows "redirectIfFollower node_at r s = None" "enforceWriteLimits net t node_at r key c s = (None, s)"
    "\<not> r_BodyFails r \<Longrightarrow> readValue s r = Inr (bytes_to_string (r_Body r))"
  using assms by (simp_all add: redirectIfFollower_None enforceWriteLimits_def readValue_def)

theorem submitted_writes_within_limits_witness:
  "\<exists>cmd answer. handleKV unary_gob demo_net 0 (\<lambda>_. demo_state Leader [''b'']) demo_request demo_server =
     (Submit cmd answer, demo_server) \<and> IsLeader (demo_state Leader [''b''])"
proof -
  have L: "IsLeader (demo_state Leader [''b''])" by (simp add: IsLeader_def)
  have "\<exists>cmd answer. handleKV unary_gob demo_net 0 (\<lambda>_. demo_state Leader [''b'']) demo_request demo_server = (Submit cmd answer, demo_server)"
    using open_gateway [of "\<lambda>_. demo_state Leader [''b'']", OF L demo_server_open]
    by (simp add: handleKV_def Let_def demo_path handlePut_def demo_request_def [THEN arg_cong, of r_Method]
        demo_request_def [THEN arg_cong, of r_BodyFails] Encode_def unary_gob_def)
  with submitted_writes_within_limits show ?thesis by blast
qed

text \<open>The command a PUT proposes, and its answer when it is committed.\<close>

lemma put_submits:
  assumes g: "gob_roundtrip G" and m: "r_Method r = ''PUT''"
    and h: "handleKV G net t node_at r s = (Submit cmd answer, s')"
  shows "kv_path r \<noteq> ''''" "cmd \<noteq> []" "w_Status (answer (i, None)) = 200"
    "DecodeCommand G cmd = Inr \<lparr>cmd_type = CmdSet, cmd_key = kv_path r, cmd_value = bytes_to_string (r_Body r)\<rparr>"
proof -
  let ?c = "\<lparr>cmd_type = CmdSet, cmd_key = kv_path r, cmd_value = bytes_to_string (r_Body r)\<rparr>"
  obtain b where b: "Encode G ?c = Inr b" "b \<noteq> []" "DecodeCommand G b = Inr ?c" using EncodeD [OF g] by blast
  from h m b(1) have "cmd = b \<and> kv_path r \<noteq> '''' \<and> w_Status (answer (i, None)) = 200"
    by (auto simp: handleKV_def Let_def handlePut_def propose_answer_def json_response_def status_defs
        split: if_splits option.splits prod.splits sum.splits dest!: readValue_bound)
  with b show "kv_path r \<noteq> ''''" "cmd \<noteq> []" "w_Status (answer (i, None)) = 200" "DecodeCommand G cmd = Inr ?c"
    by simp_all
qed

text \<open>A GET of a key that is present.\<close>

lemma get_answers:
  assumes "kv_path r \<noteq> ''''" and "Get rn (kv_path r) = (v, True)"
  shows "fst (handleKV G net t (\<lambda>_. rn) (r\<lparr>r_Method := ''GET''\<rparr>) s) =
    Respond (json_response 200 [(''key'', JString (kv_path r)), (''value'', JString v)])"
  using assms by (simp add: handleKV_def Let_def http_handleGet_def status_defs)

text \<open>
  A write is read back.  The command a PUT proposes decodes to a set of its key to its body;
  once a node has applied the entry that carries it, a GET of the same path on that node answers
  200 with the value, and the PUT itself answered 200.
\<close>

theorem put_then_get:
  assumes g: "gob_roundtrip (d_gob D)" and m: "r_Method r = ''PUT''"
    and h: "handleKV (d_gob D) net t node_at r s = (Submit cmd answer, s')"
    and e: "GetEntry (d_backend D) (lastApplied rn + 1) (rn_storage rn) = Inr entry" "le_command entry = cmd"
  shows "fst (handleKV (d_gob D) net t' (\<lambda>_. apply_one D rn) (r\<lparr>r_Method := ''GET''\<rparr>) s'') =
      Respond (json_response 200 [(''key'', JString (kv_path r)), (''value'', JString (bytes_to_string (r_Body r)))]) \<and>
    w_Status (answer (i, None)) = 200"
proof -
  note p = put_submits [OF g m h]
  have "rn_kvStore (apply_one D rn) = kv_Apply \<lparr>cmd_type = CmdSet, cmd_key = kv_path r, cmd_value = bytes_to_string (r_Body r)\<rparr> (rn_kvStore rn)"
    using e p(2,4) by (simp add: apply_one_def Let_def split: option.split)
  then have "Get (apply_one D rn) (kv_path r) = (bytes_to_string (r_Body r), True)"
    by (simp add: Get_def kv_Get_def kv_Apply_map_of)
  from get_answers [OF p(1) this] p(3) show ?thesis by blast
qed

definition demo_written :: "memory_store raft_node" where
  "demo_written = demo_state Leader [] \<lparr>rn_storage := \<lparr>ms_term = 1, ms_votedFor = ''a'', ms_entries = [sentinel,
     \<lparr>le_index = 1, le_term = 1, le_command = projr (Encode unary_gob
        \<lparr>cmd_type = CmdSet, cmd_key = ''key'', cmd_value = ''value''\<rparr>)\<rparr>]\<rparr>\<rparr>"

lemma demo_put: "\<exists>answer. handleKV unary_gob demo_net 0 (\<lambda>_. demo_state Leader []) demo_request demo_server =
    (Submit (projr (Encode unary_gob \<lparr>cmd_type = CmdSet, cmd_key = ''key'', cmd_value = ''value''\<rparr>)) answer, demo_server)"
proof -
  have "IsLeader (demo_state Leader [])" by (simp add: IsLeader_def)
  moreover have "bytes_to_string (r_Body demo_request) = ''value''" "r_Method demo_request = ''PUT''" "\<not> r_BodyFails demo_request"
    by (simp_all add: demo_request_def)
  moreover obtain b where "Encode unary_gob \<lparr>cmd_type = CmdSet, cmd_key = ''key'', cmd_value = ''value''\<rparr> = Inr b"
    using EncodeD [OF unary_roundtrip] by blast
  ultimately show ?thesis
    using open_gateway [of "\<lambda>_. demo_state Leader []", OF _ demo_server_open]
    by (simp add: handleKV_def Let_def demo_path handlePut_def)
qed

theorem put_then_get_witness:
  "fst (handleKV unary_gob demo_net 0 (\<lambda>_. apply_one (memory_deps unary_gob) demo_written) (demo_request\<lparr>r_Method := ''GET''\<rparr>) demo_server) =
     Respond (json_response 200 [(''key'', JString ''key''), (''value'', JString ''value'')])"
proof -
  from demo_put obtain answer where h: "handleKV (d_gob (memory_deps unary_gob)) demo_net 0 (\<lambda>_. demo_state Leader []) demo_request demo_server =
    (Submit (projr (Encode unary_gob \<lparr>cmd_type = CmdSet, cmd_key = ''key'', cmd_value = ''value''\<rparr>)) answer, demo_server)"
    by (auto simp: memory_deps_def)
  have e: "GetEntry (d_backend (memory_deps unary_gob)) (lastApplied demo_written + 1) (rn_storage demo_written) =
      Inr (ms_entries (rn_storage demo_written) ! 1)"
    by (simp add: memory_deps_def memory_backend_def ms_GetEntry_def demo_written_def word_le_nat_alt)
  have "gob_roundtrip (d_gob (memory_deps unary_gob))" "r_Method demo_request = ''PUT''"
    by (simp_all add: memory_deps_def unary_roundtrip demo_request_def)
  from put_then_get [OF this h e, of 0 demo_server 0] show ?thesis
    by (simp add: demo_path memory_deps_def) (simp add: demo_written_def demo_request_def)
qed

text \<open>
  C37: a conditional create is not exclusive.  Two POSTs of one absent key that are checked before
  either is applied are both proposed and both answered 201 when they commit; the value of the
  second replaces the first, so a POST does not give the key to one client only.
\<close>

theorem post_race_both_created:
  assumes g: "gob_roundtrip G" and L: "IsLeader rn" and free: "\<not> snd (Get rn key)" and k: "key \<noteq> ''''"
    and s: "hs_limiter s = None" "MaxKeyBytes (hs_limits s) = 0" "MaxKeys (hs_limits s) = 0" "MaxValueBytes (hs_limits s) = 0"
    and r: "r_Method r = ''POST''" "kv_path r = key" "\<not> r_BodyFails r"
    and r': "r_Method r' = ''POST''" "kv_path r' = key" "\<not> r_BodyFails r'"
  shows "\<exists>cmd cmd' answer answer' c c'. handleKV G net t (\<lambda>_. rn) r s = (Submit cmd answer, s) \<and>
    handleKV G net t' (\<lambda>_. rn) r' s = (Submit cmd' answer', s) \<and>
    w_Status (answer (i, None)) = 201 \<and> w_Status (answer' (i', None)) = 201 \<and>
    DecodeCommand G cmd = Inr c \<and> DecodeCommand G cmd' = Inr c' \<and>
    kv_Get (kv_Apply c' (kv_Apply c kv)) key = (bytes_to_string (r_Body r'), True)"
proof -
  have one: "\<exists>cmd answer c. handleKV G net t (\<lambda>_. rn) q s = (Submit cmd answer, s) \<and> w_Status (answer (i, None)) = 201 \<and>
      DecodeCommand G cmd = Inr c \<and> c = \<lparr>cmd_type = CmdSet, cmd_key = key, cmd_value = bytes_to_string (r_Body q)\<rparr>"
    if q: "r_Method q = ''POST''" "kv_path q = key" "\<not> r_BodyFails q" for q t i
  proof -
    obtain b where b: "Encode G \<lparr>cmd_type = CmdSet, cmd_key = key, cmd_value = bytes_to_string (r_Body q)\<rparr> = Inr b"
      "DecodeCommand G b = Inr \<lparr>cmd_type = CmdSet, cmd_key = key, cmd_value = bytes_to_string (r_Body q)\<rparr>"
      using EncodeD [OF g] by blast
    with q k free show ?thesis
      using open_gateway [of "\<lambda>_. rn", OF L s]
      by (simp add: handleKV_def Let_def handlePost_def encode_or_nil_def propose_answer_def json_response_def status_defs)
  qed
  have "kv_Get (kv_Apply \<lparr>cmd_type = CmdSet, cmd_key = key, cmd_value = v'\<rparr> kv') key = (v', True)" for v' kv'
    by (simp add: kv_Get_def kv_Apply_map_of)
  with one [OF r, of t i] one [OF r', of t' i'] show ?thesis by metis
qed

theorem post_race_both_created_witness:
  "\<exists>cmd cmd' answer answer'.
     handleKV unary_gob demo_net 0 (\<lambda>_. demo_state Leader [''b'']) (demo_request\<lparr>r_Method := ''POST''\<rparr>) demo_server =
       (Submit cmd answer, demo_server) \<and>
     handleKV unary_gob demo_net 1 (\<lambda>_. demo_state Leader [''b'']) (demo_request\<lparr>r_Method := ''POST'', r_Body := [7]\<rparr>) demo_server =
       (Submit cmd' answer', demo_server) \<and>
     w_Status (answer (1, None)) = 201 \<and> w_Status (answer' (2, None)) = 201"
proof -
  have "IsLeader (demo_state Leader [''b''])" "\<not> snd (Get (demo_state Leader [''b'']) ''key'')"
    by (simp_all add: IsLeader_def Get_def kv_Get_def)
  moreover have "r_Method (demo_request\<lparr>r_Method := ''POST''\<rparr>) = ''POST''" "\<not> r_BodyFails (demo_request\<lparr>r_Method := ''POST''\<rparr>)"
    "r_Method (demo_request\<lparr>r_Method := ''POST'', r_Body := [7]\<rparr>) = ''POST''"
    "\<not> r_BodyFails (demo_request\<lparr>r_Method := ''POST'', r_Body := [7]\<rparr>)" by (simp_all add: demo_request_def)
  ultimately show ?thesis
    using post_race_both_created [OF unary_roundtrip _ _ _ demo_server_open, where rn = "demo_state Leader [''b'']"
        and r = "demo_request\<lparr>r_Method := ''POST''\<rparr>" and r' = "demo_request\<lparr>r_Method := ''POST'', r_Body := [7]\<rparr>"
        and key = "''key''" and t = 0 and t' = 1 and i = 1 and i' = 2 and net = demo_net] demo_path(2,3) by blast
qed

end
