(* ===== verification/Service_Properties.thy ===== *)
theory Service_Properties
  imports Gateway_Properties
begin

text \<open>
  The gateway, the engine and the state machine together: what a client may rely on after an
  acknowledged write, and the well-formedness of a member's state.
\<close>

section \<open>Reading what was written\<close>

text \<open>A set that no later entry of the replayed log touches is what the map holds.\<close>

definition touches :: "'s deps \<Rightarrow> string \<Rightarrow> log_entry \<Rightarrow> bool" where
  "touches D k e \<longleftrightarrow> le_command e \<noteq> [] \<and>
     (case DecodeCommand (d_gob D) (le_command e) of
        Inl _ \<Rightarrow> False
      | Inr cmd \<Rightarrow> cmd_type cmd \<in> {CmdSet, CmdDelete} \<and> cmd_key cmd = k)"

lemma apply_untouched: "\<not> touches D k e \<Longrightarrow> kv_Get (apply_entry D kv e) k = kv_Get kv k"
  by (auto simp: touches_def apply_entry_def kv_Get_def kv_Apply_map_of split: sum.splits)

lemma replay_untouched:
  "\<forall>e\<in>set es. \<not> touches D k e \<Longrightarrow> kv_Get (foldl (apply_entry D) kv es) k = kv_Get kv k"
  by (induction es arbitrary: kv) (simp_all add: apply_untouched)

lemma replay_set:
  assumes i: "i < length es" and c: "le_command (es ! i) = cmd" "cmd \<noteq> []"
    "DecodeCommand (d_gob D) cmd = Inr \<lparr>cmd_type = CmdSet, cmd_key = k, cmd_value = v\<rparr>"
    and later: "\<forall>j. i < j \<and> j < length es \<longrightarrow> \<not> touches D k (es ! j)"
  shows "kv_Get (replay D es) k = (v, True)"
proof -
  let ?kv = "replay D (take (Suc i) es)"
  have "?kv = apply_entry D (replay D (take i es)) (es ! i)"
    using i by (simp add: take_Suc_conv_app_nth replay_snoc)
  then have "kv_Get ?kv k = (v, True)"
    using c by (simp add: apply_entry_def kv_Get_def kv_Apply_map_of)
  moreover have "\<forall>e\<in>set (drop (Suc i) es). \<not> touches D k e"
    using later by (auto simp: in_set_conv_nth)
  moreover have "replay D es = foldl (apply_entry D) ?kv (drop (Suc i) es)"
    unfolding replay_def by (simp flip: foldl_append)
  ultimately show ?thesis by (simp add: replay_untouched)
qed

text \<open>
  C5: an acknowledged write is read.  When the proposal of a PUT has returned success for index
  \<open>i\<close>, the client has been answered 200; and on every member that has applied the entries up to
  \<open>i\<close> and none after it that sets or deletes the key, a GET of the same path answers 200 with
  the value of the PUT, whichever node led then and whatever crashed since.
\<close>

theorem acked_write_is_read:
  assumes b: "backend_ok D fresh fits" and N: "members_ok fits N" and r: "cluster_reach D fresh fits N c"
    and g: "gob_roundtrip (d_gob D)" and put: "r_Method q = ''PUT''"
    and h: "handleKV (d_gob D) net t node_at q s = (Submit cmd answer, s')"
    and ack: "(i, cmd) \<in> set (c_acked c)" and m: "m \<in> N" and up: "i \<le> lastApplied (c_nodes c m)"
    and last: "\<forall>j. unat i < j \<and> j \<le> unat (lastApplied (c_nodes c m)) \<longrightarrow>
      \<not> touches D (kv_path q) (Log (c_nodes c m) ! j)"
  shows "w_Status (answer (i, None)) = 200 \<and>
    fst (handleKV (d_gob D) net t' (\<lambda>_. c_nodes c m) (q\<lparr>r_Method := ''GET''\<rparr>) s'') =
      Respond (json_response 200 [(''key'', JString (kv_path q)), (''value'', JString (bytes_to_string (r_Body q)))])"
proof -
  note p = put_submits [OF g put h] and a = member_applied [OF b N r m, unfolded applied_def]
  let ?rn = "c_nodes c m"
  let ?es = "take (Suc (unat (lastApplied ?rn))) (Log ?rn)"
  have e: "le_command (Log ?rn ! unat i) = cmd"
    using acked_entry [OF b N r ack m] up a by simp
  have "unat i \<le> unat (lastApplied ?rn)" using up by (simp add: unat_le_u64)
  then have i: "unat i < length ?es" "?es ! unat i = Log ?rn ! unat i" using a by simp_all
  have "\<forall>j. unat i < j \<and> j < length ?es \<longrightarrow> \<not> touches D (kv_path q) (?es ! j)" using last by simp
  from replay_set [OF i(1) _ p(2,4) this] e i(2) a
  have "Get ?rn (kv_path q) = (bytes_to_string (r_Body q), True)" by (simp add: Get_def)
  from get_answers [OF p(1) this] p(3) show ?thesis by blast
qed

definition demo_put_kv :: http_request where
  "demo_put_kv = demo_request\<lparr>r_Path := ''/api/v1/kv/k'', r_EscapedPath := ''/api/v1/kv/k'', r_Body := string_to_bytes ''v''\<rparr>"

lemma demo_put_kv: "kv_path demo_put_kv = ''k''" "r_Method demo_put_kv = ''PUT''" "\<not> r_BodyFails demo_put_kv"
    "bytes_to_string (r_Body demo_put_kv) = ''v''"
  by (simp_all add: demo_put_kv_def demo_request_def TrimPrefix_def HasPrefix_def)

lemma demo_put_submits:
  "\<exists>answer. handleKV unary_gob demo_net 0 (\<lambda>_. c_nodes (demo_at 8) ''a'') demo_put_kv demo_server =
     (Submit demo_command answer, demo_server)"
proof -
  have "IsLeader (c_nodes (demo_at 8) ''a'')" by (simp add: IsLeader_def demo_leading_facts)
  from open_gateway [of "\<lambda>_. c_nodes (demo_at 8) ''a''", OF this demo_server_open] show ?thesis
    by (simp add: handleKV_def Let_def handlePut_def demo_put_kv Encode_def unary_gob_def demo_command_def CmdSet_def)
qed

theorem acked_write_is_read_witness:
  "fst (handleKV unary_gob demo_net 0 (\<lambda>_. c_nodes (demo_at 18) ''a'') (demo_put_kv\<lparr>r_Method := ''GET''\<rparr>) demo_server) =
     Respond (json_response 200 [(''key'', JString ''k''), (''value'', JString ''v'')])"
proof -
  have G: "d_gob demo_deps = unary_gob" by (simp add: demo_deps_def memory_deps_def)
  from demo_put_submits obtain answer where
    h: "handleKV (d_gob demo_deps) demo_net 0 (\<lambda>_. c_nodes (demo_at 8) ''a'') demo_put_kv demo_server =
      (Submit demo_command answer, demo_server)" unfolding G by blast
  have ack: "(2, demo_command) \<in> set (c_acked (demo_at 18))" by (simp add: demo_facts)
  have g: "gob_roundtrip (d_gob demo_deps)" unfolding G by (rule unary_roundtrip)
  have "\<forall>j. unat (2 :: u64) < j \<and> j \<le> unat (lastApplied (c_nodes (demo_at 18) ''a'')) \<longrightarrow>
      \<not> touches demo_deps (kv_path demo_put_kv) (Log (c_nodes (demo_at 18) ''a'') ! j)"
    by (auto simp: demo_facts)
  from acked_write_is_read [OF demo_setting g demo_put_kv(2) h ack demo_member(1) _ this, of 0 demo_server] show ?thesis
    by (simp add: demo_facts demo_put_kv G)
qed

section \<open>The type of a member\<close>

lemma kv_wf_replay: "kv_wf (replay D es)"
proof -
  have "kv_wf kv \<Longrightarrow> kv_wf (foldl (apply_entry D) kv es)" for kv
    by (induction es arbitrary: kv) (simp_all add: apply_entry_def kv_wf_Apply split: sum.split)
  then show ?thesis by (simp add: replay_def)
qed

text \<open>Terms do not fall along a log.\<close>

lemma log_terms_sorted:
  assumes sp: "spec_ok fits N a" and L: "a_log a n = abs_log es"
  shows "sorted (map (\<lambda>e. unat (le_term e)) es)"
  unfolding sorted_iff_nth_mono_less
proof (intro allI impI)
  fix i j assume i: "i < j" "j < length (map (\<lambda>e. unat (le_term e)) es)"
  have "coh (a_llog a) (a_log a n)" using spec_okD(11) [OF sp] by (simp add: inv_log_def wf_log_def)
  then obtain M where M: "a_llog a (fst (a_log a n ! j)) = Some M" "j < length M"
      "take (Suc j) (a_log a n) = take (Suc j) M"
    using i(2) unfolding coh_def L by (auto simp del: nth_map)
  have "fst (a_log a n ! i) = fst (M ! i)" using M(3) i(1) by (metis less_SucI nth_take)
  moreover have "fst (M ! i) \<le> fst (a_log a n ! j)"
    using leadD(2) [OF spec_okD(10) [OF sp] M(1), of "M ! i"] M(2) i(1) by simp
  ultimately show "map (\<lambda>e. unat (le_term e)) es ! i \<le> map (\<lambda>e. unat (le_term e)) es ! j"
    using i L by simp
qed

text \<open>
  C18: a member's state is well-formed.  In every reachable cluster a member knows itself and
  exactly the other members as its peers; its log starts with the sentinel, its entries carry
  their position, and their terms do not fall and do not exceed the member's term; its map has
  distinct keys; and a leader has leader state, with a \<open>nextIndex\<close> between 1 and the end of the
  log and a \<open>matchIndex\<close> within the log for every peer.
\<close>

theorem member_well_formed:
  assumes b: "backend_ok D fresh fits" and N: "members_ok fits N" and r: "cluster_reach D fresh fits N c" and n: "n \<in> N"
  defines "rn \<equiv> c_nodes c n"
  shows "node_id rn = n \<and> distinct (keys (rn_peers rn)) \<and> fst ` set (rn_peers rn) = N - {n} \<and>
    log_ok (Log rn) \<and> sorted (map (\<lambda>e. unat (le_term e)) (Log rn)) \<and> (\<forall>e\<in>set (Log rn). le_term e \<le> CurrentTerm rn) \<and>
    kv_wf (rn_kvStore rn) \<and>
    (rn_role rn = Leader \<longrightarrow> (\<exists>ls. rn_leader rn = Some ls \<and> fst ` set (ls_MatchIndex ls) = N - {n} \<and>
      (\<forall>(p, k) \<in> set (ls_MatchIndex ls). unat k < length (Log rn)) \<and>
      (\<forall>p\<in>N - {n}. 0 < map_get 0 (ls_NextIndex ls) p \<and> unat (map_get 0 (ls_NextIndex ls) p) \<le> length (Log rn))))"
proof -
  obtain ok term_of vote_of log_of a where e: "engine (d_backend D) ok term_of vote_of log_of fits D"
    and c: "engine.csim ok term_of vote_of log_of fits D N c a" by (rule cluster_abs [OF b N r])
  note sp = abs_spec [OF e c] and an = abs_node [OF e c n, folded rn_def]
  have st: "storage (d_backend D) ok term_of vote_of log_of fits" using e by (simp add: engine_def)
  have cfg: "configured N n rn" using engine.csimD(3) [OF e c n] by (simp add: node_sim_def rn_def)
  have lo: "log_ok (Log rn)" using an(5) storage.ok_log [OF st] by (simp add: mirrors_def)
  have tm: "le_term x \<le> CurrentTerm rn" if "x \<in> set (Log rn)" for x
  proof -
    have "\<forall>y\<in>set (a_log a n). fst y \<le> a_term a n" using spec_okD(11) [OF sp] by (simp add: inv_log_def)
    with that show ?thesis by (simp add: an(1,2) unat_le_u64)
  qed
  have ld: "\<exists>ls. rn_leader rn = Some ls \<and> fst ` set (ls_MatchIndex ls) = N - {n} \<and>
      (\<forall>(p, k) \<in> set (ls_MatchIndex ls). unat k < length (Log rn)) \<and>
      (\<forall>p\<in>N - {n}. 0 < map_get 0 (ls_NextIndex ls) p \<and> unat (map_get 0 (ls_NextIndex ls) p) \<le> length (Log rn))"
    if R: "rn_role rn = Leader"
  proof -
    have L: "a_role a n = Leader" using R an(3) by simp
    from an(8) [OF L] obtain ls where ls: "rn_leader rn = Some ls" "fst ` set (ls_MatchIndex ls) = N - {n}"
      and acks: "\<forall>(p, k) \<in> set (ls_MatchIndex ls). \<forall>j. 0 < j \<and> j \<le> unat k \<longrightarrow> (unat (CurrentTerm rn), p, j) \<in> a_acks a"
      and nxt: "\<forall>p\<in>N - {n}. 0 < unat (map_get 0 (ls_NextIndex ls) p) \<and> unat (map_get 0 (ls_NextIndex ls) p) \<le> length (Log rn)"
      unfolding leading_def by blast
    have "unat k < length (Log rn)" if k: "(p, k) \<in> set (ls_MatchIndex ls)" for p k
    proof (cases "unat k = 0")
      case False
      with acks k have "(unat (CurrentTerm rn), p, unat k) \<in> a_acks a" by blast
      from ackD(2) [OF spec_okD(6) [OF sp] this] leaderD(2) [OF spec_okD(10) [OF sp] L] show ?thesis
        by (simp add: an(1,2))
    qed (use log_okD(6) [OF lo] in simp)
    with ls nxt show ?thesis by (auto simp: unat_gt_0 word_gt_0)
  qed
  have "kv_wf (rn_kvStore rn)" using an(6) kv_wf_replay by (simp add: applied_def)
  with configuredD [OF cfg] lo log_terms_sorted [OF sp an(2)] tm ld show ?thesis by blast
qed

theorem member_well_formed_witness:
  "sorted (map (\<lambda>e. unat (le_term e)) (Log (c_nodes (demo_at 18) ''b''))) \<and> log_ok (Log (c_nodes (demo_at 18) ''b''))"
  using member_well_formed [OF demo_setting demo_member(2)] by blast

end
