(* ===== verification/Catch_Up.thy ===== *)
theory Catch_Up
  imports Replication_Properties
begin

text \<open>
  A follower catches up.  Heartbeats of a leader reach one follower, the rest of the network does
  nothing: each refusal takes the peer's \<open>nextIndex\<close> back by one, until the logs agree at the
  position before it, and then each answer moves it on by up to 256 entries, and the last one
  commits.
\<close>

section \<open>A round of heartbeats\<close>

text \<open>
  The heartbeat timer of the leader, the delivery of its request to \<open>p\<close>, and the answer, each in
  its environment; the calls to the other peers and the retry after a refusal are lost.
\<close>

fun heartbeat_round ::
    "'s deps \<Rightarrow> string \<Rightarrow> env \<times> env \<times> env \<Rightarrow> 's raft_node \<times> 's raft_node \<Rightarrow> ('s raft_node \<times> 's raft_node) option" where
  "heartbeat_round D p (e1, e2, e3) (L, F) =
     (case on_heartbeat_timer D Leader e1 L of (L, cs) \<Rightarrow>
        (case map_of cs p of
           Some (AppendCall req k) \<Rightarrow>
             (case HandleAppendEntries D e2 req F of (resp, F) \<Rightarrow>
                map_option (\<lambda>(L, _). (L, F)) (on_append_response D e3 p req k resp L))
         | _ \<Rightarrow> None))"

fun heartbeats ::
    "'s deps \<Rightarrow> string \<Rightarrow> (env \<times> env \<times> env) list \<Rightarrow> 's raft_node \<times> 's raft_node \<Rightarrow> ('s raft_node \<times> 's raft_node) option" where
  "heartbeats D p [] s = Some s"
| "heartbeats D p (es # ess) s =
     (case heartbeat_round D p es s of None \<Rightarrow> None | Some s \<Rightarrow> heartbeats D p ess s)"

section \<open>What stays and what progresses\<close>

text \<open>The other peers that are known to hold index \<open>n\<close>.\<close>

definition others_at :: "string \<Rightarrow> nat \<Rightarrow> leader_state \<Rightarrow> (string \<times> u64) list" where
  "others_at p n ls = filter (\<lambda>(q, m). q \<noteq> p \<and> n \<le> unat m) (ls_MatchIndex ls)"

definition leads :: "string \<Rightarrow> 's raft_node \<Rightarrow> leader_state \<Rightarrow> 's raft_node \<Rightarrow> leader_state \<Rightarrow> bool" where
  "leads p L0 ls0 L ls \<longleftrightarrow> rn_role L = Leader \<and> rn_leader L = Some ls \<and> Log L = Log L0 \<and>
     CurrentTerm L = CurrentTerm L0 \<and> rn_peers L = rn_peers L0 \<and> next_of ls p \<le> length (Log L0) \<and>
     unat (commitIndex L) < length (Log L0) \<and> lastApplied L \<le> commitIndex L \<and>
     (\<forall>n. others_at p n ls = others_at p n ls0)"

text \<open>The follower is known to agree up to the position before the next one, and it is committed if it can be.\<close>

definition confirmed :: "string \<Rightarrow> 's raft_node \<Rightarrow> leader_state \<Rightarrow> bool" where
  "confirmed p L ls \<longleftrightarrow>
     next_of ls p - 1 \<le> unat (map_get 0 (ls_MatchIndex ls) p) \<and> lastApplied L = commitIndex L \<and>
     (le_term (Log L ! (next_of ls p - 1)) = CurrentTerm L \<and> on_majority L ls (next_of ls p - 1) \<longrightarrow>
      next_of ls p - 1 \<le> unat (commitIndex L))"

definition agrees_at :: "'s raft_node \<Rightarrow> 's raft_node \<Rightarrow> nat \<Rightarrow> bool" where
  "agrees_at L F i \<longleftrightarrow> i < length (Log F) \<and> le_term (Log F ! i) = le_term (Log L ! i)"

lemma commit_fold_applied: "lastApplied (foldl (commit_at D ls k) rn xs) = lastApplied rn"
  by (induction xs arbitrary: rn) (simp_all add: commit_at_def split: sum.split)

lemma next_of_pos: "0 < next_of ls p"
  by (simp add: next_of_def)

lemma others_at_update:
  "filter (\<lambda>(q, m). q \<noteq> p \<and> P m) (AList.update p v al) = filter (\<lambda>(q, m). q \<noteq> p \<and> P m) al"
  by (induction al) auto

lemma on_majority_others:
  assumes "map_of (ls_MatchIndex ls) p = Some m" and "n \<le> unat m"
    and "length (rn_peers rn) + 1 < 2 * (2 + length (others_at p n ls))"
  shows "on_majority rn ls n"
proof -
  have "length (filter (\<lambda>(q, m). q \<noteq> p \<and> n \<le> unat m) al) < length (filter (\<lambda>(q, m). n \<le> unat m) al)"
    if "(p, m) \<in> set al" for al
    using that
  proof (induction al)
    case (Cons x al)
    have "length (filter (\<lambda>(q, m). q \<noteq> p \<and> n \<le> unat m) al) \<le> length (filter (\<lambda>(q, m). n \<le> unat m) al)"
      by (induction al) auto
    with Cons assms(2) show ?case by (cases "x = (p, m)") (auto split: prod.splits)
  qed simp
  from this [OF map_of_SomeD [OF assms(1)]] assms(3) show ?thesis
    by (simp add: on_majority_def others_at_def)
qed

context engine
begin

section \<open>The heartbeat\<close>

lemma heartbeat_call:
  assumes m: "mirroring L" and l: "leads p L0 ls0 L ls" and p: "p \<in> set (keys (rn_peers L))"
  obtains L1 ls1 cs where "on_heartbeat_timer D Leader e L = (L1, cs)" and "map_of cs p = Some (append_call L (next_of ls p))"
    and "mirroring L1" and "leads p L0 ls0 L1 ls1" and "next_of ls1 p = next_of ls p"
    and "Log L1 = Log L" and "CurrentTerm L1 = CurrentTerm L"
proof -
  have L: "rn_role L = Leader" "rn_leader L = Some ls" using l by (simp_all add: leads_def)
  obtain ls1 mt where f: "fst (send_to_all D (keys (rn_peers L)) L) = L\<lparr>rn_leader := Some ls1, rn_metrics := mt\<rparr>"
    and n: "\<forall>q. next_of ls1 q = next_of ls q" "ls_MatchIndex ls1 = ls_MatchIndex ls"
    using send_to_all_state [OF L] by blast
  let ?L1 = "resetHeartbeatTimer e (L\<lparr>rn_leader := Some ls1, rn_metrics := mt\<rparr>)"
  have "sendHeartbeats D L = (L\<lparr>rn_leader := Some ls1, rn_metrics := mt\<rparr>, map (\<lambda>p. (p, append_call L (next_of ls p))) (keys (rn_peers L)))"
    using f broadcast_calls [OF m L] L by (simp add: sendHeartbeats_def broadcastAppendEntriesLocked_def prod_eq_iff)
  then have hb: "on_heartbeat_timer D Leader e L = (?L1, map (\<lambda>p. (p, append_call L (next_of ls p))) (keys (rn_peers L)))"
    by (simp add: on_heartbeat_timer_def)
  have mp: "map_of (map (\<lambda>p. (p, append_call L (next_of ls p))) ks) p = Some (append_call L (next_of ls p))"
    if "p \<in> set ks" for ks
    using that by (induction ks) auto
  have "mirroring ?L1" using m by (simp add: mirrors_def frame)
  moreover note hb mp [OF p]
  moreover have "leads p L0 ls0 ?L1 ls1" using l n by (simp add: leads_def others_at_def frame)
  moreover have "next_of ls1 p = next_of ls p" "Log ?L1 = Log L" "CurrentTerm ?L1 = CurrentTerm L" using n by (simp_all add: frame)
  ultimately show thesis using that by blast
qed

lemma request_props:
  assumes m: "mirroring L" and f: "\<forall>e\<in>set (Log L). fits (le_command e)" and x: "0 < x" "x \<le> length (Log L)"
  shows "ae_term (request_from L x) = CurrentTerm L" "Suc (unat (ae_prev_log_index (request_from L x))) = x"
    "length (ae_entries (request_from L x)) = min 256 (length (Log L) - x)"
    "numbered x (ae_entries (request_from L x))" "x + length (ae_entries (request_from L x)) < 2 ^ 64"
    "\<forall>e\<in>set (ae_entries (request_from L x)). fits (le_command e)"
    "ae_prev_log_term (request_from L x) = le_term (Log L ! (x - 1))"
    "j < length (ae_entries (request_from L x)) \<Longrightarrow> ae_entries (request_from L x) ! j = Log L ! (x + j)"
proof -
  note lo = log_okD [OF mirrors_log_ok [OF m]]
  have "unat (of_nat (x - 1) :: u64) = x - 1" using x lo(5) by (intro unat_of_nat_u64) simp
  then show "Suc (unat (ae_prev_log_index (request_from L x))) = x" using x by (simp add: request_from_def)
  have "numbered (0 + x) (drop x (Log L))" using numbered_drop [OF lo(4), of x] by simp
  then show "numbered x (ae_entries (request_from L x))"
    by (simp add: request_from_def numbered_take)
  show "x + length (ae_entries (request_from L x)) < 2 ^ 64" using x lo(5) by (simp add: request_from_def)
  show "\<forall>e\<in>set (ae_entries (request_from L x)). fits (le_command e)"
    using f by (auto simp: request_from_def dest: in_set_takeD in_set_dropD)
  have "x - Suc 0 < length (Log L)" using x by simp
  then show "ae_prev_log_term (request_from L x) = le_term (Log L ! (x - 1))" by (simp add: request_from_def)
  show "j < length (ae_entries (request_from L x)) \<Longrightarrow> ae_entries (request_from L x) ! j = Log L ! (x + j)"
    using x by (simp add: request_from_def)
qed (simp_all add: request_from_def)

section \<open>The answer\<close>

text \<open>A leader commits what it can, and has then applied it.\<close>

lemma commit_advance:
  assumes m: "mirroring L" and L: "rn_role L = Leader" "rn_leader L = Some ls"
    and c: "unat (commitIndex L) < length (Log L)" and la: "lastApplied L \<le> commitIndex L"
  defines "L' \<equiv> checkAndUpdateCommitIndexLocked D L"
  shows "unat (commitIndex L') < length (Log L)" and "lastApplied L' = commitIndex L'"
    and "k < length (Log L) \<Longrightarrow> le_term (Log L ! k) = CurrentTerm L \<Longrightarrow> on_majority L ls k \<Longrightarrow> k \<le> unat (commitIndex L')"
proof -
  let ?C = "insert (unat (commitIndex L)) (committable L ls)"
  have c': "unat (commitIndex L') = Max ?C" unfolding L'_def using m L c by (rule commit_rule)
  have sub: "?C \<subseteq> {..< length (Log L)}" using c by (auto simp: committable_def)
  then have fin: "finite ?C" by (rule finite_subset) simp
  show "unat (commitIndex L') < length (Log L)" unfolding c' using Max_in [OF fin] sub by blast
  have old: "unat (commitIndex L) \<le> Max ?C" by (rule Max_ge [OF fin]) simp
  show "k \<le> unat (commitIndex L')"
    if "k < length (Log L)" "le_term (Log L ! k) = CurrentTerm L" "on_majority L ls k"
  proof (cases "unat (commitIndex L) < k")
    case True
    with that have "k \<in> ?C" by (simp add: committable_def)
    then show ?thesis unfolding c' by (rule Max_ge [OF fin])
  qed (use old in \<open>simp add: c'\<close>)
  define L2 where "L2 = foldl (commit_at D ls ((length (rn_peers L) + 1) div 2 + 1)) L
      (index_range (commitIndex L + 1) (fst (LastIndex B (rn_storage L))))"
  have eq: "L' = applyCommittedEntriesLocked D L2"
    using L by (simp add: L'_def checkAndUpdateCommitIndexLocked_def Let_def L2_def)
  have "commitIndex L \<le> commitIndex L2" using old unfolding unat_le_u64 c' [symmetric] eq by (simp add: applyCommitted_frame)
  moreover have "lastApplied L2 = lastApplied L" unfolding L2_def by (rule commit_fold_applied)
  ultimately have "lastApplied L2 \<le> commitIndex L2" using la by simp
  then show "lastApplied L' = commitIndex L'" unfolding eq by (auto simp: applyCommitted_lastApplied applyCommitted_frame)
qed

lemma answer_success:
  assumes m: "mirroring L" and l: "leads p L0 ls0 L ls" and r: "aer_term resp = CurrentTerm L" "aer_success resp"
    and req: "ae_term req = CurrentTerm L" and x: "Suc (unat (ae_prev_log_index req)) = next_of ls p"
    and y: "y = next_of ls p + k" "y \<le> length (Log L)"
  shows "\<exists>L' ls'. on_append_response D e p req k resp L = Some (L', []) \<and> mirroring L' \<and> leads p L0 ls0 L' ls' \<and>
    next_of ls' p = y \<and> confirmed p L' ls'"
proof -
  have L: "rn_role L = Leader" "rn_leader L = Some ls" and lt: "unat (commitIndex L) < length (Log L)"
    and la: "lastApplied L \<le> commitIndex L" using l by (simp_all add: leads_def)
  have len: "length (Log L) < 2 ^ 64" by (rule log_okD(5) [OF mirrors_log_ok [OF m]])
  let ?w = "ae_prev_log_index req + of_nat k + 1"
  have "?w = of_nat (Suc (unat (ae_prev_log_index req)) + k)" by simp
  then have w: "?w = of_nat y" unfolding x y(1) [symmetric] .
  then have uw: "unat ?w = y" using y(2) len by (simp only: unat_of_nat_u64)
  have y0: "0 < y" using next_of_pos [of ls p] y(1) by simp
  have uw1: "unat (z - 1) = unat z - 1" if "0 < unat z" for z :: u64
    using that by (simp add: unat_sub word_le_nat_alt)
  from this [of ?w] y0 uw have uw1: "unat (?w - 1) = y - 1" by (simp only: uw)
  define ls1 where "ls1 = (if map_get 0 (ls_NextIndex ls) p < ?w then ls\<lparr>ls_NextIndex := AList.update p ?w (ls_NextIndex ls)\<rparr> else ls)"
  define ls2 where "ls2 = (if map_get 0 (ls_MatchIndex ls1) p < ?w - 1 then ls1\<lparr>ls_MatchIndex := AList.update p (?w - 1) (ls_MatchIndex ls1)\<rparr> else ls1)"
  define L1 where "L1 = L\<lparr>rn_leader := Some ls2\<rparr>"
  have le: "unat (map_get 0 (ls_NextIndex ls) p) \<le> y" using y(1) by (simp add: next_of_def)
  have "next_of ls1 p = y" using y0 le uw by (auto simp: ls1_def next_of_def unat_less_u64)
  then have nx: "next_of ls2 p = y" by (simp add: ls2_def next_of_def)
  have mt: "y - 1 \<le> unat (map_get 0 (ls_MatchIndex ls2) p)" using uw1 by (auto simp: ls2_def unat_less_u64)
  have ot: "others_at p n ls2 = others_at p n ls" for n
    by (simp add: ls2_def ls1_def others_at_def others_at_update)
  have m1: "mirroring L1" and c1: "unat (commitIndex L1) < length (Log L1)" using m lt by (simp_all add: L1_def mirrors_def)
  let ?L' = "checkAndUpdateCommitIndexLocked D L1"
  have "rn_role L1 = Leader" "rn_leader L1 = Some ls2" "lastApplied L1 \<le> commitIndex L1" using L la by (simp_all add: L1_def)
  note ca = commit_advance [OF m1 this(1,2) c1 this(3)]
  have lt': "unat (commitIndex ?L') < length (Log L1)" and ap: "lastApplied ?L' = commitIndex ?L'" by (rule ca(1), rule ca(2))
  have "y - 1 < length (Log L1)" using y(2) y0 by (simp add: L1_def)
  note ge = ca(3) [OF this]
  have fr: "rn_role ?L' = Leader" "rn_leader ?L' = Some ls2" "Log ?L' = Log L" "CurrentTerm ?L' = CurrentTerm L"
    "rn_peers ?L' = rn_peers L" "rn_storage ?L' = rn_storage L" "VotedFor ?L' = VotedFor L" "Log L1 = Log L"
    "CurrentTerm L1 = CurrentTerm L" "rn_peers L1 = rn_peers L"
    by (simp_all add: checkAndUpdate_frame) (simp_all add: L1_def L)
  have "on_append_response D e p req k resp L = Some (?L', [])"
    using L r req by (simp add: on_append_response_def checkTerm_def Let_def ls1_def ls2_def L1_def)
  moreover have "mirroring ?L'" using m by (simp add: mirrors_def fr)
  moreover have "leads p L0 ls0 ?L' ls2" using l lt' ap nx y(2) by (simp add: leads_def fr ot)
  moreover have "confirmed p ?L' ls2" using mt ap ge by (auto simp: confirmed_def nx fr on_majority_def)
  ultimately show ?thesis using nx by blast
qed

lemma answer_refusal:
  assumes m: "mirroring L" and l: "leads p L0 ls0 L ls" and r: "aer_term resp = CurrentTerm L" "\<not> aer_success resp"
    and req: "ae_term req = CurrentTerm L" and x: "1 < next_of ls p"
  shows "\<exists>L' cs ls'. on_append_response D e p req k resp L = Some (L', cs) \<and> mirroring L' \<and> leads p L0 ls0 L' ls' \<and>
    next_of ls' p = next_of ls p - 1"
proof -
  have L: "rn_role L = Leader" "rn_leader L = Some ls" using l by (simp_all add: leads_def)
  let ?x = "map_get 0 (ls_NextIndex ls) p"
  define ls1 where "ls1 = ls\<lparr>ls_NextIndex := AList.update p (?x - 1) (ls_NextIndex ls)\<rparr>"
  have ux: "1 < unat ?x" using x by (simp add: next_of_def max_def split: if_splits)
  then have gt: "1 < ?x" by (simp add: unat_less_u64)
  have "unat (?x - 1) = unat ?x - 1" using ux by (simp add: unat_sub word_le_nat_alt)
  then have nx: "next_of ls1 p = next_of ls p - 1" using ux by (simp add: next_of_def ls1_def)
  define L1 where "L1 = L\<lparr>rn_leader := Some ls1\<rparr>"
  have "rn_role L1 = Leader" "rn_leader L1 = Some ls1" using L by (simp_all add: L1_def)
  then obtain ls2 mt where f0: "fst (sendAppendEntriesToPeerLocked D p L1) = L1\<lparr>rn_leader := Some ls2, rn_metrics := mt\<rparr>"
    and n: "\<And>q. next_of ls2 q = next_of ls1 q" "ls_MatchIndex ls2 = ls_MatchIndex ls1"
    by (rule send_state) blast
  have f: "fst (sendAppendEntriesToPeerLocked D p L1) = L\<lparr>rn_leader := Some ls2, rn_metrics := mt\<rparr>"
    unfolding f0 by (simp add: L1_def)
  have "on_append_response D e p req k resp L = Some (sendAppendEntriesToPeerLocked D p L1)"
    using L r req gt by (simp add: on_append_response_def checkTerm_def Let_def ls1_def L1_def)
  moreover have "mirroring (L\<lparr>rn_leader := Some ls2, rn_metrics := mt\<rparr>)" using m by (simp add: mirrors_def)
  moreover have "leads p L0 ls0 (L\<lparr>rn_leader := Some ls2, rn_metrics := mt\<rparr>) ls2"
    using l n by (simp add: leads_def others_at_def nx [unfolded ls1_def] ls1_def le_diff_conv trans_le_add1)
  moreover have "next_of ls2 p = next_of ls p - 1" using n nx by simp
  ultimately show ?thesis using f by (metis prod.collapse)
qed


section \<open>Progress\<close>

text \<open>One round, for a follower whose term is not newer.\<close>

text \<open>A follower that holds what it was sent agrees with the leader at the end of it.\<close>

lemma held_agrees:
  assumes m: "mirroring L" "mirroring F" and f: "\<forall>e\<in>set (Log L). fits (le_command e)" and x: "0 < x" "x \<le> length (Log L)"
    and he: "holds_entries (request_from L x) (Log F)"
  shows "agrees_at L F (x + length (ae_entries (request_from L x)) - 1)"
proof (cases "ae_entries (request_from L x) = []")
  case True
  note rq = request_props [OF m(1) f x]
  have p0: "unat (ae_prev_log_index (request_from L x)) = x - 1" using rq(2) by simp
  have p1: "ae_prev_log_index (request_from L x) = 0 \<longleftrightarrow> x = 1" using p0 x(1) by (auto simp: unat_eq_0 [symmetric])
  have "x \<le> length (Log F)" "x = 1 \<or> le_term (Log F ! (x - 1)) = le_term (Log L ! (x - 1))"
    using he rq(2,7) by (simp_all add: holds_entries_def p0 p1)
  moreover have "le_term (Log F ! 0) = le_term (Log L ! 0)"
    using log_okD(1-3) [OF mirrors_log_ok [OF m(1)]] log_okD(1-3) [OF mirrors_log_ok [OF m(2)]] by simp
  ultimately show ?thesis using True x(1) by (auto simp: agrees_at_def)
next
  case False
  note rq = request_props [OF m(1) f x]
  let ?es = "ae_entries (request_from L x)"
  let ?j = "length ?es - 1"
  have j: "?j < length ?es" "x + ?j = x + length ?es - 1" using False by (simp_all add: Suc_leI)
  have "x + length ?es \<le> length (Log F)" "le_term (Log F ! (x + ?j)) = le_term (?es ! ?j)"
    using he j(1) by (auto simp: holds_entries_def rq(2))
  then show ?thesis using rq(8) [OF j(1)] j x by (simp add: agrees_at_def)
qed

lemma round_progress:
  assumes m: "mirroring L" "mirroring F" and l: "leads p L0 ls0 L ls" and t: "CurrentTerm F \<le> CurrentTerm L"
    and p: "p \<in> set (keys (rn_peers L))" and f: "\<forall>e\<in>set (Log L). fits (le_command e)"
  shows "\<exists>L' F' ls'. heartbeat_round D p es (L, F) = Some (L', F') \<and> mirroring L' \<and> mirroring F' \<and>
    leads p L0 ls0 L' ls' \<and> CurrentTerm F' = CurrentTerm L' \<and> length (Log F') \<le> max (length (Log F)) (length (Log L)) \<and>
    (if next_of ls p = 1 \<or> agrees_at L F (next_of ls p - 1)
     then next_of ls' p = min (length (Log L)) (next_of ls p + 256) \<and> confirmed p L' ls' \<and>
       agrees_at L' F' (next_of ls' p - 1)
     else next_of ls' p = next_of ls p - 1)"
proof -
  obtain e1 e2 e3 where es: "es = (e1, e2, e3)" by (cases es)
  let ?x = "next_of ls p"
  let ?r = "request_from L ?x"
  obtain L1 ls1 cs where hb: "on_heartbeat_timer D Leader e1 L = (L1, cs)" "map_of cs p = Some (append_call L ?x)"
    and m1: "mirroring L1" and l1: "leads p L0 ls0 L1 ls1" and n1: "next_of ls1 p = ?x" "Log L1 = Log L" "CurrentTerm L1 = CurrentTerm L"
    by (rule heartbeat_call [OF m(1) l p])
  have x: "0 < ?x" "?x \<le> length (Log L)" using l by (simp_all add: next_of_pos leads_def)
  note rq = request_props [OF m(1) f x]
  obtain resp F' where h: "HandleAppendEntries D e2 ?r F = (resp, F')" by fastforce
  have "numbered (Suc (unat (ae_prev_log_index ?r))) (ae_entries ?r)"
    "Suc (unat (ae_prev_log_index ?r)) + length (ae_entries ?r) < 2 ^ 64" using rq(2,4,5) by simp_all
  note ac = accept_entries [OF m(2) this rq(6) h]
  have tm: "mirroring F'" "CurrentTerm F' = CurrentTerm L" "aer_term resp = CurrentTerm L" using ac(3) t rq(1) by simp_all
  have ln: "length (Log F') \<le> max (length (Log F)) (length (Log L))" using ac(4) rq(2,3) x by simp
  have p0: "unat (ae_prev_log_index ?r) = ?x - 1" using rq(2) by simp
  have p1: "ae_prev_log_index ?r = 0 \<longleftrightarrow> ?x = 1" using p0 x(1) by (auto simp: unat_eq_0 [symmetric])
  have su: "aer_success resp \<longleftrightarrow> ?x = 1 \<or> agrees_at L F (?x - 1)"
    using ac(1) t rq(1,7) by (simp add: prev_held_def p0 p1 agrees_at_def)
  have rd: "heartbeat_round D p es (L, F) = map_option (\<lambda>(L, _). (L, F'))
      (on_append_response D e3 p ?r (length (ae_entries ?r)) resp L1)"
    using hb h by (simp add: es)
  show ?thesis
  proof (cases "aer_success resp")
    case True
    let ?y = "min (length (Log L)) (?x + 256)"
    have y: "?y = next_of ls1 p + length (ae_entries ?r)" "?y \<le> length (Log L1)" using rq(3) x n1 by simp_all
    obtain L' ls' where r: "on_append_response D e3 p ?r (length (ae_entries ?r)) resp L1 = Some (L', [])"
      "mirroring L'" "leads p L0 ls0 L' ls'" "next_of ls' p = ?y" "confirmed p L' ls'"
      using answer_success [OF m1 l1 _ True _ _ y, of ?r e3] tm(3) rq(1,2) n1 by auto
    have he: "holds_entries ?r (Log F')" using ac(2) True by (metis (full_types))
    have "agrees_at L F' (?y - 1)" unfolding y(1) n1(1) by (rule held_agrees [OF m(1) tm(1) f x he])
    then have "agrees_at L' F' (next_of ls' p - 1)" using r(3,4) l by (simp add: agrees_at_def leads_def)
    moreover have "CurrentTerm F' = CurrentTerm L'" using tm(2) r(3) l by (simp add: leads_def)
    ultimately show ?thesis using r rd tm(1) ln True su by auto
  next
    case False
    then have x1: "1 < next_of ls1 p" using su x(1) n1(1) by auto
    obtain L' cs ls' where r: "on_append_response D e3 p ?r (length (ae_entries ?r)) resp L1 = Some (L', cs)"
      "mirroring L'" "leads p L0 ls0 L' ls'" "next_of ls' p = ?x - 1"
      using answer_refusal [OF m1 l1 _ False _ x1, of ?r e3 "length (ae_entries ?r)"] tm(3) rq(1) n1 by auto
    have "CurrentTerm F' = CurrentTerm L'" using tm(2) r(3) l by (simp add: leads_def)
    then show ?thesis using r rd tm(1) ln False su by auto
  qed
qed


lemma catches_up:
  assumes "mirroring L" and "mirroring F" and "leads p L0 ls0 L ls" and "CurrentTerm F \<le> CurrentTerm L"
    and "p \<in> set (keys (rn_peers L0))" and "\<forall>e\<in>set (Log L0). fits (le_command e)"
    and "next_of ls p + length (Log L0) div 256 \<le> length ess \<or>
      confirmed p L ls \<and> agrees_at L F (next_of ls p - 1) \<and> length (Log L0) \<le> next_of ls p + 256 * length ess"
  shows "\<exists>L' F' ls'. heartbeats D p ess (L, F) = Some (L', F') \<and> mirroring L' \<and> mirroring F' \<and>
    leads p L0 ls0 L' ls' \<and> next_of ls' p = length (Log L0) \<and> confirmed p L' ls' \<and>
    agrees_at L' F' (length (Log L0) - 1)"
  using assms
proof (induction ess arbitrary: L F ls)
  case Nil
  with next_of_pos [of ls p] have c: "confirmed p L ls" "agrees_at L F (next_of ls p - 1)" "length (Log L0) \<le> next_of ls p" by auto
  moreover have "next_of ls p \<le> length (Log L0)" using Nil.prems(3) by (simp add: leads_def)
  ultimately have "next_of ls p = length (Log L0)" by simp
  with Nil.prems(1-3) c show ?case by auto
next
  case (Cons es ess)
  note l = Cons.prems(3)
  have l0: "rn_peers L = rn_peers L0" "Log L = Log L0" "next_of ls p \<le> length (Log L0)" using l by (simp_all add: leads_def)
  have pf: "p \<in> set (keys (rn_peers L))" "\<forall>e\<in>set (Log L). fits (le_command e)"
    unfolding l0(1,2) by (rule Cons.prems(5), rule Cons.prems(6))
  obtain L' F' ls' where r: "heartbeat_round D p es (L, F) = Some (L', F')" "mirroring L'" "mirroring F'"
    "leads p L0 ls0 L' ls'" "CurrentTerm F' = CurrentTerm L'"
    and n: "if next_of ls p = 1 \<or> agrees_at L F (next_of ls p - 1)
     then next_of ls' p = min (length (Log L)) (next_of ls p + 256) \<and> confirmed p L' ls' \<and>
       agrees_at L' F' (next_of ls' p - 1)
     else next_of ls' p = next_of ls p - 1"
    using round_progress [OF Cons.prems(1,2) l Cons.prems(4) pf, of es] by blast
  have "next_of ls' p + length (Log L0) div 256 \<le> length ess \<or>
      confirmed p L' ls' \<and> agrees_at L' F' (next_of ls' p - 1) \<and> length (Log L0) \<le> next_of ls' p + 256 * length ess"
  proof (cases "next_of ls p = 1 \<or> agrees_at L F (next_of ls p - 1)")
    case True
    have "length (Log L0) < 256 * (length (Log L0) div 256) + 256"
      using div_mult_mod_eq [of "length (Log L0)" 256] mod_less_divisor [of 256 "length (Log L0)"] by linarith
    then have "length (Log L0) \<le> next_of ls p + 256 + 256 * length ess"
      using Cons.prems(7) next_of_pos [of ls p] by (elim disjE conjE) (simp_all del: div_less)
    with n True l0 show ?thesis by auto
  next
    case False
    with n Cons.prems(7) next_of_pos [of ls p] have "next_of ls' p + length (Log L0) div 256 \<le> length ess" by auto
    then show ?thesis ..
  qed
  from Cons.IH [OF r(2-4) _ Cons.prems(5,6) this] r(1,5) show ?case by simp
qed

end

lemma confirmed_commit:
  assumes l: "leads p L0 ls0 L ls" and c: "confirmed p L ls" and n: "next_of ls p = length (Log L0)"
    and t: "le_term (last (Log L0)) = CurrentTerm L0"
    and q: "length (rn_peers L0) + 1 < 2 * (2 + length (others_at p (length (Log L0) - 1) ls0))"
  shows "unat (commitIndex L) = length (Log L0) - 1 \<and> lastApplied L = commitIndex L"
proof -
  have l': "Log L = Log L0" "CurrentTerm L = CurrentTerm L0" "rn_peers L = rn_peers L0"
    "unat (commitIndex L) < length (Log L0)" "others_at p k ls = others_at p k ls0" for k
    using l by (simp_all add: leads_def)
  have la: "le_term (Log L ! (length (Log L0) - 1)) = CurrentTerm L"
    using t l'(1,2) next_of_pos [of ls p] n by (simp add: last_conv_nth)
  have mt: "length (Log L0) - 1 \<le> unat (map_get 0 (ls_MatchIndex ls) p)" using c n by (simp add: confirmed_def)
  have "length (Log L0) - 1 \<le> unat (commitIndex L)"
  proof (cases "map_of (ls_MatchIndex ls) p")
    case None
    with mt show ?thesis by (simp add: map_get_def)
  next
    case (Some m)
    then have "length (Log L0) - 1 \<le> unat m" using mt by (simp add: map_get_def)
    moreover have "length (rn_peers L) + 1 < 2 * (2 + length (others_at p (length (Log L0) - 1) ls))"
      using q by (simp only: l'(3,5))
    ultimately have "on_majority L ls (length (Log L0) - 1)" by (rule on_majority_others [OF Some])
    with c la n show ?thesis by (simp add: confirmed_def)
  qed
  with l'(4) c show ?thesis by (simp add: confirmed_def)
qed

section \<open>Property\<close>

text \<open>
  A follower catches up.  However far its log is from the leader's, a follower that answers
  every heartbeat holds the leader's last entry after at most \<open>nextIndex + length div 256\<close> of them,
  and the leader still leads the term with the same log.  If the last entry is of its own term and
  the peers that hold it are then a majority, it is committed and applied.
\<close>

theorem follower_catches_up:
  assumes s: "storage (d_backend D) ok term_of vote_of log_of fits"
    and mL: "mirrors ok term_of vote_of log_of L" and mF: "mirrors ok term_of vote_of log_of F"
    and L: "rn_role L = Leader" and ls: "rn_leader L = Some ls" and p: "p \<in> set (map fst (rn_peers L))"
    and t: "CurrentTerm F \<le> CurrentTerm L" and f: "\<forall>e\<in>set (Log L). fits (le_command e)"
    and x: "x = max 1 (unat (map_get 0 (ls_NextIndex ls) p))" "x \<le> length (Log L)"
    and c: "unat (commitIndex L) < length (Log L)" and a: "lastApplied L \<le> commitIndex L"
    and rounds: "x + length (Log L) div 256 \<le> length ess"
  shows "\<exists>L' F'. heartbeats D p ess (L, F) = Some (L', F') \<and>
    rn_role L' = Leader \<and> CurrentTerm L' = CurrentTerm L \<and> Log L' = Log L \<and>
    length (Log L) \<le> length (Log F') \<and> le_term (Log F' ! (length (Log L) - 1)) = le_term (last (Log L)) \<and>
    (le_term (last (Log L)) = CurrentTerm L \<and>
     length (rn_peers L) + 1 < 2 * (2 + length (filter (\<lambda>(q, m). q \<noteq> p \<and> length (Log L) - 1 \<le> unat m) (ls_MatchIndex ls))) \<longrightarrow>
     unat (commitIndex L') = length (Log L) - 1 \<and> lastApplied L' = commitIndex L')"
proof -
  have n: "next_of ls p = x" by (simp add: next_of_def x(1))
  have l: "leads p L ls L ls" using L ls x(2) n c a by (simp add: leads_def)
  have p': "p \<in> set (keys (rn_peers L))" using p by simp
  obtain L' F' ls' where h: "heartbeats D p ess (L, F) = Some (L', F')" and l': "leads p L ls L' ls'"
    and cf: "next_of ls' p = length (Log L)" "confirmed p L' ls'" "agrees_at L' F' (length (Log L) - 1)"
    using engine.catches_up [OF engine_of [OF s] mL mF l t p' f] rounds n by blast
  have eq: "rn_role L' = Leader" "CurrentTerm L' = CurrentTerm L" "Log L' = Log L" using l' by (simp_all add: leads_def)
  have ne: "Log L \<noteq> []" using cf(1) next_of_pos [of ls' p] by auto
  have "length (Log L) \<le> length (Log F')" "le_term (Log F' ! (length (Log L) - 1)) = le_term (last (Log L))"
    using cf(3) ne by (auto simp: agrees_at_def eq last_conv_nth)
  with h eq confirmed_commit [OF l' cf(2,1)] show ?thesis by (simp add: others_at_def)
qed

theorem follower_catches_up_witness:
  "\<exists>L' F'. heartbeats demo_deps ''b'' [(demo_env 1, demo_env 1, demo_env 2)] (demo_state Leader [''b'', ''c''], demo_node ''b'' [''a'', ''c'']) =
     Some (L', F') \<and> 3 \<le> length (Log F') \<and> commitIndex L' = 2"
proof -
  have m: "mirrors ms_ok ms_term ms_votedFor ms_entries (demo_node ''b'' [''a'', ''c''])"
    by (simp add: mirrors_def demo_node_def boot_def NewRaftNode_def Start_def Let_def SetMetrics_def demo_deps_def
        memory_deps_def memory_store_defs NewMemoryStore_def ms_ok_def log_ok_def numbered_def)
  have p: "''b'' \<in> set (map fst (rn_peers (demo_state Leader [''b'', ''c''])))" by (simp add: peer_map_def)
  have c: "le_term (last (Log (demo_state Leader [''b'', ''c'']))) = CurrentTerm (demo_state Leader [''b'', ''c''])"
    "length (rn_peers (demo_state Leader [''b'', ''c''])) + 1 < 2 * (2 + 0)" by (simp_all add: demo_log_def peer_map_def)
  note w = follower_catches_up [OF demo_storage demo_mirrors m _ _ p _ _ refl]
  have "\<exists>L' F'. heartbeats demo_deps ''b'' [(demo_env 1, demo_env 1, demo_env 2)] (demo_state Leader [''b'', ''c''], demo_node ''b'' [''a'', ''c'']) =
      Some (L', F') \<and> 3 \<le> length (Log F') \<and> unat (commitIndex L') = 2"
    using w [where ess = "[(demo_env 1, demo_env 1, demo_env 2)]"] c by (auto simp: map_get_def demo_timeouts)
  then show ?thesis by (auto simp: u64_eq_iff)
qed

end
