(* ===== verification/Waiting_Clients.thy ===== *)
theory Waiting_Clients
  imports Catch_Up
begin

text \<open>
  A client that waits for its proposal: the leader keeps its channel registered under the index of
  the proposal until the entry is applied, and then the message of success is in the channel.
\<close>

section \<open>A proposal that is pending or answered\<close>

definition served :: "'s deps \<Rightarrow> u64 \<Rightarrow> nat \<Rightarrow> 's raft_node \<Rightarrow> bool" where
  "served D i ch rn \<longleftrightarrow> (ch, None) \<in> set (rn_chans rn) \<or>
     map_of (rn_pendingCommits rn) i = Some ch \<and> lastApplied rn < i \<and>
     (\<exists>e cmd. GetEntry (d_backend D) i (rn_storage rn) = Inr e \<and> le_command e \<noteq> [] \<and>
        DecodeCommand (d_gob D) (le_command e) = Inr cmd)"

lemma served_same:
  assumes "served D i ch rn" and "rn_chans rn' = rn_chans rn" and "rn_pendingCommits rn' = rn_pendingCommits rn"
    and "lastApplied rn' = lastApplied rn" and "rn_storage rn' = rn_storage rn"
  shows "served D i ch rn'"
  using assms by (simp add: served_def)

lemma apply_one_chans: "set (rn_chans rn) \<subseteq> set (rn_chans (apply_one D rn))"
  by (auto simp: apply_one_def Let_def split: sum.split option.split)

lemma apply_one_pending:
  "i \<noteq> lastApplied rn + 1 \<Longrightarrow> map_of (rn_pendingCommits (apply_one D rn)) i = map_of (rn_pendingCommits rn) i"
  by (auto simp: apply_one_def Let_def delete_conv split: sum.split option.split)

lemma apply_one_sends:
  assumes "map_of (rn_pendingCommits rn) i = Some ch" and "i = lastApplied rn + 1"
    and "GetEntry (d_backend D) i (rn_storage rn) = Inr e" and "le_command e \<noteq> []"
    and "DecodeCommand (d_gob D) (le_command e) = Inr cmd"
  shows "(ch, None) \<in> set (rn_chans (apply_one D rn))"
  using assms by (simp add: apply_one_def Let_def)

lemma served_apply_one:
  assumes s: "served D i ch rn" and a: "lastApplied rn < commitIndex rn"
  shows "served D i ch (apply_one D rn)"
proof (cases "(ch, None) \<in> set (rn_chans rn)")
  case True
  then show ?thesis using apply_one_chans [of rn D] by (auto simp: served_def)
next
  case False
  with s obtain e cmd where p: "map_of (rn_pendingCommits rn) i = Some ch" "lastApplied rn < i"
    and e: "GetEntry (d_backend D) i (rn_storage rn) = Inr e" "le_command e \<noteq> []"
      "DecodeCommand (d_gob D) (le_command e) = Inr cmd" by (auto simp: served_def)
  show ?thesis
  proof (cases "i = lastApplied rn + 1")
    case True
    from apply_one_sends [OF p(1) True e] show ?thesis by (simp add: served_def)
  next
    case False
    have "lastApplied rn + 1 \<le> i" using p(2) by (rule inc_le)
    with False have "lastApplied rn + 1 < i" by simp
    then show ?thesis using e p(1) apply_one_pending [OF False, of D] by (simp add: served_def effects frame)
  qed
qed

lemma served_apply: "served D i ch rn \<Longrightarrow> served D i ch (applyCommittedEntriesLocked D rn)"
proof (induction rn rule: apply_induct [where D = D])
  case (1 rn)
  show ?case
  proof (cases "lastApplied rn < commitIndex rn")
    case True
    with 1 served_apply_one [OF 1(2) True] show ?thesis by (subst applyCommittedEntriesLocked.simps) simp
  next
    case False
    with 1(2) show ?thesis by (subst applyCommittedEntriesLocked.simps) simp
  qed
qed

section \<open>What a leader does in a round of heartbeats\<close>

lemma served_commit:
  assumes "served D i ch rn"
  shows "served D i ch (checkAndUpdateCommitIndexLocked D rn)"
proof (cases "rn_role rn = Leader \<and> rn_leader rn \<noteq> None")
  case True
  then obtain ls k xs where
    eq: "checkAndUpdateCommitIndexLocked D rn = applyCommittedEntriesLocked D (foldl (commit_at D ls k) rn xs)"
    by (auto simp: checkAndUpdateCommitIndexLocked_def Let_def)
  have "served D i ch (foldl (commit_at D ls k) rn xs)"
    by (rule served_same [OF assms]) (simp_all add: frame commit_fold_applied)
  then show ?thesis unfolding eq by (rule served_apply)
qed (use assms in \<open>auto simp: checkAndUpdateCommitIndexLocked_def split: option.split\<close>)

lemma served_heartbeat:
  assumes s: "served D i ch rn" and h: "on_heartbeat_timer D r e rn = (rn', cs)"
  shows "served D i ch rn'"
proof -
  obtain rn1 cs1 where b: "broadcastAppendEntriesLocked D rn = (rn1, cs1)" by fastforce
  from broadcast_shape [OF b] b h show ?thesis
    by (intro served_same [OF s]) (auto simp: on_heartbeat_timer_def sendHeartbeats_def frame split: if_splits)
qed

lemma served_append_response:
  assumes s: "served D i ch rn" and o: "on_append_response D e p r k resp rn = Some (rn', cs)"
    and L: "rn_role rn' = Leader"
  shows "served D i ch rn'"
proof -
  obtain t rn1 where ct: "checkTerm D (aer_term resp) rn = (t, rn1)" by fastforce
  have t: "\<not> t"
  proof
    assume t
    with o ct have "rn_role rn' = rn_role rn1" by (auto simp: on_append_response_def frame)
    with ct \<open>t\<close> L show False by (auto simp: checkTerm_def Let_def abort_pending_def split: if_splits)
  qed
  with ct have rn1: "rn1 = rn" by (auto simp: checkTerm_def Let_def split: if_splits)
  from o ct t consider "rn' = rn" | x where "rn' = checkAndUpdateCommitIndexLocked D (rn\<lparr>rn_leader := x\<rparr>)"
    | x where "sendAppendEntriesToPeerLocked D p (rn\<lparr>rn_leader := x\<rparr>) = (rn', cs)"
    by (auto simp: on_append_response_def Let_def rn1 split: bool.splits if_splits option.splits)
  then show ?thesis
  proof cases
    case (2 x)
    have "served D i ch (rn\<lparr>rn_leader := x\<rparr>)" by (rule served_same [OF s]) simp_all
    then show ?thesis unfolding 2 by (rule served_commit)
  next
    case (3 x)
    from send_shape [OF 3] show ?thesis by (auto intro!: served_same [OF s])
  qed (simp add: s)
qed

lemma served_round:
  assumes s: "served D i ch L" and h: "heartbeat_round D p es (L, F) = Some (L', F')" and l: "rn_role L' = Leader"
  shows "served D i ch L'"
proof -
  obtain e1 e2 e3 where es: "es = (e1, e2, e3)" by (cases es)
  obtain L1 cs req k resp cs' where hb: "on_heartbeat_timer D Leader e1 L = (L1, cs)"
    and o: "on_append_response D e3 p req k resp L1 = Some (L', cs')"
    using h by (auto simp: es split: prod.splits option.splits rpc_call.splits)
  show ?thesis by (rule served_append_response [OF served_heartbeat [OF s hb] o l])
qed

section \<open>A proposal of a leader\<close>

context engine
begin

text \<open>On a leader with peers a proposal is appended and registered, and its requests are sent.\<close>

lemma propose_waits:
  assumes m: "mirroring rn" and L: "rn_role rn = Leader" and p: "rn_peers rn \<noteq> []"
    and len: "length (Log rn) < 2 ^ 64 - 1" and f: "fits cmd"
  obtains rn' cs where "ProposeCommand D cmd rn = (ProposeWait (of_nat (length (Log rn))) (rn_nextChan rn), rn', cs)"
    and "Log rn' = Log rn @ [entry_of rn cmd]" and "CurrentTerm rn' = CurrentTerm rn" and "rn_role rn' = Leader"
    and "map_of (rn_pendingCommits rn') (of_nat (length (Log rn))) = Some (rn_nextChan rn)"
    and "lastApplied rn' = lastApplied rn" and "mirroring rn'"
proof -
  let ?l = "fst (LastIndex B (rn_storage rn))" and ?i = "of_nat (length (Log rn)) :: u64"
  have "unat (?l + 1) = length (Log rn)" by (rule mirrors_LastIndex_Suc [OF m])
  then have l: "?l + 1 = ?i" by (metis of_nat_unat ucast_id)
  have n: "numbered (length (Log rn)) [entry_of rn cmd]" by (simp add: numbered_single entry_of_def)
  obtain st where st: "AppendEntries B [entry_of rn cmd] (rn_storage rn) = (None, st)"
    and m2: "mirroring ((set_Log (Log rn @ [entry_of rn cmd]) rn)\<lparr>rn_storage := st\<rparr>)"
    using mirrors_append [OF m n] len f by (auto simp: entry_of_def)
  have e: "\<lparr>le_index = ?i, le_term = CurrentTerm rn, le_command = cmd\<rparr> = entry_of rn cmd" by (simp add: entry_of_def)
  define rn2 where "rn2 = ((set_Log (Log rn @ [entry_of rn cmd]) rn)\<lparr>rn_storage := st\<rparr>)\<lparr>
      rn_nextChan := Suc (rn_nextChan rn), rn_pendingCommits := AList.update ?i (rn_nextChan rn) (rn_pendingCommits rn)\<rparr>"
  obtain rn' cs where b: "broadcastAppendEntriesLocked D rn2 = (rn', cs)" by fastforce
  from broadcast_shape [OF b] obtain x y where r: "rn' = rn2\<lparr>rn_leader := x, rn_metrics := y\<rparr>" by blast
  have "ProposeCommand D cmd rn = (ProposeWait ?i (rn_nextChan rn), rn', cs)"
    using L p st b by (simp add: ProposeCommand_def Let_def l e rn2_def)
  moreover have "mirroring rn'" using m2 by (simp add: mirrors_def r rn2_def)
  ultimately show thesis using L by (intro that [of rn' cs]) (simp_all add: r rn2_def update_conv)
qed

end

section \<open>The return\<close>

text \<open>The goroutine of the client finds the message of success in its channel.\<close>

lemma propose_receive_served:
  assumes "client_ok rn" and "(ch, None) \<in> set (rn_chans rn)"
  shows "\<exists>rn'. propose_receive i ch t rn = Some ((i, None), rn') \<and> rn_kvStore rn' = rn_kvStore rn \<and>
    rn_role rn' = rn_role rn \<and> rn_persistent rn' = rn_persistent rn"
proof -
  have "distinct (map fst (rn_chans rn))" using assms(1) by (simp add: client_ok_def chan_ids_def)
  with assms(2) have "map_of (rn_chans rn) ch = Some None" by simp
  then show ?thesis by (simp add: propose_receive_def Let_def)
qed

end
