(* ===== verification/Cluster_Progress.thy ===== *)
theory Cluster_Progress
  imports Waiting_Clients
begin

text \<open>
  Progress of a cluster: rounds of heartbeats are events of the cluster, so a leader whose term a
  majority does not exceed can always bring its whole log to that majority and commit it.
\<close>

section \<open>Clients keep waiting\<close>

text \<open>
  The proposals that wait on a node are not touched: whatever is pending or answered stays so, and
  the clients wait on.
\<close>

definition keeps_waiting :: "'s deps \<Rightarrow> string \<Rightarrow> 's cluster \<Rightarrow> 's cluster \<Rightarrow> bool" where
  "keeps_waiting D n c c' \<longleftrightarrow> c_waiters c' = c_waiters c \<and>
     (\<forall>i ch. served D i ch (c_nodes c n) \<longrightarrow> served D i ch (c_nodes c' n))"

lemma keeps_waiting_refl [simp]: "keeps_waiting D n c c"
  by (simp add: keeps_waiting_def)

lemma keeps_waiting_trans: "keeps_waiting D n c c' \<Longrightarrow> keeps_waiting D n c' c'' \<Longrightarrow> keeps_waiting D n c c''"
  by (simp add: keeps_waiting_def)

section \<open>A round is three events\<close>

text \<open>The events of log replication by the leader \<open>n\<close>: its heartbeats, deliveries and answers.\<close>

fun replicates :: "string \<Rightarrow> event \<Rightarrow> bool" where
  "replicates n (HeartbeatTimer m r e) \<longleftrightarrow> m = n"
| "replicates n (Deliver i e) \<longleftrightarrow> True"
| "replicates n (Reply i r e) \<longleftrightarrow> True"
| "replicates n _ \<longleftrightarrow> False"

lemma run_append: "run D N (evs @ evs') c = (case run D N evs c of None \<Rightarrow> None | Some c \<Rightarrow> run D N evs' c)"
  by (induction evs arbitrary: c) (auto split: option.split)

lemma find_spawned:
  assumes "ids_ok c" and "(p, k) \<in> set cs"
  obtains i where "map_of (c_calls (spawn n cs c)) i = Some (n, p, k)" and "i \<in> set (c_waiting (spawn n cs c))"
proof -
  from assms(2) obtain j where "j < length cs" "cs ! j = (p, k)" by (auto simp: in_set_conv_nth)
  then have i: "(c_next c + j, p, k) \<in> new_calls (c_next c) cs" by (auto simp: new_calls_def)
  have "distinct (keys (c_calls (spawn n cs c)))" using ids_ok_spawn [OF assms(1)] by (simp add: ids_ok_def)
  moreover have "(c_next c + j, n, p, k) \<in> set (c_calls (spawn n cs c))" using i by (auto simp: spawn_calls)
  ultimately have "map_of (c_calls (spawn n cs c)) (c_next c + j) = Some (n, p, k)" by (simp add: map_of_is_SomeI)
  moreover have "c_next c + j \<in> set (c_waiting (spawn n cs c))" using i by (force simp: spawn_waiting)
  ultimately show thesis by (rule that)
qed

lemma no_wrap_set:
  assumes "no_wrap N c" and "c_nodes c' = (c_nodes c)(n := rn)" and "CurrentTerm rn < - 1" and "length (Log rn) < 2 ^ 64 - 1"
  shows "no_wrap N c'"
  using assms by (simp add: no_wrap_def)

lemma round_events:
  assumes b: "backend_ok D fresh fits" and N: "members_ok fits N" and r: "cluster_reach D fresh fits N c"
    and n: "n \<in> N" and p: "p \<in> N" "p \<noteq> n"
    and h: "heartbeat_round D p es (c_nodes c n, c_nodes c p) = Some (L, F)"
    and L: "CurrentTerm L = CurrentTerm (c_nodes c n)" "Log L = Log (c_nodes c n)"
    and F: "CurrentTerm F < - 1" "length (Log F) < 2 ^ 64 - 1" and LL: "rn_role L = Leader"
  obtains evs c' where "run D N evs c = Some c'" and "cluster_reach D fresh fits N c'"
    and "c_nodes c' = (c_nodes c)(n := L, p := F)" and "length evs = 3" and "keeps_waiting D n c c'"
    and "list_all (replicates n) evs"
proof -
  obtain ok term_of vote_of log_of a where e: "engine (d_backend D) ok term_of vote_of log_of fits D"
    and sim: "engine.csim ok term_of vote_of log_of fits D N c a" and nw: "no_wrap N c" by (rule cluster_abs [OF b N r])
  obtain e1 e2 e3 where es: "es = (e1, e2, e3)" by (cases es)
  obtain L1 cs req k resp cs' where hb: "on_heartbeat_timer D Leader e1 (c_nodes c n) = (L1, cs)"
    and m: "map_of cs p = Some (AppendCall req k)" and a: "HandleAppendEntries D e2 req (c_nodes c p) = (resp, F)"
    and o: "on_append_response D e3 p req k resp L1 = Some (L, cs')"
    using h by (auto simp: es split: prod.splits option.splits rpc_call.splits)
  have f: "CurrentTerm L1 = CurrentTerm (c_nodes c n)" "Log L1 = Log (c_nodes c n)"
  proof -
    obtain rn cs0 where s: "broadcastAppendEntriesLocked D (c_nodes c n) = (rn, cs0)" by fastforce
    from broadcast_shape [OF s] s hb show "CurrentTerm L1 = CurrentTerm (c_nodes c n)" "Log L1 = Log (c_nodes c n)"
      by (auto simp: on_heartbeat_timer_def sendHeartbeats_def frame)
  qed
  have tn: "CurrentTerm (c_nodes c n) < - 1" "length (Log (c_nodes c n)) < 2 ^ 64 - 1" using nw n by (simp_all add: no_wrap_def)
  define c1 where "c1 = spawn n cs (set_node n L1 c)"
  have n1: "c_nodes c1 = (c_nodes c)(n := L1)" by (simp add: c1_def)
  have x1: "exec D N (HeartbeatTimer n Leader e1) c = Some c1" using n hb by (simp add: c1_def)
  have w1: "no_wrap N c1" using no_wrap_set [OF nw n1] f tn by simp
  then have r1: "cluster_reach D fresh fits N c1" using cluster_reach.step [OF r x1] by simp
  have "ids_ok (set_node n L1 c)" using engine.csimD(2) [OF e sim] by (simp add: ids_ok_def)
  from find_spawned [OF this map_of_SomeD [OF m], of n] obtain i where
    i: "map_of (c_calls c1) i = Some (n, p, AppendCall req k)" "i \<in> set (c_waiting c1)"
    unfolding c1_def by blast
  define c2 where "c2 = (set_node p F c1)\<lparr>c_replies := (i, AppendReply resp) # c_replies c1\<rparr>"
  have x2: "exec D N (Deliver i e2) c1 = Some c2" using i(1) a p(2) by (simp add: deliver_def n1 c2_def)
  have n2: "c_nodes c2 = (c_nodes c1)(p := F)" by (simp add: c2_def)
  have w2: "no_wrap N c2" using no_wrap_set [OF w1 n2] F by simp
  then have r2: "cluster_reach D fresh fits N c2" using cluster_reach.step [OF r1 x2] by simp
  define c3 where "c3 = spawn n cs' ((set_node n L c2)\<lparr>c_waiting := removeAll i (c_waiting c2)\<rparr>)"
  have "c_nodes c2 n = L1" using p(2) by (simp add: n2 n1)
  then have x3: "exec D N (Reply i (AppendReply resp) e3) c2 = Some c3"
    using i o by (simp add: receive_def c2_def c3_def)
  have n3: "c_nodes c3 = (c_nodes c2)(n := L)" by (simp add: c3_def)
  have "no_wrap N c3" using no_wrap_set [OF w2 n3] L tn by simp
  then have r3: "cluster_reach D fresh fits N c3" using cluster_reach.step [OF r2 x3] by simp
  have nd: "c_nodes c3 = (c_nodes c)(n := L, p := F)" using p(2) by (auto simp: n3 n2 n1 fun_upd_twist)
  have x: "run D N [HeartbeatTimer n Leader e1, Deliver i e2, Reply i (AppendReply resp) e3] c = Some c3"
    using x1 x2 x3 by simp
  have kw: "keeps_waiting D n c c3"
    using served_round [OF _ h LL] p(2) by (simp add: keeps_waiting_def nd) (simp add: c3_def c2_def c1_def)
  from that [OF x r3 nd _ kw] show thesis by simp
qed

section \<open>What a leader of a reachable cluster starts from\<close>

lemma leader_setting:
  assumes b: "backend_ok D fresh fits" and N: "members_ok fits N" and r: "cluster_reach D fresh fits N c"
    and n: "n \<in> N" and p: "p \<in> N" "p \<noteq> n" and L: "rn_role (c_nodes c n) = Leader"
  obtains ok term_of vote_of log_of ls where "engine (d_backend D) ok term_of vote_of log_of fits D"
    and "mirrors ok term_of vote_of log_of (c_nodes c n)" and "mirrors ok term_of vote_of log_of (c_nodes c p)"
    and "leads p (c_nodes c n) ls (c_nodes c n) ls" and "p \<in> set (keys (rn_peers (c_nodes c n)))"
    and "\<forall>e\<in>set (Log (c_nodes c n)). fits (le_command e)"
    and "rn_leader (c_nodes c n) = Some ls"
proof -
  obtain ok term_of vote_of log_of a where e: "engine (d_backend D) ok term_of vote_of log_of fits D"
    and c: "engine.csim ok term_of vote_of log_of fits D N c a" by (rule cluster_abs [OF b N r])
  note sp = abs_spec [OF e c] and an = abs_node [OF e c n]
  have R: "a_role a n = Leader" using L an(3) by simp
  from an(8) [OF R] obtain ls where ls: "rn_leader (c_nodes c n) = Some ls"
    and nx: "\<forall>p\<in>N - {n}. 0 < unat (map_get 0 (ls_NextIndex ls) p) \<and> unat (map_get 0 (ls_NextIndex ls) p) \<le> length (Log (c_nodes c n))"
    unfolding leading_def by blast
  have "next_of ls p \<le> length (Log (c_nodes c n))" using nx p by (auto simp: next_of_def)
  with L ls an(6) have l: "leads p (c_nodes c n) ls (c_nodes c n) ls" by (simp add: leads_def applied_def)
  have "configured N n (c_nodes c n)" using engine.csimD(3) [OF e c n] by (simp add: node_sim_def)
  then have k: "p \<in> set (keys (rn_peers (c_nodes c n)))" using configuredD(3) p by fastforce
  from leaderD(2) [OF spec_okD(10) [OF sp] R] spec_okD(4) [OF sp]
  obtain l where "a_log a n = abs_log l" "\<forall>e\<in>set l. fits (le_command e)" unfolding hist_ok_def by blast
  then have f: "\<forall>e\<in>set (Log (c_nodes c n)). fits (le_command e)" by (simp add: an(2))
  show thesis by (rule that [OF e an(5) abs_node(5) [OF e c p(1)] l k f ls])
qed

section \<open>One follower\<close>

lemma heartbeats_events:
  assumes b: "backend_ok D fresh fits" and N: "members_ok fits N" and n: "n \<in> N" and p: "p \<in> N" "p \<noteq> n"
  shows "cluster_reach D fresh fits N c \<Longrightarrow> rn_role (c_nodes c n) = Leader \<Longrightarrow>
    CurrentTerm (c_nodes c p) \<le> CurrentTerm (c_nodes c n) \<Longrightarrow> heartbeats D p ess (c_nodes c n, c_nodes c p) = Some (L, F) \<Longrightarrow>
    \<exists>evs c'. run D N evs c = Some c' \<and> cluster_reach D fresh fits N c' \<and> c_nodes c' = (c_nodes c)(n := L, p := F) \<and>
      length evs = 3 * length ess \<and> keeps_waiting D n c c' \<and> list_all (replicates n) evs"
proof (induction ess arbitrary: c)
  case Nil
  then have "run D N [] c = Some c" "c_nodes c = (c_nodes c)(n := L, p := F)" by auto
  with Nil.prems(1) show ?case by (metis keeps_waiting_refl list.size(3) list.pred_inject(1) mult_0_right)
next
  case (Cons es ess)
  note r = Cons.prems(1)
  obtain ok term_of vote_of log_of ls where e: "engine (d_backend D) ok term_of vote_of log_of fits D"
    and m: "mirrors ok term_of vote_of log_of (c_nodes c n)" "mirrors ok term_of vote_of log_of (c_nodes c p)"
    and l: "leads p (c_nodes c n) ls (c_nodes c n) ls" "p \<in> set (keys (rn_peers (c_nodes c n)))"
      "\<forall>e\<in>set (Log (c_nodes c n)). fits (le_command e)"
    by (rule leader_setting [OF b N r n p Cons.prems(2)])
  obtain L1 F1 ls1 where h: "heartbeat_round D p es (c_nodes c n, c_nodes c p) = Some (L1, F1)"
    and l1: "leads p (c_nodes c n) ls L1 ls1" and t1: "CurrentTerm F1 = CurrentTerm L1"
    and len: "length (Log F1) \<le> max (length (Log (c_nodes c p))) (length (Log (c_nodes c n)))"
    using engine.round_progress [OF e m l(1) Cons.prems(3) l(2,3), of es] by blast
  have eq: "CurrentTerm L1 = CurrentTerm (c_nodes c n)" "Log L1 = Log (c_nodes c n)" "rn_role L1 = Leader"
    using l1 by (simp_all add: leads_def)
  have "no_wrap N c" using r by (cases rule: cluster_reach.cases) simp_all
  then have "CurrentTerm F1 < - 1" "max (length (Log (c_nodes c p))) (length (Log (c_nodes c n))) < 2 ^ 64 - 1"
    using n p t1 eq(1) by (simp_all add: no_wrap_def)
  with len have "CurrentTerm F1 < - 1" "length (Log F1) < 2 ^ 64 - 1" by linarith+
  from round_events [OF b N r n p h eq(1,2) this eq(3)] obtain evs1 c1 where
    c1: "run D N evs1 c = Some c1" "cluster_reach D fresh fits N c1" "c_nodes c1 = (c_nodes c)(n := L1, p := F1)" "length evs1 = 3"
      "keeps_waiting D n c c1" "list_all (replicates n) evs1" .
  have nd: "c_nodes c1 n = L1" "c_nodes c1 p = F1" using p(2) by (simp_all add: c1(3))
  have "heartbeats D p ess (c_nodes c1 n, c_nodes c1 p) = Some (L, F)" using Cons.prems(4) h nd by simp
  from Cons.IH [OF c1(2) _ _ this, unfolded nd, OF eq(3)] t1 obtain evs2 c2 where
    c2: "run D N evs2 c1 = Some c2" "cluster_reach D fresh fits N c2" "c_nodes c2 = (c_nodes c1)(n := L, p := F)"
    "length evs2 = 3 * length ess" "keeps_waiting D n c1 c2" "list_all (replicates n) evs2" by (metis order_refl)
  have "c_nodes c2 = (c_nodes c)(n := L, p := F)" using p(2) by (auto simp: c2(3) c1(3))
  moreover have "run D N (evs1 @ evs2) c = Some c2" using c1(1) c2(1) by (simp add: run_append)
  moreover have "length (evs1 @ evs2) = 3 * length (es # ess)" using c1(4) c2(4) by simp
  moreover have "keeps_waiting D n c c2" using c1(5) c2(5) by (rule keeps_waiting_trans)
  moreover have "list_all (replicates n) (evs1 @ evs2)" using c1(6) c2(6) by simp
  ultimately show ?case using c2(2) by blast
qed

text \<open>One follower catches up, whatever the other peers have acknowledged.\<close>

lemma peer_catches_up:
  assumes b: "backend_ok D fresh fits" and N: "members_ok fits N" and r: "cluster_reach D fresh fits N c"
    and n: "n \<in> N" and p: "p \<in> N" "p \<noteq> n" and L: "rn_role (c_nodes c n) = Leader"
    and t: "CurrentTerm (c_nodes c p) \<le> CurrentTerm (c_nodes c n)" and ls: "rn_leader (c_nodes c n) = Some ls"
  obtains evs c' ls' where "run D N evs c = Some c'" and "cluster_reach D fresh fits N c'"
    and "\<And>m. m \<noteq> n \<Longrightarrow> m \<noteq> p \<Longrightarrow> c_nodes c' m = c_nodes c m" and "leads p (c_nodes c n) ls (c_nodes c' n) ls'"
    and "next_of ls' p = length (Log (c_nodes c n))" and "confirmed p (c_nodes c' n) ls'"
    and "agrees_at (c_nodes c' n) (c_nodes c' p) (length (Log (c_nodes c n)) - 1)"
    and "length evs \<le> 3 * (length (Log (c_nodes c n)) + length (Log (c_nodes c n)) div 256)" and "keeps_waiting D n c c'"
    and "list_all (replicates n) evs"
proof -
  let ?L = "c_nodes c n" and ?F = "c_nodes c p"
  obtain ok term_of vote_of log_of ls0 where e: "engine (d_backend D) ok term_of vote_of log_of fits D"
    and m: "mirrors ok term_of vote_of log_of ?L" "mirrors ok term_of vote_of log_of ?F"
    and l: "leads p ?L ls0 ?L ls0" "p \<in> set (keys (rn_peers ?L))" "\<forall>e\<in>set (Log ?L). fits (le_command e)" "rn_leader ?L = Some ls0"
    by (rule leader_setting [OF b N r n p L])
  have "ls0 = ls" using l(4) ls by simp
  with l(1) have l': "leads p ?L ls ?L ls" by simp
  define ess where "ess = replicate (next_of ls p + length (Log ?L) div 256) (undefined :: env \<times> env \<times> env)"
  have k: "next_of ls p + length (Log ?L) div 256 \<le> length ess" by (simp add: ess_def)
  have len: "length ess \<le> length (Log ?L) + length (Log ?L) div 256" using l' by (simp add: ess_def leads_def)
  obtain L' F' ls' where h: "heartbeats D p ess (?L, ?F) = Some (L', F')" and x: "leads p ?L ls L' ls'"
    "next_of ls' p = length (Log ?L)" "confirmed p L' ls'" "agrees_at L' F' (length (Log ?L) - 1)"
    using engine.catches_up [OF e m l' t l(2,3)] k by blast
  from heartbeats_events [OF b N n p r L t h] obtain evs c' where
    c': "run D N evs c = Some c'" "cluster_reach D fresh fits N c'" "c_nodes c' = (c_nodes c)(n := L', p := F')"
    "length evs = 3 * length ess" "keeps_waiting D n c c'" "list_all (replicates n) evs" by blast
  have "c_nodes c' n = L'" "c_nodes c' p = F'" using p(2) by (simp_all add: c'(3))
  with x c' len show thesis by (intro that [of evs c' ls']) auto
qed

section \<open>A majority\<close>

text \<open>The peers that a leader knows to hold index \<open>k\<close>.\<close>

definition held_by :: "nat \<Rightarrow> leader_state \<Rightarrow> string set" where
  "held_by k ls = {q. \<exists>m. (q, m) \<in> set (ls_MatchIndex ls) \<and> k \<le> unat m}"

lemma held_by_others: "held_by k ls - {p} = fst ` set (others_at p k ls)"
  by (force simp: held_by_def others_at_def)

lemma leads_held: "leads p L0 ls0 L ls \<Longrightarrow> held_by k ls - {p} = held_by k ls0 - {p}"
  by (simp add: held_by_others leads_def)

lemma confirmed_held:
  assumes "confirmed p L ls" and "next_of ls p = Suc k" and "0 < k"
  shows "p \<in> held_by k ls"
proof -
  have k: "k \<le> unat (map_get 0 (ls_MatchIndex ls) p)" using assms(1,2) by (simp add: confirmed_def)
  then have "map_of (ls_MatchIndex ls) p = Some (map_get 0 (ls_MatchIndex ls) p)"
    using assms(3) by (cases "map_of (ls_MatchIndex ls) p") (simp_all add: map_get_def)
  from map_of_SomeD [OF this] k show ?thesis by (auto simp: held_by_def)
qed

lemma held_commits:
  assumes l: "leads p L0 ls0 L ls" and c: "confirmed p L ls" and n: "next_of ls p = length (Log L0)"
    and t: "le_term (last (Log L0)) = CurrentTerm L0" and ps: "distinct ps" "p \<notin> set ps"
    and h: "length (Log L0) \<noteq> 1 \<Longrightarrow> set ps \<subseteq> held_by (length (Log L0) - 1) ls0"
    and q: "length (rn_peers L0) + 1 < 2 * (2 + length ps)"
  shows "unat (commitIndex L) = length (Log L0) - 1"
proof (cases "length (Log L0) = 1")
  case True
  with l show ?thesis by (simp add: leads_def)
next
  case False
  let ?o = "others_at p (length (Log L0) - 1) ls0"
  have "set ps \<subseteq> fst ` set ?o" using h [OF False] ps(2) by (simp add: held_by_others [symmetric]) blast
  then have "card (set ps) \<le> card (fst ` set ?o)" by (intro card_mono) simp_all
  also have "\<dots> \<le> length (map fst ?o)" unfolding set_map [symmetric] by (rule card_length)
  finally have "length ps \<le> length ?o" using ps(1) by (simp add: distinct_card)
  with q have "length (rn_peers L0) + 1 < 2 * (2 + length ?o)" by simp
  from confirmed_commit [OF l c n t this] show ?thesis by simp
qed

lemma peers_catch_up:
  assumes b: "backend_ok D fresh fits" and N: "members_ok fits N" and r: "cluster_reach D fresh fits N c"
    and n: "n \<in> N" and L: "rn_role (c_nodes c n) = Leader"
  defines "k \<equiv> length (Log (c_nodes c n)) - 1"
  shows "distinct ps \<Longrightarrow> set ps \<subseteq> N - {n} \<Longrightarrow> \<forall>p\<in>set ps. CurrentTerm (c_nodes c p) \<le> CurrentTerm (c_nodes c n) \<Longrightarrow>
    \<exists>evs c' ls'. run D N evs c = Some c' \<and> cluster_reach D fresh fits N c' \<and>
      rn_role (c_nodes c' n) = Leader \<and> CurrentTerm (c_nodes c' n) = CurrentTerm (c_nodes c n) \<and>
      Log (c_nodes c' n) = Log (c_nodes c n) \<and> rn_peers (c_nodes c' n) = rn_peers (c_nodes c n) \<and>
      (\<forall>m. m \<notin> insert n (set ps) \<longrightarrow> c_nodes c' m = c_nodes c m) \<and>
      (\<forall>p\<in>set ps. agrees_at (c_nodes c n) (c_nodes c' p) k) \<and>
      rn_leader (c_nodes c' n) = Some ls' \<and> (k \<noteq> 0 \<longrightarrow> set ps \<subseteq> held_by k ls') \<and>
      length evs \<le> length ps * (3 * (length (Log (c_nodes c n)) + length (Log (c_nodes c n)) div 256)) \<and>
      keeps_waiting D n c c' \<and> list_all (replicates n) evs \<and>
      (ps \<noteq> [] \<and> le_term (last (Log (c_nodes c n))) = CurrentTerm (c_nodes c n) \<and>
       length (rn_peers (c_nodes c n)) + 1 < 2 * (1 + length ps) \<longrightarrow> unat (commitIndex (c_nodes c' n)) = k)"
proof (induction ps rule: rev_induct)
  case Nil
  obtain ls where "rn_leader (c_nodes c n) = Some ls"
  proof -
    obtain ok term_of vote_of log_of a where e: "engine (d_backend D) ok term_of vote_of log_of fits D"
      and sim: "engine.csim ok term_of vote_of log_of fits D N c a" by (rule cluster_abs [OF b N r])
    from abs_node(3,8) [OF e sim n] L that show thesis by (auto simp: leading_def)
  qed
  with r L show ?case by (intro exI [of _ "[]"] exI [of _ c] exI [of _ ls]) simp
next
  case (snoc p ps)
  let ?L = "c_nodes c n"
  obtain evs1 c1 ls1 where r1: "run D N evs1 c = Some c1" "cluster_reach D fresh fits N c1"
    and l1: "rn_role (c_nodes c1 n) = Leader" "CurrentTerm (c_nodes c1 n) = CurrentTerm ?L" "Log (c_nodes c1 n) = Log ?L"
      "rn_peers (c_nodes c1 n) = rn_peers ?L" "rn_leader (c_nodes c1 n) = Some ls1"
    and o1: "\<And>m. m \<notin> insert n (set ps) \<Longrightarrow> c_nodes c1 m = c_nodes c m"
    and a1: "\<forall>p\<in>set ps. agrees_at ?L (c_nodes c1 p) k" and h1: "k \<noteq> 0 \<longrightarrow> set ps \<subseteq> held_by k ls1"
    and e1: "length evs1 \<le> length ps * (3 * (length (Log ?L) + length (Log ?L) div 256))" and k1: "keeps_waiting D n c c1"
    and v1: "list_all (replicates n) evs1"
    using snoc.IH snoc.prems by (auto simp del: mult_Suc_right)
  have p: "p \<in> N" "p \<noteq> n" "p \<notin> set ps" "distinct ps" using snoc.prems by auto
  have "c_nodes c1 p = c_nodes c p" using o1 p by simp
  then have t: "CurrentTerm (c_nodes c1 p) \<le> CurrentTerm (c_nodes c1 n)" using snoc.prems(3) l1(2) by simp
  obtain evs2 c2 ls2 where r2: "run D N evs2 c1 = Some c2" "cluster_reach D fresh fits N c2"
    and o2: "\<And>m. m \<noteq> n \<Longrightarrow> m \<noteq> p \<Longrightarrow> c_nodes c2 m = c_nodes c1 m" and l2: "leads p (c_nodes c1 n) ls1 (c_nodes c2 n) ls2"
    and x2: "next_of ls2 p = length (Log ?L)" "confirmed p (c_nodes c2 n) ls2"
    and a2: "agrees_at (c_nodes c2 n) (c_nodes c2 p) k"
    and e2: "length evs2 \<le> 3 * (length (Log ?L) + length (Log ?L) div 256)" and k2: "keeps_waiting D n c1 c2"
    and v2: "list_all (replicates n) evs2"
    by (rule peer_catches_up [OF b N r1(2) n p(1,2) l1(1) t l1(5), unfolded l1(3), folded k_def]) blast
  have ne: "0 < length (Log ?L)" using x2(1) next_of_pos [of ls2 p] by simp
  have hl: "set ps \<subseteq> held_by k ls1" if "length (Log ?L) \<noteq> 1" using h1 that ne by (simp add: k_def)
  have L2: "rn_role (c_nodes c2 n) = Leader" "CurrentTerm (c_nodes c2 n) = CurrentTerm ?L" "Log (c_nodes c2 n) = Log ?L"
    "rn_peers (c_nodes c2 n) = rn_peers ?L" "rn_leader (c_nodes c2 n) = Some ls2"
    using l2 l1 by (simp_all add: leads_def)
  have "run D N (evs1 @ evs2) c = Some c2" using r1(1) r2(1) by (simp add: run_append)
  moreover have "c_nodes c2 m = c_nodes c m" if "m \<notin> insert n (set (ps @ [p]))" for m using that o1 o2 by simp
  moreover have "agrees_at ?L (c_nodes c2 q) k" if q: "q \<in> set (ps @ [p])" for q
  proof -
    have "q \<noteq> n" using q snoc.prems(2) by auto
    with q a1 a2 o2 [of q] show ?thesis by (cases "q = p") (simp_all add: agrees_at_def L2)
  qed
  moreover have "set (ps @ [p]) \<subseteq> held_by k ls2" if "k \<noteq> 0"
    using leads_held [OF l2, of k] h1 that p(3) confirmed_held [OF x2(2), of k] x2(1) ne by (auto simp: k_def)
  moreover have "length (evs1 @ evs2) \<le> length (ps @ [p]) * (3 * (length (Log ?L) + length (Log ?L) div 256))"
    using e1 e2 by simp
  moreover have "keeps_waiting D n c c2" using k1 k2 by (rule keeps_waiting_trans)
  moreover have "list_all (replicates n) (evs1 @ evs2)" using v1 v2 by simp
  moreover have "unat (commitIndex (c_nodes c2 n)) = k" if "le_term (last (Log ?L)) = CurrentTerm ?L"
    "length (rn_peers ?L) + 1 < 2 * (1 + length (ps @ [p]))"
    using held_commits [OF l2 x2(2) _ _ p(4,3), unfolded l1(2-4), folded k_def, OF x2(1) that(1) hl] that(2) by simp
  ultimately show ?case using r2(2) L2 by (intro exI [of _ "evs1 @ evs2"] exI [of _ c2] exI [of _ ls2]) blast
qed

lemma leader_commits:
  assumes b: "backend_ok D fresh fits" and N: "members_ok fits N" and r: "cluster_reach D fresh fits N c"
    and n: "n \<in> N" "N \<noteq> {n}" and L: "rn_role (c_nodes c n) = Leader"
    and Q: "n \<in> Q" "Q \<subseteq> N" "card N < 2 * card Q" and t: "\<forall>m\<in>Q. CurrentTerm (c_nodes c m) \<le> CurrentTerm (c_nodes c n)"
  shows "\<exists>evs c'. run D N evs c = Some c' \<and> cluster_reach D fresh fits N c' \<and>
    list_all (replicates n) evs \<and>
    length evs \<le> 3 * (card Q - 1) * (length (Log (c_nodes c n)) + length (Log (c_nodes c n)) div 256) \<and>
    (\<forall>m. m \<notin> Q \<longrightarrow> c_nodes c' m = c_nodes c m) \<and>
    keeps_waiting D n c c' \<and>
    rn_role (c_nodes c' n) = Leader \<and> CurrentTerm (c_nodes c' n) = CurrentTerm (c_nodes c n) \<and>
    Log (c_nodes c' n) = Log (c_nodes c n) \<and>
    (\<forall>m\<in>Q. take (length (Log (c_nodes c n))) (Log (c_nodes c' m)) = Log (c_nodes c n)) \<and>
    (le_term (last (Log (c_nodes c n))) = CurrentTerm (c_nodes c n) \<longrightarrow>
     Suc (unat (commitIndex (c_nodes c' n))) = length (Log (c_nodes c n)) \<and>
     rn_kvStore (c_nodes c' n) = replay D (Log (c_nodes c n)))"
proof -
  let ?L = "c_nodes c n"
  obtain ok term_of vote_of log_of a where e: "engine (d_backend D) ok term_of vote_of log_of fits D"
    and sim: "engine.csim ok term_of vote_of log_of fits D N c a" by (rule cluster_abs [OF b N r])
  have fin: "finite N" "finite Q" using N Q(2) by (auto simp: members_ok_def intro: finite_subset)
  obtain ps where ps: "set ps = Q - {n}" "distinct ps" using finite_distinct_list fin(2) by (metis finite_Diff)
  have lps: "length ps = card Q - 1" "0 < card Q" using ps Q(1) fin(2) by (auto simp: distinct_card [symmetric] card_gt_0_iff)
  have cfg: "configured N n ?L" using engine.csimD(3) [OF e sim n(1)] by (simp add: node_sim_def)
  have pc: "length (rn_peers ?L) + 1 = card N" by (rule configured_card [OF cfg fin(1) n(1)])
  then have q: "length (rn_peers ?L) + 1 < 2 * (1 + length ps)" using Q(3) lps by simp
  have "card N \<noteq> 1" using n by (auto simp: card_1_singleton_iff)
  then have "ps \<noteq> []" using q pc by auto
  have ne: "0 < length (Log ?L)" using engine.mirrors_log_ok [OF e abs_node(5) [OF e sim n(1)]] log_okD(6) by blast
  from peers_catch_up [OF b N r n(1) L ps(2)] ps(1) Q(2) t obtain evs c' where
    c': "run D N evs c = Some c'" "cluster_reach D fresh fits N c'" "rn_role (c_nodes c' n) = Leader"
      "CurrentTerm (c_nodes c' n) = CurrentTerm ?L" "Log (c_nodes c' n) = Log ?L"
    and o: "\<forall>m. m \<notin> insert n (set ps) \<longrightarrow> c_nodes c' m = c_nodes c m"
    and g: "\<forall>p\<in>set ps. agrees_at ?L (c_nodes c' p) (length (Log ?L) - 1)"
    and len: "length evs \<le> length ps * (3 * (length (Log ?L) + length (Log ?L) div 256))"
    and kw: "keeps_waiting D n c c'" and rep: "list_all (replicates n) evs"
    and cm: "le_term (last (Log ?L)) = CurrentTerm ?L \<longrightarrow> unat (commitIndex (c_nodes c' n)) = length (Log ?L) - 1"
    using q \<open>ps \<noteq> []\<close> by blast
  have "take (length (Log ?L)) (Log (c_nodes c' m)) = Log ?L" if m: "m \<in> Q" for m
  proof (cases "m = n")
    case False
    with m ps(1) g have "agrees_at ?L (c_nodes c' m) (length (Log ?L) - 1)" by blast
    then have "length (Log ?L) - 1 < length (Log (c_nodes c' m))" "length (Log ?L) - 1 < length (Log (c_nodes c' n))"
      "le_term (Log (c_nodes c' m) ! (length (Log ?L) - 1)) = le_term (Log (c_nodes c' n) ! (length (Log ?L) - 1))"
      using ne by (simp_all add: agrees_at_def c'(5))
    from members_log_matching [OF b N c'(2) subsetD [OF Q(2) m] n(1) this] ne show ?thesis by (simp add: c'(5))
  qed (simp add: c'(5))
  moreover have "Suc (unat (commitIndex (c_nodes c' n))) = length (Log ?L) \<and> rn_kvStore (c_nodes c' n) = replay D (Log ?L)"
    if "le_term (last (Log ?L)) = CurrentTerm ?L"
    using cm that ne member_applied [OF b N c'(2) n(1)] by (simp add: applied_def c'(5))
  moreover have "length evs \<le> 3 * (card Q - 1) * (length (Log ?L) + length (Log ?L) div 256)"
    using len by (simp add: lps(1) algebra_simps)
  moreover have "\<forall>m. m \<notin> Q \<longrightarrow> c_nodes c' m = c_nodes c m" using o ps(1) Q(1) by auto
  ultimately show ?thesis using c' kw rep by blast
qed

section \<open>Property\<close>

text \<open>
  C7: no reachable state is stuck.  Whatever has been lost, delayed or crashed before, a leader
  whose term no member of a majority exceeds can bring its whole log to that majority: there is a
  run of nothing but heartbeats of this leader, deliveries and answers, in a number of events bounded
  by the length of its log, after which it still leads, and if the last entry is of its own term, the whole log
  is committed and its map is the replay of the whole log.  The members outside the majority are as
  they were.
\<close>

theorem leader_can_commit:
  assumes b: "backend_ok D fresh fits" and N: "members_ok fits N" and r: "cluster_reach D fresh fits N c"
    and n: "n \<in> N" "N \<noteq> {n}" and L: "rn_role (c_nodes c n) = Leader"
    and Q: "n \<in> Q" "Q \<subseteq> N" "card N < 2 * card Q" and t: "\<forall>m\<in>Q. CurrentTerm (c_nodes c m) \<le> CurrentTerm (c_nodes c n)"
  shows "\<exists>evs c'. run D N evs c = Some c' \<and> cluster_reach D fresh fits N c' \<and>
    list_all (replicates n) evs \<and>
    length evs \<le> 3 * (card Q - 1) * (length (Log (c_nodes c n)) + length (Log (c_nodes c n)) div 256) \<and>
    (\<forall>m. m \<notin> Q \<longrightarrow> c_nodes c' m = c_nodes c m) \<and>
    rn_role (c_nodes c' n) = Leader \<and> CurrentTerm (c_nodes c' n) = CurrentTerm (c_nodes c n) \<and>
    Log (c_nodes c' n) = Log (c_nodes c n) \<and>
    (\<forall>m\<in>Q. take (length (Log (c_nodes c n))) (Log (c_nodes c' m)) = Log (c_nodes c n)) \<and>
    (le_term (last (Log (c_nodes c n))) = CurrentTerm (c_nodes c n) \<longrightarrow>
     Suc (unat (commitIndex (c_nodes c' n))) = length (Log (c_nodes c n)) \<and>
     rn_kvStore (c_nodes c' n) = replay D (Log (c_nodes c n)))"
  using leader_commits [OF assms] by blast

theorem leader_can_commit_witness:
  "\<exists>evs c'. run demo_deps demo_members evs (demo_at 9) = Some c' \<and> unat (commitIndex (c_nodes c' ''a'')) = 2"
proof -
  let ?L = "c_nodes (demo_at 9) ''a''"
  have Q: "demo_members \<noteq> {''a''}" "{''a'', ''b''} \<subseteq> demo_members" "card demo_members < 2 * card {''a'', ''b''}"
    by (auto simp: demo_members_def)
  have L: "rn_role ?L = Leader" "\<forall>m\<in>{''a'', ''b''}. CurrentTerm (c_nodes (demo_at 9) m) \<le> CurrentTerm ?L"
    by (simp_all add: demo_leading_facts)
  have lg: "map le_term (Log ?L) = [0, 1, 1]" by (simp add: demo_leading_facts)
  have "length (map le_term (Log ?L)) = 3" unfolding lg by simp
  then have len: "length (Log ?L) = 3" unfolding length_map .
  then have "le_term (last (Log ?L)) = last (map le_term (Log ?L))" by (subst last_map) auto
  then have "le_term (last (Log ?L)) = CurrentTerm ?L" unfolding lg by (simp add: demo_leading_facts)
  with leader_can_commit [OF demo_setting demo_member(1) Q(1) L(1) insertI1 Q(2,3) L(2)] obtain evs c' where
    "run demo_deps demo_members evs (demo_at 9) = Some c'" "Suc (unat (commitIndex (c_nodes c' ''a''))) = length (Log ?L)"
    by blast
  then show ?thesis using len by auto
qed

end
