(* ===== verification/Cluster_Election.thy ===== *)
theory Cluster_Election
  imports Cluster_Progress
begin

text \<open>
  Recovery of a cluster: a member whose log and term are not behind those of a majority without a
  leader can win an election, once the leases have expired, and then commit its log.
\<close>

section \<open>One vote\<close>

text \<open>The log of a candidate is at least as up to date, by the last term and then the length.\<close>

definition ahead :: "log_entry list \<Rightarrow> log_entry list \<Rightarrow> bool" where
  "ahead L L' \<longleftrightarrow> le_term (last L') < le_term (last L) \<or> le_term (last L') = le_term (last L) \<and> length L' \<le> length L"

text \<open>A vote request that describes the log \<open>L\<close>.\<close>

definition describes :: "request_vote_request \<Rightarrow> log_entry list \<Rightarrow> bool" where
  "describes req L \<longleftrightarrow> unat (rv_last_log_index req) = length L - 1 \<and> rv_last_log_term req = le_term (last L)"

text \<open>The lease of the last leader has expired.\<close>

definition lease_over :: "env \<Rightarrow> 's raft_node \<Rightarrow> bool" where
  "lease_over e rn \<longleftrightarrow> ElectionTimeoutMin (rn_config rn) \<le> time_sub (now e) (rn_lastLeaderContact rn)"

context engine
begin

lemma mirrors_last:
  assumes "mirroring rn"
  shows "unat (fst (LastIndex B (rn_storage rn))) = length (Log rn) - 1" "fst (LastTerm B (rn_storage rn)) = le_term (last (Log rn))"
  using assms by (rule mirrors_LastIndex) (use assms in \<open>simp add: mirrors_def LastTerm_ok\<close>)

lemma ahead_votes:
  assumes "mirroring rn" and "describes req L" and "ahead L (Log rn)"
  shows "candidateLogUpToDateLocked D req rn"
proof -
  have d: "unat (rv_last_log_index req) = length L - 1" "rv_last_log_term req = le_term (last L)"
    using assms(2) by (simp_all add: describes_def)
  have "fst (LastIndex B (rn_storage rn)) \<le> rv_last_log_index req" if "length (Log rn) \<le> length L"
    unfolding unat_le_u64 d mirrors_last(1) [OF assms(1)] using that by simp
  with assms(3) show ?thesis
    unfolding candidateLogUpToDateLocked_def Let_def backend mirrors_last(2) [OF assms(1)] d(2)
    by (auto simp: ahead_def)
qed

lemma prevote_granted:
  assumes m: "mirroring rn" and q: "rv_pre_vote req" "CurrentTerm rn < rv_term req" "describes req L" "ahead L (Log rn)"
    and w: "rn_role rn \<noteq> Leader" "lease_over e rn"
  shows "HandleRequestVote D e req rn = (\<lparr>rvr_term = CurrentTerm rn, rvr_vote_granted = True\<rparr>, rn)"
  using ahead_votes [OF m q(3,4)] q(1,2) w
  by (auto simp: HandleRequestVote_def handlePreVoteLocked_def Let_def lease_over_def)

lemma vote_granted:
  assumes m: "mirroring rn" and q: "\<not> rv_pre_vote req" "CurrentTerm rn < rv_term req" "describes req L" "ahead L (Log rn)"
  shows "\<exists>rn'. HandleRequestVote D e req rn = (\<lparr>rvr_term = rv_term req, rvr_vote_granted = True\<rparr>, rn') \<and>
    CurrentTerm rn' = rv_term req \<and> Log rn' = Log rn"
proof -
  let ?c = "snd (checkTerm D (rv_term req) rn)"
  have c: "CurrentTerm ?c = rv_term req" "VotedFor ?c = ''''" "Log ?c = Log rn" using q(2) by (simp_all add: effects frame)
  have "candidateLogUpToDateLocked D req ?c"
    using ahead_votes [OF checkTerm_storage [OF m] q(3)] q(4) c(3) by simp
  with q(1,2) c show ?thesis by (simp add: HandleRequestVote_def Let_def frame)
qed

lemma campaign_state:
  assumes m: "mirroring rn" and f: "fits (string_to_bytes (node_id rn))" and p: "rn_peers rn \<noteq> []"
    and c: "campaignLocked D e rn = (rn', cs)"
  shows "rn_role rn' = Candidate" "CurrentTerm rn' = CurrentTerm rn + 1" "Log rn' = Log rn" "rn_peers rn' = rn_peers rn"
    "\<exists>k cp req. map_of (rn_campaigns rn') k = Some cp \<and> cp_term cp = CurrentTerm rn + 1 \<and> cp_votes cp = 1 \<and>
       cp_majority cp = (length (rn_peers rn) + 1) div 2 + 1 \<and> cs = map (\<lambda>p. (p, VoteCall k req)) (keys (rn_peers rn)) \<and>
       rv_term req = CurrentTerm rn + 1 \<and> \<not> rv_pre_vote req \<and> describes req (Log rn)"
proof -
  let ?st = "snd (SaveVotedFor B (node_id rn) (snd (SaveTerm B (CurrentTerm rn + 1) (rn_storage rn))))"
  have ok: "ok ?st" "log_of ?st = Log rn" using m f by (simp_all add: mirrors_def save_simps)
  have d: "unat (fst (LastIndex B ?st)) = length (Log rn) - 1" "fst (LastTerm B ?st) = le_term (last (Log rn))"
    using LastIndex_unat [OF ok(1)] ok by (simp_all add: LastTerm_ok)
  have n: "\<not> (length (rn_peers rn) + 1) div 2 + 1 \<le> 1" using p by (cases "rn_peers rn") auto
  show "rn_role rn' = Candidate" "CurrentTerm rn' = CurrentTerm rn + 1" "Log rn' = Log rn" "rn_peers rn' = rn_peers rn"
    using c n by (auto simp: campaignLocked_def Let_def frame)
  show "\<exists>k cp req. map_of (rn_campaigns rn') k = Some cp \<and> cp_term cp = CurrentTerm rn + 1 \<and> cp_votes cp = 1 \<and>
       cp_majority cp = (length (rn_peers rn) + 1) div 2 + 1 \<and> cs = map (\<lambda>p. (p, VoteCall k req)) (keys (rn_peers rn)) \<and>
       rv_term req = CurrentTerm rn + 1 \<and> \<not> rv_pre_vote req \<and> describes req (Log rn)"
    using c n d
    by (intro exI [of _ "rn_nextClosure rn"] exI [of _ "\<lparr>cp_term = CurrentTerm rn + 1, cp_votes = 1,
          cp_majority = (length (rn_peers rn) + 1) div 2 + 1\<rparr>"]
        exI [of _ "\<lparr>rv_term = CurrentTerm rn + 1, rv_candidate_id = node_id rn, rv_last_log_index = fst (LastIndex B ?st),
          rv_last_log_term = fst (LastTerm B ?st), rv_pre_vote = False\<rparr>"])
      (auto simp: campaignLocked_def Let_def frame describes_def update_conv')
qed

end

section \<open>An answered call is two events\<close>

text \<open>The events of a vote once it has begun: deliveries and answers, at the instant of \<open>e\<close>.\<close>

fun answers :: "env \<Rightarrow> event \<Rightarrow> bool" where
  "answers e (Deliver i e') \<longleftrightarrow> e' = e"
| "answers e (Reply i r e') \<longleftrightarrow> e' = e"
| "answers e _ \<longleftrightarrow> False"

lemma new_calls_ex: "y \<in> set cs \<Longrightarrow> \<exists>j. (j, y) \<in> new_calls b cs"
  by (auto simp: new_calls_def in_set_conv_nth)

lemma vote_events:
  assumes b: "backend_ok D fresh fits" and N: "members_ok fits N" and r: "cluster_reach D fresh fits N c"
    and n: "n \<in> N" and p: "p \<in> N" "p \<noteq> n" and i: "(i, p, call) \<in> open_of c n"
    and call: "call = PreVoteCall k req \<or> call = VoteCall k req"
    and h: "HandleRequestVote D e req (c_nodes c p) = (res, F)"
    and o: "continuation D e p call (VoteReply res) (c_nodes c n) = Some (L, cs)"
    and F: "CurrentTerm F < - 1" "length (Log F) < 2 ^ 64 - 1" and L: "CurrentTerm L < - 1" "length (Log L) < 2 ^ 64 - 1"
  obtains evs c' where "run D N evs c = Some c'" and "cluster_reach D fresh fits N c'"
    and "c_nodes c' = (c_nodes c)(n := L, p := F)" and "list_all (answers e) evs"
    and "\<And>j x. j \<noteq> i \<Longrightarrow> (j, x) \<in> open_of c n \<Longrightarrow> (j, x) \<in> open_of c' n"
    and "\<And>x. x \<in> set cs \<Longrightarrow> \<exists>j. (j, x) \<in> open_of c' n"
proof -
  obtain ok term_of vote_of log_of a where e: "engine (d_backend D) ok term_of vote_of log_of fits D"
    and sim: "engine.csim ok term_of vote_of log_of fits D N c a" and nw: "no_wrap N c" by (rule cluster_abs [OF b N r])
  have ids: "ids_ok c" by (rule engine.csimD(2) [OF e sim])
  then have m: "map_of (c_calls c) i = Some (n, p, call)" and w: "i \<in> set (c_waiting c)"
    using i by (auto simp: open_of_def ids_ok_def intro: map_of_is_SomeI)
  define c1 where "c1 = (set_node p F c)\<lparr>c_replies := (i, VoteReply res) # c_replies c\<rparr>"
  have x1: "exec D N (Deliver i e) c = Some c1" using m call h by (auto simp: deliver_def c1_def)
  have n1: "c_nodes c1 = (c_nodes c)(p := F)" by (simp add: c1_def)
  have w1: "no_wrap N c1" using no_wrap_set [OF nw n1] F by simp
  then have r1: "cluster_reach D fresh fits N c1" using cluster_reach.step [OF r x1] by simp
  define c0 where "c0 = (set_node n L c1)\<lparr>c_waiting := removeAll i (c_waiting c1)\<rparr>"
  define c2 where "c2 = spawn n cs c0"
  have "c_nodes c1 n = c_nodes c n" using p(2) by (simp add: n1)
  then have x2: "exec D N (Reply i (VoteReply res) e) c1 = Some c2"
    using m w o by (simp add: receive_def c1_def c2_def c0_def)
  have n2: "c_nodes c2 = (c_nodes c1)(n := L)" by (simp add: c2_def c0_def)
  have "no_wrap N c2" using no_wrap_set [OF w1 n2] L by simp
  then have r2: "cluster_reach D fresh fits N c2" using cluster_reach.step [OF r1 x2] by simp
  have "ids_ok c0" using ids by (auto simp: c0_def c1_def ids_ok_def)
  note op = open_of_spawn [OF this, of n cs n, folded c2_def]
  have "run D N [Deliver i e, Reply i (VoteReply res) e] c = Some c2" using x1 x2 by simp
  moreover have "c_nodes c2 = (c_nodes c)(n := L, p := F)" using p(2) by (auto simp: n2 n1 fun_upd_twist)
  moreover have "(j, x) \<in> open_of c2 n" if "j \<noteq> i" "(j, x) \<in> open_of c n" for j x
    using that unfolding op by (simp add: c0_def c1_def open_of_def)
  moreover have "\<exists>j. (j, x) \<in> open_of c2 n" if "x \<in> set cs" for x
    using new_calls_ex [OF that] unfolding op by auto
  ultimately show thesis by (intro that [of "[Deliver i e, Reply i (VoteReply res) e]" c2] r2) simp_all
qed

section \<open>Members of a reachable cluster\<close>

lemma members:
  assumes b: "backend_ok D fresh fits" and N: "members_ok fits N" and r: "cluster_reach D fresh fits N c"
  obtains ok term_of vote_of log_of where "engine (d_backend D) ok term_of vote_of log_of fits D"
    and "\<forall>m\<in>N. mirrors ok term_of vote_of log_of (c_nodes c m)"
    and "\<forall>m\<in>N. configured N m (c_nodes c m)"
    and "\<forall>m\<in>N. fits (string_to_bytes (node_id (c_nodes c m)))"
    and "\<forall>m\<in>N. CurrentTerm (c_nodes c m) < - 1 \<and> length (Log (c_nodes c m)) < 2 ^ 64 - 1" and "ids_ok c"
proof -
  obtain ok term_of vote_of log_of a where e: "engine (d_backend D) ok term_of vote_of log_of fits D"
    and sim: "engine.csim ok term_of vote_of log_of fits D N c a" and nw: "no_wrap N c" by (rule cluster_abs [OF b N r])
  have cfg: "configured N m (c_nodes c m)" if "m \<in> N" for m
    using engine.csimD(3) [OF e sim that] by (simp add: node_sim_def)
  then have "fits (string_to_bytes (node_id (c_nodes c m)))" if "m \<in> N" for m
    using that N by (simp add: configured_def members_ok_def)
  with abs_node(5) [OF e sim] cfg nw engine.csimD(2) [OF e sim] show thesis
    by (intro that [OF e]) (simp_all add: no_wrap_def)
qed

lemma inc_below: "x < - 2 \<Longrightarrow> (x :: u64) + 1 < - 1 \<and> x < x + 1"
proof -
  assume "x < - 2"
  then have "unat x < 2 ^ 64 - 2" by (simp add: unat_less_u64)
  moreover have "unat (- 1 :: u64) = 2 ^ 64 - 1" by (simp add: unsigned_minus_1_eq_mask mask_eq_exp_minus_1)
  ultimately show ?thesis by (simp add: unat_less_u64)
qed

section \<open>The pre-votes\<close>

definition would_vote :: "env \<Rightarrow> u64 \<Rightarrow> log_entry list \<Rightarrow> 's raft_node \<Rightarrow> bool" where
  "would_vote e t L rn \<longleftrightarrow> CurrentTerm rn \<le> t \<and> rn_role rn \<noteq> Leader \<and> lease_over e rn \<and> ahead L (Log rn)"

text \<open>The pre-vote round \<open>k\<close> is \<open>q\<close> votes short of a majority.\<close>

definition prevote_open :: "nat \<Rightarrow> nat \<Rightarrow> 's raft_node \<Rightarrow> bool" where
  "prevote_open k q rn \<longleftrightarrow> rn_role rn \<noteq> Leader \<and> (\<exists>pv. map_of (rn_preVotes rn) k = Some pv \<and> \<not> pv_campaigned pv \<and>
     pv_term pv = CurrentTerm rn \<and> rn_lastLeaderContact rn \<le> pv_started pv \<and> pv_majority pv = pv_votes pv + q)"

lemma prevote_answer:
  assumes o: "prevote_open k (Suc q) rn" and t: "rvr_term res \<le> CurrentTerm rn" "rvr_vote_granted res"
  shows "if q = 0 then \<exists>x. on_prevote_response D e k res rn = Some (campaignLocked D e (rn\<lparr>rn_preVotes := x\<rparr>))
    else \<exists>x. on_prevote_response D e k res rn = Some (rn\<lparr>rn_preVotes := x\<rparr>, []) \<and> prevote_open k q (rn\<lparr>rn_preVotes := x\<rparr>)"
proof -
  obtain pv where pv: "map_of (rn_preVotes rn) k = Some pv" "\<not> pv_campaigned pv" "pv_term pv = CurrentTerm rn"
    "\<not> pv_started pv < rn_lastLeaderContact rn" "pv_majority pv = pv_votes pv + Suc q" and L: "rn_role rn \<noteq> Leader"
    using o unfolding prevote_open_def by (metis leD)
  have ct: "checkTerm D (rvr_term res) rn = (False, rn)" using t(1) by (auto simp: checkTerm_def)
  show ?thesis
  proof (cases q)
    case 0
    then show ?thesis
      using pv L ct t(2) by (auto simp: on_prevote_response_def Let_def)
  next
    case (Suc q')
    let ?pv = "pv\<lparr>pv_votes := pv_votes pv + 1\<rparr>"
    have "on_prevote_response D e k res rn = Some (rn\<lparr>rn_preVotes := AList.update k ?pv (rn_preVotes rn)\<rparr>, [])"
      using pv L ct t(2) Suc by (simp add: on_prevote_response_def Let_def)
    moreover have "prevote_open k q (rn\<lparr>rn_preVotes := AList.update k ?pv (rn_preVotes rn)\<rparr>)"
      using pv L by (simp add: prevote_open_def update_conv')
    ultimately show ?thesis using Suc by auto
  qed
qed

text \<open>A call that is still open when another one has been answered.\<close>

lemma other_open:
  assumes "ids_ok c" and "(i, q, call) \<in> open_of c n" and "(j, q', call') \<in> open_of c n" and "q' \<noteq> q"
    and "\<forall>j y. j \<noteq> i \<and> (j, y) \<in> open_of c n \<longrightarrow> (j, y) \<in> open_of c' n"
  shows "\<exists>j. (j, q', call') \<in> open_of c' n"
proof -
  have "j \<noteq> i" using assms(1-4) by (auto simp: open_of_def ids_ok_def dest: eq_key_imp_eq_value)
  with assms(3,5) show ?thesis by blast
qed

text \<open>One pre-vote is granted and counted; the last one starts the campaign.\<close>

lemma prevote_counted:
  assumes b: "backend_ok D fresh fits" and N: "members_ok fits N" and r: "cluster_reach D fresh fits N c"
    and n: "n \<in> N" and q: "q \<in> N" "q \<noteq> n" and i: "(i, q, PreVoteCall k req) \<in> open_of c n"
    and req: "rv_pre_vote req" "describes req L" and t: "CurrentTerm (c_nodes c n) < - 2" "rv_term req = CurrentTerm (c_nodes c n) + 1"
    and op: "prevote_open k (Suc l) (c_nodes c n)" and w: "would_vote e (CurrentTerm (c_nodes c n)) L (c_nodes c q)"
  shows "\<exists>evs c' x rn cs. run D N evs c = Some c' \<and> list_all (answers e) evs \<and> cluster_reach D fresh fits N c' \<and> c_nodes c' = (c_nodes c)(n := rn) \<and>
    (\<forall>j y. j \<noteq> i \<and> (j, y) \<in> open_of c n \<longrightarrow> (j, y) \<in> open_of c' n) \<and> (\<forall>y\<in>set cs. \<exists>j. (j, y) \<in> open_of c' n) \<and>
    (if l = 0 then campaignLocked D e ((c_nodes c n)\<lparr>rn_preVotes := x\<rparr>) = (rn, cs)
     else rn = (c_nodes c n)\<lparr>rn_preVotes := x\<rparr> \<and> prevote_open k l rn)"
proof -
  obtain ok term_of vote_of log_of where en: "engine (d_backend D) ok term_of vote_of log_of fits D"
    and m: "\<forall>m\<in>N. mirrors ok term_of vote_of log_of (c_nodes c m)" and cfg: "\<forall>m\<in>N. configured N m (c_nodes c m)"
    and f: "\<forall>m\<in>N. fits (string_to_bytes (node_id (c_nodes c m)))"
    and nw: "\<forall>m\<in>N. CurrentTerm (c_nodes c m) < - 1 \<and> length (Log (c_nodes c m)) < 2 ^ 64 - 1" and "ids_ok c"
    by (rule members [OF b N r]) blast
  have v: "CurrentTerm (c_nodes c q) \<le> CurrentTerm (c_nodes c n)" "rn_role (c_nodes c q) \<noteq> Leader" "lease_over e (c_nodes c q)"
    "ahead L (Log (c_nodes c q))" using w by (simp_all add: would_vote_def)
  let ?res = "\<lparr>rvr_term = CurrentTerm (c_nodes c q), rvr_vote_granted = True\<rparr>" and ?L = "c_nodes c n"
  have "CurrentTerm (c_nodes c q) < rv_term req" using le_less_trans [OF v(1)] inc_below [OF t(1)] t(2) by simp
  note h = engine.prevote_granted [OF en bspec [OF m q(1)] req(1) this req(2) v(4,2,3)]
  obtain x rn cs where o: "on_prevote_response D e k ?res ?L = Some (rn, cs)"
    and a: "if l = 0 then campaignLocked D e (?L\<lparr>rn_preVotes := x\<rparr>) = (rn, cs) else rn = ?L\<lparr>rn_preVotes := x\<rparr> \<and> prevote_open k l rn"
    using prevote_answer [OF op, of ?res D e] v(1) by (cases "l = 0") (auto, metis surj_pair)
  have "CurrentTerm rn < - 1 \<and> length (Log rn) < 2 ^ 64 - 1"
  proof (cases "l = 0")
    case True
    have "mirrors ok term_of vote_of log_of (?L\<lparr>rn_preVotes := x\<rparr>)" using bspec [OF m n] by (simp add: mirrors_def)
    moreover have "fst ` set (rn_peers ?L) \<noteq> {}" using configuredD(3) [OF bspec [OF cfg n]] q by auto
    ultimately have "CurrentTerm rn = CurrentTerm ?L + 1" "Log rn = Log ?L"
      using engine.campaign_state(2,3) [OF en, of "?L\<lparr>rn_preVotes := x\<rparr>" e rn cs] a True bspec [OF f n] by auto
    then show ?thesis using inc_below [OF t(1)] bspec [OF nw n] by simp
  qed (use a bspec [OF nw n] in simp)
  then have L: "CurrentTerm rn < - 1" "length (Log rn) < 2 ^ 64 - 1" by simp_all
  have F: "CurrentTerm (c_nodes c q) < - 1" "length (Log (c_nodes c q)) < 2 ^ 64 - 1" using bspec [OF nw q(1)] by simp_all
  have "continuation D e q (PreVoteCall k req) (VoteReply ?res) ?L = Some (rn, cs)" using o by simp
  from vote_events [OF b N r n q i disjI1 [OF refl] h this F L] obtain evs c' where
    c': "run D N evs c = Some c'" "cluster_reach D fresh fits N c'" "c_nodes c' = (c_nodes c)(n := rn, q := c_nodes c q)"
    "\<forall>j y. j \<noteq> i \<and> (j, y) \<in> open_of c n \<longrightarrow> (j, y) \<in> open_of c' n" "\<forall>y\<in>set cs. \<exists>j. (j, y) \<in> open_of c' n"
    "list_all (answers e) evs" by metis
  have "c_nodes c' = (c_nodes c)(n := rn)" using q(2) by (auto simp: c'(3))
  with c'(1,2,4-6) a show ?thesis by blast
qed

lemma prevotes_collected:
  assumes b: "backend_ok D fresh fits" and N: "members_ok fits N" and n: "n \<in> N"
    and req: "rv_pre_vote req" "describes req L"
  shows "cluster_reach D fresh fits N c \<Longrightarrow> distinct qs \<Longrightarrow> qs \<noteq> [] \<Longrightarrow> set qs \<subseteq> N - {n} \<Longrightarrow>
    CurrentTerm (c_nodes c n) < - 2 \<Longrightarrow> rv_term req = CurrentTerm (c_nodes c n) + 1 \<Longrightarrow> prevote_open k (length qs) (c_nodes c n) \<Longrightarrow>
    \<forall>q\<in>set qs. (\<exists>i. (i, q, PreVoteCall k req) \<in> open_of c n) \<and> would_vote e (CurrentTerm (c_nodes c n)) L (c_nodes c q) \<Longrightarrow>
    \<exists>evs c' x rn cs. run D N evs c = Some c' \<and> list_all (answers e) evs \<and> cluster_reach D fresh fits N c' \<and>
      campaignLocked D e ((c_nodes c n)\<lparr>rn_preVotes := x\<rparr>) = (rn, cs) \<and> c_nodes c' = (c_nodes c)(n := rn) \<and>
      (\<forall>y\<in>set cs. \<exists>j. (j, y) \<in> open_of c' n)"
proof (induction qs arbitrary: c)
  case (Cons q qs)
  note r = Cons.prems(1)
  have q: "q \<in> N" "q \<noteq> n" "q \<notin> set qs" "distinct qs" "set qs \<subseteq> N - {n}" using Cons.prems(2,4) by auto
  obtain i where i: "(i, q, PreVoteCall k req) \<in> open_of c n" using Cons.prems(8) by auto
  have op: "prevote_open k (Suc (length qs)) (c_nodes c n)" using Cons.prems(7) by simp
  have "would_vote e (CurrentTerm (c_nodes c n)) L (c_nodes c q)" using Cons.prems(8) by simp
  from prevote_counted [OF b N r n q(1,2) i req Cons.prems(5,6) op this] obtain evs1 c1 x rn cs where
    c1: "run D N evs1 c = Some c1" "cluster_reach D fresh fits N c1" and v1: "list_all (answers e) evs1"
    and nd: "c_nodes c1 = (c_nodes c)(n := rn)"
    and op1: "\<forall>j y. j \<noteq> i \<and> (j, y) \<in> open_of c n \<longrightarrow> (j, y) \<in> open_of c1 n" "\<forall>y\<in>set cs. \<exists>j. (j, y) \<in> open_of c1 n"
    and a: "if length qs = 0 then campaignLocked D e ((c_nodes c n)\<lparr>rn_preVotes := x\<rparr>) = (rn, cs)
      else rn = (c_nodes c n)\<lparr>rn_preVotes := x\<rparr> \<and> prevote_open k (length qs) rn" by blast
  show ?case
  proof (cases "qs = []")
    case True
    with c1 v1 nd op1(2) a show ?thesis
      by (intro exI [of _ evs1] exI [of _ c1] exI [of _ x] exI [of _ rn] exI [of _ cs]) simp
  next
    case False
    then have rn: "rn = (c_nodes c n)\<lparr>rn_preVotes := x\<rparr>" "prevote_open k (length qs) rn" using a by auto
    have "\<exists>j. (j, q', PreVoteCall k req) \<in> open_of c1 n" if "q' \<in> set qs" for q'
      using other_open [OF _ i _ _ op1(1)] Cons.prems(8) that q(3) members [OF b N r] by (metis list.set_intros(2))
    then have rest: "\<forall>q'\<in>set qs. (\<exists>i. (i, q', PreVoteCall k req) \<in> open_of c1 n) \<and>
        would_vote e (CurrentTerm (c_nodes c1 n)) L (c_nodes c1 q')"
      using Cons.prems(8) q(5) by (auto simp: nd rn(1))
    have pr: "CurrentTerm (c_nodes c1 n) < - 2" "rv_term req = CurrentTerm (c_nodes c1 n) + 1" "prevote_open k (length qs) (c_nodes c1 n)"
      using Cons.prems(5,6) rn by (simp_all add: nd)
    from Cons.IH [OF c1(2) q(4) False q(5) pr rest] obtain evs2 c2 x2 rn2 cs2 where
      "run D N evs2 c1 = Some c2" "cluster_reach D fresh fits N c2" "campaignLocked D e ((c_nodes c1 n)\<lparr>rn_preVotes := x2\<rparr>) = (rn2, cs2)"
      "c_nodes c2 = (c_nodes c1)(n := rn2)" "\<forall>y\<in>set cs2. \<exists>j. (j, y) \<in> open_of c2 n"
      "list_all (answers e) evs2" by blast
    moreover from this(1,6) c1(1) v1 have "run D N (evs1 @ evs2) c = Some c2" "list_all (answers e) (evs1 @ evs2)"
      by (simp_all add: run_append)
    ultimately show ?thesis
      by (intro exI [of _ "evs1 @ evs2"] exI [of _ c2] exI [of _ x2] exI [of _ rn2] exI [of _ cs2]) (simp add: nd rn(1))
  qed
qed simp

section \<open>The votes\<close>

text \<open>The campaign \<open>k\<close> is \<open>q\<close> votes short of a majority.\<close>

definition campaign_open :: "nat \<Rightarrow> nat \<Rightarrow> 's raft_node \<Rightarrow> bool" where
  "campaign_open k q rn \<longleftrightarrow> rn_role rn = Candidate \<and> (\<exists>cp. map_of (rn_campaigns rn) k = Some cp \<and>
     cp_term cp = CurrentTerm rn \<and> cp_majority cp = cp_votes cp + q)"

lemma vote_answer:
  assumes o: "campaign_open k (Suc q) rn" and t: "rvr_term res = CurrentTerm rn" "rvr_vote_granted res"
  shows "if q = 0 then \<exists>x. on_vote_response D e k res rn = Some (becomeLeader D e (rn\<lparr>rn_campaigns := x\<rparr>))
    else \<exists>x. on_vote_response D e k res rn = Some (rn\<lparr>rn_campaigns := x\<rparr>, []) \<and> campaign_open k q (rn\<lparr>rn_campaigns := x\<rparr>)"
proof -
  obtain cp where cp: "map_of (rn_campaigns rn) k = Some cp" "cp_term cp = CurrentTerm rn" "cp_majority cp = cp_votes cp + Suc q"
    and C: "rn_role rn = Candidate"
    using o unfolding campaign_open_def by blast
  have ct: "checkTerm D (rvr_term res) rn = (False, rn)" using t(1) by (simp add: checkTerm_def)
  show ?thesis
  proof (cases q)
    case 0
    then show ?thesis using cp C ct t(2) by (auto simp: on_vote_response_def Let_def)
  next
    case (Suc q')
    let ?cp = "cp\<lparr>cp_votes := cp_votes cp + 1\<rparr>"
    have "on_vote_response D e k res rn = Some (rn\<lparr>rn_campaigns := AList.update k ?cp (rn_campaigns rn)\<rparr>, [])"
      using cp C ct t(2) Suc by (simp add: on_vote_response_def Let_def)
    moreover have "campaign_open k q (rn\<lparr>rn_campaigns := AList.update k ?cp (rn_campaigns rn)\<rparr>)"
      using cp C by (simp add: campaign_open_def update_conv')
    ultimately show ?thesis using Suc by auto
  qed
qed

text \<open>One vote is granted and counted; the last one makes the candidate the leader.\<close>

lemma vote_counted:
  assumes b: "backend_ok D fresh fits" and N: "members_ok fits N" and r: "cluster_reach D fresh fits N c"
    and n: "n \<in> N" and q: "q \<in> N" "q \<noteq> n" and i: "(i, q, VoteCall k req) \<in> open_of c n"
    and req: "\<not> rv_pre_vote req" "describes req L" and t: "rv_term req = CurrentTerm (c_nodes c n)" "length (Log (c_nodes c n)) < 2 ^ 64 - 2"
    and op: "campaign_open k (Suc l) (c_nodes c n)" and w: "CurrentTerm (c_nodes c q) < CurrentTerm (c_nodes c n)" "ahead L (Log (c_nodes c q))"
  shows "\<exists>evs c' x rn F. run D N evs c = Some c' \<and> list_all (answers e) evs \<and> cluster_reach D fresh fits N c' \<and> c_nodes c' = (c_nodes c)(n := rn, q := F) \<and>
    CurrentTerm F = CurrentTerm (c_nodes c n) \<and> (\<forall>j y. j \<noteq> i \<and> (j, y) \<in> open_of c n \<longrightarrow> (j, y) \<in> open_of c' n) \<and>
    (if l = 0 then rn_role rn = Leader \<and> CurrentTerm rn = CurrentTerm (c_nodes c n) \<and> Log rn = Log (c_nodes c n) @ [noop_of (c_nodes c n)]
     else rn = (c_nodes c n)\<lparr>rn_campaigns := x\<rparr> \<and> campaign_open k l rn)"
proof -
  obtain ok term_of vote_of log_of where en: "engine (d_backend D) ok term_of vote_of log_of fits D"
    and m: "\<forall>m\<in>N. mirrors ok term_of vote_of log_of (c_nodes c m)" and "\<forall>m\<in>N. configured N m (c_nodes c m)"
    and "\<forall>m\<in>N. fits (string_to_bytes (node_id (c_nodes c m)))"
    and nw: "\<forall>m\<in>N. CurrentTerm (c_nodes c m) < - 1 \<and> length (Log (c_nodes c m)) < 2 ^ 64 - 1" and "ids_ok c"
    by (rule members [OF b N r]) blast
  let ?res = "\<lparr>rvr_term = rv_term req, rvr_vote_granted = True\<rparr>" and ?L = "c_nodes c n"
  obtain F where h: "HandleRequestVote D e req (c_nodes c q) = (?res, F)"
    and F0: "CurrentTerm F = rv_term req" "Log F = Log (c_nodes c q)"
    using engine.vote_granted [OF en bspec [OF m q(1)] req(1) _ req(2) w(2)] w(1) t(1) by metis
  have F: "CurrentTerm F < - 1" "length (Log F) < 2 ^ 64 - 1" using bspec [OF nw q(1)] bspec [OF nw n] t(1) by (simp_all add: F0)
  have tr: "rvr_term ?res = CurrentTerm ?L" "rvr_vote_granted ?res" using t(1) by simp_all
  obtain x rn cs where o: "on_vote_response D e k ?res ?L = Some (rn, cs)"
    and a: "if l = 0 then becomeLeader D e (?L\<lparr>rn_campaigns := x\<rparr>) = (rn, cs) else rn = ?L\<lparr>rn_campaigns := x\<rparr> \<and> campaign_open k l rn"
    using vote_answer [OF op tr, of D e] by (cases "l = 0") (auto, metis surj_pair)
  have "mirrors ok term_of vote_of log_of (?L\<lparr>rn_campaigns := x\<rparr>)" "rn_role (?L\<lparr>rn_campaigns := x\<rparr>) = Candidate"
    "length (Log (?L\<lparr>rn_campaigns := x\<rparr>)) < 2 ^ 64 - 1"
    using bspec [OF m n] op bspec [OF nw n] by (simp_all add: mirrors_def campaign_open_def)
  note W = engine.becomeLeader_wins [OF en this, of e rn cs]
  have W': "rn_role rn = Leader" "CurrentTerm rn = CurrentTerm ?L" "Log rn = Log ?L @ [noop_of ?L]" if "l = 0"
    using W(1-3) a that by (simp_all add: noop_of_def)
  have L: "CurrentTerm rn < - 1" "length (Log rn) < 2 ^ 64 - 1"
    using bspec [OF nw n] t(2) a W' by (cases "l = 0"; simp)+
  have "continuation D e q (VoteCall k req) (VoteReply ?res) ?L = Some (rn, cs)" using o by simp
  from vote_events [OF b N r n q i disjI2 [OF refl] h this F L] obtain evs c' where
    c': "run D N evs c = Some c'" "cluster_reach D fresh fits N c'" "c_nodes c' = (c_nodes c)(n := rn, q := F)"
    "\<forall>j y. j \<noteq> i \<and> (j, y) \<in> open_of c n \<longrightarrow> (j, y) \<in> open_of c' n" "list_all (answers e) evs" by metis
  have "if l = 0 then rn_role rn = Leader \<and> CurrentTerm rn = CurrentTerm ?L \<and> Log rn = Log ?L @ [noop_of ?L]
      else rn = ?L\<lparr>rn_campaigns := x\<rparr> \<and> campaign_open k l rn" using a W' by auto
  with c' F0(1) t(1) show ?thesis by (intro exI [of _ evs] exI [of _ c'] exI [of _ x] exI [of _ rn] exI [of _ F]) simp
qed

lemma votes_collected:
  assumes b: "backend_ok D fresh fits" and N: "members_ok fits N" and n: "n \<in> N"
    and req: "\<not> rv_pre_vote req" "describes req L"
  shows "cluster_reach D fresh fits N c \<Longrightarrow> distinct qs \<Longrightarrow> qs \<noteq> [] \<Longrightarrow> set qs \<subseteq> N - {n} \<Longrightarrow>
    rv_term req = CurrentTerm (c_nodes c n) \<Longrightarrow> length (Log (c_nodes c n)) < 2 ^ 64 - 2 \<Longrightarrow> campaign_open k (length qs) (c_nodes c n) \<Longrightarrow>
    \<forall>q\<in>set qs. (\<exists>i. (i, q, VoteCall k req) \<in> open_of c n) \<and> CurrentTerm (c_nodes c q) < CurrentTerm (c_nodes c n) \<and>
      ahead L (Log (c_nodes c q)) \<Longrightarrow>
    \<exists>evs c'. run D N evs c = Some c' \<and> list_all (answers e) evs \<and> cluster_reach D fresh fits N c' \<and>
      rn_role (c_nodes c' n) = Leader \<and> CurrentTerm (c_nodes c' n) = CurrentTerm (c_nodes c n) \<and>
      Log (c_nodes c' n) = Log (c_nodes c n) @ [noop_of (c_nodes c n)] \<and>
      (\<forall>q\<in>set qs. CurrentTerm (c_nodes c' q) = CurrentTerm (c_nodes c n)) \<and>
      (\<forall>m. m \<notin> insert n (set qs) \<longrightarrow> c_nodes c' m = c_nodes c m)"
proof (induction qs arbitrary: c)
  case (Cons q qs)
  note r = Cons.prems(1)
  have q: "q \<in> N" "q \<noteq> n" "q \<notin> set qs" "distinct qs" "set qs \<subseteq> N - {n}" using Cons.prems(2,4) by auto
  obtain i where i: "(i, q, VoteCall k req) \<in> open_of c n" using Cons.prems(8) by auto
  have op: "campaign_open k (Suc (length qs)) (c_nodes c n)" using Cons.prems(7) by simp
  have w: "CurrentTerm (c_nodes c q) < CurrentTerm (c_nodes c n)" "ahead L (Log (c_nodes c q))" using Cons.prems(8) by simp_all
  from vote_counted [OF b N r n q(1,2) i req Cons.prems(5,6) op w] obtain evs1 c1 x rn F where
    c1: "run D N evs1 c = Some c1" "cluster_reach D fresh fits N c1" "c_nodes c1 = (c_nodes c)(n := rn, q := F)"
    and v1: "list_all (answers e) evs1" and tF: "CurrentTerm F = CurrentTerm (c_nodes c n)" and op1: "\<forall>j y. j \<noteq> i \<and> (j, y) \<in> open_of c n \<longrightarrow> (j, y) \<in> open_of c1 n"
    and a: "if length qs = 0 then rn_role rn = Leader \<and> CurrentTerm rn = CurrentTerm (c_nodes c n) \<and> Log rn = Log (c_nodes c n) @ [noop_of (c_nodes c n)]
      else rn = (c_nodes c n)\<lparr>rn_campaigns := x\<rparr> \<and> campaign_open k (length qs) rn" by blast
  have nd: "c_nodes c1 n = rn" "c_nodes c1 q = F" "\<And>m. m \<notin> {n, q} \<Longrightarrow> c_nodes c1 m = c_nodes c m" using q(2) by (simp_all add: c1(3))
  show ?case
  proof (cases "qs = []")
    case True
    with c1 v1 nd tF a show ?thesis by (intro exI [of _ evs1] exI [of _ c1]) simp
  next
    case False
    then have rn: "rn = (c_nodes c n)\<lparr>rn_campaigns := x\<rparr>" "campaign_open k (length qs) rn" using a by auto
    have "\<exists>j. (j, q', VoteCall k req) \<in> open_of c1 n" if "q' \<in> set qs" for q'
      using other_open [OF _ i _ _ op1] Cons.prems(8) that q(3) members [OF b N r] by (metis list.set_intros(2))
    then have rest: "\<forall>q'\<in>set qs. (\<exists>i. (i, q', VoteCall k req) \<in> open_of c1 n) \<and> CurrentTerm (c_nodes c1 q') < CurrentTerm (c_nodes c1 n) \<and>
        ahead L (Log (c_nodes c1 q'))"
      using Cons.prems(8) q(3,5) by (auto simp: c1(3) rn(1))
    have pr: "rv_term req = CurrentTerm (c_nodes c1 n)" "length (Log (c_nodes c1 n)) < 2 ^ 64 - 2" "campaign_open k (length qs) (c_nodes c1 n)"
      using Cons.prems(5,6) rn by (simp_all add: nd)
    from Cons.IH [OF c1(2) q(4) False q(5) pr rest] obtain evs2 c2 where
      c2: "run D N evs2 c1 = Some c2" "cluster_reach D fresh fits N c2" "rn_role (c_nodes c2 n) = Leader"
      "CurrentTerm (c_nodes c2 n) = CurrentTerm (c_nodes c1 n)" "Log (c_nodes c2 n) = Log (c_nodes c1 n) @ [noop_of (c_nodes c1 n)]"
      "\<forall>q\<in>set qs. CurrentTerm (c_nodes c2 q) = CurrentTerm (c_nodes c1 n)"
      "\<forall>m. m \<notin> insert n (set qs) \<longrightarrow> c_nodes c2 m = c_nodes c1 m" "list_all (answers e) evs2" by blast
    have "run D N (evs1 @ evs2) c = Some c2" "list_all (answers e) (evs1 @ evs2)"
      using c1(1) v1 c2(1,8) by (simp_all add: run_append)
    moreover have "CurrentTerm (c_nodes c2 q) = CurrentTerm (c_nodes c n)" using c2(7) q(2,3) by (simp add: nd tF)
    ultimately show ?thesis using c2
      by (intro exI [of _ "evs1 @ evs2"] exI [of _ c2]) (simp add: nd rn(1) noop_of_def)
  qed
qed simp

section \<open>An election\<close>

lemma election_started:
  assumes L: "rn_role rn \<noteq> Leader" and d: "rn_electionDeadline rn \<le> now e" "rn_lastLeaderContact rn \<le> now e"
    and p: "length (rn_peers rn) + 1 = m" "1 < m" and i: "unat (fst (LastIndex (d_backend D) (rn_storage rn))) = length (Log rn) - 1"
      "fst (LastTerm (d_backend D) (rn_storage rn)) = le_term (last (Log rn))"
  obtains rn' k req where "on_election_timer D (rn_role rn) e e rn = (rn', map (\<lambda>p. (p, PreVoteCall k req)) (keys (rn_peers rn)))"
    and "rv_pre_vote req" and "rv_term req = CurrentTerm rn + 1" and "describes req (Log rn)" and "prevote_open k (m div 2) rn'"
    and "rn_persistent rn' = rn_persistent rn" and "rn_peers rn' = rn_peers rn"
proof -
  define req where "req = \<lparr>rv_term = CurrentTerm rn + 1, rv_candidate_id = node_id rn,
      rv_last_log_index = fst (LastIndex (d_backend D) (rn_storage rn)),
      rv_last_log_term = fst (LastTerm (d_backend D) (rn_storage rn)), rv_pre_vote = True\<rparr>"
  define k where "k = rn_nextClosure rn"
  define rn' where "rn' = (resetElectionTimer e rn)\<lparr>rn_nextClosure := Suc k,
      rn_preVotes := AList.update k \<lparr>pv_term = CurrentTerm rn, pv_votes = 1, pv_majority = m div 2 + 1,
        pv_started = now e, pv_campaigned = False\<rparr> (rn_preVotes rn),
      rn_metrics := (IncRequestVoteTotal ^^ length (rn_peers rn)) (rn_metrics rn)\<rparr>"
  have "on_election_timer D (rn_role rn) e e rn = (rn', map (\<lambda>p. (p, PreVoteCall k req)) (keys (rn_peers rn)))"
    using L d(1) p by (auto simp: on_election_timer_def startElection_def Let_def frame rn'_def req_def k_def)
  moreover have "prevote_open k (m div 2) rn'" using L d(2) by (simp add: prevote_open_def rn'_def frame update_conv')
  moreover have "describes req (Log rn)" using i by (simp add: describes_def req_def)
  moreover have "rv_pre_vote req" "rv_term req = CurrentTerm rn + 1" by (simp_all add: req_def)
  moreover have "rn_persistent rn' = rn_persistent rn" "rn_peers rn' = rn_peers rn" by (simp_all add: rn'_def frame)
  ultimately show thesis using that by blast
qed

lemma call_of_peer: "q \<in> set ks \<Longrightarrow> (q, f q) \<in> set (map (\<lambda>p. (p, f p)) ks)"
  by auto

text \<open>The timer of a member that does not lead: every peer is asked for a pre-vote.\<close>

lemma prevote_phase:
  assumes b: "backend_ok D fresh fits" and N: "members_ok fits N" and r: "cluster_reach D fresh fits N c"
    and n: "n \<in> N" "1 < card N" and L: "rn_role (c_nodes c n) \<noteq> Leader"
    and d: "rn_electionDeadline (c_nodes c n) \<le> now e" "rn_lastLeaderContact (c_nodes c n) \<le> now e"
  obtains c1 rn1 k req where "exec D N (ElectionTimer n (rn_role (c_nodes c n)) e e) c = Some c1" and "cluster_reach D fresh fits N c1"
    and "c_nodes c1 = (c_nodes c)(n := rn1)" and "rn_persistent rn1 = rn_persistent (c_nodes c n)"
    and "rn_peers rn1 = rn_peers (c_nodes c n)" and "rv_pre_vote req"
    and "rv_term req = CurrentTerm (c_nodes c n) + 1" and "describes req (Log (c_nodes c n))" and "prevote_open k (card N div 2) rn1"
    and "\<forall>q\<in>N - {n}. \<exists>i. (i, q, PreVoteCall k req) \<in> open_of c1 n"
proof -
  let ?L = "c_nodes c n"
  obtain ok term_of vote_of log_of where en: "engine (d_backend D) ok term_of vote_of log_of fits D"
    and m: "\<forall>m\<in>N. mirrors ok term_of vote_of log_of (c_nodes c m)" and cfg: "\<forall>m\<in>N. configured N m (c_nodes c m)"
    and "\<forall>m\<in>N. fits (string_to_bytes (node_id (c_nodes c m)))"
    and nw: "\<forall>m\<in>N. CurrentTerm (c_nodes c m) < - 1 \<and> length (Log (c_nodes c m)) < 2 ^ 64 - 1" and ids: "ids_ok c"
    by (rule members [OF b N r]) blast
  have fin: "finite N" using N by (simp add: members_ok_def)
  have pc: "length (rn_peers ?L) + 1 = card N" by (rule configured_card [OF bspec [OF cfg n(1)] fin n(1)])
  obtain rn1 k req where e1: "on_election_timer D (rn_role ?L) e e ?L = (rn1, map (\<lambda>p. (p, PreVoteCall k req)) (keys (rn_peers ?L)))"
    and rq: "rv_pre_vote req" "rv_term req = CurrentTerm ?L + 1" "describes req (Log ?L)" "prevote_open k (card N div 2) rn1"
    and p1: "rn_persistent rn1 = rn_persistent ?L" "rn_peers rn1 = rn_peers ?L"
    by (rule election_started [OF L d pc n(2) engine.mirrors_last [OF en bspec [OF m n(1)]]])
  define c1 where "c1 = spawn n (map (\<lambda>p. (p, PreVoteCall k req)) (keys (rn_peers ?L))) (set_node n rn1 c)"
  have x1: "exec D N (ElectionTimer n (rn_role ?L) e e) c = Some c1" using n(1) e1 by (simp add: c1_def)
  have n1: "c_nodes c1 = (c_nodes c)(n := rn1)" by (simp add: c1_def)
  have "no_wrap N c" using nw by (simp add: no_wrap_def)
  from no_wrap_set [OF this n1] have "no_wrap N c1" using bspec [OF nw n(1)] by (simp add: p1)
  then have r1: "cluster_reach D fresh fits N c1" using cluster_reach.step [OF r x1] by simp
  have "ids_ok (set_node n rn1 c)" using ids by (simp add: ids_ok_def)
  note op = open_of_spawn [OF this, of n "map (\<lambda>p. (p, PreVoteCall k req)) (keys (rn_peers ?L))" n, folded c1_def]
  have op1: "\<exists>i. (i, q, PreVoteCall k req) \<in> open_of c1 n" if "q \<in> N - {n}" for q
  proof -
    have "q \<in> set (keys (rn_peers ?L))" using configuredD(3) [OF bspec [OF cfg n(1)]] that by auto
    then have "(q, PreVoteCall k req) \<in> set (map (\<lambda>p. (p, PreVoteCall k req)) (keys (rn_peers ?L)))" by (rule call_of_peer)
    from new_calls_ex [OF this] show ?thesis unfolding op by (simp only: refl if_True Un_iff) blast
  qed
  from that [OF x1 r1 n1 p1 rq] op1 show thesis by blast
qed

text \<open>The campaign that the last pre-vote starts: every peer is asked for its vote.\<close>

lemma campaign_phase:
  assumes b: "backend_ok D fresh fits" and N: "members_ok fits N" and r: "cluster_reach D fresh fits N c"
    and n: "n \<in> N" "1 < card N" and c: "campaignLocked D e ((c_nodes c n)\<lparr>rn_preVotes := x\<rparr>) = (rn, cs)"
    and op: "\<forall>y\<in>set cs. \<exists>j. (j, y) \<in> open_of c' n"
  obtains k req where "rn_role rn = Candidate" and "CurrentTerm rn = CurrentTerm (c_nodes c n) + 1" and "Log rn = Log (c_nodes c n)"
    and "campaign_open k (card N div 2) rn" and "rv_term req = CurrentTerm (c_nodes c n) + 1" and "\<not> rv_pre_vote req"
    and "describes req (Log (c_nodes c n))" and "\<forall>q\<in>N - {n}. \<exists>i. (i, q, VoteCall k req) \<in> open_of c' n"
proof -
  let ?L = "c_nodes c n" and ?rn = "(c_nodes c n)\<lparr>rn_preVotes := x\<rparr>"
  obtain ok term_of vote_of log_of where en: "engine (d_backend D) ok term_of vote_of log_of fits D"
    and m: "\<forall>m\<in>N. mirrors ok term_of vote_of log_of (c_nodes c m)" and cfg: "\<forall>m\<in>N. configured N m (c_nodes c m)"
    and f: "\<forall>m\<in>N. fits (string_to_bytes (node_id (c_nodes c m)))"
    and "\<forall>m\<in>N. CurrentTerm (c_nodes c m) < - 1 \<and> length (Log (c_nodes c m)) < 2 ^ 64 - 1" and "ids_ok c"
    by (rule members [OF b N r]) blast
  have fin: "finite N" using N by (simp add: members_ok_def)
  have pc: "length (rn_peers ?L) + 1 = card N" by (rule configured_card [OF bspec [OF cfg n(1)] fin n(1)])
  have "mirrors ok term_of vote_of log_of ?rn" "fits (string_to_bytes (node_id ?rn))" "rn_peers ?rn \<noteq> []"
    using bspec [OF m n(1)] bspec [OF f n(1)] pc n(2) by (auto simp: mirrors_def)
  note st = engine.campaign_state [OF en this c]
  from st(5) obtain k cp req where cp: "map_of (rn_campaigns rn) k = Some cp" "cp_term cp = CurrentTerm ?L + 1" "cp_votes cp = 1"
      "cp_majority cp = card N div 2 + 1"
    and calls: "cs = map (\<lambda>p. (p, VoteCall k req)) (keys (rn_peers ?L))"
    and rq: "rv_term req = CurrentTerm ?L + 1" "\<not> rv_pre_vote req" "describes req (Log ?L)" using pc by auto
  have "\<exists>i. (i, q, VoteCall k req) \<in> open_of c' n" if "q \<in> N - {n}" for q
  proof -
    have "q \<in> set (keys (rn_peers ?L))" using configuredD(3) [OF bspec [OF cfg n(1)]] that by auto
    then have "(q, VoteCall k req) \<in> set cs" unfolding calls by (rule call_of_peer)
    with op show ?thesis by blast
  qed
  moreover have "campaign_open k (card N div 2) rn" using cp st(1,2) by (simp add: campaign_open_def)
  ultimately show thesis using st(1-3) rq that by simp
qed

lemma election_won:
  assumes b: "backend_ok D fresh fits" and N: "members_ok fits N" and r: "cluster_reach D fresh fits N c"
    and n: "n \<in> N" "N \<noteq> {n}" and Q: "n \<in> Q" "Q \<subseteq> N" "card N < 2 * card Q"
    and w: "\<forall>m\<in>Q. would_vote e (CurrentTerm (c_nodes c n)) (Log (c_nodes c n)) (c_nodes c m)"
    and d: "rn_electionDeadline (c_nodes c n) \<le> now e" "rn_lastLeaderContact (c_nodes c n) \<le> now e"
    and t: "CurrentTerm (c_nodes c n) < - 2" and len: "length (Log (c_nodes c n)) < 2 ^ 64 - 2"
  obtains evs c' where "run D N (ElectionTimer n (rn_role (c_nodes c n)) e e # evs) c = Some c'" and "list_all (answers e) evs"
    and "cluster_reach D fresh fits N c'" and "rn_role (c_nodes c' n) = Leader"
    and "CurrentTerm (c_nodes c' n) = CurrentTerm (c_nodes c n) + 1"
    and "Log (c_nodes c' n) = Log (c_nodes c n) @ [\<lparr>le_index = of_nat (length (Log (c_nodes c n))),
      le_term = CurrentTerm (c_nodes c n) + 1, le_command = []\<rparr>]"
    and "\<forall>m\<in>Q. CurrentTerm (c_nodes c' m) \<le> CurrentTerm (c_nodes c n) + 1" and "\<forall>m. m \<notin> Q \<longrightarrow> c_nodes c' m = c_nodes c m"
proof -
  let ?L = "c_nodes c n"
  have fin: "finite N" "finite Q" using N Q(2) by (auto simp: members_ok_def intro: finite_subset)
  have "card N \<noteq> 1" "0 < card N" using n fin(1) by (auto simp: card_1_singleton_iff card_gt_0_iff)
  then have cN: "1 < card N" by simp
  have "card N div 2 \<le> card (Q - {n})" using Q fin(2) by simp
  then obtain qs where qs: "set qs \<subseteq> Q - {n}" "distinct qs" and lq: "length qs = card N div 2"
    by (metis obtain_subset_with_card_n finite_distinct_list distinct_card finite_Diff finite_subset fin(2))
  have sub: "qs \<noteq> []" "set qs \<subseteq> N - {n}" "set qs \<subseteq> Q" "n \<notin> set qs" using lq cN qs(1) Q(2) by auto
  have L: "rn_role ?L \<noteq> Leader" using w Q(1) by (simp add: would_vote_def)
  obtain c1 rn1 k req where x1: "exec D N (ElectionTimer n (rn_role ?L) e e) c = Some c1" and r1: "cluster_reach D fresh fits N c1"
    and n1: "c_nodes c1 = (c_nodes c)(n := rn1)" and p1: "rn_persistent rn1 = rn_persistent ?L" "rn_peers rn1 = rn_peers ?L"
    and rq: "rv_pre_vote req" "rv_term req = CurrentTerm ?L + 1" "describes req (Log ?L)" "prevote_open k (card N div 2) rn1"
    and op1: "\<forall>q\<in>N - {n}. \<exists>i. (i, q, PreVoteCall k req) \<in> open_of c1 n"
    by (rule prevote_phase [OF b N r n(1) cN L d])
  have t1: "CurrentTerm (c_nodes c1 n) = CurrentTerm ?L" "Log (c_nodes c1 n) = Log ?L" by (simp_all add: n1 p1)
  have pr1: "CurrentTerm (c_nodes c1 n) < - 2" "rv_term req = CurrentTerm (c_nodes c1 n) + 1" "prevote_open k (length qs) (c_nodes c1 n)"
    using t rq(2,4) by (simp_all add: t1) (simp add: n1 lq(1))
  have "\<forall>q\<in>set qs. (\<exists>i. (i, q, PreVoteCall k req) \<in> open_of c1 n) \<and>
      would_vote e (CurrentTerm (c_nodes c1 n)) (Log ?L) (c_nodes c1 q)" using op1 w sub(2-4) by (auto simp: n1 p1)
  from prevotes_collected [OF b N n(1) rq(1,3) r1 qs(2) sub(1,2) pr1 this] obtain evs2 c2 x rn2 cs2 where
    c2: "run D N evs2 c1 = Some c2" "cluster_reach D fresh fits N c2" "campaignLocked D e ((c_nodes c1 n)\<lparr>rn_preVotes := x\<rparr>) = (rn2, cs2)"
    "c_nodes c2 = (c_nodes c1)(n := rn2)" and op2: "\<forall>y\<in>set cs2. \<exists>j. (j, y) \<in> open_of c2 n"
    and v2: "list_all (answers e) evs2" by blast
  obtain k2 req2 where st2: "rn_role rn2 = Candidate" "CurrentTerm rn2 = CurrentTerm ?L + 1" "Log rn2 = Log ?L"
    and co: "campaign_open k2 (card N div 2) rn2" and rq2: "rv_term req2 = CurrentTerm ?L + 1" "\<not> rv_pre_vote req2" "describes req2 (Log ?L)"
    and v3: "\<forall>q\<in>N - {n}. \<exists>i. (i, q, VoteCall k2 req2) \<in> open_of c2 n"
    by (rule campaign_phase [OF b N r1 n(1) cN c2(3) op2, unfolded t1])
  have n2: "c_nodes c2 n = rn2" "\<And>m. m \<noteq> n \<Longrightarrow> c_nodes c2 m = c_nodes c m" by (simp_all add: c2(4) n1)
  have wv: "\<forall>q\<in>set qs. (\<exists>i. (i, q, VoteCall k2 req2) \<in> open_of c2 n) \<and> CurrentTerm (c_nodes c2 q) < CurrentTerm (c_nodes c2 n) \<and>
      ahead (Log ?L) (Log (c_nodes c2 q))"
  proof
    fix q
    assume q: "q \<in> set qs"
    then have "q \<noteq> n" "would_vote e (CurrentTerm ?L) (Log ?L) (c_nodes c q)" using sub(3,4) w by auto
    then show "(\<exists>i. (i, q, VoteCall k2 req2) \<in> open_of c2 n) \<and> CurrentTerm (c_nodes c2 q) < CurrentTerm (c_nodes c2 n) \<and>
        ahead (Log ?L) (Log (c_nodes c2 q))"
      using v3 q sub(2) inc_below [OF t] st2(2) by (auto simp: n2 would_vote_def intro: le_less_trans)
  qed
  have pr2: "rv_term req2 = CurrentTerm (c_nodes c2 n)" "length (Log (c_nodes c2 n)) < 2 ^ 64 - 2" "campaign_open k2 (length qs) (c_nodes c2 n)"
    using rq2(1) st2 len co by (simp_all add: n2 lq)
  from votes_collected [OF b N n(1) rq2(2,3) c2(2) qs(2) sub(1,2) pr2 wv] obtain evs3 c3 where
    c3: "run D N evs3 c2 = Some c3" "cluster_reach D fresh fits N c3" "rn_role (c_nodes c3 n) = Leader"
    "CurrentTerm (c_nodes c3 n) = CurrentTerm (c_nodes c2 n)" "Log (c_nodes c3 n) = Log (c_nodes c2 n) @ [noop_of (c_nodes c2 n)]"
    "\<forall>q\<in>set qs. CurrentTerm (c_nodes c3 q) = CurrentTerm (c_nodes c2 n)"
    "\<forall>m. m \<notin> insert n (set qs) \<longrightarrow> c_nodes c3 m = c_nodes c2 m" "list_all (answers e) evs3" by blast
  have rn: "run D N (ElectionTimer n (rn_role ?L) e e # evs2 @ evs3) c = Some c3" and ans: "list_all (answers e) (evs2 @ evs3)"
    using x1 c2(1) c3(1,8) v2 by (simp_all add: run_append)
  have "CurrentTerm (c_nodes c3 q) \<le> CurrentTerm ?L + 1" if q: "q \<in> Q" for q
  proof (cases "q \<in> insert n (set qs)")
    case False
    then have "c_nodes c3 q = c_nodes c q" using c3(7) by (simp add: n2)
    moreover have "CurrentTerm (c_nodes c q) \<le> CurrentTerm ?L" using w q by (simp add: would_vote_def)
    ultimately show ?thesis using inc_below [OF t] by (auto intro: order_trans less_imp_le)
  qed (use c3(4,6) st2(2) in \<open>auto simp: n2\<close>)
  moreover have "\<forall>m. m \<notin> Q \<longrightarrow> c_nodes c3 m = c_nodes c m" using c3(7) sub(3) Q(1) by (metis insert_iff n2(2) subsetD)
  ultimately show thesis using c3 st2 by (intro that [OF rn ans]) (simp_all add: n2 noop_of_def)
qed

section \<open>Property\<close>

text \<open>There is time enough for every timer and lease to run out.\<close>

lemma late_env:
  assumes "finite Q" and "\<forall>m\<in>Q. ElectionTimeoutMin (rn_config (f m)) < 2 ^ 63"
  obtains e where "d \<le> now e" and "\<forall>m\<in>Q. rn_lastLeaderContact (f m) \<le> now e \<and> lease_over e (f m)"
proof -
  define T where "T = Max (insert d ((\<lambda>m. rn_lastLeaderContact (f m)) ` Q)) + 2 ^ 63"
  have mx: "x \<le> T - 2 ^ 63" if "x \<in> insert d ((\<lambda>m. rn_lastLeaderContact (f m)) ` Q)" for x
    unfolding T_def using Max_ge [OF _ that] assms(1) by simp
  define e where "e = \<lparr>now = T, now_deadline = T, now_armed = T, Int63n = (\<lambda>n. 0)\<rparr>"
  have "d \<le> now e" using mx [of d] by (simp add: e_def)
  moreover have "rn_lastLeaderContact (f m) \<le> now e \<and> lease_over e (f m)" if "m \<in> Q" for m
  proof -
    have "rn_lastLeaderContact (f m) \<le> T - 2 ^ 63" using mx that by blast
    with assms(2) that show ?thesis by (auto simp: e_def lease_over_def time_sub_def)
  qed
  ultimately show thesis using that by blast
qed

text \<open>
  C6: a cluster recovers.  From every reachable cluster, take a member whose term and log are not
  behind those of a majority none of which leads (its leader may have crashed, or be cut off), at an
  instant at which the leases of that majority have run out and the member's election timer is due.
  Then there is a run that begins with the tick of its election timer and goes on with deliveries and
  answers at that instant, and then with its heartbeats, deliveries and answers, in which it is elected
  in the next term and brings its log to the whole majority, commits and applies all of it.  Members
  outside the majority take no part: they need not be up, and are at the end as they were.
\<close>

theorem cluster_recovers:
  assumes b: "backend_ok D fresh fits" and N: "members_ok fits N" and r: "cluster_reach D fresh fits N c"
    and n: "n \<in> N" "N \<noteq> {n}" and Q: "n \<in> Q" "Q \<subseteq> N" "card N < 2 * card Q"
    and ahead: "\<forall>m\<in>Q. rn_role (c_nodes c m) \<noteq> Leader \<and> CurrentTerm (c_nodes c m) \<le> CurrentTerm (c_nodes c n) \<and>
      (le_term (last (Log (c_nodes c m))) < le_term (last (Log (c_nodes c n))) \<or>
       le_term (last (Log (c_nodes c m))) = le_term (last (Log (c_nodes c n))) \<and>
       length (Log (c_nodes c m)) \<le> length (Log (c_nodes c n)))"
    and leases: "\<forall>m\<in>Q. lease_over e (c_nodes c m)"
    and due: "rn_electionDeadline (c_nodes c n) \<le> now e" "rn_lastLeaderContact (c_nodes c n) \<le> now e"
    and room: "CurrentTerm (c_nodes c n) < - 2" "length (Log (c_nodes c n)) < 2 ^ 64 - 2"
  shows "\<exists>evs1 evs2 c'. run D N (ElectionTimer n (rn_role (c_nodes c n)) e e # evs1 @ evs2) c = Some c' \<and>
    list_all (answers e) evs1 \<and> list_all (replicates n) evs2 \<and>
    cluster_reach D fresh fits N c' \<and> (\<forall>m. m \<notin> Q \<longrightarrow> c_nodes c' m = c_nodes c m) \<and>
    rn_role (c_nodes c' n) = Leader \<and> CurrentTerm (c_nodes c' n) = CurrentTerm (c_nodes c n) + 1 \<and>
    (\<forall>m\<in>Q. take (length (Log (c_nodes c n))) (Log (c_nodes c' m)) = Log (c_nodes c n)) \<and>
    length (Log (c_nodes c n)) \<le> unat (commitIndex (c_nodes c' n)) \<and>
    rn_kvStore (c_nodes c' n) = replay D (Log (c_nodes c n))"
proof -
  let ?L = "c_nodes c n"
  have w: "\<forall>m\<in>Q. would_vote e (CurrentTerm ?L) (Log ?L) (c_nodes c m)"
    using ahead leases by (simp add: would_vote_def ahead_def)
  let ?tick = "ElectionTimer n (rn_role ?L) e e"
  obtain evs1 c1 where v1: "run D N (?tick # evs1) c = Some c1" "list_all (answers e) evs1"
    and c1: "cluster_reach D fresh fits N c1" "rn_role (c_nodes c1 n) = Leader"
    "CurrentTerm (c_nodes c1 n) = CurrentTerm ?L + 1"
    and lg: "Log (c_nodes c1 n) = Log ?L @ [\<lparr>le_index = of_nat (length (Log ?L)), le_term = CurrentTerm ?L + 1, le_command = []\<rparr>]"
    and t1: "\<forall>m\<in>Q. CurrentTerm (c_nodes c1 m) \<le> CurrentTerm ?L + 1" and o1: "\<forall>m. m \<notin> Q \<longrightarrow> c_nodes c1 m = c_nodes c m"
    by (rule election_won [OF b N r n Q w due room])
  have "\<forall>m\<in>Q. CurrentTerm (c_nodes c1 m) \<le> CurrentTerm (c_nodes c1 n)" using t1 c1(3) by simp
  from leader_commits [OF b N c1(1) n c1(2) Q this] obtain evs2 c2 where v2: "list_all (replicates n) evs2" and
    c2: "run D N evs2 c1 = Some c2" "cluster_reach D fresh fits N c2" "\<forall>m. m \<notin> Q \<longrightarrow> c_nodes c2 m = c_nodes c1 m"
    "rn_role (c_nodes c2 n) = Leader" "CurrentTerm (c_nodes c2 n) = CurrentTerm (c_nodes c1 n)"
    and h: "\<forall>m\<in>Q. take (length (Log (c_nodes c1 n))) (Log (c_nodes c2 m)) = Log (c_nodes c1 n)"
    and cm: "le_term (last (Log (c_nodes c1 n))) = CurrentTerm (c_nodes c1 n) \<longrightarrow>
      Suc (unat (commitIndex (c_nodes c2 n))) = length (Log (c_nodes c1 n)) \<and>
      rn_kvStore (c_nodes c2 n) = replay D (Log (c_nodes c1 n))" by blast
  have "take (length (Log ?L)) (Log (c_nodes c2 m)) = Log ?L" if "m \<in> Q" for m
  proof -
    have "take (length (Log ?L)) (take (length (Log (c_nodes c1 n))) (Log (c_nodes c2 m))) = take (length (Log ?L)) (Log (c_nodes c1 n))"
      using h that by simp
    then show ?thesis by (simp add: lg)
  qed
  moreover have "unat (commitIndex (c_nodes c2 n)) = length (Log ?L)" "rn_kvStore (c_nodes c2 n) = replay D (Log ?L)"
    using cm c1(3) by (simp_all add: lg replay_snoc apply_entry_def)
  moreover have "run D N (?tick # evs1 @ evs2) c = Some c2"
    using v1(1) c2(1) run_append [of D N "?tick # evs1" evs2 c] by (simp del: run.simps)
  ultimately show ?thesis using v1(2) v2 c2 c1(3) o1
    by (intro exI [of _ evs1] exI [of _ evs2] exI [of _ c2]) (simp del: run.simps)
qed

lemma demo_election_timeouts:
  "ElectionTimeoutMin (rn_config (c_nodes (demo_at 9) ''b'')) = 150000000 \<and>
   ElectionTimeoutMin (rn_config (c_nodes (demo_at 9) ''c'')) = 150000000"
  by code_simp

theorem cluster_recovers_witness:
  "\<exists>evs c'. run demo_deps demo_members evs (demo_at 9) = Some c' \<and> c_nodes c' ''a'' = c_nodes (demo_at 9) ''a'' \<and>
     CurrentTerm (c_nodes c' ''b'') = 2 \<and> 2 \<le> unat (commitIndex (c_nodes c' ''b''))"
proof -
  let ?b = "c_nodes (demo_at 9) ''b''" and ?c = "c_nodes (demo_at 9) ''c''"
  have Q: "demo_members \<noteq> {''b''}" "{''b'', ''c''} \<subseteq> demo_members" "card demo_members < 2 * card {''b'', ''c''}"
    by (auto simp: demo_members_def)
  have lg: "map le_term (Log ?b) = [0, 1]" "map le_term (Log ?c) = [0, 1]" by (simp_all add: demo_leading_facts)
  have "length (map le_term (Log ?b)) = 2" "length (map le_term (Log ?c)) = 2" unfolding lg by simp_all
  then have len: "length (Log ?b) = 2" "length (Log ?c) = 2" unfolding length_map .
  then have "le_term (last (Log ?b)) = last (map le_term (Log ?b))" "le_term (last (Log ?c)) = last (map le_term (Log ?c))"
    by (subst last_map; auto)+
  then have la: "le_term (last (Log ?b)) = 1" "le_term (last (Log ?c)) = 1" unfolding lg by simp_all
  have A: "\<forall>m\<in>{''b'', ''c''}. rn_role (c_nodes (demo_at 9) m) \<noteq> Leader \<and> CurrentTerm (c_nodes (demo_at 9) m) \<le> CurrentTerm ?b \<and>
      (le_term (last (Log (c_nodes (demo_at 9) m))) < le_term (last (Log ?b)) \<or>
       le_term (last (Log (c_nodes (demo_at 9) m))) = le_term (last (Log ?b)) \<and> length (Log (c_nodes (demo_at 9) m)) \<le> length (Log ?b))"
    by (simp add: demo_leading_facts la len)
  have B: "\<forall>m\<in>{''b'', ''c''}. ElectionTimeoutMin (rn_config (c_nodes (demo_at 9) m)) < 2 ^ 63"
    by (simp add: demo_election_timeouts)
  have t: "CurrentTerm ?b = 1" by (simp add: demo_leading_facts)
  have room: "CurrentTerm ?b < - 2" "length (Log ?b) < 2 ^ 64 - 2" by (simp_all add: t len unat_less_u64)
  from late_env [OF _ B] obtain e where d: "rn_electionDeadline ?b \<le> now e"
    and lo: "\<forall>m\<in>{''b'', ''c''}. rn_lastLeaderContact (c_nodes (demo_at 9) m) \<le> now e \<and> lease_over e (c_nodes (demo_at 9) m)" by blast
  then have C: "\<forall>m\<in>{''b'', ''c''}. lease_over e (c_nodes (demo_at 9) m)" "rn_lastLeaderContact ?b \<le> now e" by simp_all
  from cluster_recovers [OF demo_setting demo_member(2) Q(1) insertI1 Q(2,3) A C(1) d C(2) room] obtain evs c' where
    "run demo_deps demo_members evs (demo_at 9) = Some c'" "\<forall>m. m \<notin> {''b'', ''c''} \<longrightarrow> c_nodes c' m = c_nodes (demo_at 9) m"
    "CurrentTerm (c_nodes c' ''b'') = CurrentTerm ?b + 1" "length (Log ?b) \<le> unat (commitIndex (c_nodes c' ''b''))" by blast
  then show ?thesis using len t by (intro exI [of _ evs] exI [of _ c']) simp
qed

end
