(* ===== verification/Client_Progress.thy ===== *)
theory Client_Progress
  imports Cluster_Progress Service_Properties
begin

text \<open>
  Progress for clients: the whole path of a write, from the request at a leader's gateway over the
  replication of its entry to the message in the client's channel.
\<close>

section \<open>A proposal returns\<close>

text \<open>The proposal at a leader: its entry is appended and its client waits.\<close>

lemma leader_proposes:
  assumes b: "backend_ok D fresh fits" and N: "members_ok fits N" and r: "cluster_reach D fresh fits N c"
    and n: "n \<in> N" "N \<noteq> {n}" and L: "rn_role (c_nodes c n) = Leader"
    and room: "length (Log (c_nodes c n)) + 1 < 2 ^ 64 - 1" and f: "fits cmd"
    and cmd: "cmd \<noteq> []" "DecodeCommand (d_gob D) cmd = Inr x"
  defines "i \<equiv> of_nat (length (Log (c_nodes c n)))" and "ch \<equiv> rn_nextChan (c_nodes c n)"
  obtains c1 where "exec D N (Propose n cmd) c = Some c1" and "cluster_reach D fresh fits N c1"
    and "find_waiter n ch c1 = Some (i, cmd)" and "served D i ch (c_nodes c1 n)"
    and "Log (c_nodes c1 n) = Log (c_nodes c n) @ [entry_of (c_nodes c n) cmd]" and "rn_role (c_nodes c1 n) = Leader"
    and "CurrentTerm (c_nodes c1 n) = CurrentTerm (c_nodes c n)" and "\<forall>m. m \<noteq> n \<longrightarrow> c_nodes c1 m = c_nodes c m"
proof -
  let ?L = "c_nodes c n"
  obtain ok term_of vote_of log_of a where e: "engine (d_backend D) ok term_of vote_of log_of fits D"
    and sim: "engine.csim ok term_of vote_of log_of fits D N c a" and nw: "no_wrap N c" by (rule cluster_abs [OF b N r])
  have cfg: "configured N n ?L" using engine.csimD(3) [OF e sim n(1)] by (simp add: node_sim_def)
  have "finite N" "card N \<noteq> 1" using N n by (auto simp: members_ok_def card_1_singleton_iff)
  with configured_card [OF cfg _ n(1)] have p: "rn_peers ?L \<noteq> []" by auto
  have len: "length (Log ?L) < 2 ^ 64 - 1" using room by simp
  obtain rn' cs where pc: "ProposeCommand D cmd ?L = (ProposeWait i ch, rn', cs)"
    and lg: "Log rn' = Log ?L @ [entry_of ?L cmd]" and tm: "CurrentTerm rn' = CurrentTerm ?L" "rn_role rn' = Leader"
    and pd: "map_of (rn_pendingCommits rn') i = Some ch" "lastApplied rn' = lastApplied ?L" and m: "mirrors ok term_of vote_of log_of rn'"
    unfolding i_def ch_def by (rule engine.propose_waits [OF e abs_node(5) [OF e sim n(1)] L p len f])
  define c1 where "c1 = propose D n cmd c"
  have c1: "c1 = spawn n cs ((set_node n rn' c)\<lparr>c_waiters := (n, ch, i, cmd) # c_waiters c\<rparr>)"
    by (simp add: c1_def propose_def pc)
  have nd: "c_nodes c1 = (c_nodes c)(n := rn')" by (simp add: c1)
  have x: "exec D N (Propose n cmd) c = Some c1" using n(1) by (simp add: c1_def)
  have "no_wrap N c1" using no_wrap_set [OF nw nd] nw n(1) room tm(1) by (simp add: lg no_wrap_def)
  then have r1: "cluster_reach D fresh fits N c1" using cluster_reach.step [OF r x] f by simp
  have w: "find_waiter n ch c1 = Some (i, cmd)" by (simp add: find_waiter_def c1)
  have ui: "unat i = length (Log ?L)" using len by (simp add: i_def unat_of_nat_u64)
  have "GetEntry (d_backend D) i (rn_storage rn') = Inr (entry_of ?L cmd)"
    using engine.mirrors_GetEntry_in [OF e m, of i] by (simp add: lg ui)
  moreover have "lastApplied rn' < i" using abs_node(6) [OF e sim n(1)] by (simp add: applied_def pd(2) unat_less_u64 ui)
  ultimately have "served D i ch rn'" using pd(1) cmd by (simp add: served_def entry_of_def)
  with that [OF x r1 w] show thesis by (simp add: nd lg tm)
qed

text \<open>Once the leader has committed its whole log, the client is woken.\<close>

lemma client_returns:
  assumes b: "backend_ok D fresh fits" and N: "members_ok fits N" and r: "cluster_reach D fresh fits N c" and n: "n \<in> N"
    and w: "find_waiter n ch c = Some (i, cmd)" and s: "served D i ch (c_nodes c n)" and up: "i \<le> commitIndex (c_nodes c n)"
  obtains c' where "exec D N (ProposeReturn n ch t) c = Some c'" and "cluster_reach D fresh fits N c'"
    and "(i, cmd) \<in> set (c_acked c')" and "rn_kvStore (c_nodes c' n) = rn_kvStore (c_nodes c n)"
    and "rn_role (c_nodes c' n) = rn_role (c_nodes c n)" and "Log (c_nodes c' n) = Log (c_nodes c n)"
proof -
  let ?L = "c_nodes c n"
  obtain ok term_of vote_of log_of a where e: "engine (d_backend D) ok term_of vote_of log_of fits D"
    and sim: "engine.csim ok term_of vote_of log_of fits D N c a" and nw: "no_wrap N c" by (rule cluster_abs [OF b N r])
  have "i \<le> lastApplied ?L" using up abs_node(6) [OF e sim n] by (simp add: applied_def)
  with s have "(ch, None) \<in> set (rn_chans ?L)" by (auto simp: served_def)
  from propose_receive_served [OF abs_node(7) [OF e sim n] this] obtain rn' where
    rc: "propose_receive i ch t ?L = Some ((i, None), rn')"
    and k: "rn_kvStore rn' = rn_kvStore ?L" "rn_role rn' = rn_role ?L" "rn_persistent rn' = rn_persistent ?L" by blast
  define c' where "c' = (drop_waiter n ch (set_node n rn' c))\<lparr>c_acked := (i, cmd) # c_acked c\<rparr>"
  have x: "exec D N (ProposeReturn n ch t) c = Some c'"
    using w rc by (simp add: c'_def Let_def drop_waiter_def)
  have nd: "c_nodes c' = (c_nodes c)(n := rn')" by (simp add: c'_def drop_waiter_def)
  have "no_wrap N c'" using no_wrap_set [OF nw nd] nw n k(3) by (simp add: no_wrap_def)
  then have r': "cluster_reach D fresh fits N c'" using cluster_reach.step [OF r x] by simp
  have "(i, cmd) \<in> set (c_acked c')" by (simp add: c'_def)
  from that [OF x r' this] show thesis by (simp add: nd k)
qed

lemma proposal_completes:
  assumes b: "backend_ok D fresh fits" and N: "members_ok fits N" and r: "cluster_reach D fresh fits N c"
    and n: "n \<in> N" "N \<noteq> {n}" and L: "rn_role (c_nodes c n) = Leader"
    and Q: "n \<in> Q" "Q \<subseteq> N" "card N < 2 * card Q" and t: "\<forall>m\<in>Q. CurrentTerm (c_nodes c m) \<le> CurrentTerm (c_nodes c n)"
    and room: "length (Log (c_nodes c n)) + 1 < 2 ^ 64 - 1" and f: "fits cmd"
    and cmd: "cmd \<noteq> []" "DecodeCommand (d_gob D) cmd = Inr x"
  defines "i \<equiv> of_nat (length (Log (c_nodes c n))) :: u64" and "k \<equiv> Suc (length (Log (c_nodes c n)))"
  obtains evs c' where "run D N (Propose n cmd # evs) c = Some c'" and "cluster_reach D fresh fits N c'"
    and "length evs \<le> 3 * (card Q - 1) * (k + k div 256) + 1" and "(i, cmd) \<in> set (c_acked c')"
    and "Log (c_nodes c' n) = Log (c_nodes c n) @ [entry_of (c_nodes c n) cmd]"
    and "rn_kvStore (c_nodes c' n) = apply_entry D (replay D (Log (c_nodes c n))) (entry_of (c_nodes c n) cmd)"
    and "rn_role (c_nodes c' n) = Leader"
proof -
  let ?L = "c_nodes c n" and ?ch = "rn_nextChan (c_nodes c n)"
  obtain c1 where x1: "exec D N (Propose n cmd) c = Some c1" "cluster_reach D fresh fits N c1"
    and w1: "find_waiter n ?ch c1 = Some (i, cmd)" "served D i ?ch (c_nodes c1 n)"
    and l1: "Log (c_nodes c1 n) = Log ?L @ [entry_of ?L cmd]" "rn_role (c_nodes c1 n) = Leader"
      "CurrentTerm (c_nodes c1 n) = CurrentTerm ?L" and o1: "\<forall>m. m \<noteq> n \<longrightarrow> c_nodes c1 m = c_nodes c m"
    unfolding i_def by (rule leader_proposes [OF b N r n L room f cmd])
  have t1: "\<forall>m\<in>Q. CurrentTerm (c_nodes c1 m) \<le> CurrentTerm (c_nodes c1 n)" using t o1 l1(3) by (metis order_refl)
  have last: "le_term (last (Log (c_nodes c1 n))) = CurrentTerm (c_nodes c1 n)" by (simp add: l1 entry_of_def)
  from leader_commits [OF b N x1(2) n l1(2) Q t1] last obtain evs c2 where
    x2: "run D N evs c1 = Some c2" "cluster_reach D fresh fits N c2" "keeps_waiting D n c1 c2"
    and e2: "length evs \<le> 3 * (card Q - 1) * (length (Log (c_nodes c1 n)) + length (Log (c_nodes c1 n)) div 256)"
    and l2: "rn_role (c_nodes c2 n) = Leader" "Log (c_nodes c2 n) = Log (c_nodes c1 n)"
      "Suc (unat (commitIndex (c_nodes c2 n))) = length (Log (c_nodes c1 n))"
      "rn_kvStore (c_nodes c2 n) = replay D (Log (c_nodes c1 n))" by blast
  have w2: "find_waiter n ?ch c2 = Some (i, cmd)" "served D i ?ch (c_nodes c2 n)"
    using x2(3) w1 by (simp_all add: keeps_waiting_def find_waiter_def)
  have "unat i = unat (commitIndex (c_nodes c2 n))" using l2(3) room by (simp add: i_def l1(1) unat_of_nat_u64)
  then have up: "i \<le> commitIndex (c_nodes c2 n)" by (simp add: unat_le_u64)
  obtain c3 where x3: "exec D N (ProposeReturn n ?ch 0) c2 = Some c3" "cluster_reach D fresh fits N c3"
    and l3: "(i, cmd) \<in> set (c_acked c3)" "rn_kvStore (c_nodes c3 n) = rn_kvStore (c_nodes c2 n)"
      "rn_role (c_nodes c3 n) = rn_role (c_nodes c2 n)" "Log (c_nodes c3 n) = Log (c_nodes c2 n)"
    by (rule client_returns [OF b N x2(2) n(1) w2 up])
  have "run D N (evs @ [ProposeReturn n ?ch 0]) c1 = Some c3" using x2(1) x3(1) by (simp add: run_append)
  then have "run D N (Propose n cmd # evs @ [ProposeReturn n ?ch 0]) c = Some c3" using x1(1) by simp
  moreover have "length (evs @ [ProposeReturn n ?ch 0]) \<le> 3 * (card Q - 1) * (k + k div 256) + 1"
    using e2 by (simp add: l1(1) k_def)
  ultimately show thesis using that x3(2) l3 l2 l1(1) by (simp add: replay_snoc)
qed

section \<open>Property\<close>

text \<open>
  C8: writes complete.  When a leader whose term no member of a majority exceeds takes a PUT that
  its gateway proposes, the cluster can always answer it, in a number of events bounded by the length
  of the log: the entry is replicated and committed, the waiting client is woken with success and
  answers 200, the proposal is acknowledged, and a GET of the path at that leader then answers 200
  with the value of the PUT.
\<close>

theorem put_completes:
  assumes b: "backend_ok D fresh fits" and N: "members_ok fits N" and r: "cluster_reach D fresh fits N c"
    and g: "gob_roundtrip (d_gob D)" and n: "n \<in> N" "N \<noteq> {n}" and put: "r_Method q = ''PUT''"
    and h: "handleKV (d_gob D) net t (\<lambda>_. c_nodes c n) q s = (Submit cmd answer, s')" and f: "fits cmd"
    and Q: "n \<in> Q" "Q \<subseteq> N" "card N < 2 * card Q" and terms: "\<forall>m\<in>Q. CurrentTerm (c_nodes c m) \<le> CurrentTerm (c_nodes c n)"
    and room: "length (Log (c_nodes c n)) + 1 < 2 ^ 64 - 1"
    and k: "i = of_nat (length (Log (c_nodes c n)))" "k = Suc (length (Log (c_nodes c n)))"
  shows "\<exists>evs c'. run D N (Propose n cmd # evs) c = Some c' \<and> cluster_reach D fresh fits N c' \<and>
    length evs \<le> 3 * (card Q - 1) * (k + k div 256) + 1 \<and>
    (i, cmd) \<in> set (c_acked c') \<and> w_Status (answer (i, None)) = 200 \<and>
    (\<forall>t' s''. fst (handleKV (d_gob D) net t' (\<lambda>_. c_nodes c' n) (q\<lparr>r_Method := ''GET''\<rparr>) s'') =
      Respond (json_response 200 [(''key'', JString (kv_path q)), (''value'', JString (bytes_to_string (r_Body q)))]))"
proof -
  note p = put_submits [OF g put h]
  have L: "rn_role (c_nodes c n) = Leader" using submit_leader [OF h] by (simp add: IsLeader_def)
  obtain evs c' where c': "run D N (Propose n cmd # evs) c = Some c'" "cluster_reach D fresh fits N c'"
    "length evs \<le> 3 * (card Q - 1) * (k + k div 256) + 1" "(i, cmd) \<in> set (c_acked c')"
    "rn_kvStore (c_nodes c' n) = apply_entry D (replay D (Log (c_nodes c n))) (entry_of (c_nodes c n) cmd)"
    unfolding k by (rule proposal_completes [OF b N r n L Q terms room f p(2,4)])
  have "Get (c_nodes c' n) (kv_path q) = (bytes_to_string (r_Body q), True)"
    using p(2,4) c'(5) by (simp add: Get_def kv_Get_def apply_entry_def entry_of_def kv_Apply_map_of)
  from get_answers [OF p(1) this] c' p(3) show ?thesis by blast
qed

theorem put_completes_witness:
  "\<exists>evs c'. run demo_deps demo_members (Propose ''a'' demo_command # evs) (demo_at 8) = Some c' \<and>
     (2, demo_command) \<in> set (c_acked c') \<and>
     fst (handleKV unary_gob demo_net 0 (\<lambda>_. c_nodes c' ''a'') (demo_put_kv\<lparr>r_Method := ''GET''\<rparr>) demo_server) =
       Respond (json_response 200 [(''key'', JString ''k''), (''value'', JString ''v'')])"
proof -
  have G: "d_gob demo_deps = unary_gob" by (simp add: demo_deps_def memory_deps_def)
  from demo_put_submits obtain answer where
    h: "handleKV (d_gob demo_deps) demo_net 0 (\<lambda>_. c_nodes (demo_at 8) ''a'') demo_put_kv demo_server =
      (Submit demo_command answer, demo_server)" unfolding G by blast
  have g: "gob_roundtrip (d_gob demo_deps)" unfolding G by (rule unary_roundtrip)
  let ?L = "c_nodes (demo_at 8) ''a''"
  have Q: "demo_members \<noteq> {''a''}" "{''a'', ''b''} \<subseteq> demo_members" "card demo_members < 2 * card {''a'', ''b''}"
    by (auto simp: demo_members_def)
  have t: "\<forall>m\<in>{''a'', ''b''}. CurrentTerm (c_nodes (demo_at 8) m) \<le> CurrentTerm ?L"
    by (simp add: demo_leading_facts)
  have "length (map le_term (Log ?L)) = 2" by (simp add: demo_leading_facts)
  then have len: "length (Log ?L) = 2" by simp
  note w = put_completes [OF demo_setting g demo_member(1) Q(1) demo_put_kv(2) h TrueI insertI1 Q(2,3) t _ refl refl]
  from w show ?thesis by (simp add: len demo_put_kv G) blast
qed

end
