(* ===== verification/Event_Loop.thy ===== *)
theory Event_Loop
  imports Election_Properties
begin

text \<open>
  The goroutine \<open>run\<close> of \<open>internal/raft/raft.go\<close>, one critical section at a time: what its
  \<open>select\<close> takes, the role it reads, and the handler it then calls, interleaved with the clock,
  the timers and the other goroutines of the node.
\<close>

section \<open>The other goroutines\<close>

text \<open>What else takes the node's mutex.  \<^const>\<open>None\<close> is a call that does not exist, or a panic.\<close>

datatype node_op =
    OpRequestVote env request_vote_request
  | OpAppendEntries env append_entries_request
  | OpPreVoteAnswer env nat request_vote_response
  | OpVoteAnswer env nat request_vote_response
  | OpAppendAnswer env string append_entries_request nat append_entries_response
  | OpPropose bytes
  | OpProposeReturn u64 nat int
  | OpProposeTimeout u64
  | OpStop

fun do_op :: "'s deps \<Rightarrow> node_op \<Rightarrow> 's raft_node \<Rightarrow> ('s raft_node \<times> calls) option" where
  "do_op D (OpRequestVote e req) rn = Some (snd (HandleRequestVote D e req rn), [])"
| "do_op D (OpAppendEntries e req) rn = Some (snd (HandleAppendEntries D e req rn), [])"
| "do_op D (OpPreVoteAnswer e k res) rn = on_prevote_response D e k res rn"
| "do_op D (OpVoteAnswer e k res) rn = on_vote_response D e k res rn"
| "do_op D (OpAppendAnswer e p req k res) rn = on_append_response D e p req k res rn"
| "do_op D (OpPropose cmd) rn = Some (snd (ProposeCommand D cmd rn))"
| "do_op D (OpProposeReturn i ch t) rn = map_option (\<lambda>(_, rn). (rn, [])) (propose_receive i ch t rn)"
| "do_op D (OpProposeTimeout i) rn = Some (snd (propose_timeout i rn), [])"
| "do_op D OpStop rn = Some (Stop rn, [])"

fun op_env :: "node_op \<Rightarrow> env option" where
  "op_env (OpRequestVote e _) = Some e"
| "op_env (OpAppendEntries e _) = Some e"
| "op_env (OpPreVoteAnswer e _ _) = Some e"
| "op_env (OpVoteAnswer e _ _) = Some e"
| "op_env (OpAppendAnswer e _ _ _ _) = Some e"
| "op_env _ = None"

section \<open>The loop\<close>

text \<open>Where \<open>run\<close> is: it has taken a fire, and it has read the role.\<close>

datatype run_pc = AtSelect | TookElection | ReadElection node_role | TookHeartbeat | ReadHeartbeat node_role | Returned

record 's run_state =
  rs_clock :: int
  rs_pc :: run_pc
  rs_node :: "'s raft_node"

datatype loop_event =
    Advance int
  | FireElection
  | FireHeartbeat
  | TakeStop
  | TakeElection
  | TakeHeartbeat
  | ReadRole
  | CallHandler env env
  | Other node_op

text \<open>The runtime sends a due fire into the timer's channel, and \<open>select\<close> takes it from there.\<close>

definition timer_Fire :: "int \<Rightarrow> timer option \<Rightarrow> timer option option" where
  "timer_Fire t tm =
     (case tm of None \<Rightarrow> None
      | Some tm \<Rightarrow>
          (case tm_due tm of None \<Rightarrow> None
           | Some due \<Rightarrow> if due \<le> t then Some (Some \<lparr>tm_due = None, tm_fired = True\<rparr>) else None))"

definition timer_Receive :: "timer option \<Rightarrow> timer option option" where
  "timer_Receive tm =
     (case tm of Some tm \<Rightarrow> if tm_fired tm then Some (Some (timer_Drain tm)) else None | None \<Rightarrow> None)"

fun run_handler :: "'s deps \<Rightarrow> env \<Rightarrow> env \<Rightarrow> run_pc \<Rightarrow> 's raft_node \<Rightarrow> ('s raft_node \<times> calls) option" where
  "run_handler D e e' (ReadElection r) rn = Some (on_election_timer D r e e' rn)"
| "run_handler D e e' (ReadHeartbeat r) rn = Some (on_heartbeat_timer D r e rn)"
| "run_handler D e e' _ rn = None"

fun read_role :: "run_pc \<Rightarrow> node_role \<Rightarrow> run_pc option" where
  "read_role TookElection r = Some (ReadElection r)"
| "read_role TookHeartbeat r = Some (ReadHeartbeat r)"
| "read_role _ r = None"

definition env_from :: "int \<Rightarrow> env \<Rightarrow> bool" where
  "env_from t e \<longleftrightarrow> t \<le> now e \<and> now e \<le> now_deadline e \<and> now_deadline e \<le> now_armed e"

fun loop_exec :: "'s deps \<Rightarrow> loop_event \<Rightarrow> 's run_state \<Rightarrow> ('s run_state \<times> calls) option" where
  "loop_exec D (Advance t) s = (if rs_clock s \<le> t then Some (s\<lparr>rs_clock := t\<rparr>, []) else None)"
| "loop_exec D FireElection s =
     map_option (\<lambda>tm. (s\<lparr>rs_node := (rs_node s)\<lparr>rn_electionTimer := tm\<rparr>\<rparr>, []))
       (timer_Fire (rs_clock s) (rn_electionTimer (rs_node s)))"
| "loop_exec D FireHeartbeat s =
     map_option (\<lambda>tm. (s\<lparr>rs_node := (rs_node s)\<lparr>rn_heartbeatTimer := tm\<rparr>\<rparr>, []))
       (timer_Fire (rs_clock s) (rn_heartbeatTimer (rs_node s)))"
| "loop_exec D TakeStop s = (if rs_pc s = AtSelect \<and> rn_stopped (rs_node s) then Some (s\<lparr>rs_pc := Returned\<rparr>, []) else None)"
| "loop_exec D TakeElection s =
     (if rs_pc s = AtSelect then
        map_option (\<lambda>tm. (s\<lparr>rs_pc := TookElection, rs_node := (rs_node s)\<lparr>rn_electionTimer := tm\<rparr>\<rparr>, []))
          (timer_Receive (rn_electionTimer (rs_node s)))
      else None)"
| "loop_exec D TakeHeartbeat s =
     (if rs_pc s = AtSelect then
        map_option (\<lambda>tm. (s\<lparr>rs_pc := TookHeartbeat, rs_node := (rs_node s)\<lparr>rn_heartbeatTimer := tm\<rparr>\<rparr>, []))
          (timer_Receive (rn_heartbeatTimer (rs_node s)))
      else None)"
| "loop_exec D ReadRole s = map_option (\<lambda>pc. (s\<lparr>rs_pc := pc\<rparr>, [])) (read_role (rs_pc s) (rn_role (rs_node s)))"
| "loop_exec D (CallHandler e e') s =
     (if env_from (rs_clock s) e \<and> env_from (rs_clock s) e' then
        map_option (\<lambda>(rn, cs). (s\<lparr>rs_pc := AtSelect, rs_node := rn\<rparr>, cs)) (run_handler D e e' (rs_pc s) (rs_node s))
      else None)"
| "loop_exec D (Other op) s =
     (if (case op_env op of None \<Rightarrow> True | Some e \<Rightarrow> env_from (rs_clock s) e) then
        map_option (\<lambda>(rn, cs). (s\<lparr>rs_node := rn\<rparr>, cs)) (do_op D op (rs_node s))
      else None)"

fun loop_run :: "'s deps \<Rightarrow> loop_event list \<Rightarrow> 's run_state \<Rightarrow> 's run_state option" where
  "loop_run D [] s = Some s"
| "loop_run D (ev # evs) s = (case loop_exec D ev s of None \<Rightarrow> None | Some (s, cs) \<Rightarrow> loop_run D evs s)"

text \<open>The calls it has sent.\<close>

fun sends :: "'s deps \<Rightarrow> loop_event list \<Rightarrow> 's run_state \<Rightarrow> calls" where
  "sends D [] s = []"
| "sends D (ev # evs) s = (case loop_exec D ev s of None \<Rightarrow> [] | Some (s, cs) \<Rightarrow> cs @ sends D evs s)"

text \<open>The loop of a node that \<open>Start\<close> has started.\<close>

definition started :: "int \<Rightarrow> 's raft_node \<Rightarrow> 's run_state" where
  "started t rn = \<lparr>rs_clock = t, rs_pc = AtSelect, rs_node = rn\<rparr>"

section \<open>Who touches the election timer\<close>

text \<open>What the event loop and the handlers know of the election timer.\<close>

definition timing :: "'s raft_node \<Rightarrow> timer option \<times> int \<times> bool" where
  "timing rn = (rn_electionTimer rn, rn_electionDeadline rn, rn_stopped rn)"

lemma timing_update [simp]:
  "timing (rn\<lparr>rn_role := r\<rparr>) = timing rn" "timing (rn\<lparr>rn_persistent := ps\<rparr>) = timing rn" "timing (rn\<lparr>rn_volatile := v\<rparr>) = timing rn"
  "timing (rn\<lparr>rn_leader := ls\<rparr>) = timing rn" "timing (rn\<lparr>rn_leaderID := i\<rparr>) = timing rn" "timing (rn\<lparr>rn_metrics := mt\<rparr>) = timing rn"
  "timing (rn\<lparr>rn_lastLeaderContact := t\<rparr>) = timing rn" "timing (rn\<lparr>rn_kvStore := kv\<rparr>) = timing rn"
  "timing (rn\<lparr>rn_storage := st\<rparr>) = timing rn" "timing (rn\<lparr>rn_chans := ch\<rparr>) = timing rn"
  "timing (rn\<lparr>rn_pendingCommits := pd\<rparr>) = timing rn" "timing (rn\<lparr>rn_nextChan := x\<rparr>) = timing rn"
  "timing (rn\<lparr>rn_nextClosure := x\<rparr>) = timing rn" "timing (rn\<lparr>rn_preVotes := pv\<rparr>) = timing rn"
  "timing (rn\<lparr>rn_campaigns := cp\<rparr>) = timing rn" "timing (rn\<lparr>rn_heartbeatTimer := hb\<rparr>) = timing rn"
  by (simp_all add: timing_def)

lemma timing_apply [simp]: "timing (applyCommittedEntriesLocked D rn) = timing rn"
proof (induction rn rule: apply_induct [where D = D])
  case (1 rn)
  have "timing (apply_one D rn) = timing rn"
    by (simp add: apply_one_def Let_def split: sum.split option.split)
  with 1 show ?case by (subst applyCommittedEntriesLocked.simps) simp
qed

lemma timing_commit [simp]: "timing (foldl (commit_at D ls k) rn xs) = timing rn"
  by (induction xs arbitrary: rn) (simp_all add: commit_at_def split: sum.split)

lemma timing_checkAndUpdate [simp]: "timing (checkAndUpdateCommitIndexLocked D rn) = timing rn"
  by (simp add: checkAndUpdateCommitIndexLocked_def Let_def split: option.split)

lemma timing_checkTerm [simp]: "timing (snd (checkTerm D t rn)) = timing rn"
  by (simp add: checkTerm_def abort_pending_def Let_def)

lemma timing_append_loop [simp]: "timing (snd (append_loop D req i es rn)) = timing rn"
  using append_loop_shape [of D req i es rn] by auto

lemma timing_follower_commit [simp]: "timing (follower_commit D req rn) = timing rn"
  by (simp add: follower_commit_def Let_def)

lemma timing_resetHeartbeat [simp]: "timing (resetHeartbeatTimer e rn) = timing rn"
  by (simp add: resetHeartbeatTimer_def split: option.split)

lemma timing_broadcast: "broadcastAppendEntriesLocked D rn = (rn', cs) \<Longrightarrow> timing rn' = timing rn"
  using broadcast_shape by fastforce

lemma timing_send: "sendAppendEntriesToPeerLocked D p rn = (rn', cs) \<Longrightarrow> timing rn' = timing rn"
  using send_shape by fastforce

lemma timing_becomeLeader: "becomeLeader D e rn = (rn', cs) \<Longrightarrow> timing rn' = timing rn"
  by (auto simp: becomeLeader_def Let_def split: if_splits prod.splits option.splits dest!: timing_broadcast)

text \<open>
  A handler leaves the timer alone or arms it, with a deadline that is not after the fire.
\<close>

definition timer_wf :: "'s raft_node \<Rightarrow> bool" where
  "timer_wf rn \<longleftrightarrow> (\<exists>tm. rn_electionTimer rn = Some tm \<and> timer_ok tm)"

definition rearmed :: "'s raft_node \<Rightarrow> bool" where
  "rearmed rn \<longleftrightarrow> (\<exists>due. rn_electionTimer rn = Some \<lparr>tm_due = Some due, tm_fired = False\<rparr> \<and> rn_electionDeadline rn \<le> due)"

definition sets_timer :: "'s raft_node \<Rightarrow> 's raft_node \<Rightarrow> bool" where
  "sets_timer rn rn' \<longleftrightarrow> timing rn' = timing rn \<or> rearmed rn' \<and> rn_stopped rn' = rn_stopped rn"

lemma sets_timer_same: "timing rn' = timing rn \<Longrightarrow> sets_timer rn rn'"
  by (simp add: sets_timer_def)

lemma rearmed_timing: "timing rn' = timing rn \<Longrightarrow> rearmed rn \<Longrightarrow> rearmed rn' \<and> rn_stopped rn' = rn_stopped rn"
  by (auto simp: timing_def rearmed_def)

lemma sets_timer_reset:
  assumes "timer_wf rn" and "timing rn1 = timing rn" and "now_deadline e \<le> now_armed e"
    and "timing rn' = timing (resetElectionTimer e rn1)"
  shows "sets_timer rn rn' \<and> rearmed rn' \<and> timer_wf rn'"
proof -
  obtain tm where tm: "rn_electionTimer rn1 = Some tm" "timer_ok tm"
    using assms(1,2) by (auto simp: timer_wf_def timing_def)
  have "rearmed (resetElectionTimer e rn1)"
    using tm assms(3) by (simp add: rearmed_def resetElectionTimer_timers rearm_timer)
  moreover have "rn_stopped (resetElectionTimer e rn1) = rn_stopped rn1"
    by (simp add: resetElectionTimer_def Let_def split: option.split)
  ultimately show ?thesis
    using assms(2) rearmed_timing [OF assms(4)]
    by (auto simp: sets_timer_def timing_def timer_wf_def rearmed_def timer_ok_def)
qed

lemma sets_timer_reset1:
  assumes "timer_wf rn" and "now_deadline e \<le> now_armed e" and "timing rn1 = timing rn"
  shows "sets_timer rn (resetElectionTimer e rn1)"
  using sets_timer_reset [OF assms(1,3,2) refl] by blast

lemma sets_timer_wf: "timer_wf rn \<Longrightarrow> sets_timer rn rn' \<Longrightarrow> timer_wf rn'"
  by (auto simp: sets_timer_def timer_wf_def timing_def rearmed_def timer_ok_def)

lemma sets_timer_trans: "sets_timer rn rn1 \<Longrightarrow> sets_timer rn1 rn2 \<Longrightarrow> sets_timer rn rn2"
  unfolding sets_timer_def using rearmed_timing [of rn2 rn1] by (auto simp: timing_def)

lemma timing_campaign:
  fixes rn :: "'s raft_node"
  assumes "campaignLocked D e rn = (rn', cs)"
  shows "\<exists>rn1 :: 's raft_node. timing rn1 = timing rn \<and> timing rn' = timing (resetElectionTimer e rn1)"
proof -
  define st where "st = snd (SaveVotedFor (d_backend D) (node_id rn) (snd (SaveTerm (d_backend D) (CurrentTerm rn + 1) (rn_storage rn))))"
  define rn1 where "rn1 = (rn\<lparr>rn_persistent := (rn_persistent rn)\<lparr>ps_CurrentTerm := CurrentTerm rn + 1, ps_VotedFor := node_id rn\<rparr>,
      rn_role := Candidate, rn_leader := None,
      rn_metrics := IncLeaderElections (SetCurrentTerm (CurrentTerm rn + 1) (SetNodeRole 1 (rn_metrics rn)))\<rparr>)\<lparr>rn_storage := st\<rparr>"
  have "timing rn' = timing (resetElectionTimer e rn1)"
    using assms by (auto simp: campaignLocked_def Let_def rn1_def st_def split: if_splits dest!: timing_becomeLeader)
  moreover have "timing rn1 = timing rn" by (simp add: rn1_def)
  ultimately show ?thesis by blast
qed

lemma campaign_timer:
  assumes "timer_wf rn" and "now_deadline e \<le> now_armed e" and "campaignLocked D e rn = (rn', cs)"
  shows "sets_timer rn rn' \<and> rearmed rn'"
  using timing_campaign [OF assms(3)] sets_timer_reset [OF assms(1) _ assms(2)] by blast

lemma election_timer_handler:
  assumes w: "timer_wf rn" and e: "now_deadline e \<le> now_armed e" "now_deadline e' \<le> now_armed e'"
    and h: "on_election_timer D r e e' rn = (rn', cs)"
  shows "sets_timer rn rn' \<and> (rearmed rn' \<or> r \<noteq> Leader \<and> rn' = rn \<and> (now e < rn_electionDeadline rn \<or> rn_role rn = Leader))"
proof (cases "r \<noteq> Leader \<and> (now e < rn_electionDeadline rn \<or> rn_role rn = Leader)")
  case True
  with h show ?thesis by (auto simp: on_election_timer_def startElection_def sets_timer_same)
next
  case False
  note s = sets_timer_reset [OF w refl e(1), of "resetElectionTimer e rn", OF refl]
  show ?thesis
  proof (cases "r \<noteq> Leader \<and> length (rn_peers rn) = 0")
    case True
    then have "campaignLocked D e' (resetElectionTimer e rn) = (rn', cs)"
      using h False by (auto simp: on_election_timer_def startElection_def Let_def frame)
    from campaign_timer [OF _ e(2) this] s show ?thesis by (blast intro: sets_timer_trans)
  next
    case 2: False
    then have "timing rn' = timing (resetElectionTimer e rn)"
      using h False by (auto simp: on_election_timer_def startElection_def Let_def frame split: if_splits)
    with sets_timer_reset [OF w refl e(1) this] show ?thesis by blast
  qed
qed

lemma heartbeat_timer_handler: "on_heartbeat_timer D r e rn = (rn', cs) \<Longrightarrow> timing rn' = timing rn"
  by (auto simp: on_heartbeat_timer_def sendHeartbeats_def split: if_splits prod.splits dest!: timing_broadcast)

section \<open>The other goroutines and the timer\<close>

lemma timer_RequestVote:
  assumes w: "timer_wf rn" and e: "now_deadline e \<le> now_armed e"
  shows "sets_timer rn (snd (HandleRequestVote D e req rn))"
proof -
  let ?rn = "snd (checkTerm D (rv_term req) rn)"
  have c: "?rn = (if CurrentTerm rn < rv_term req then ?rn else rn)" by (simp add: checkTerm_id)
  obtain res rn' where h: "HandleRequestVote D e req rn = (res, rn')" by fastforce
  then have "rn' = rn \<or> rn' = ?rn \<or> (\<exists>v st. rn' = resetElectionTimer e
      (?rn\<lparr>rn_persistent := (rn_persistent ?rn)\<lparr>ps_VotedFor := v\<rparr>, rn_storage := st\<rparr>))"
    unfolding HandleRequestVote_def c [symmetric] Let_def by (auto split: if_splits)
  then show ?thesis using h sets_timer_reset1 [OF w e] by (auto simp: sets_timer_same)
qed

lemma timer_AppendEntries:
  assumes w: "timer_wf rn" and e: "now_deadline e \<le> now_armed e"
  shows "sets_timer rn (snd (HandleAppendEntries D e req rn))"
proof -
  obtain res rn' where h: "HandleAppendEntries D e req rn = (res, rn')" by fastforce
  then have "sets_timer rn rn'"
  proof (cases rule: HandleAppendEntries_cases)
    case (2 r rn1)
    then have t: "timing rn' = timing rn1" by auto
    have "sets_timer rn rn1" unfolding 2(1) by (rule sets_timer_reset1 [OF w e]) simp
    then show ?thesis using sets_timer_same [OF t] by (rule sets_timer_trans)
  qed (simp add: sets_timer_same)
  with h show ?thesis by simp
qed

lemma timer_prevote_answer:
  assumes w: "timer_wf rn" and e: "now_deadline e \<le> now_armed e" and h: "on_prevote_response D e k res rn = Some (rn', cs)"
  shows "sets_timer rn rn'"
proof -
  obtain t rn1 where ct: "checkTerm D (rvr_term res) rn = (t, rn1)" by fastforce
  have t1: "timing rn1 = timing rn" using timing_checkTerm [of D "rvr_term res" rn] ct by simp
  have w1: "timer_wf rn1" by (rule sets_timer_wf [OF w sets_timer_same [OF t1]])
  have "timing rn' = timing rn \<or> rn' = resetElectionTimer e rn1 \<or> (\<exists>x. campaignLocked D e (rn1\<lparr>rn_preVotes := x\<rparr>) = (rn', cs))"
    using h ct t1 by (auto simp: on_prevote_response_def Let_def split: option.splits bool.splits if_splits)
  moreover have "sets_timer rn rn'" if c: "campaignLocked D e (rn1\<lparr>rn_preVotes := x\<rparr>) = (rn', cs)" for x
    using timing_campaign [OF c] t1 sets_timer_reset [OF w _ e] by auto
  ultimately show ?thesis using sets_timer_reset [OF w t1 e] by (auto simp: sets_timer_same)
qed

lemma timer_vote_answer:
  assumes w: "timer_wf rn" and e: "now_deadline e \<le> now_armed e" and h: "on_vote_response D e k res rn = Some (rn', cs)"
  shows "sets_timer rn rn'"
proof -
  obtain t rn1 where ct: "checkTerm D (rvr_term res) rn = (t, rn1)" by fastforce
  have t1: "timing rn1 = timing rn" using timing_checkTerm [of D "rvr_term res" rn] ct by simp
  have "timing rn' = timing rn \<or> rn' = resetElectionTimer e rn1"
    using h ct t1 by (auto simp: on_vote_response_def Let_def split: option.splits bool.splits if_splits dest!: timing_becomeLeader)
  then show ?thesis using sets_timer_reset [OF w t1 e] by (auto simp: sets_timer_same)
qed

lemma timer_append_answer:
  assumes w: "timer_wf rn" and e: "now_deadline e \<le> now_armed e" and h: "on_append_response D e p req k res rn = Some (rn', cs)"
  shows "sets_timer rn rn'"
proof -
  obtain t rn1 where ct: "checkTerm D (aer_term res) rn = (t, rn1)" by fastforce
  have t1: "timing rn1 = timing rn" using timing_checkTerm [of D "aer_term res" rn] ct by simp
  have "timing rn' = timing rn \<or> rn' = resetElectionTimer e rn1"
    using h ct t1 by (auto simp: on_append_response_def Let_def split: option.splits bool.splits if_splits dest!: timing_send)
  then show ?thesis using sets_timer_reset [OF w t1 e] by (auto simp: sets_timer_same)
qed

lemma timing_propose: "timing (fst (snd (ProposeCommand D cmd rn))) = timing rn"
proof -
  obtain res rn' cs where p: "ProposeCommand D cmd rn = (res, rn', cs)" by (metis prod.collapse)
  then have "timing rn' = timing rn"
    by (auto simp: ProposeCommand_def Let_def split: if_splits prod.splits option.splits dest!: timing_broadcast)
  with p show ?thesis by simp
qed

text \<open>Every operation of another goroutine, \<open>Stop\<close> excepted, leaves the timer or arms it.\<close>

lemma op_timer:
  assumes w: "timer_wf rn" and e: "\<And>e. op_env op = Some e \<Longrightarrow> now_deadline e \<le> now_armed e" and n: "op \<noteq> OpStop"
    and h: "do_op D op rn = Some (rn', cs)"
  shows "sets_timer rn rn'"
  using n e h
proof (cases op)
  case (OpRequestVote e req)
  then show ?thesis using timer_RequestVote [OF w] e h by auto
next
  case (OpAppendEntries e req)
  then show ?thesis using timer_AppendEntries [OF w] e h by auto
next
  case (OpPreVoteAnswer e k res)
  then show ?thesis using timer_prevote_answer [OF w] e h by auto
next
  case (OpVoteAnswer e k res)
  then show ?thesis using timer_vote_answer [OF w] e h by auto
next
  case (OpAppendAnswer e p req k res)
  then show ?thesis using timer_append_answer [OF w] e h by auto
next
  case (OpPropose cmd)
  then show ?thesis using timing_propose [of D cmd rn] h by (auto simp: sets_timer_same)
next
  case (OpProposeReturn i ch t)
  then show ?thesis using h by (auto simp: propose_receive_def Let_def sets_timer_same split: option.splits)
next
  case (OpProposeTimeout i)
  then show ?thesis using h by (auto simp: propose_timeout_def sets_timer_same)
qed simp

section \<open>The election timer is not lost\<close>

text \<open>
  The loop listens: its election timer is running, or its fire waits in the channel, or the loop
  has taken it and not yet acted on it.
\<close>

definition awake :: "'s raft_node \<Rightarrow> bool" where
  "awake rn \<longleftrightarrow> (case rn_electionTimer rn of None \<Rightarrow> False | Some tm \<Rightarrow> tm_due tm \<noteq> None \<or> tm_fired tm)"

definition holds_fire :: "run_pc \<Rightarrow> bool" where
  "holds_fire pc \<longleftrightarrow> (case pc of TookElection \<Rightarrow> True | ReadElection r \<Rightarrow> True | _ \<Rightarrow> False)"

definition listening :: "'s run_state \<Rightarrow> bool" where
  "listening s \<longleftrightarrow> rn_stopped (rs_node s) \<or> awake (rs_node s) \<or> holds_fire (rs_pc s)"

text \<open>The deadline never lies beyond the next fire, and a fire that has come was not early.\<close>

definition loop_inv :: "'s run_state \<Rightarrow> bool" where
  "loop_inv s \<longleftrightarrow> timer_wf (rs_node s) \<and>
     (\<forall>tm due. rn_electionTimer (rs_node s) = Some tm \<and> tm_due tm = Some due \<longrightarrow> rn_electionDeadline (rs_node s) \<le> due) \<and>
     (\<forall>tm. rn_electionTimer (rs_node s) = Some tm \<and> tm_due tm = None \<longrightarrow>
        rn_stopped (rs_node s) \<or> rn_electionDeadline (rs_node s) \<le> rs_clock s)"

text \<open>
  The one way to lose it: between the reading of the role and \<open>startElection\<close> the last vote of a
  campaign has made the node the leader.
\<close>

definition overtaken :: "'s run_state \<Rightarrow> bool" where
  "overtaken s \<longleftrightarrow> (case rs_pc s of ReadElection r \<Rightarrow> r \<noteq> Leader \<and> rn_role (rs_node s) = Leader | _ \<Rightarrow> False)"

fun loses_fire :: "loop_event \<Rightarrow> 's run_state \<Rightarrow> bool" where
  "loses_fire (CallHandler e e') s \<longleftrightarrow> overtaken s"
| "loses_fire _ s \<longleftrightarrow> False"

fun loses_fire_in :: "'s deps \<Rightarrow> loop_event list \<Rightarrow> 's run_state \<Rightarrow> bool" where
  "loses_fire_in D [] s \<longleftrightarrow> False"
| "loses_fire_in D (ev # evs) s \<longleftrightarrow> loses_fire ev s \<or>
     (case loop_exec D ev s of None \<Rightarrow> False | Some (s, cs) \<Rightarrow> loses_fire_in D evs s)"

lemma rearmed_inv: "rearmed rn \<Longrightarrow> loop_inv (s\<lparr>rs_node := rn\<rparr>) \<and> awake rn"
  by (auto simp: rearmed_def loop_inv_def awake_def timer_wf_def timer_ok_def)

lemma loop_inv_pc [simp]: "loop_inv (s\<lparr>rs_pc := pc\<rparr>) = loop_inv s"
  by (simp add: loop_inv_def)

lemma loop_inv_timing: "loop_inv s \<Longrightarrow> timing rn = timing (rs_node s) \<Longrightarrow> loop_inv (s\<lparr>rs_node := rn\<rparr>)"
  by (auto simp: loop_inv_def timing_def timer_wf_def)

lemma awake_timing:
  "timing rn' = timing rn \<Longrightarrow> awake rn' = awake rn \<and> rn_stopped rn' = rn_stopped rn \<and> timer_wf rn' = timer_wf rn"
  by (simp add: awake_def timing_def timer_wf_def)

lemma sets_timer_inv:
  assumes "loop_inv s" and "sets_timer (rs_node s) rn"
  shows "loop_inv (s\<lparr>rs_node := rn\<rparr>)" and "rn_stopped (rs_node s) \<or> awake (rs_node s) \<Longrightarrow> rn_stopped rn \<or> awake rn"
  using assms(2) loop_inv_timing [OF assms(1)] rearmed_inv [of rn s] awake_timing [of rn "rs_node s"]
  by (auto simp: sets_timer_def)

lemma stop_inv: "loop_inv s \<Longrightarrow> loop_inv (s\<lparr>rs_node := Stop (rs_node s)\<rparr>) \<and> rn_stopped (Stop (rs_node s))"
  by (auto simp: Stop_def loop_inv_def timer_wf_def timer_Stop_def timer_ok_def)

lemma other_step:
  assumes i: "loop_inv s" and l: "listening s" and x: "loop_exec D (Other op) s = Some (s', cs)"
  shows "loop_inv s' \<and> listening s'"
proof -
  have w: "timer_wf (rs_node s)" using i by (simp add: loop_inv_def)
  from x obtain rn where o: "do_op D op (rs_node s) = Some (rn, cs)" and s': "s' = s\<lparr>rs_node := rn\<rparr>"
    and e: "\<And>e. op_env op = Some e \<Longrightarrow> now_deadline e \<le> now_armed e"
    by (auto simp: env_from_def split: if_splits option.splits)
  show ?thesis
  proof (cases "op = OpStop")
    case True
    then show ?thesis using o stop_inv [OF i] by (simp add: s' listening_def)
  next
    case False
    from op_timer [OF w e False o] sets_timer_inv [OF i] show ?thesis using l by (auto simp: s' listening_def)
  qed
qed

lemma handler_step:
  assumes i: "loop_inv s" and l: "listening s" and x: "loop_exec D (CallHandler e e') s = Some (s', cs)" and n: "\<not> overtaken s"
  shows "loop_inv s' \<and> listening s'"
proof -
  have w: "timer_wf (rs_node s)" using i by (simp add: loop_inv_def)
  from x obtain rn where h: "run_handler D e e' (rs_pc s) (rs_node s) = Some (rn, cs)"
    and s': "s' = s\<lparr>rs_pc := AtSelect, rs_node := rn\<rparr>" and e: "rs_clock s \<le> now e" "now_deadline e \<le> now_armed e" "now_deadline e' \<le> now_armed e'"
    by (auto simp: env_from_def split: if_splits option.splits)
  show ?thesis
  proof (cases "rs_pc s")
    case (ReadElection r)
    with h have "on_election_timer D r e e' (rs_node s) = (rn, cs)" by simp
    note t = election_timer_handler [OF w e(2,3) this]
    have s1: "s' = (s\<lparr>rs_node := rn\<rparr>)\<lparr>rs_pc := AtSelect\<rparr>" by (simp add: s')
    have "rn_stopped rn \<or> awake rn"
    proof (cases "rearmed rn")
      case True
      then show ?thesis using rearmed_inv [of rn s] by simp
    next
      case False
      with t n ReadElection have rn: "rn = rs_node s" and "now e < rn_electionDeadline rn" by (auto simp: overtaken_def)
      with i e(1) show ?thesis by (auto simp: loop_inv_def timer_wf_def awake_def split: option.splits)
    qed
    then show ?thesis using sets_timer_inv(1) [OF i] t unfolding s1 by (auto simp: listening_def)
  next
    case (ReadHeartbeat r)
    with h have t: "timing rn = timing (rs_node s)" by (auto dest: heartbeat_timer_handler)
    have s1: "s' = (s\<lparr>rs_node := rn\<rparr>)\<lparr>rs_pc := AtSelect\<rparr>" by (simp add: s')
    show ?thesis using loop_inv_timing [OF i t] awake_timing [OF t] l unfolding s1
      by (auto simp: listening_def holds_fire_def ReadHeartbeat)
  qed (use h in simp_all)
qed

lemma loop_step:
  assumes i: "loop_inv s" and l: "listening s" and x: "loop_exec D ev s = Some (s', cs)" and n: "\<not> loses_fire ev s"
  shows "loop_inv s' \<and> listening s'"
proof (cases ev)
  case (Advance t)
  with x i l show ?thesis by (auto simp: loop_inv_def listening_def split: if_splits option.splits)
next
  case FireElection
  with x i show ?thesis
    by (auto simp: loop_inv_def listening_def awake_def timer_Fire_def timer_wf_def timer_ok_def split: option.splits if_splits)
next
  case FireHeartbeat
  with x obtain tm where s': "s' = s\<lparr>rs_node := (rs_node s)\<lparr>rn_heartbeatTimer := tm\<rparr>\<rparr>" by auto
  have t: "timing ((rs_node s)\<lparr>rn_heartbeatTimer := tm\<rparr>) = timing (rs_node s)" by simp
  show ?thesis using loop_inv_timing [OF i t] awake_timing [OF t] l by (simp add: s' listening_def)
next
  case TakeStop
  with x i show ?thesis by (auto simp: listening_def split: if_splits)
next
  case TakeElection
  with x i show ?thesis
    by (auto simp: loop_inv_def listening_def holds_fire_def timer_Receive_def timer_Drain_def timer_wf_def timer_ok_def
        split: option.splits if_splits)
next
  case TakeHeartbeat
  with x obtain tm where s1: "s' = s\<lparr>rs_pc := TookHeartbeat, rs_node := (rs_node s)\<lparr>rn_heartbeatTimer := tm\<rparr>\<rparr>" and pc: "rs_pc s = AtSelect"
    by (auto split: if_splits)
  have s': "s' = (s\<lparr>rs_node := (rs_node s)\<lparr>rn_heartbeatTimer := tm\<rparr>\<rparr>)\<lparr>rs_pc := TookHeartbeat\<rparr>" by (simp add: s1)
  have t: "timing ((rs_node s)\<lparr>rn_heartbeatTimer := tm\<rparr>) = timing (rs_node s)" by simp
  show ?thesis using loop_inv_timing [OF i t] awake_timing [OF t] l pc unfolding s' by (simp add: listening_def holds_fire_def)
next
  case ReadRole
  with x i l show ?thesis by (cases "rs_pc s") (auto simp: listening_def holds_fire_def)
next
  case (CallHandler e e')
  with handler_step [OF i l] x n show ?thesis by simp
next
  case (Other op)
  with other_step [OF i l] x show ?thesis by simp
qed

lemma loop_listens:
  "loop_run D evs s = Some s' \<Longrightarrow> loop_inv s \<Longrightarrow> listening s \<Longrightarrow> \<not> loses_fire_in D evs s \<Longrightarrow> loop_inv s' \<and> listening s'"
proof (induction evs arbitrary: s)
  case (Cons ev evs)
  then obtain s1 cs where x: "loop_exec D ev s = Some (s1, cs)" and r: "loop_run D evs s1 = Some s'"
    by (auto split: option.splits)
  from Cons.prems(4) x have n: "\<not> loses_fire ev s" "\<not> loses_fire_in D evs s1" by simp_all
  from Cons.IH [OF r _ _ n(2)] loop_step [OF Cons.prems(2,3) x n(1)] show ?case by blast
qed simp

text \<open>At its \<open>select\<close> a loop that listens gets its fire.\<close>

lemma listening_fires:
  assumes i: "loop_inv s" and l: "listening s" and pc: "rs_pc s = AtSelect" and up: "\<not> rn_stopped (rs_node s)"
  obtains evs s' where "loop_run D evs s = Some s'" and "length evs \<le> 3" and "rs_pc s' = TookElection"
    and "rn_electionDeadline (rs_node s') \<le> rs_clock s'" and "rn_role (rs_node s') = rn_role (rs_node s)"
proof -
  have "awake (rs_node s)" using l pc up by (simp add: listening_def holds_fire_def)
  with i obtain tm where tm: "rn_electionTimer (rs_node s) = Some tm" "timer_ok tm" "tm_due tm \<noteq> None \<or> tm_fired tm"
    by (auto simp: loop_inv_def timer_wf_def awake_def)
  show thesis
  proof (cases "tm_due tm")
    case None
    then have d: "rn_electionDeadline (rs_node s) \<le> rs_clock s" using i tm up by (auto simp: loop_inv_def)
    obtain s' where "loop_run D [TakeElection] s = Some s'" "rs_pc s' = TookElection"
      "rs_clock s' = rs_clock s" "rn_electionDeadline (rs_node s') = rn_electionDeadline (rs_node s)" "rn_role (rs_node s') = rn_role (rs_node s)"
      using None tm pc by (simp add: timer_Receive_def)
    with d show thesis by (intro that [of "[TakeElection]" s']) simp_all
  next
    case (Some due)
    let ?t = "max (rs_clock s) due"
    have d: "rn_electionDeadline (rs_node s) \<le> due" using i tm Some by (auto simp: loop_inv_def)
    obtain s' where "loop_run D [Advance ?t, FireElection, TakeElection] s = Some s'" "rs_pc s' = TookElection"
      "rs_clock s' = ?t" "rn_electionDeadline (rs_node s') = rn_electionDeadline (rs_node s)" "rn_role (rs_node s') = rn_role (rs_node s)"
      using Some tm pc by (simp add: timer_Receive_def timer_Fire_def)
    with d show thesis by (intro that [of "[Advance ?t, FireElection, TakeElection]" s']) simp_all
  qed
qed

lemma started_inv:
  assumes "now_deadline e \<le> now_armed e"
  shows "loop_inv (started t (Start e rn))" "listening (started t (Start e rn))"
  using assms by (auto simp: started_def Start_def Let_def loop_inv_def listening_def awake_def timer_wf_def timer_ok_def NewTimer_def)

section \<open>A node without its timer\<close>

definition deaf :: "'s run_state \<Rightarrow> bool" where
  "deaf s \<longleftrightarrow> timer_wf (rs_node s) \<and> \<not> awake (rs_node s) \<and> \<not> holds_fire (rs_pc s) \<and> rn_role (rs_node s) \<noteq> Leader"

fun own :: "loop_event \<Rightarrow> bool" where
  "own (Other op) \<longleftrightarrow> False"
| "own _ \<longleftrightarrow> True"

lemma deaf_step:
  assumes d: "deaf s" and o: "own ev" and x: "loop_exec D ev s = Some (s', cs)"
  shows "deaf s' \<and> cs = [] \<and> rn_persistent (rs_node s') = rn_persistent (rs_node s) \<and> rn_role (rs_node s') = rn_role (rs_node s)"
proof (cases ev)
  case FireElection
  with d x show ?thesis by (auto simp: deaf_def awake_def timer_Fire_def split: option.splits if_splits)
next
  case TakeElection
  with d x show ?thesis by (auto simp: deaf_def awake_def timer_Receive_def split: option.splits if_splits)
next
  case ReadRole
  with d x show ?thesis by (cases "rs_pc s") (auto simp: deaf_def holds_fire_def)
next
  case (CallHandler e e')
  with x d obtain r rn where h: "on_heartbeat_timer D r e (rs_node s) = (rn, cs)" and s': "s' = s\<lparr>rs_pc := AtSelect, rs_node := rn\<rparr>"
    by (cases "rs_pc s") (auto simp: deaf_def holds_fire_def split: if_splits prod.splits)
  have rn: "rn = resetHeartbeatTimer e (rs_node s)" "cs = []"
    using h d by (auto simp: on_heartbeat_timer_def sendHeartbeats_def broadcastAppendEntriesLocked_def deaf_def split: if_splits)
  have "timing rn = timing (rs_node s)" by (simp add: rn)
  from awake_timing [OF this] show ?thesis using d by (simp add: deaf_def s' holds_fire_def rn frame)
qed (use d o x in \<open>auto simp: deaf_def awake_def holds_fire_def timer_wf_def split: if_splits\<close>)

lemma deaf_run:
  "deaf s \<Longrightarrow> list_all own evs \<Longrightarrow> loop_run D evs s = Some s' \<Longrightarrow>
     deaf s' \<and> sends D evs s = [] \<and> rn_persistent (rs_node s') = rn_persistent (rs_node s) \<and> rn_role (rs_node s') = rn_role (rs_node s)"
proof (induction evs arbitrary: s)
  case (Cons ev evs)
  then obtain s1 cs where x: "loop_exec D ev s = Some (s1, cs)" "loop_run D evs s1 = Some s'" by (auto split: option.splits)
  from deaf_step [OF Cons.prems(1) _ x(1)] Cons.prems(2) Cons.IH [OF _ _ x(2)] x(1) show ?case by simp
qed simp

section \<open>A run that loses its timer\<close>

definition lost_refused :: request_vote_request where
  "lost_refused = \<lparr>rv_term = 9, rv_candidate_id = ''c'', rv_last_log_index = 0, rv_last_log_term = 0, rv_pre_vote = False\<rparr>"

definition lost_events :: "loop_event list" where
  "lost_events =
    [Advance 1000000000, FireElection, TakeElection, ReadRole, CallHandler (demo_env 1) (demo_env 1),
     Other (OpPreVoteAnswer (demo_env 1) 0 \<lparr>rvr_term = 0, rvr_vote_granted = True\<rparr>),
     Advance 2000000000, FireElection, TakeElection, ReadRole,
     Other (OpVoteAnswer (demo_env 2) 1 \<lparr>rvr_term = 1, rvr_vote_granted = True\<rparr>),
     CallHandler (demo_env 2) (demo_env 2),
     Other (OpRequestVote (demo_env 2) lost_refused)]"

lemma loop_run_snoc:
  "loop_run D (evs @ [ev]) s = (case loop_run D evs s of None \<Rightarrow> None | Some s \<Rightarrow> map_option fst (loop_exec D ev s))"
  by (induction evs arbitrary: s) (auto split: option.split)

abbreviation lost_run :: "nat \<Rightarrow> memory_store run_state option" where
  "lost_run k \<equiv> loop_run demo_deps (take k lost_events) (started 0 (demo_node ''a'' [''b'', ''c'']))"

lemma lost_view:
  "map_option (\<lambda>s. (rs_pc s, rn_role (rs_node s), rn_electionTimer (rs_node s), CurrentTerm (rs_node s))) (lost_run 11) =
   Some (ReadElection Candidate, Leader, Some \<lparr>tm_due = None, tm_fired = False\<rparr>, 1)"
  "map_option (\<lambda>s. rvr_vote_granted (fst (HandleRequestVote demo_deps (demo_env 2) lost_refused (rs_node s)))) (lost_run 12) = Some False"
  "map_option rs_pc (lost_run 13) = Some AtSelect"
  by code_simp+

text \<open>The three last states of the run.\<close>

lemma lost_states:
  obtains s s1 s2 cs1 cs2 where "lost_run 11 = Some s" and "lost_run 12 = Some s1" and "lost_run 13 = Some s2"
    and "loop_exec demo_deps (CallHandler (demo_env 2) (demo_env 2)) s = Some (s1, cs1)"
    and "loop_exec demo_deps (Other (OpRequestVote (demo_env 2) lost_refused)) s1 = Some (s2, cs2)"
proof -
  from lost_view obtain s s1 s2 where r: "lost_run 11 = Some s" "lost_run 12 = Some s1" "lost_run 13 = Some s2" by auto
  have "take 12 lost_events = take 11 lost_events @ [CallHandler (demo_env 2) (demo_env 2)]"
    "take 13 lost_events = take 12 lost_events @ [Other (OpRequestVote (demo_env 2) lost_refused)]"
    by (simp_all add: lost_events_def)
  with r have "map_option fst (loop_exec demo_deps (CallHandler (demo_env 2) (demo_env 2)) s) = Some s1"
    "map_option fst (loop_exec demo_deps (Other (OpRequestVote (demo_env 2) lost_refused)) s1) = Some s2"
    by (simp_all only: loop_run_snoc option.case)
  with r that show thesis by auto
qed

section \<open>The pre-vote round of a due timer\<close>

lemma election_asks:
  assumes "rs_clock s \<le> now e1 \<and> rn_role (rs_node s) \<noteq> Leader \<and> rn_peers (rs_node s) \<noteq> []"
    and "rn_electionDeadline (rs_node s) \<le> rs_clock s"
  shows "\<exists>k req pv. snd (startElection D e1 e2 (rs_node s)) = map (\<lambda>p. (p, PreVoteCall k req)) (map fst (rn_peers (rs_node s))) \<and>
    rv_pre_vote req \<and> rv_term req = CurrentTerm (rs_node s) + 1 \<and> rv_candidate_id req = node_id (rs_node s) \<and>
    rv_last_log_index req = fst (LastIndex (d_backend D) (rn_storage (rs_node s))) \<and>
    rv_last_log_term req = fst (LastTerm (d_backend D) (rn_storage (rs_node s))) \<and>
    map_of (rn_preVotes (fst (startElection D e1 e2 (rs_node s)))) k = Some pv \<and> pv_term pv = CurrentTerm (rs_node s) \<and>
    pv_votes pv = 1 \<and> pv_majority pv = (length (rn_peers (rs_node s)) + 1) div 2 + 1 \<and> \<not> pv_campaigned pv \<and>
    rn_persistent (fst (startElection D e1 e2 (rs_node s))) = rn_persistent (rs_node s)"
  using assms
  by (intro exI [of _ "rn_nextClosure (rs_node s)"]
      exI [of _ "\<lparr>rv_term = CurrentTerm (rs_node s) + 1, rv_candidate_id = node_id (rs_node s),
        rv_last_log_index = fst (LastIndex (d_backend D) (rn_storage (rs_node s))),
        rv_last_log_term = fst (LastTerm (d_backend D) (rn_storage (rs_node s))), rv_pre_vote = True\<rparr>"]
      exI [of _ "\<lparr>pv_term = CurrentTerm (rs_node s), pv_votes = 1, pv_majority = (length (rn_peers (rs_node s)) + 1) div 2 + 1,
        pv_started = now e2, pv_campaigned = False\<rparr>"])
    (simp add: startElection_def Let_def frame update_conv')

section \<open>Properties\<close>

text \<open>
  C23: the election timer is not lost.  However the clock, the timers, the loop and the other
  goroutines of a started node interleave, unless the node has become the leader between the
  loop's reading of its role and \<open>startElection\<close>, the loop at its \<open>select\<close> has an election
  fire that comes: it takes it within three events.  A node that does not lead then sends every peer
  the same pre-vote request, for the term after its own, in its own name and with the end of its
  log, counts its own pre-vote in a new round, and keeps its term and its vote.
\<close>

theorem election_timer_kept:
  assumes e: "env_ok e" and r: "loop_run D evs (started t (Start e rn)) = Some s"
    and n: "\<not> loses_fire_in D evs (started t (Start e rn))"
    and s: "rs_pc s = AtSelect" "\<not> rn_stopped (rs_node s)"
  shows "\<exists>evs' s'. loop_run D evs' s = Some s' \<and> length evs' \<le> 3 \<and> rs_pc s' = TookElection \<and>
    rn_role (rs_node s') = rn_role (rs_node s) \<and>
    (\<forall>e1 e2. rs_clock s' \<le> now e1 \<and> rn_role (rs_node s') \<noteq> Leader \<and> rn_peers (rs_node s') \<noteq> [] \<longrightarrow>
      (\<exists>k req pv. let rn = rs_node s'; out = startElection D e1 e2 rn in
        snd out = map (\<lambda>p. (p, PreVoteCall k req)) (map fst (rn_peers rn)) \<and>
        rv_pre_vote req \<and> rv_term req = CurrentTerm rn + 1 \<and> rv_candidate_id req = node_id rn \<and>
        rv_last_log_index req = fst (LastIndex (d_backend D) (rn_storage rn)) \<and>
        rv_last_log_term req = fst (LastTerm (d_backend D) (rn_storage rn)) \<and>
        map_of (rn_preVotes (fst out)) k = Some pv \<and> pv_term pv = CurrentTerm rn \<and> pv_votes pv = 1 \<and>
        pv_majority pv = (length (rn_peers rn) + 1) div 2 + 1 \<and> \<not> pv_campaigned pv \<and>
        rn_persistent (fst out) = rn_persistent rn))"
proof -
  have "now_deadline e \<le> now_armed e" using e by (simp add: env_ok_def)
  from loop_listens [OF r started_inv [OF this] n] have "loop_inv s" "listening s" by simp_all
  from listening_fires [OF this s] obtain evs' s' where x: "loop_run D evs' s = Some s'" "length evs' \<le> 3"
    "rs_pc s' = TookElection" "rn_role (rs_node s') = rn_role (rs_node s)"
    and d: "rn_electionDeadline (rs_node s') \<le> rs_clock s'" by blast
  from x election_asks [OF _ d] show ?thesis unfolding Let_def by blast
qed

theorem election_timer_kept_witness:
  "\<exists>evs' s'. loop_run demo_deps evs' (started 0 (demo_node ''a'' [''b'', ''c''])) = Some s' \<and> rs_pc s' = TookElection"
proof -
  have n: "demo_node ''a'' [''b'', ''c''] = Start (demo_env 0) (demo_node ''a'' [''b'', ''c''])"
    by (simp add: demo_node_def boot_def NewRaftNode_def Start_def Let_def SetMetrics_def NewTimer_def
        demo_deps_def memory_deps_def memory_store_defs NewMemoryStore_def)
  have up: "\<not> rn_stopped (Start (demo_env 0) (demo_node ''a'' [''b'', ''c'']))"
    by (simp add: demo_node_def boot_def NewRaftNode_def Start_def Let_def SetMetrics_def
        demo_deps_def memory_deps_def memory_store_defs NewMemoryStore_def)
  from election_timer_kept [OF demo_timeouts(1), of demo_deps "[]" 0 0 "demo_node ''a'' [''b'', ''c'']", OF loop_run.simps(1)] up
  show ?thesis unfolding n [symmetric] by (auto simp: started_def)
qed

text \<open>
  C24: in that race it is lost.  When the last vote of a campaign arrives between the two, the
  new leader's election timer is not armed again; a vote request of a newer term that it does not
  grant makes it a follower, and however the clock and the loop go on, it then starts no election
  and sends nothing, until a message of another node arms the timer.
\<close>

theorem election_timer_lost:
  assumes o: "overtaken s" and dead: "timer_wf (rs_node s)" "\<not> awake (rs_node s)"
    and c: "loop_exec D (CallHandler e e') s = Some (s1, cs1)"
    and v: "loop_exec D (Other (OpRequestVote e2 req)) s1 = Some (s2, cs2)"
    and q: "\<not> rv_pre_vote req" "CurrentTerm (rs_node s) < rv_term req"
      "\<not> rvr_vote_granted (fst (HandleRequestVote D e2 req (rs_node s1)))"
    and own: "list_all own evs" and run: "loop_run D evs s2 = Some s3"
  shows "rn_role (rs_node s3) = Follower \<and> CurrentTerm (rs_node s3) = rv_term req \<and> rs_pc s3 \<noteq> TookElection \<and> sends D evs s2 = []"
proof -
  from o obtain r where pc: "rs_pc s = ReadElection r" "r \<noteq> Leader" and L: "rn_role (rs_node s) = Leader"
    by (auto simp: overtaken_def split: run_pc.splits)
  then have s1: "s1 = s\<lparr>rs_pc := AtSelect\<rparr>"
    using c by (auto simp: on_election_timer_def startElection_def split: if_splits)
  have s2: "s2 = s1\<lparr>rs_node := snd (checkTerm D (rv_term req) (rs_node s))\<rparr>"
    using v q by (auto simp: s1 HandleRequestVote_def Let_def split: if_splits)
  have "deaf s2"
    using dead q(2) awake_timing [OF timing_checkTerm [of D "rv_term req" "rs_node s"]]
    by (auto simp: s2 s1 deaf_def holds_fire_def effects timer_wf_def frame)
  from deaf_run [OF this own run] show ?thesis using q(2) by (auto simp: s2 s1 effects deaf_def holds_fire_def)
qed

theorem election_timer_lost_witness:
  "\<exists>s. loop_run demo_deps lost_events (started 0 (demo_node ''a'' [''b'', ''c''])) = Some s \<and>
     rn_role (rs_node s) = Follower \<and> CurrentTerm (rs_node s) = 9 \<and> rs_pc s \<noteq> TookElection"
proof -
  obtain s s1 s2 cs1 cs2 where r: "lost_run 11 = Some s" "lost_run 12 = Some s1" "lost_run 13 = Some s2"
    and x: "loop_exec demo_deps (CallHandler (demo_env 2) (demo_env 2)) s = Some (s1, cs1)"
      "loop_exec demo_deps (Other (OpRequestVote (demo_env 2) lost_refused)) s1 = Some (s2, cs2)"
    by (rule lost_states)
  have v: "rs_pc s = ReadElection Candidate" "rn_role (rs_node s) = Leader" "CurrentTerm (rs_node s) = 1"
    "rn_electionTimer (rs_node s) = Some \<lparr>tm_due = None, tm_fired = False\<rparr>"
    "\<not> rvr_vote_granted (fst (HandleRequestVote demo_deps (demo_env 2) lost_refused (rs_node s1)))"
    using lost_view r by simp_all
  have "overtaken s" "timer_wf (rs_node s)" "\<not> awake (rs_node s)" "\<not> rv_pre_vote lost_refused" "CurrentTerm (rs_node s) < rv_term lost_refused"
    using v by (simp_all add: overtaken_def timer_wf_def awake_def timer_ok_def lost_refused_def)
  from election_timer_lost [OF this(1-3) x this(4,5) v(5), of "[]" s2] r(3) show ?thesis
    by (simp add: lost_events_def lost_refused_def)
qed

end
