(* ===== verification/Kv_Handler.thy ===== *)
theory Kv_Handler
  imports Http Term_Check
begin

text \<open>
  The gRPC handlers of \<open>internal/transport/handler.go\<close>.  A handler takes the node's mutex
  several times; \<open>node_at i\<close> is the node the \<open>i\<close>-th time (0 for \<open>IsLeader\<close>, 1 for
  \<open>LeaderID\<close> or \<open>Get\<close>).  \<open>RequestVote\<close> and \<open>AppendEntries\<close> pass the request on to the node.
\<close>

definition h_Set :: "gob \<Rightarrow> (nat \<Rightarrow> 's raft_node) \<Rightarrow> set_request \<Rightarrow> set_response handler_step" where
  "h_Set G node_at req =
     (if \<not> IsLeader (node_at 0) then
        Respond \<lparr>sr_success = False, sr_error = ''node is not the leader'', sr_leader_hint = LeaderID (node_at 1)\<rparr>
      else case Encode G \<lparr>cmd_type = CmdSet, cmd_key = sq_key req, cmd_value = sq_value req\<rparr> of
             Inl err \<Rightarrow> Respond \<lparr>sr_success = False, sr_error = error_text err, sr_leader_hint = ''''\<rparr>
           | Inr encoded \<Rightarrow>
               Submit encoded (\<lambda>(_, err). case err of
                   Some e \<Rightarrow> \<lparr>sr_success = False, sr_error = error_text e, sr_leader_hint = ''''\<rparr>
                 | None \<Rightarrow> \<lparr>sr_success = True, sr_error = '''', sr_leader_hint = ''''\<rparr>))"

definition h_Get :: "(nat \<Rightarrow> 's raft_node) \<Rightarrow> get_request \<Rightarrow> get_response" where
  "h_Get node_at req =
     (if \<not> IsLeader (node_at 0) then \<lparr>gr_value = '''', gr_found = False, gr_error = ''not leader''\<rparr>
      else case Get (node_at 1) (gq_key req) of
             (val, found) \<Rightarrow> \<lparr>gr_value = val, gr_found = found, gr_error = ''''\<rparr>)"

definition h_Delete :: "gob \<Rightarrow> (nat \<Rightarrow> 's raft_node) \<Rightarrow> delete_request \<Rightarrow> delete_response handler_step" where
  "h_Delete G node_at req =
     (if \<not> IsLeader (node_at 0) then
        Respond \<lparr>dr_success = False, dr_error = ''not leader'', dr_leader_hint = LeaderID (node_at 1)\<rparr>
      else case Encode G \<lparr>cmd_type = CmdDelete, cmd_key = dq_key req, cmd_value = ''''\<rparr> of
             Inl err \<Rightarrow> Respond \<lparr>dr_success = False, dr_error = error_text err, dr_leader_hint = ''''\<rparr>
           | Inr encoded \<Rightarrow>
               Submit encoded (\<lambda>(_, err). case err of
                   Some e \<Rightarrow> \<lparr>dr_success = False, dr_error = error_text e, dr_leader_hint = ''''\<rparr>
                 | None \<Rightarrow> \<lparr>dr_success = True, dr_error = '''', dr_leader_hint = ''''\<rparr>))"

end
