(* ===== verification/Grpc_Transport.thy ===== *)
theory Grpc_Transport
  imports Kv_Handler Election Complex_Main
begin

text \<open>
  The RPC layer: outbound connections, \<open>internal/transport/client.go\<close>, the server,
  \<open>internal/transport/server.go\<close>, and the handlers of the node-to-node service of
  \<open>internal/transport/handler.go\<close>.  gRPC is a parameter: what dialling an address yields, what
  a stub answers within a deadline, what listening on an address yields.
\<close>

section \<open>Connections to the peers\<close>

record connect_params =
  BaseDelay :: int
  Multiplier :: real
  Jitter :: real
  MaxDelay :: int
  MinConnectTimeout :: int

record ('conn, 'stub) grpc =
  grpc_NewClient :: "string \<Rightarrow> connect_params \<Rightarrow> go_error + 'conn"
  NewRaftServiceClient :: "'conn \<Rightarrow> 'stub"
  stub_RequestVote :: "'stub \<Rightarrow> int \<Rightarrow> request_vote_request \<Rightarrow> go_error + request_vote_response"
  stub_AppendEntries :: "'stub \<Rightarrow> int \<Rightarrow> append_entries_request \<Rightarrow> go_error + append_entries_response"

record ('conn, 'stub) grpc_transport =
  gt_clients :: "(string \<times> 'stub) list"
  gt_conns :: "(string \<times> 'conn) list"
  gt_timeout :: int

definition peerConnectParams :: connect_params where
  "peerConnectParams = \<lparr>BaseDelay = 100 * millisecond, Multiplier = 16 / 10, Jitter = 2 / 10,
     MaxDelay = 1000 * millisecond, MinConnectTimeout = 1000 * millisecond\<rparr>"

text \<open>\<open>Close\<close>: the connections it closes.\<close>

definition gt_Close :: "('conn, 'stub) grpc_transport \<Rightarrow> 'conn list" where
  "gt_Close t = map snd (gt_conns t)"

text \<open>An error comes with the connections that have been closed again.\<close>

fun connect_peers ::
    "('conn, 'stub) grpc \<Rightarrow> (string \<times> string) list \<Rightarrow> ('conn, 'stub) grpc_transport \<Rightarrow>
     (go_error \<times> 'conn list) + ('conn, 'stub) grpc_transport" where
  "connect_peers Q [] t = Inr t"
| "connect_peers Q ((peerID, addr) # peers) t =
     (case grpc_NewClient Q addr peerConnectParams of
        Inl (Err m) \<Rightarrow>
          Inl (Err (''failed to connect to peer '' @ peerID @ '' at '' @ addr @ '': '' @ m), gt_Close t)
      | Inr conn \<Rightarrow>
          connect_peers Q peers
            (t\<lparr>gt_conns := AList.update peerID conn (gt_conns t),
               gt_clients := AList.update peerID (NewRaftServiceClient Q conn) (gt_clients t)\<rparr>))"

definition NewGRPCTransport ::
    "('conn, 'stub) grpc \<Rightarrow> (string \<times> string) list \<Rightarrow> int \<Rightarrow>
     (go_error \<times> 'conn list) + ('conn, 'stub) grpc_transport" where
  "NewGRPCTransport Q peers timeout =
     connect_peers Q peers \<lparr>gt_clients = [], gt_conns = [], gt_timeout = timeout\<rparr>"

definition SendRequestVote ::
    "('conn, 'stub) grpc \<Rightarrow> ('conn, 'stub) grpc_transport \<Rightarrow> string \<Rightarrow> request_vote_request \<Rightarrow>
     go_error + request_vote_response" where
  "SendRequestVote Q t peerID req =
     (case map_of (gt_clients t) peerID of
        None \<Rightarrow> Inl (Err (''peer '' @ peerID @ '' not found in transport''))
      | Some client \<Rightarrow> stub_RequestVote Q client (gt_timeout t) req)"

definition SendAppendEntries ::
    "('conn, 'stub) grpc \<Rightarrow> ('conn, 'stub) grpc_transport \<Rightarrow> string \<Rightarrow> append_entries_request \<Rightarrow>
     go_error + append_entries_response" where
  "SendAppendEntries Q t peerID req =
     (case map_of (gt_clients t) peerID of
        None \<Rightarrow> Inl (Err (''peer '' @ peerID @ '' not found in transport''))
      | Some client \<Rightarrow> stub_AppendEntries Q client (gt_timeout t) req)"

section \<open>The server\<close>

record 'lis grpc_server =
  sv_addr :: string
  sv_listener :: 'lis
  sv_services :: "string list"
  sv_serving :: bool

definition NewServer :: "(string \<Rightarrow> go_error + 'lis) \<Rightarrow> string \<Rightarrow> go_error + 'lis grpc_server" where
  "NewServer listen addr =
     (case listen addr of
        Inl (Err m) \<Rightarrow> Inl (Err (''failed to listen on '' @ addr @ '': '' @ m))
      | Inr lis \<Rightarrow> Inr \<lparr>sv_addr = addr, sv_listener = lis, sv_services = [''RaftService'', ''KVService''], sv_serving = False\<rparr>)"

text \<open>The goroutine of \<open>Start\<close> serves until \<open>GracefulStop\<close>.\<close>

definition sv_Start :: "'lis grpc_server \<Rightarrow> 'lis grpc_server" where
  "sv_Start s = s\<lparr>sv_serving := True\<rparr>"

definition sv_Stop :: "'lis grpc_server \<Rightarrow> 'lis grpc_server" where
  "sv_Stop s = s\<lparr>sv_serving := False\<rparr>"

definition h_RequestVote ::
    "'s deps \<Rightarrow> env \<Rightarrow> request_vote_request \<Rightarrow> 's raft_node \<Rightarrow> (go_error + request_vote_response) \<times> 's raft_node" where
  "h_RequestVote D e req rn = (case HandleRequestVote D e req rn of (resp, rn) \<Rightarrow> (Inr resp, rn))"

definition h_AppendEntries ::
    "'s deps \<Rightarrow> env \<Rightarrow> append_entries_request \<Rightarrow> 's raft_node \<Rightarrow> (go_error + append_entries_response) \<times> 's raft_node" where
  "h_AppendEntries D e req rn = (case HandleAppendEntries D e req rn of (resp, rn) \<Rightarrow> (Inr resp, rn))"

section \<open>Lemmas\<close>

lemma connect_peers_clients:
  "connect_peers Q peers t = Inr t' \<Longrightarrow>
   fst ` set (gt_clients t') = fst ` set (gt_clients t) \<union> fst ` set peers \<and> gt_timeout t' = gt_timeout t"
proof (induction Q peers t rule: connect_peers.induct)
  case (2 Q peerID addr peers t)
  then show ?case by (auto split: sum.splits go_error.splits)
qed simp

end
