(* ===== verification/Server_Main.thy ===== *)
theory Server_Main
  imports Grpc_Transport Http_Gateway Bbolt_Store Cluster
begin

text \<open>
  The server command, \<open>cmd/raftra-server/main.go\<close>: the peer lists given as flags and the
  order in which \<open>main\<close> builds a node.  Flag parsing, logging and signals are left out.
\<close>

section \<open>Peer lists\<close>

fun parse_peer :: "string \<Rightarrow> (string \<times> string) option" where
  "parse_peer entry =
     (let entry = TrimSpace entry; parts = Split (CHR '':'') entry in
      if entry = '''' then None
      else if length parts = 2 then Some (parts ! 0, entry)
      else if 3 \<le> length parts then Some (parts ! 0, Join '':'' (tl parts))
      else None)"

fun parse_peer_entries :: "string list \<Rightarrow> peer_config list \<times> (string \<times> string) list \<Rightarrow> peer_config list \<times> (string \<times> string) list" where
  "parse_peer_entries [] acc = acc"
| "parse_peer_entries (entry # es) (peers, m) =
     (case parse_peer entry of
        None \<Rightarrow> parse_peer_entries es (peers, m)
      | Some (i, addr) \<Rightarrow>
          parse_peer_entries es (peers @ [\<lparr>pc_ID = i, pc_Address = addr\<rparr>], AList.update i addr m))"

definition parse_peers :: "string \<Rightarrow> peer_config list \<times> (string \<times> string) list" where
  "parse_peers flag = (if flag = '''' then ([], []) else parse_peer_entries (Split (CHR '','') flag) ([], []))"

fun parse_http_entries :: "string list \<Rightarrow> (string \<times> string) list \<Rightarrow> (string \<times> string) list" where
  "parse_http_entries [] m = m"
| "parse_http_entries (entry # es) m =
     (case Split2 (CHR '':'') entry of
        [i, addr] \<Rightarrow> parse_http_entries es (AList.update i addr m)
      | _ \<Rightarrow> parse_http_entries es m)"

definition parse_http_peers :: "string \<Rightarrow> (string \<times> string) list" where
  "parse_http_peers flag = (if flag = '''' then [] else parse_http_entries (Split (CHR '','') flag) [])"

section \<open>Building a node\<close>

record flags =
  fl_id :: string
  fl_host :: string
  fl_port :: int
  fl_http_port :: int
  fl_peers :: string
  fl_http_peers :: string
  fl_data_dir :: string
  fl_nosync :: bool
  fl_limits :: limits

text \<open>What \<open>main\<close> uses of the operating system, and the process-wide metrics object.\<close>

record 'lis os =
  os_MkdirAll :: "string \<Rightarrow> go_error option"
  os_Join :: "string \<Rightarrow> string \<Rightarrow> string"
  os_Listen :: "string \<Rightarrow> go_error + 'lis"
  os_metrics :: metrics

definition host_port :: "string \<Rightarrow> int \<Rightarrow> string" where
  "host_port host port = host @ '':'' @ (if port < 0 then ''-'' @ decimal (nat (- port)) else decimal (nat port))"

record ('db, 'conn, 'stub, 'lis) process =
  pr_node :: "'db raft_node"
  pr_transport :: "('conn, 'stub) grpc_transport"
  pr_server :: "'lis grpc_server"
  pr_http :: http_server

text \<open>\<^const>\<open>Inl\<close> is the message logged before the process exits with status 1.\<close>

definition main_start ::
    "('db, 'tx) bbolt \<Rightarrow> protobuf \<Rightarrow> gob \<Rightarrow> ('conn, 'stub) grpc \<Rightarrow> 'lis os \<Rightarrow> env \<Rightarrow> int \<Rightarrow> flags \<Rightarrow>
     string + ('db, 'conn, 'stub, 'lis) process" where
  "main_start A P G Q os e t fl =
     (let D = \<lparr>d_backend = bbolt_backend A P, d_gob = G\<rparr>;
          (peers, peerAddressMap) = parse_peers (fl_peers fl);
          peerHTTPMap = parse_http_peers (fl_http_peers fl)
      in if os_MkdirAll os (fl_data_dir fl) \<noteq> None then Inl ''failed to create data directory''
      else
     (case NewBboltStoreWithOptions A P (os_Join os (fl_data_dir fl) (fl_id fl @ ''.db'')) (fl_nosync fl) of
        Inl _ \<Rightarrow> Inl ''failed to create bbolt store''
      | Inr store \<Rightarrow>
     (case NewRaftNode D (DefaultConfig (fl_id fl) peers) store NewKVStore of
        Inl _ \<Rightarrow> Inl ''failed to create raft node''
      | Inr rn \<Rightarrow>
        let rn = SetMetrics D (Some (os_metrics os)) rn in
     (case NewGRPCTransport Q peerAddressMap (100 * millisecond) of
        Inl _ \<Rightarrow> Inl ''failed to create outbound transport''
      | Inr tp \<Rightarrow>
     (case NewServer (os_Listen os) (host_port (fl_host fl) (fl_port fl)) of
        Inl _ \<Rightarrow> Inl ''failed to create gRPC server''
      | Inr server \<Rightarrow>
        let server = sv_Start server in
          if Validate (fl_limits fl) \<noteq> None then Inl ''invalid playground limits''
          else
     (case http_Start (NewHTTPServer (host_port (fl_host fl) (fl_http_port fl)) peerHTTPMap
             (Some (os_metrics os)) (fl_limits fl) t) of
        (Some _, _) \<Rightarrow> Inl ''failed to start HTTP server''
      | (None, http) \<Rightarrow>
          Inr \<lparr>pr_node = Start e rn, pr_transport = tp, pr_server = server, pr_http = http\<rparr>))))))"

section \<open>Shutting down\<close>

text \<open>
  What \<open>main\<close> does after the signal: the node, the gRPC server and the gateway are stopped, then
  the connections to the peers and the store are closed.  The connections it closes come with
  the process; \<open>shutdown\<close> is the result of the gateway's \<open>Shutdown\<close>.
\<close>

definition main_shutdown ::
    "('db, 'tx) bbolt \<Rightarrow> go_error option \<Rightarrow> ('db, 'conn, 'stub, 'lis) process \<Rightarrow>
     ('db, 'conn, 'stub, 'lis) process \<times> 'conn list" where
  "main_shutdown A shutdown p =
     (let rn = Stop (pr_node p);
          server = sv_Stop (pr_server p);
          http = snd (http_Stop shutdown (pr_http p));
          conns = gt_Close (pr_transport p);
          rn = rn\<lparr>rn_storage := snd (bs_Close A (rn_storage rn))\<rparr>
      in (p\<lparr>pr_node := rn, pr_server := server, pr_http := http\<rparr>, conns))"

section \<open>The whole command\<close>

text \<open>
  \<open>main\<close>: it exits with status 1 when it cannot start; otherwise the process runs until it is
  given a signal, then shuts down and exits with status 0.  The first component is the exit
  status, if it has exited.
\<close>

definition server_main ::
    "('db, 'tx) bbolt \<Rightarrow> protobuf \<Rightarrow> gob \<Rightarrow> ('conn, 'stub) grpc \<Rightarrow> 'lis os \<Rightarrow> env \<Rightarrow> int \<Rightarrow> bool \<Rightarrow> go_error option \<Rightarrow> flags \<Rightarrow>
     nat option \<times> ('db, 'conn, 'stub, 'lis) process option" where
  "server_main A P G Q os e t signal shutdown fl =
     (case main_start A P G Q os e t fl of
        Inl msg \<Rightarrow> (Some 1, None)
      | Inr p \<Rightarrow>
          if signal then (Some 0, Some (fst (main_shutdown A shutdown p))) else (None, Some p))"

end
