(* ===== verification/Observations.thy ===== *)
theory Observations
  imports Service_Properties Server_Main Kv_Handler
begin

text \<open>
  Where the code does something else than a comment, a document or its own other half says: each
  lemma states what it does.
\<close>

section \<open>The gauge of the commit index\<close>

text \<open>
  \<open>raft_commit_index\<close> is set in the leader's commit loop only: no entry a follower commits moves
  it, nor does a write of a node without peers.
\<close>

abbreviation commit_gauge :: "'s raft_node \<Rightarrow> u64 option" where
  "commit_gauge rn \<equiv> map_option m_CommitIndex (rn_metrics rn)"

lemma gauge_kept [simp]:
  "map_option m_CommitIndex (SetLastApplied i mt) = map_option m_CommitIndex mt"
  "map_option m_CommitIndex (SetCurrentTerm t mt) = map_option m_CommitIndex mt"
  "map_option m_CommitIndex (SetNodeRole r mt) = map_option m_CommitIndex mt"
  by (simp_all add: SetLastApplied_def SetCurrentTerm_def SetNodeRole_def option.map_comp comp_def)

lemma gauge_apply [simp]: "commit_gauge (applyCommittedEntriesLocked D rn) = commit_gauge rn"
proof (induction rn rule: apply_induct [where D = D])
  case (1 rn)
  have "commit_gauge (apply_one D rn) = commit_gauge rn"
    by (simp add: apply_one_def Let_def split: sum.split option.split)
  with 1 show ?case by (subst applyCommittedEntriesLocked.simps) simp
qed

lemma gauge_append_loop [simp]: "commit_gauge (snd (append_loop D req i es rn)) = commit_gauge rn"
  by (induction D req i es rn rule: append_loop.induct) (auto simp: Let_def split: sum.split prod.split option.split)

lemma gauge_checkTerm [simp]: "commit_gauge (snd (checkTerm D t rn)) = commit_gauge rn"
  by (simp add: checkTerm_def abort_pending_def Let_def)

theorem follower_commit_gauge:
  assumes "HandleAppendEntries D e req rn = (resp, rn')"
  shows "commit_gauge rn' = commit_gauge rn"
  using assms
proof (cases rule: HandleAppendEntries_cases)
  case (2 r rn1)
  have "commit_gauge rn1 = commit_gauge rn" unfolding 2(1) by (simp add: frame)
  then show ?thesis using 2(4) by (auto simp: follower_commit_def Let_def)
qed simp

theorem single_node_gauge:
  assumes "ProposeCommand D cmd rn = (ProposeDone i, rn', cs)"
  shows "commit_gauge rn' = commit_gauge rn"
  using assms by (auto simp: ProposeCommand_def Let_def split: if_splits prod.splits option.splits)

text \<open>So the gauge of a follower that commits what the leader committed stays behind.\<close>

theorem follower_gauge_behind:
  "let rn = (demo_node ''b'' [''a'', ''c''])\<lparr>rn_metrics := Some newMetrics\<rparr>;
       req = \<lparr>ae_term = 1, ae_leader_id = ''a'', ae_prev_log_index = 0, ae_prev_log_term = 0,
              ae_entries = tl demo_log, ae_leader_commit = 2\<rparr>;
       rn' = snd (HandleAppendEntries demo_deps (demo_env 1) req rn)
   in commitIndex rn' = 2 \<and> commit_gauge rn' = Some 0"
  by code_simp

section \<open>The leader that is known\<close>

text \<open>A vote for a newer term does not clear the leader that is known.\<close>

lemma vote_keeps_leader:
  "HandleRequestVote D e req rn = (res, rn') \<Longrightarrow> rn_leaderID rn' = rn_leaderID rn"
  by (auto simp: HandleRequestVote_def Let_def frame split: if_splits)

lemma granted_not_leader:
  assumes "HandleRequestVote D e req rn = (res, rn')" and "CurrentTerm rn < rv_term req" and "\<not> rv_pre_vote req"
  shows "\<not> IsLeader rn'"
  using assms by (auto simp: HandleRequestVote_def Let_def IsLeader_def frame effects split: if_splits)

theorem redirect_to_deposed:
  assumes v: "HandleRequestVote D e req rn = (res, rn')" "CurrentTerm rn < rv_term req" "\<not> rv_pre_vote req"
    and known: "rn_leaderID rn = l" "map_of (hs_peerHTTPAddrs s) l = Some addr" "addr \<noteq> ''''"
    and q: "r_Method q \<in> {''PUT'', ''POST'', ''DELETE''}" "kv_path q \<noteq> ''''"
  shows "\<exists>w. handleKV G net t (\<lambda>_. rn') q s = (Respond w, s) \<and> w_Status w = 307 \<and>
    w_Header w = [(''Location'', addr @ r_EscapedPath q @ (if r_RawQuery q = '''' then '''' else ''?'' @ r_RawQuery q))]"
proof -
  have f: "\<not> IsLeader rn'" and l: "LeaderID rn' = l"
    using granted_not_leader [OF v] vote_keeps_leader [OF v(1)] known(1) by (simp_all add: IsLeader_def LeaderID_def)
  from f redirectIfFollower_None [of "\<lambda>_. rn'" q s] obtain w where w: "redirectIfFollower (\<lambda>_. rn') q s = Some w"
    by (cases "redirectIfFollower (\<lambda>_. rn') q s") auto
  have "handleKV G net t (\<lambda>_. rn') q s = (Respond w, s)"
    using q w by (auto simp: handleKV_def Let_def handlePut_def handlePost_def handleDelete_def)
  then show ?thesis
    using w f l known by (auto simp: redirectIfFollower_def http_Redirect_def leaderRedirectURL_def Let_def status_defs)
qed

section \<open>The hint of the gRPC handlers\<close>

text \<open>What a follower calls the leader's address is the node ID of the leader whose entries it takes.\<close>

theorem leader_hint_is_node_id:
  assumes h: "HandleAppendEntries D e (request_from L x) rn = (resp, rn')" and s: "aer_success resp"
    and f: "\<not> IsLeader rn'"
  shows "h_Set G (\<lambda>_. rn') q = Respond \<lparr>sr_success = False, sr_error = ''node is not the leader'', sr_leader_hint = node_id L\<rparr> \<and>
    h_Delete G (\<lambda>_. rn') dq = Respond \<lparr>dr_success = False, dr_error = ''not leader'', dr_leader_hint = node_id L\<rparr>"
proof -
  have loop: "rn_leaderID (snd (append_loop D req i es rn0)) = rn_leaderID rn0" for req i es rn0
    by (induction D req i es rn0 rule: append_loop.induct) (auto simp: Let_def split: sum.split prod.split option.split)
  from h have "rn_leaderID rn' = node_id L"
  proof (cases rule: HandleAppendEntries_cases)
    case (2 r rn1)
    have "rn_leaderID rn1 = node_id L" unfolding 2(1) by (simp add: frame request_from_def)
    then show ?thesis using 2(4) by (auto simp: follower_commit_def Let_def frame loop)
  qed (use s in simp)
  then show ?thesis using f by (simp add: h_Set_def h_Delete_def LeaderID_def IsLeader_def)
qed

section \<open>Blanks in peer lists\<close>

text \<open>An entry of \<open>-http-peers\<close> keeps the blank before it, an entry of \<open>-peers\<close> does not.\<close>

theorem http_peers_keep_blanks:
  "parse_http_peers ''n1:http://h:1, n2:http://h:2'' = [(''n1'', ''http://h:1''), ('' n2'', ''http://h:2'')]"
  "snd (parse_peers ''n1:h:1, n2:h:2'') = [(''n1'', ''h:1''), (''n2'', ''h:2'')]"
  by code_simp+

end
