(* ===== verification/Cli_Ui.thy ===== *)
theory Cli_Ui
  imports Go_Strings
begin

text \<open>
  The output blocks of the command line client, \<open>cmd/raftra-cli/ui.go\<close>: colours, widths and
  boxes.  Strings are their UTF-8 bytes.  The terminal settings are one record; whether the
  file descriptors are terminals, the operating system, and whether the console takes escape
  sequences, is given.
\<close>

record ui =
  useColor :: bool
  stdoutTTY :: bool
  stdinTTY :: bool
  windows :: bool

text \<open>What \<open>Stat\<close> says of a file: whether it is a character device, or an error.\<close>

definition isTerminal :: "bool option \<Rightarrow> bool" where
  "isTerminal fi \<longleftrightarrow> fi = Some True"

definition setupTerminal :: "string \<Rightarrow> bool option \<Rightarrow> bool option \<Rightarrow> string \<Rightarrow> string \<Rightarrow> bool \<Rightarrow> ui" where
  "setupTerminal GOOS stdinStat stdoutStat envTerm envNoColor enableVT =
     (let out = (isTerminal stdoutStat \<and> envTerm \<noteq> ''dumb'' \<and> enableVT) in
      \<lparr>useColor = (out \<and> envNoColor = ''''), stdoutTTY = out, stdinTTY = isTerminal stdinStat,
       windows = (GOOS = ''windows'')\<rparr>)"

definition ESC :: char where "ESC = CHR 0x1B"

definition ansiReset :: string where "ansiReset = ESC # ''[0m''"
definition ansiBold :: string where "ansiBold = ESC # ''[1m''"

definition rgbFG :: "nat \<Rightarrow> nat \<Rightarrow> nat \<Rightarrow> string" where
  "rgbFG r g b = ESC # ''[38;2;'' @ decimal r @ '';'' @ decimal g @ '';'' @ decimal b @ ''m''"

definition cOrange :: string where "cOrange = rgbFG 255 122 26"
definition cBone :: string where "cBone = rgbFG 233 228 216"
definition cDim :: string where "cDim = rgbFG 142 151 157"
definition cRule :: string where "cRule = rgbFG 83 94 102"
definition cRed :: string where "cRed = rgbFG 240 71 59"
definition cTeal :: string where "cTeal = rgbFG 85 207 171"
definition cAmber :: string where "cAmber = rgbFG 232 197 71"

definition glyphDot :: string where "glyphDot = [CHR 0xE2, CHR 0x97, CHR 0x8F]"

text \<open>The bytes of a rune below 65536.\<close>

definition utf8 :: "nat \<Rightarrow> string" where
  "utf8 r =
     (if r < 128 then [char_of r]
      else if r < 2048 then [char_of (192 + r div 64), char_of (128 + r mod 64)]
      else [char_of (224 + r div 4096), char_of (128 + r div 64 mod 64), char_of (128 + r mod 64)])"

text \<open>Glyphs; \<open>init\<close> replaces them on Windows.\<close>

definition glyphTree :: "ui \<Rightarrow> string" where
  "glyphTree u = utf8 (if windows u then 0x2514 else 0x23BF)"

definition glyphStar :: "ui \<Rightarrow> string" where
  "glyphStar u = (if windows u then ''*'' else utf8 0x273B)"

definition spinGlyphs :: "ui \<Rightarrow> string list" where
  "spinGlyphs u = map utf8
     (if windows u then [0xB7, 0x2022, 0x25CF, 0x2022]
      else [0xB7, 0x2722, 0x2733, 0x2736, 0x273B, 0x273D, 0x273B, 0x2736, 0x2733, 0x2722])"

definition paint :: "ui \<Rightarrow> string \<Rightarrow> string \<Rightarrow> string" where
  "paint u color s = (if \<not> useColor u \<or> s = '''' then s else color @ s @ ansiReset)"

definition orange :: "ui \<Rightarrow> string \<Rightarrow> string" where "orange u s = paint u cOrange s"
definition bone :: "ui \<Rightarrow> string \<Rightarrow> string" where "bone u s = paint u cBone s"
definition dim :: "ui \<Rightarrow> string \<Rightarrow> string" where "dim u s = paint u cDim s"
definition ui_rule :: "ui \<Rightarrow> string \<Rightarrow> string" where "ui_rule u s = paint u cRule s"
definition bold :: "ui \<Rightarrow> string \<Rightarrow> string" where "bold u s = paint u ansiBold s"

section \<open>Widths\<close>

text \<open>\<open>ansiRE\<close>: escape, bracket, digits, semicolons and question marks, a letter.\<close>

definition is_param :: "char \<Rightarrow> bool" where
  "is_param c \<longleftrightarrow> (48 \<le> (of_char c :: nat) \<and> (of_char c :: nat) \<le> 57) \<or> c = CHR '';'' \<or> c = CHR ''?''"

definition is_letter :: "char \<Rightarrow> bool" where
  "is_letter c \<longleftrightarrow> (65 \<le> (of_char c :: nat) \<and> (of_char c :: nat) \<le> 90) \<or> (97 \<le> (of_char c :: nat) \<and> (of_char c :: nat) \<le> 122)"

text \<open>What is left of a string that starts with a match.\<close>

definition ansi_rest :: "string \<Rightarrow> string option" where
  "ansi_rest s =
     (if HasPrefix s [ESC, CHR ''[''] then
        (case dropWhile is_param (drop 2 s) of
           z # zs \<Rightarrow> if is_letter z then Some zs else None
         | [] \<Rightarrow> None)
      else None)"

lemma ansi_rest_shorter: "ansi_rest s = Some r \<Longrightarrow> length r < length s"
  using length_dropWhile_le [of is_param "drop 2 s"]
  by (auto simp: ansi_rest_def split: if_splits list.splits)

function strip_ansi :: "string \<Rightarrow> string" where
  "strip_ansi s =
     (case ansi_rest s of
        Some r \<Rightarrow> strip_ansi r
      | None \<Rightarrow> (case s of [] \<Rightarrow> [] | c # cs \<Rightarrow> c # strip_ansi cs))"
  by pat_completeness auto
termination by (relation "measure length") (auto dest: ansi_rest_shorter)

declare strip_ansi.simps [simp del]

text \<open>The runes of valid UTF-8 are its bytes other than the continuation bytes.\<close>

definition RuneCount :: "string \<Rightarrow> nat" where
  "RuneCount s = length (filter (\<lambda>c. \<not> (128 \<le> (of_char c :: nat) \<and> (of_char c :: nat) < 192)) s)"

definition visibleLen :: "string \<Rightarrow> nat" where
  "visibleLen s = RuneCount (strip_ansi s)"

definition padRight :: "string \<Rightarrow> nat \<Rightarrow> string" where
  "padRight s w = (if visibleLen s < w then s @ replicate (w - visibleLen s) (CHR '' '') else s)"

section \<open>Blocks\<close>

definition newline :: string where "newline = [CHR 0x0A]"

fun detail_lines :: "ui \<Rightarrow> nat \<Rightarrow> string list \<Rightarrow> string" where
  "detail_lines u i [] = ''''"
| "detail_lines u i (d # ds) =
     (if i = 0 then ''  '' @ dim u (glyphTree u) @ ''  '' @ d @ newline else ''     '' @ d @ newline)
     @ detail_lines u (Suc i) ds"

definition ui_result :: "ui \<Rightarrow> string \<Rightarrow> string \<Rightarrow> string list \<Rightarrow> string" where
  "ui_result u color summary details =
     paint u color glyphDot @ '' '' @ summary @ newline @ detail_lines u 0 details"

definition repeat_str :: "string \<Rightarrow> nat \<Rightarrow> string" where
  "repeat_str s n = concat (replicate n s)"

definition box :: "ui \<Rightarrow> nat \<Rightarrow> string list \<Rightarrow> string" where
  "box u w ls =
     (let bar = repeat_str [CHR 0xE2, CHR 0x94, CHR 0x80] (w + 2);
          side = ui_rule u [CHR 0xE2, CHR 0x94, CHR 0x82]
      in ui_rule u ([CHR 0xE2, CHR 0x95, CHR 0xAD] @ bar @ [CHR 0xE2, CHR 0x95, CHR 0xAE]) @ newline
         @ concat (map (\<lambda>l. side @ '' '' @ padRight l w @ '' '' @ side @ newline) ls)
         @ ui_rule u ([CHR 0xE2, CHR 0x95, CHR 0xB0] @ bar @ [CHR 0xE2, CHR 0x95, CHR 0xAF]) @ newline)"

definition spread :: "string \<Rightarrow> string \<Rightarrow> nat \<Rightarrow> string" where
  "spread left right w =
     left @ replicate (nat (max (int w - int (visibleLen left) - int (visibleLen right)) 1)) (CHR '' '') @ right"

text \<open>The argument is the number in \<open>COLUMNS\<close>, if there is one.\<close>

definition boxWidth :: "int option \<Rightarrow> int" where
  "boxWidth COLUMNS = (case COLUMNS of Some cols \<Rightarrow> if 20 < cols \<and> cols - 4 < 60 then cols - 4 else 60 | None \<Rightarrow> 60)"

section \<open>Lemmas\<close>

lemma strip_ansi_Nil [simp]: "strip_ansi [] = []"
  by (simp add: strip_ansi.simps [of "[]"] ansi_rest_def HasPrefix_def)

lemma strip_ansi_Cons: "c \<noteq> ESC \<Longrightarrow> strip_ansi (c # cs) = c # strip_ansi cs"
  by (simp add: strip_ansi.simps [of "c # cs"] ansi_rest_def HasPrefix_def)

lemma strip_ansi_plain: "ESC \<notin> set s \<Longrightarrow> strip_ansi (s @ t) = s @ strip_ansi t"
  by (induction s) (auto simp: strip_ansi_Cons)

lemma strip_ansi_code:
  "\<forall>c\<in>set ps. is_param c \<Longrightarrow> is_letter z \<Longrightarrow> strip_ansi (ESC # CHR ''['' # ps @ z # t) = strip_ansi t"
proof -
  assume a: "\<forall>c\<in>set ps. is_param c" "is_letter z"
  then have "\<not> is_param z" by (auto simp: is_param_def is_letter_def)
  with a have "dropWhile is_param (ps @ z # t) = z # t" by (simp add: dropWhile_append2)
  with a have "ansi_rest (ESC # CHR ''['' # ps @ z # t) = Some t" by (simp add: ansi_rest_def HasPrefix_def)
  then show ?thesis by (simp add: strip_ansi.simps [of "ESC # CHR ''['' # ps @ z # t"])
qed

lemma decimal_params: "\<forall>c\<in>set (decimal n). is_param c"
proof (induction n rule: decimal.induct)
  case (1 n)
  have d: "is_param (char_of (48 + k))" if "k < 10" for k :: nat
    using that by (simp add: is_param_def of_char_of)
  show ?case
  proof (cases "n < 10")
    case False
    then show ?thesis using 1 d [of "n mod 10"] by (subst decimal.simps) auto
  qed (use d in \<open>subst decimal.simps, simp\<close>)
qed

definition sgr :: "string \<Rightarrow> bool" where
  "sgr code \<longleftrightarrow> (\<exists>ps z. code = ESC # CHR ''['' # ps @ [z] \<and> (\<forall>c\<in>set ps. is_param c) \<and> is_letter z)"

lemma strip_sgr: "sgr code \<Longrightarrow> strip_ansi (code @ t) = strip_ansi t"
  by (auto simp: sgr_def strip_ansi_code)

lemma sgr_rgb: "sgr (rgbFG r g b)"
  unfolding sgr_def rgbFG_def
  by (rule exI [of _ "''38;2;'' @ decimal r @ '';'' @ decimal g @ '';'' @ decimal b"], rule exI [of _ "CHR ''m''"])
    (use decimal_params in \<open>auto simp: is_param_def is_letter_def\<close>)

lemma sgr_reset: "sgr ansiReset" "sgr ansiBold"
  unfolding sgr_def ansiReset_def ansiBold_def
  by (rule exI [of _ "''0''"], rule exI [of _ "CHR ''m''"], simp add: is_param_def is_letter_def)
    (rule exI [of _ "''1''"], rule exI [of _ "CHR ''m''"], simp add: is_param_def is_letter_def)

lemma sgr_colors: "sgr cOrange" "sgr cBone" "sgr cDim" "sgr cRule" "sgr cRed" "sgr cTeal" "sgr cAmber"
  by (simp_all add: cOrange_def cBone_def cDim_def cRule_def cRed_def cTeal_def cAmber_def sgr_rgb)

text \<open>Colour does not change the width of plain text.\<close>

lemma strip_paint: "sgr color \<Longrightarrow> ESC \<notin> set s \<Longrightarrow> strip_ansi (paint u color s @ t) = s @ strip_ansi t"
  by (simp add: paint_def strip_sgr strip_ansi_plain sgr_reset)

lemma visibleLen_paint: "sgr color \<Longrightarrow> ESC \<notin> set s \<Longrightarrow> visibleLen (paint u color s) = RuneCount s"
  using strip_paint [of color s u "[]"] by (simp add: visibleLen_def)

end
