(* ===== verification/Cli_Console.thy ===== *)
theory Cli_Console
  imports Cli_Ui
begin

text \<open>
  Escape sequences on the console: \<open>enableVT\<close> of \<open>cmd/raftra-cli/term_other.go\<close> and
  \<open>cmd/raftra-cli/term_windows.go\<close>.  The two procedures of \<open>kernel32.dll\<close> are parameters: each
  gives what its call returns, 0 for a failure; a console of type \<open>'k\<close> is what they act on.
\<close>

unbundle bit_operations_syntax

definition enableVT_other :: "'f \<Rightarrow> bool" where
  "enableVT_other f \<longleftrightarrow> True"

definition enableVirtualTerminalProcessing :: "32 word" where
  "enableVirtualTerminalProcessing = 0x0004"

record ('f, 'k) kernel32 =
  GetConsoleMode :: "'f \<Rightarrow> 'k \<Rightarrow> nat \<times> 32 word"
  SetConsoleMode :: "'f \<Rightarrow> 32 word \<Rightarrow> 'k \<Rightarrow> nat \<times> 'k"

definition enableVT_windows :: "('f, 'k) kernel32 \<Rightarrow> 'f \<Rightarrow> 'k \<Rightarrow> bool \<times> 'k" where
  "enableVT_windows K h k =
     (case GetConsoleMode K h k of
        (r, mode) \<Rightarrow>
          if r = 0 then (False, k)
          else if mode AND enableVirtualTerminalProcessing \<noteq> 0 then (True, k)
          else case SetConsoleMode K h (mode OR enableVirtualTerminalProcessing) k of (r, k) \<Rightarrow> (r \<noteq> 0, k))"

section \<open>The documented console\<close>

text \<open>
  \<open>mode_of\<close> is the mode of each console handle, where it has one.  A successful
  \<open>SetConsoleMode\<close> sets the mode of that handle only; a call that fails changes nothing.
\<close>

definition console_ok :: "('f, 'k) kernel32 \<Rightarrow> ('k \<Rightarrow> 'f \<Rightarrow> 32 word option) \<Rightarrow> bool" where
  "console_ok K mode_of \<longleftrightarrow>
     (\<forall>h k r m. GetConsoleMode K h k = (r, m) \<longrightarrow> (if r = 0 then mode_of k h = None else mode_of k h = Some m)) \<and>
     (\<forall>h m k r k'. SetConsoleMode K h m k = (r, k') \<longrightarrow> mode_of k' = (if r = 0 then mode_of k else (mode_of k)(h \<mapsto> m)))"

lemma vt_exp: "enableVirtualTerminalProcessing = 2 ^ 2"
  by (simp add: enableVirtualTerminalProcessing_def)

lemma vt_bit [simp]: "bit enableVirtualTerminalProcessing n \<longleftrightarrow> n = 2"
  unfolding vt_exp bit_exp_iff by auto

lemma vt_and: "m AND enableVirtualTerminalProcessing \<noteq> 0 \<longleftrightarrow> bit m 2"
  unfolding vt_exp and_exp_eq_0_iff_not_bit by simp

lemma vt_or: "(m OR enableVirtualTerminalProcessing) AND enableVirtualTerminalProcessing \<noteq> 0"
  unfolding vt_and by (simp add: bit_or_iff)

lemma vt_set:
  assumes "m AND enableVirtualTerminalProcessing \<noteq> 0"
  shows "m OR enableVirtualTerminalProcessing = m"
  by (rule bit_eqI) (use assms [unfolded vt_and] in \<open>auto simp: bit_or_iff\<close>)

text \<open>
  When \<open>enableVT\<close> reports success the mode has the bit, every other bit is as before, and the
  other handles are not touched; when it reports failure nothing has changed.
\<close>

lemma enableVT_sets:
  assumes K: "console_ok K mode_of" and e: "enableVT_windows K h k = (ok, k')"
  shows "if ok then \<exists>m. mode_of k h = Some m \<and> mode_of k' = (mode_of k)(h \<mapsto> m OR enableVirtualTerminalProcessing)
    else mode_of k' = mode_of k"
proof -
  obtain r m where g: "GetConsoleMode K h k = (r, m)" by fastforce
  have gm: "if r = 0 then mode_of k h = None else mode_of k h = Some m" using K g unfolding console_ok_def by blast
  consider "r = 0" | "r \<noteq> 0" "m AND enableVirtualTerminalProcessing \<noteq> 0" | "r \<noteq> 0" "m AND enableVirtualTerminalProcessing = 0" by blast
  then show ?thesis
  proof cases
    case 2
    with e gm vt_set [OF 2(2)] show ?thesis by (auto simp: enableVT_windows_def g)
  next
    case 3
    obtain r' k1 where s: "SetConsoleMode K h (m OR enableVirtualTerminalProcessing) k = (r', k1)" by fastforce
    have "mode_of k1 = (if r' = 0 then mode_of k else (mode_of k)(h \<mapsto> m OR enableVirtualTerminalProcessing))"
      using K s unfolding console_ok_def by blast
    with 3 e gm show ?thesis by (auto simp: enableVT_windows_def g s split: if_splits)
  qed (use e in \<open>simp add: enableVT_windows_def g\<close>)
qed

text \<open>A second call changes nothing.\<close>

lemma enableVT_again:
  assumes K: "console_ok K mode_of" and e: "enableVT_windows K h k = (True, k')"
  shows "enableVT_windows K h k' = (True, k')"
proof -
  from enableVT_sets [OF K e] obtain m where m: "mode_of k' h = Some (m OR enableVirtualTerminalProcessing)" by auto
  obtain r m' where g: "GetConsoleMode K h k' = (r, m')" by fastforce
  then have "if r = 0 then mode_of k' h = None else mode_of k' h = Some m'" using K unfolding console_ok_def by blast
  with m have "r \<noteq> 0" "m' = m OR enableVirtualTerminalProcessing" by (auto split: if_splits)
  then show ?thesis using vt_or by (simp add: enableVT_windows_def g)
qed

section \<open>The terminal of the client\<close>

text \<open>
  \<open>setupTerminal\<close> with the \<open>enableVT\<close> of each platform: on Windows it asks the console only when
  the output is a terminal.
\<close>

definition setupTerminal_other :: "string \<Rightarrow> 'f \<Rightarrow> bool option \<Rightarrow> bool option \<Rightarrow> string \<Rightarrow> string \<Rightarrow> ui" where
  "setupTerminal_other GOOS out stdinStat stdoutStat envTerm envNoColor =
     setupTerminal GOOS stdinStat stdoutStat envTerm envNoColor (enableVT_other out)"

definition setupTerminal_windows ::
    "('f, 'k) kernel32 \<Rightarrow> 'f \<Rightarrow> bool option \<Rightarrow> bool option \<Rightarrow> string \<Rightarrow> string \<Rightarrow> 'k \<Rightarrow> ui \<times> 'k" where
  "setupTerminal_windows K out stdinStat stdoutStat envTerm envNoColor k =
     (if isTerminal stdoutStat \<and> envTerm \<noteq> ''dumb'' then
        (case enableVT_windows K out k of
           (ok, k) \<Rightarrow> (setupTerminal ''windows'' stdinStat stdoutStat envTerm envNoColor ok, k))
      else (setupTerminal ''windows'' stdinStat stdoutStat envTerm envNoColor False, k))"

text \<open>Colours are written only to a console that takes escape sequences.\<close>

theorem colours_need_vt:
  assumes K: "console_ok K mode_of" and t: "setupTerminal_windows K out si so term nc k = (u, k')" and c: "useColor u"
  shows "\<exists>m. mode_of k' out = Some m \<and> m AND enableVirtualTerminalProcessing \<noteq> 0 \<and> stdoutTTY u"
proof -
  from t c obtain ok where e: "enableVT_windows K out k = (ok, k')"
    and u: "u = setupTerminal ''windows'' si so term nc ok"
    by (auto simp: setupTerminal_windows_def setupTerminal_def Let_def split: if_splits prod.splits)
  have ok: ok "stdoutTTY u" using u c by (auto simp: setupTerminal_def Let_def)
  with enableVT_sets [OF K e] obtain m where "mode_of k' out = Some (m OR enableVirtualTerminalProcessing)" by auto
  with vt_or ok(2) show ?thesis by blast
qed

text \<open>Consoles as a map from handles to modes, on which every set of a mode succeeds.\<close>

definition plain_kernel :: "('f, 'f \<Rightarrow> 32 word option) kernel32" where
  "plain_kernel = \<lparr>GetConsoleMode = (\<lambda>h k. case k h of None \<Rightarrow> (0, 0) | Some m \<Rightarrow> (1, m)),
     SetConsoleMode = (\<lambda>h m k. if k h = None then (0, k) else (1, k(h \<mapsto> m)))\<rparr>"

lemma plain_console: "console_ok plain_kernel (\<lambda>k. k)"
  by (auto simp: console_ok_def plain_kernel_def split: option.splits if_splits)

theorem colours_need_vt_witness:
  "\<exists>u k' m. setupTerminal_windows plain_kernel (1 :: nat) (Some True) (Some True) ''xterm'' '''' [1 \<mapsto> 3] = (u, k') \<and>
     useColor u \<and> k' 1 = Some m \<and> m AND enableVirtualTerminalProcessing \<noteq> 0"
proof -
  obtain u k' where s: "setupTerminal_windows plain_kernel (1 :: nat) (Some True) (Some True) ''xterm'' '''' [1 \<mapsto> 3] = (u, k')"
    by fastforce
  have "(3 :: 32 word) AND enableVirtualTerminalProcessing = 0" by (simp add: enableVirtualTerminalProcessing_def)
  then have "useColor u" using s
    by (auto simp: setupTerminal_windows_def setupTerminal_def Let_def isTerminal_def enableVT_windows_def plain_kernel_def)
  from colours_need_vt [OF plain_console s this] s this show ?thesis by blast
qed

end
