(* ===== verification/Cli_Client.thy ===== *)
theory Cli_Client
  imports Go_Strings Http Cli_Ui "HOL-Library.List_Lexorder" "HOL-Library.Char_ord"
begin

text \<open>
  The command line client, \<open>cmd/raftra-cli/client.go\<close> and \<open>cmd/raftra-cli/main.go\<close>: node
  addresses, requests with redirects and retries, and the commands.  The network and the clock
  are a world that every request and every pause changes; parsing of URLs and JSON is the
  standard library's.  Output is the list of printed blocks.
\<close>

section \<open>Addresses\<close>

record url =
  u_Scheme :: string
  u_Host :: string
  u_Rest :: string

record url_lib =
  url_Parse :: "string \<Rightarrow> go_error + url"
  url_String :: "url \<Rightarrow> string"
  url_PathEscape :: "string \<Rightarrow> string"

text \<open>\<open>%q\<close> on valid UTF-8: quotes, backslashes and ASCII control characters are escaped.\<close>

definition hex_digit :: "nat \<Rightarrow> char" where
  "hex_digit n = char_of (if n < 10 then 48 + n else 87 + n)"

definition quote_char :: "char \<Rightarrow> string" where
  "quote_char c =
     (let n = (of_char c :: nat) in
      if c = CHR 0x22 \<or> c = CHR 0x5C then [CHR 0x5C, c]
      else case map_of (zip [7, 8, 12, 10, 13, 9, 11] ''abfnrtv'') n of
        Some x \<Rightarrow> [CHR 0x5C, x]
      | None \<Rightarrow> if n < 32 \<or> n = 127 then [CHR 0x5C, CHR ''x'', hex_digit (n div 16), hex_digit (n mod 16)] else [c])"

definition quote :: "string \<Rightarrow> string" where
  "quote s = [CHR 0x22] @ concat (map quote_char s) @ [CHR 0x22]"

record node_set =
  cl_nodes :: "url list"
  cl_retryDelay :: int
  cl_budget :: int

definition with_scheme :: "string \<Rightarrow> string" where
  "with_scheme raw = (if \<not> HasPrefix raw ''http://'' \<and> \<not> HasPrefix raw ''https://'' then ''http://'' @ raw else raw)"

fun parse_addr_list :: "url_lib \<Rightarrow> string list \<Rightarrow> go_error + url list" where
  "parse_addr_list U [] = Inr []"
| "parse_addr_list U (raw # rest) =
     (let raw = TrimSpace raw in
      if raw = '''' then parse_addr_list U rest
      else let raw = with_scheme raw in
        case url_Parse U (TrimRight (CHR ''/'') raw) of
          Inl _ \<Rightarrow> Inl (Err (''invalid node address '' @ quote raw))
        | Inr u \<Rightarrow>
            if u_Host u = '''' then Inl (Err (''invalid node address '' @ quote raw))
            else (case parse_addr_list U rest of Inl err \<Rightarrow> Inl err | Inr us \<Rightarrow> Inr (u # us)))"

definition parseAddrs :: "url_lib \<Rightarrow> string \<Rightarrow> go_error + url list" where
  "parseAddrs U list =
     (case parse_addr_list U (Split (CHR '','') list) of
        Inl err \<Rightarrow> Inl err
      | Inr nodes \<Rightarrow> if length nodes = 0 then Inl (Err ''no node address given'') else Inr nodes)"

definition newCluster :: "url_lib \<Rightarrow> string \<Rightarrow> go_error + node_set" where
  "newCluster U addrList =
     (case parseAddrs U addrList of
        Inl err \<Rightarrow> Inl err
      | Inr nodes \<Rightarrow> Inr \<lparr>cl_nodes = nodes, cl_retryDelay = 300000000, cl_budget = 3000000000\<rparr>)"

definition cluster_String :: "url_lib \<Rightarrow> node_set \<Rightarrow> string" where
  "cluster_String U c = Join '', '' (map (url_String U) (cl_nodes c))"

definition retryable :: "nat \<Rightarrow> bool" where
  "retryable status \<longleftrightarrow> status = StatusBadGateway \<or> status = StatusServiceUnavailable \<or> status = StatusGatewayTimeout"

section \<open>One request, with redirects\<close>

text \<open>
  A response: its status, its \<open>Location\<close>, the host it came from, and what reading its body
  yields.  \<open>net_Do\<close> also stands for the failure to build the request.
\<close>

record cli_response =
  cr_Status :: nat
  cr_Location :: string
  cr_Host :: string
  cr_Body :: "go_error + bytes"

record 'w network =
  net_NewRequest :: "string \<Rightarrow> string \<Rightarrow> go_error option"
  net_Do :: "string \<Rightarrow> string \<Rightarrow> bytes option \<Rightarrow> 'w \<Rightarrow> (go_error + cli_response) \<times> 'w"
  net_Now :: "'w \<Rightarrow> int"
  net_Sleep :: "int \<Rightarrow> 'w \<Rightarrow> 'w"

text \<open>\<open>Hostname\<close>: the host without a valid port and without the brackets of an IPv6 address.\<close>

definition without_port :: "string \<Rightarrow> string" where
  "without_port h =
     (let r = rev h; port = takeWhile (\<lambda>c. c \<noteq> CHR '':'') r; rest = dropWhile (\<lambda>c. c \<noteq> CHR '':'') r
      in if rest \<noteq> [] \<and> list_all (\<lambda>c. 48 \<le> (of_char c :: nat) \<and> (of_char c :: nat) \<le> 57) port
         then rev (tl rest) else h)"

definition Hostname :: "url \<Rightarrow> string" where
  "Hostname u =
     (let h = without_port (u_Host u) in
      if HasPrefix h ''['' \<and> last h = CHR '']'' then butlast (tl h) else h)"

definition translateRedirectURL :: "url \<Rightarrow> url \<Rightarrow> url" where
  "translateRedirectURL targetURL initialURL =
     (let host = Hostname initialURL in
      if host = ''localhost'' \<or> host = ''127.0.0.1'' then
        (if Hostname targetURL = ''node1'' then targetURL\<lparr>u_Host := host @ '':8001''\<rparr>
         else if Hostname targetURL = ''node2'' then targetURL\<lparr>u_Host := host @ '':8002''\<rparr>
         else if Hostname targetURL = ''node3'' then targetURL\<lparr>u_Host := host @ '':8003''\<rparr>
         else targetURL)
      else targetURL)"

definition maxRedirects :: nat where "maxRedirects = 5"

definition prefix_error :: "string \<Rightarrow> go_error \<Rightarrow> go_error" where
  "prefix_error s e = (case e of Err m \<Rightarrow> Err (s @ m))"

text \<open>
  The loop of \<open>executeRequest\<close>; the list collects the hosts of the redirects, which the code
  keeps in a global variable.
\<close>

function request_loop ::
    "url_lib \<Rightarrow> 'w network \<Rightarrow> string \<Rightarrow> string \<Rightarrow> bytes option \<Rightarrow> url \<Rightarrow> nat \<Rightarrow> string list \<Rightarrow> 'w \<Rightarrow>
     (go_error + cli_response \<times> bytes) \<times> string list \<times> 'w" where
  "request_loop U N m currentURL body initialURL redirectCount redirects w =
     (case net_NewRequest N m currentURL of
        Some err \<Rightarrow> (Inl (prefix_error ''failed to create request: '' err), redirects, w)
      | None \<Rightarrow>
     (case net_Do N m currentURL body w of
        (Inl err, w) \<Rightarrow> (Inl (prefix_error ''request failed: '' err), redirects, w)
      | (Inr resp, w) \<Rightarrow>
          if cr_Status resp = StatusTemporaryRedirect \<or> cr_Status resp = StatusPermanentRedirect then
            (if maxRedirects < Suc redirectCount
             then (Inl (Err (''exceeded maximum redirect limit ('' @ decimal maxRedirects @ '')'')), redirects, w)
             else if cr_Location resp = ''''
             then (Inl (Err ''redirect received with missing Location header''), redirects, w)
             else case url_Parse U (cr_Location resp) of
               Inl err \<Rightarrow>
                 (Inl (prefix_error (''invalid redirect location '' @ quote (cr_Location resp) @ '': '') err), redirects, w)
             | Inr locURL \<Rightarrow>
                 let locURL = translateRedirectURL locURL initialURL
                 in request_loop U N m (url_String U locURL) body initialURL (Suc redirectCount)
                      (redirects @ [u_Host locURL]) w)
          else (case cr_Body resp of
                  Inl err \<Rightarrow> (Inl (prefix_error ''failed to read response body: '' err), redirects, w)
                | Inr respBody \<Rightarrow> (Inr (resp, respBody), redirects, w))))"
  by pat_completeness auto
termination
  by (relation "measure (\<lambda>(U, N, m, currentURL, body, initialURL, redirectCount, redirects, w). maxRedirects - redirectCount)") auto

declare request_loop.simps [simp del]

definition executeRequest ::
    "url_lib \<Rightarrow> 'w network \<Rightarrow> string \<Rightarrow> string \<Rightarrow> bytes option \<Rightarrow> url \<Rightarrow> string list \<Rightarrow> 'w \<Rightarrow>
     (go_error + cli_response \<times> bytes) \<times> string list \<times> 'w" where
  "executeRequest U N m targetURL body initialURL redirects w =
     request_loop U N m targetURL body initialURL 0 redirects w"

section \<open>Trying every node\<close>

text \<open>
  One pass over the nodes: a final answer, or the last response and the last error so far.
\<close>

fun try_nodes ::
    "url_lib \<Rightarrow> 'w network \<Rightarrow> string \<Rightarrow> string \<Rightarrow> bytes option \<Rightarrow> url list \<Rightarrow>
     (cli_response \<times> bytes) option \<times> go_error option \<Rightarrow> string list \<Rightarrow> 'w \<Rightarrow>
     (cli_response \<times> bytes) option \<times> ((cli_response \<times> bytes) option \<times> go_error option) \<times> string list \<times> 'w" where
  "try_nodes U N m path body [] lst redirects w = (None, lst, redirects, w)"
| "try_nodes U N m path body (node # rest) (lastResp, lastErr) redirects w =
     (case executeRequest U N m (url_String U node @ path) body node redirects w of
        (Inl err, redirects, w) \<Rightarrow> try_nodes U N m path body rest (lastResp, Some err) redirects w
      | (Inr r, redirects, w) \<Rightarrow>
          if \<not> retryable (cr_Status (fst r)) then (Some r, (lastResp, lastErr), redirects, w)
          else try_nodes U N m path body rest (Some r, lastErr) redirects w)"

text \<open>The loop of \<open>do\<close>, which started at \<open>start\<close>; it may run for ever if the clock stands still.\<close>

partial_function (option) do_loop ::
    "url_lib \<Rightarrow> 'w network \<Rightarrow> node_set \<Rightarrow> string \<Rightarrow> string \<Rightarrow> bytes option \<Rightarrow> int \<Rightarrow>
     (cli_response \<times> bytes) option \<times> go_error option \<Rightarrow> string list \<Rightarrow> 'w \<Rightarrow>
     ((go_error + cli_response \<times> bytes) \<times> string list \<times> 'w) option" where
  "do_loop U N c m path body start lst redirects w =
     (case try_nodes U N m path body (cl_nodes c) lst redirects w of
        (Some r, _, redirects, w) \<Rightarrow> Some (Inr r, redirects, w)
      | (None, lst, redirects, w) \<Rightarrow>
          if cl_budget c < net_Now N w - start + cl_retryDelay c then
            Some (case lst of
                (Some r, _) \<Rightarrow> Inr r
              | (None, e) \<Rightarrow> Inl (Err (''no Raftra node reachable ('' @ cluster_String U c @
                  ''); the cluster may be restarting, try again shortly: '' @
                  (case e of Some err \<Rightarrow> error_text err | None \<Rightarrow> ''%!w(<nil>)''))),
              redirects, w)
          else do_loop U N c m path body start lst redirects (net_Sleep N (cl_retryDelay c) w))"

definition cluster_do ::
    "url_lib \<Rightarrow> 'w network \<Rightarrow> node_set \<Rightarrow> string \<Rightarrow> string \<Rightarrow> bytes option \<Rightarrow> 'w \<Rightarrow>
     ((go_error + cli_response \<times> bytes) \<times> string list \<times> 'w) option" where
  "cluster_do U N c m path body w = do_loop U N c m path body (net_Now N w) (None, None) [] w"

section \<open>Responses\<close>

record kv_response =
  kr_Success :: bool
  kr_Key :: string
  kr_Value :: string
  kr_Deleted :: string
  kr_Error :: string

record status_response =
  st_Role :: string
  st_Term :: u64
  st_IsLeader :: bool
  st_LeaderID :: string
  st_CommitIndex :: u64
  st_LastApplied :: u64

record json_lib =
  unmarshal_kv :: "bytes \<Rightarrow> kv_response option"
  decode_status :: "bytes \<Rightarrow> status_response option"

definition describeError :: "json_lib \<Rightarrow> nat \<Rightarrow> bytes \<Rightarrow> string" where
  "describeError J status body =
     (let msg = TrimSpace (bytes_to_string body);
          msg = (case unmarshal_kv J body of
                   Some parsed \<Rightarrow> if kr_Error parsed \<noteq> '''' then kr_Error parsed else msg
                 | None \<Rightarrow> msg)
      in if status = StatusRequestEntityTooLarge then
           (if msg = '''' then ''Too large: the request is bigger than the playground allows.''
            else ''Too large: '' @ msg @ ''.'')
         else if status = StatusTooManyRequests then
           ''Slow down: too many writes from your address. Try again in a second.''
         else if status = StatusInsufficientStorage then
           ''The playground is full ('' @ msg @ ''). It resets at the top of every hour.''
         else if status = StatusBadGateway \<or> status = StatusGatewayTimeout then
           ''No Raftra node is answering right now. The playground may be restarting (the leader is killed every 10 minutes and data resets at the top of every hour). Try again shortly.''
         else if status = StatusServiceUnavailable then
           ''No elected leader right now. Try again in a moment.''
         else ''HTTP '' @ decimal status @ '': '' @ msg)"

section \<open>Status\<close>

text \<open>One node's answer to \<open>GET /status\<close>.\<close>

record node_status =
  ns_host :: string
  ns_st :: "status_response option"

text \<open>
  The goroutines of \<open>fetchStatuses\<close>: every node is asked once, in an order that does not
  matter to the list of answers; \<open>get\<close> is the client's request to one URL.
\<close>

definition fetchStatuses ::
    "url_lib \<Rightarrow> json_lib \<Rightarrow> (string \<Rightarrow> go_error + cli_response) \<Rightarrow> node_set \<Rightarrow> node_status list" where
  "fetchStatuses U J get c =
     map (\<lambda>u. \<lparr>ns_host = u_Host u,
        ns_st = (case get (url_String U u @ ''/status'') of
            Inl _ \<Rightarrow> None
          | Inr resp \<Rightarrow>
              if cr_Status resp = StatusOK
              then (case cr_Body resp of Inl _ \<Rightarrow> None | Inr b \<Rightarrow> decode_status J b) else None)\<rparr>) (cl_nodes c)"

fun leader_from :: "node_status option \<Rightarrow> node_status list \<Rightarrow> node_status option" where
  "leader_from best [] = best"
| "leader_from best (n # ns) =
     (case ns_st n of
        None \<Rightarrow> leader_from best ns
      | Some st \<Rightarrow>
          if st_IsLeader st \<and>
            (case best of None \<Rightarrow> True | Some b \<Rightarrow> (case ns_st b of None \<Rightarrow> True | Some bst \<Rightarrow> st_Term bst < st_Term st))
          then leader_from (Some n) ns else leader_from best ns)"

definition leaderOf :: "node_status list \<Rightarrow> node_status option" where
  "leaderOf ns = leader_from None ns"

definition answered :: "node_status list \<Rightarrow> nat" where
  "answered ns = length (filter (\<lambda>s. ns_st s \<noteq> None) ns)"

text \<open>\<open>%-4d\<close>\<close>

definition pad4 :: "string \<Rightarrow> string" where
  "pad4 s = s @ replicate (4 - length s) (CHR '' '')"

definition statusLines :: "ui \<Rightarrow> node_status list \<Rightarrow> string list" where
  "statusLines u nodes =
     (let sorted = sort_key ns_host nodes;
          width = foldl (\<lambda>w n. max w (length (ns_host n))) 0 sorted;
          leader = leaderOf nodes
      in map (\<lambda>n.
           let host = padRight (ns_host n) (width + 2) in
           case ns_st n of
             None \<Rightarrow> dim u host @ paint u cRed ''no answer''
           | Some st \<Rightarrow>
               let role = ToLower (st_Role st);
                   role = (if leader \<noteq> None \<and> ns_host n = ns_host (the leader) then orange u (padRight ''leader'' 11)
                           else if role = ''candidate'' then paint u cAmber (padRight role 11)
                           else bone u (padRight ''follower'' 11))
               in host @ role @ dim u (''term '' @ pad4 (decimal (unat (st_Term st))) @ '' commit '' @ decimal (unat (st_CommitIndex st))))
         sorted)"

section \<open>Commands\<close>

text \<open>
  Every command answers whether it succeeded and what it printed: text as it is, a block of a
  bullet, a summary and details on standard output, or such a block in red on standard error.
\<close>

datatype printed = Plain string | Printed string string "string list" | Failed string "string list"

fun printed_text :: "ui \<Rightarrow> printed \<Rightarrow> string" where
  "printed_text u (Plain s) = s"
| "printed_text u (Printed color summary details) = ui_result u color summary details"
| "printed_text u (Failed summary details) = ui_result u cRed summary details"

type_synonym outcome = "bool \<times> printed list"

definition cli_handleStatus :: "ui \<Rightarrow> node_status list \<Rightarrow> outcome" where
  "cli_handleStatus u nodes =
     (let ls = statusLines u nodes in
      case leaderOf nodes of
        Some l \<Rightarrow>
          (case ns_st l of
             None \<Rightarrow> (True, [])
           | Some st \<Rightarrow> (True, [Printed cOrange (bold u (st_LeaderID st) @ '' leads term '' @ decimal (unat (st_Term st))) ls]))
      | None \<Rightarrow>
          if 0 < answered nodes then (True, [Printed cAmber ''No leader right now, an election is running'' ls])
          else (False, [Failed ''No node answered'' (ls @ [dim u ''The playground may be restarting. Try again shortly.''])]))"

definition redirectNote :: "ui \<Rightarrow> string list \<Rightarrow> string list" where
  "redirectNote u redirects =
     (if length redirects = 0 then [] else [dim u (''Followed the leader to '' @ last redirects @ ''.'')])"

definition cli_handleGet :: "ui \<Rightarrow> json_lib \<Rightarrow> string \<Rightarrow> go_error + cli_response \<times> bytes \<Rightarrow> outcome" where
  "cli_handleGet u J key res =
     (case res of
        Inl err \<Rightarrow> (False, [Failed ''Read failed'' [error_text err]])
      | Inr (resp, body) \<Rightarrow>
          if cr_Status resp = StatusNotFound then (True, [Printed cAmber (bold u key @ '' isn'' @ [CHR 0x27] @ ''t set'') []])
          else if cr_Status resp \<noteq> StatusOK then (False, [Failed ''Read failed'' [describeError J (cr_Status resp) body]])
          else let value = (case unmarshal_kv J body of Some kv \<Rightarrow> kr_Value kv | None \<Rightarrow> bytes_to_string body)
               in (True, [Printed cTeal (bold u key @ '' = '' @ value)
                    [dim u (''Read from '' @ cr_Host resp @ ''. Reads on a follower can briefly lag the leader.'')]]))"

definition cli_handleSet :: "ui \<Rightarrow> json_lib \<Rightarrow> string \<Rightarrow> string \<Rightarrow> string list \<Rightarrow> go_error + cli_response \<times> bytes \<Rightarrow> outcome" where
  "cli_handleSet u J key value redirects res =
     (case res of
        Inl err \<Rightarrow> (False, [Failed ''Write failed'' [error_text err]])
      | Inr (resp, body) \<Rightarrow>
          if cr_Status resp \<noteq> StatusOK \<and> cr_Status resp \<noteq> StatusCreated
          then (False, [Failed ''Write failed'' [describeError J (cr_Status resp) body]])
          else (True, [Printed cTeal (bold u key @ '' = '' @ value)
                 (dim u ''Committed: a majority of nodes stored it.'' # redirectNote u redirects)]))"

definition cli_handleDelete :: "ui \<Rightarrow> json_lib \<Rightarrow> string \<Rightarrow> string list \<Rightarrow> go_error + cli_response \<times> bytes \<Rightarrow> outcome" where
  "cli_handleDelete u J key redirects res =
     (case res of
        Inl err \<Rightarrow> (False, [Failed ''Delete failed'' [error_text err]])
      | Inr (resp, body) \<Rightarrow>
          if cr_Status resp \<noteq> StatusOK
          then (False, [Failed ''Delete failed'' [describeError J (cr_Status resp) body]])
          else (True, [Printed cTeal (''Deleted '' @ bold u key)
                 (dim u ''Committed: a majority of nodes stored the delete.'' # redirectNote u redirects)]))"

text \<open>
  \<open>runCommand\<close> on a non-empty argument list.  A command that needs the network runs it, and
  \<open>get\<close> is what the nodes answer to \<open>GET /status\<close> in a world; the result is \<^const>\<open>None\<close> only if its request loop does not end.
\<close>

definition runCommand ::
    "url_lib \<Rightarrow> json_lib \<Rightarrow> 'w network \<Rightarrow> ('w \<Rightarrow> string \<Rightarrow> go_error + cli_response) \<Rightarrow> ui \<Rightarrow> node_set \<Rightarrow> string list \<Rightarrow> 'w \<Rightarrow>
     (outcome \<times> 'w) option" where
  "runCommand U J N get u c args w =
     (let command = ToLower (args ! 0);
          path = (\<lambda>k. ''/api/v1/kv/'' @ url_PathEscape U k)
      in if command = ''status'' then Some (cli_handleStatus u (fetchStatuses U J (get w) c), w)
         else if command = ''get'' then
           (if length args < 2 then Some ((False, [Failed ''get needs a key'' [dim u ''Usage: get <key>'']]), w)
            else map_option (\<lambda>(res, redirects, w). (cli_handleGet u J (args ! 1) res, w))
                   (cluster_do U N c ''GET'' (path (args ! 1)) None w))
         else if command = ''set'' then
           (if length args < 3 then Some ((False, [Failed ''set needs a key and a value'' [dim u ''Usage: set <key> <value>'']]), w)
            else let value = Join '' '' (drop 2 args) in
              map_option (\<lambda>(res, redirects, w). (cli_handleSet u J (args ! 1) value redirects res, w))
                (cluster_do U N c ''PUT'' (path (args ! 1)) (Some (string_to_bytes value)) w))
         else if command = ''delete'' \<or> command = ''del'' then
           (if length args < 2 then Some ((False, [Failed ''delete needs a key'' [dim u ''Usage: delete <key>'']]), w)
            else map_option (\<lambda>(res, redirects, w). (cli_handleDelete u J (args ! 1) redirects res, w))
                   (cluster_do U N c ''DELETE'' (path (args ! 1)) None w))
         else Some ((False, [Failed (''Unknown command '' @ quote command)
                [dim u ''Commands: status, set, get, delete. Try help.'']]), w))"

section \<open>The shell\<close>

text \<open>Piped input: every line is a command, up to \<open>exit\<close> or \<open>quit\<close>.\<close>

fun run_script ::
    "url_lib \<Rightarrow> json_lib \<Rightarrow> 'w network \<Rightarrow> ('w \<Rightarrow> string \<Rightarrow> go_error + cli_response) \<Rightarrow> ui \<Rightarrow> node_set \<Rightarrow> string list \<Rightarrow> 'w \<Rightarrow>
     (outcome list \<times> 'w) option" where
  "run_script U J N get u c [] w = Some ([], w)"
| "run_script U J N get u c (line # ls) w =
     (let args = Fields line in
      if args = [] then run_script U J N get u c ls w
      else if ToLower (args ! 0) = ''exit'' \<or> ToLower (args ! 0) = ''quit'' then Some ([], w)
      else (case runCommand U J N get u c args w of
              None \<Rightarrow> None
            | Some (r, w) \<Rightarrow>
                (case run_script U J N get u c ls w of None \<Rightarrow> None | Some (rs, w) \<Rightarrow> Some (r # rs, w))))"

section \<open>Lemmas\<close>

text \<open>A response that is returned is final: it is neither a redirect nor a reason to retry.\<close>

lemma request_loop_final:
  "request_loop U N m cur body init k reds w = (Inr (resp, b), reds', w') \<Longrightarrow>
   cr_Status resp \<noteq> StatusTemporaryRedirect \<and> cr_Status resp \<noteq> StatusPermanentRedirect \<and> cr_Body resp = Inr b"
proof (induction U N m cur body init k reds w rule: request_loop.induct)
  case (1 U N m cur body init k reds w)
  show ?case
    using 1(2) 1(1)
    by (subst (asm) request_loop.simps) (auto simp: Let_def split: option.splits sum.splits prod.splits if_splits)
qed

text \<open>At most five redirects are followed.\<close>

lemma request_loop_redirects:
  "request_loop U N m cur body init k reds w = (res, reds', w') \<Longrightarrow> k \<le> maxRedirects \<Longrightarrow>
   length reds \<le> length reds' \<and> length reds' \<le> length reds + (maxRedirects - k)"
proof (induction U N m cur body init k reds w rule: request_loop.induct)
  case (1 U N m cur body init k reds w)
  show ?case
    using 1(2,3) 1(1)
    by (subst (asm) request_loop.simps)
      (fastforce simp: Let_def split: option.splits sum.splits prod.splits if_splits)
qed

lemma try_nodes_final:
  "try_nodes U N m path body ns lst reds w = (Some r, lst', reds', w') \<Longrightarrow> \<not> retryable (cr_Status (fst r))"
  by (induction U N m path body ns lst reds w rule: try_nodes.induct)
    (auto split: prod.splits sum.splits if_splits)

lemma leader_from_props:
  "leader_from best ns = Some l \<Longrightarrow>
   (\<forall>b. best = Some b \<longrightarrow> (\<exists>st. ns_st b = Some st \<and> st_IsLeader st)) \<Longrightarrow>
   (best = Some l \<or> l \<in> set ns) \<and>
   (\<exists>st. ns_st l = Some st \<and> st_IsLeader st \<and>
     (\<forall>n \<in> set ns. \<forall>st'. ns_st n = Some st' \<and> st_IsLeader st' \<longrightarrow> st_Term st' \<le> st_Term st) \<and>
     (\<forall>b st'. best = Some b \<and> ns_st b = Some st' \<longrightarrow> st_Term st' \<le> st_Term st))"
proof (induction ns arbitrary: best)
  case (Cons n ns)
  show ?case
  proof (cases "ns_st n")
    case None
    with Cons.prems Cons.IH [of best] show ?thesis by auto
  next
    case (Some st)
    show ?thesis
    proof (cases "st_IsLeader st \<and> (case best of None \<Rightarrow> True | Some b \<Rightarrow> (case ns_st b of None \<Rightarrow> True | Some bst \<Rightarrow> st_Term bst < st_Term st))")
      case True
      then have "leader_from (Some n) ns = Some l" using Cons.prems(1) Some by simp
      from Cons.IH [OF this] Some True show ?thesis
        by (auto split: option.splits)
    next
      case False
      then have "leader_from best ns = Some l" using Cons.prems(1) Some by (simp split: if_splits)
      from Cons.IH [OF this Cons.prems(2)] Some False Cons.prems(2) show ?thesis
        by (auto split: option.splits)
    qed
  qed
qed auto

lemma leader_from_Some: "leader_from (Some b) ns \<noteq> None"
  by (induction ns arbitrary: b) (simp_all split: option.split)

lemma leader_from_None:
  "leader_from None ns = None \<Longrightarrow> n \<in> set ns \<Longrightarrow> ns_st n = Some st \<Longrightarrow> \<not> st_IsLeader st"
proof (induction ns)
  case (Cons x ns)
  have "ns_st x = Some st' \<Longrightarrow> \<not> st_IsLeader st' \<and> leader_from None ns = None" for st'
    using Cons.prems(1) leader_from_Some [of x ns] by (simp split: if_splits)
  moreover have "ns_st x = None \<Longrightarrow> leader_from None ns = None" using Cons.prems(1) by simp
  ultimately show ?case using Cons.IH Cons.prems(2,3) by (cases "ns_st x") auto
qed simp

text \<open>What the retry loop relies on: the clock does not go back, and a pause lasts.\<close>

definition clock_ok :: "'w network \<Rightarrow> bool" where
  "clock_ok N \<longleftrightarrow> (\<forall>m u b w. net_Now N w \<le> net_Now N (snd (net_Do N m u b w))) \<and>
     (\<forall>d w. net_Now N w + d \<le> net_Now N (net_Sleep N d w))"

lemma request_loop_clock:
  "request_loop U N m cur body init k reds w = (res, reds', w') \<Longrightarrow> clock_ok N \<Longrightarrow> net_Now N w \<le> net_Now N w'"
proof (induction U N m cur body init k reds w rule: request_loop.induct)
  case (1 U N m cur body init k reds w)
  obtain r w1 where d: "net_Do N m cur body w = (r, w1)" by (cases "net_Do N m cur body w")
  have le: "net_Now N w \<le> net_Now N w1" using 1(3) d unfolding clock_ok_def by (metis snd_conv)
  show ?case
    using 1(2,3) 1(1) d le
    by (subst (asm) request_loop.simps)
      (fastforce simp: Let_def split: option.splits sum.splits if_splits)
qed

lemma try_nodes_clock:
  "try_nodes U N m path body ns lst reds w = (r, lst', reds', w') \<Longrightarrow> clock_ok N \<Longrightarrow> net_Now N w \<le> net_Now N w'"
proof (induction U N m path body ns lst reds w rule: try_nodes.induct)
  case (2 U N m path body node rest lastResp lastErr reds w)
  obtain x reds1 w1 where e: "executeRequest U N m (url_String U node @ path) body node reds w = (x, reds1, w1)"
    by (cases "executeRequest U N m (url_String U node @ path) body node reds w") auto
  have le: "net_Now N w \<le> net_Now N w1" using request_loop_clock [OF e [unfolded executeRequest_def] 2(4)] .
  from 2 e le show ?case by (auto split: sum.splits if_splits) (blast intro: order_trans)+
qed simp

lemma do_loop_returns:
  assumes N: "clock_ok N" and d: "0 < cl_retryDelay c"
  shows "\<exists>res. do_loop U N c m path body start lst reds w = Some res"
proof (induction "nat (cl_budget c - (net_Now N w - start))" arbitrary: lst reds w rule: less_induct)
  case less
  obtain r lst' reds' w' where t: "try_nodes U N m path body (cl_nodes c) lst reds w = (r, lst', reds', w')"
    by (cases "try_nodes U N m path body (cl_nodes c) lst reds w") auto
  have le: "net_Now N w \<le> net_Now N w'" using try_nodes_clock [OF t N] .
  show ?case
  proof (cases "r = None \<and> \<not> cl_budget c < net_Now N w' - start + cl_retryDelay c")
    case True
    let ?w = "net_Sleep N (cl_retryDelay c) w'"
    have "net_Now N w' + cl_retryDelay c \<le> net_Now N ?w" using N by (simp add: clock_ok_def)
    then have "nat (cl_budget c - (net_Now N ?w - start)) < nat (cl_budget c - (net_Now N w - start))"
      using le d True by linarith
    from less [OF this] True t show ?thesis by (subst do_loop.simps) simp
  next
    case False
    with t show ?thesis by (subst do_loop.simps) (cases r; simp)
  qed
qed

end
