(* ===== verification/Cli_Spinner.thy ===== *)
theory Cli_Spinner
  imports Cli_Ui
begin

text \<open>
  The spinner of the command line client, \<open>cmd/raftra-cli/ui.go\<close>: a goroutine that animates a
  line while a request is in flight, and the two channels over which it is stopped.  A channel is
  whether it has been closed, the goroutine is at its \<open>Printf\<close>, at its \<open>select\<close>, or has returned.
\<close>

section \<open>The goroutine and its channels\<close>

datatype spin_at = Printing | Selecting | Returned

record spinner =
  sp_done :: bool
  sp_finished :: bool
  sp_at :: spin_at
  sp_i :: nat
  sp_out :: string

definition clearLine :: string where "clearLine = ESC # ''[2K''"

definition startSpinner :: "ui \<Rightarrow> spinner" where
  "startSpinner u =
     (if \<not> stdoutTTY u
      then \<lparr>sp_done = False, sp_finished = True, sp_at = Returned, sp_i = 0, sp_out = ''''\<rparr>
      else \<lparr>sp_done = False, sp_finished = False, sp_at = Printing, sp_i = 0, sp_out = ''''\<rparr>)"

definition spin_print :: "ui \<Rightarrow> string \<Rightarrow> spinner \<Rightarrow> spinner" where
  "spin_print u label s =
     s\<lparr>sp_out := sp_out s @ [CHR 0x0D] @ orange u (spinGlyphs u ! (sp_i s mod length (spinGlyphs u))) @ '' '' @ dim u label,
       sp_at := Selecting\<rparr>"

definition spin_tick :: "spinner \<Rightarrow> spinner" where
  "spin_tick s = s\<lparr>sp_i := Suc (sp_i s), sp_at := Printing\<rparr>"

definition spin_return :: "spinner \<Rightarrow> spinner" where
  "spin_return s = s\<lparr>sp_out := sp_out s @ [CHR 0x0D] @ clearLine, sp_at := Returned, sp_finished := True\<rparr>"

text \<open>Closing a closed channel panics.\<close>

definition close_channel :: "bool \<Rightarrow> bool option" where
  "close_channel closed = (if closed then None else Some True)"

text \<open>\<open>stop\<close> up to its wait; \<^const>\<open>None\<close> is the panic.\<close>

definition stop_close :: "spinner \<Rightarrow> spinner option" where
  "stop_close s =
     (if sp_done s then Some s
      else map_option (\<lambda>d. s\<lparr>sp_done := d\<rparr>) (close_channel (sp_done s)))"

text \<open>A step of the goroutine, or a call of \<open>stop\<close>; when both cases of the \<open>select\<close> are ready, either is taken.\<close>

inductive spin_step :: "ui \<Rightarrow> string \<Rightarrow> spinner \<Rightarrow> spinner \<Rightarrow> bool" for u label where
  frame: "sp_at s = Printing \<Longrightarrow> spin_step u label s (spin_print u label s)"
| tick: "sp_at s = Selecting \<Longrightarrow> spin_step u label s (spin_tick s)"
| finish: "sp_at s = Selecting \<Longrightarrow> sp_done s \<Longrightarrow> spin_step u label s (spin_return s)"
| stop: "stop_close s = Some s' \<Longrightarrow> spin_step u label s s'"

section \<open>Stopping\<close>

lemma stop_close_Some: "stop_close s = Some (s\<lparr>sp_done := True\<rparr>)"
  by (simp add: stop_close_def close_channel_def)

text \<open>The channel \<open>finished\<close> is closed exactly when the goroutine has returned, and then the line is clear.\<close>

definition spin_ok :: "ui \<Rightarrow> spinner \<Rightarrow> bool" where
  "spin_ok u s \<longleftrightarrow> (sp_finished s \<longleftrightarrow> sp_at s = Returned) \<and>
     (if stdoutTTY u then sp_finished s \<longrightarrow> sp_done s \<and> (\<exists>out. sp_out s = out @ [CHR 0x0D] @ clearLine)
      else sp_finished s \<and> sp_out s = '''')"

lemma spin_ok_step: "spin_step u label s s' \<Longrightarrow> spin_ok u s \<Longrightarrow> spin_ok u s'"
  by (induction rule: spin_step.induct)
    (auto simp: spin_ok_def spin_print_def spin_tick_def spin_return_def stop_close_Some split: if_splits)

lemma spin_reachable_ok: "(spin_step u label)\<^sup>*\<^sup>* (startSpinner u) s \<Longrightarrow> spin_ok u s"
proof (induction rule: rtranclp_induct)
  case base
  show ?case by (simp add: spin_ok_def startSpinner_def)
qed (rule spin_ok_step)

lemma spin_return_finished: "sp_finished (spin_return s)"
  by (simp add: spin_return_def)

text \<open>The wait of \<open>stop\<close> is never stuck: after it has closed \<open>done\<close>, the goroutine can return.\<close>

lemma spin_stops:
  assumes "(spin_step u label)\<^sup>*\<^sup>* (startSpinner u) s" and "stop_close s = Some s'"
  shows "\<exists>s''. (spin_step u label)\<^sup>*\<^sup>* s' s'' \<and> sp_finished s''"
proof -
  have s': "sp_done s'" "spin_ok u s'"
    using assms spin_ok_step [OF spin_step.stop [OF assms(2)] spin_reachable_ok [OF assms(1)]]
    by (auto simp: stop_close_Some)
  show ?thesis
  proof (cases "sp_at s'")
    case Printing
    have "spin_step u label s' (spin_print u label s')" using Printing by (rule spin_step.frame)
    moreover have "spin_step u label (spin_print u label s') (spin_return (spin_print u label s'))"
      using s'(1) by (intro spin_step.finish) (simp_all add: spin_print_def)
    ultimately have "(spin_step u label)\<^sup>*\<^sup>* s' (spin_return (spin_print u label s'))"
      by (meson converse_rtranclp_into_rtranclp r_into_rtranclp)
    with spin_return_finished show ?thesis by blast
  next
    case Selecting
    then have "spin_step u label s' (spin_return s')" using s'(1) by (rule spin_step.finish)
    with spin_return_finished show ?thesis by blast
  next
    case Returned
    with s'(2) show ?thesis by (auto simp: spin_ok_def)
  qed
qed

end
