(* ===== verification/Cli_Shell.thy ===== *)
theory Cli_Shell
  imports Cli_Client Cli_Spinner
begin

text \<open>
  The client's own screens and its shell, \<open>cmd/raftra-cli/main.go\<close> and
  \<open>cmd/raftra-cli/ui.go\<close>: the usage text, the banner, the welcome box, the input box, and the
  loop over what is typed, down to \<open>main\<close>.  Standard input is the text that will be read from
  it.  The pauses of the animated banner are left out, and what the spinner prints is not part of
  the output.
\<close>

section \<open>Help\<close>

definition cli_version :: string where "cli_version = ''0.1.0''"
definition defaultAddr :: string where "defaultAddr = ''http://localhost:8001''"

definition commandHelp :: "(string \<times> string) list" where
  "commandHelp =
     [(''status'', ''who leads, and each node'' @ [CHR 0x27] @ ''s role, term and commit index''),
      (''set <key> <value>'', ''store a value (the CLI finds the leader for you)''),
      (''get <key>'', ''read a value''),
      (''delete <key>'', ''remove a key'')]"

definition help_line :: "ui \<Rightarrow> string \<times> string \<Rightarrow> string" where
  "help_line u c = padRight (bone u (fst c)) 20 @ dim u (snd c) @ newline"

definition printCommandList :: "ui \<Rightarrow> string \<Rightarrow> string" where
  "printCommandList u indent = concat (map (\<lambda>c. indent @ help_line u c) commandHelp)"

section \<open>The banner\<close>

text \<open>The runes of the banner, written with ASCII characters of a similar shape.\<close>

definition banner_rune :: "char \<Rightarrow> nat" where
  "banner_rune c =
     (case map_of (zip ''#7rLJ=I'' [0x2588, 0x2557, 0x2554, 0x255A, 0x255D, 0x2550, 0x2551]) c of
        Some r \<Rightarrow> r | None \<Rightarrow> of_char c)"

definition banner :: "nat list list" where
  "banner = map (map banner_rune)
     [''######7   #####7  #######7 ########7 ######7   #####7 '',
      ''##r==##7 ##r==##7 ##r====J L==##r==J ##r==##7 ##r==##7'',
      ''######rJ #######I #####7      ##I    ######rJ #######I'',
      ''##r==##7 ##r==##I ##r==J      ##I    ##r==##7 ##r==##I'',
      ''##I  ##I ##I  ##I ##I         ##I    ##I  ##I ##I  ##I'',
      ''L=J  L=J L=J  L=J L=J         L=J    L=J  L=J L=J  L=J'']"

text \<open>One line: runs of solid blocks in one colour, runs of the other runes in another.\<close>

definition banner_flush :: "ui \<Rightarrow> bool \<Rightarrow> nat list \<Rightarrow> string" where
  "banner_flush u solid run =
     (if run = [] then '''' else if solid then bone u (concat (map utf8 run)) else ui_rule u (concat (map utf8 run)))"

fun banner_runs :: "ui \<Rightarrow> bool \<Rightarrow> nat list \<Rightarrow> nat list \<Rightarrow> string" where
  "banner_runs u solid run [] = banner_flush u solid run"
| "banner_runs u solid run (r # rs) =
     (let isSolid = (r = 0x2588) in
      if isSolid \<noteq> solid \<and> r \<noteq> 32 then banner_flush u solid run @ banner_runs u isSolid [r] rs
      else banner_runs u solid (run @ [r]) rs)"

definition bannerLine :: "ui \<Rightarrow> nat \<Rightarrow> string" where
  "bannerLine u i =
     (let bar = utf8 0x2588 @ utf8 0x2588; follower = (if 2 \<le> i then bar else ''  '') in
      ''  '' @ banner_runs u False [] (banner ! i) @
      (if i < length banner - 1
       then ''  '' @ orange u bar @ '' '' @ bone u follower @ '' '' @ bone u follower else ''''))"

definition hideCursor :: string where "hideCursor = ESC # ''[?25l''"
definition showCursor :: string where "showCursor = ESC # ''[?25h''"

definition printBanner :: "ui \<Rightarrow> bool \<Rightarrow> string" where
  "printBanner u animate =
     (if animate then hideCursor else '''') @
     concat (map (\<lambda>i. bannerLine u i @ newline) [0..<length banner]) @
     (if animate then showCursor else '''')"

definition printUsage :: "ui \<Rightarrow> string" where
  "printUsage u =
     newline @ printBanner u False @ newline @
     ''  '' @ bold u ''Raftra CLI'' @ '' '' @ dim u (''v'' @ cli_version) @ newline @
     ''  A client for Raftra, a fault-tolerant key-value store built on Raft.'' @ newline @
     newline @
     ''  '' @ orange u ''Usage'' @ newline @
     ''    raftra-cli                          start the interactive shell'' @ newline @
     ''    raftra-cli [--addr list] <command>  run one command and exit'' @ newline @
     newline @
     ''  '' @ orange u ''Commands'' @ newline @
     printCommandList u ''    '' @
     newline @
     ''  '' @ orange u ''Flags'' @ newline @
     ''    --addr   comma-separated node addresses'' @ newline @
     ''             '' @ dim u (''default: '' @ defaultAddr) @ newline @
     newline"

section \<open>The welcome box\<close>

definition printWelcome :: "ui \<Rightarrow> int option \<Rightarrow> node_set \<Rightarrow> node_status list \<Rightarrow> string" where
  "printWelcome u COLUMNS c nodes =
     (let w = nat (boxWidth COLUMNS);
          n = length (cl_nodes c);
          host = u_Host (cl_nodes c ! 0) @ (if 1 < n then '' and '' @ decimal (n - 1) @ '' more'' else '''');
          leader = (case leaderOf nodes of
              Some l \<Rightarrow>
                (case ns_st l of
                   Some st \<Rightarrow> orange u (st_LeaderID st) @ dim u ('', term '' @ decimal (unat (st_Term st)))
                 | None \<Rightarrow> '''')
            | None \<Rightarrow>
                if 0 < answered nodes then paint u cAmber ''none right now'' @ dim u '', an election is running''
                else dim u ''no node answered'')
      in box u w
           [spread (orange u (glyphStar u) @ '' '' @ bold u ''Welcome to Raftra'') (dim u (''v'' @ cli_version)) w,
            '''',
            ''  '' @ bone u ''A fault-tolerant key-value store, replicated with Raft.'',
            '''',
            ''  '' @ dim u ''cluster'' @ ''  '' @ host,
            ''  '' @ dim u ''leader '' @ ''  '' @ leader]
         @ newline
         @ ''  '' @ dim u ''Tip: the public playground kills its leader every 10 minutes.'' @ newline
         @ ''  '' @ dim u ''Run '' @ bone u ''status'' @ dim u '' now and again to watch it move.'' @ newline
         @ newline)"

section \<open>Reading lines\<close>

text \<open>
  What repeated calls of \<open>ReadString\<close> yield up to the first error: every line with its newline,
  and last what follows the last newline, with the end of the input as the error; and the lines
  of a \<open>Scanner\<close>.
\<close>

definition read_lines :: "string \<Rightarrow> (string \<times> bool) list" where
  "read_lines input =
     (let ps = Split (CHR 0x0A) input in map (\<lambda>p. (p @ newline, False)) (butlast ps) @ [(last ps, True)])"

definition scan_lines :: "string \<Rightarrow> string list" where
  "scan_lines input =
     (let ps = Split (CHR 0x0A) input; ls = (if last ps = '''' then butlast ps else ps)
      in map (\<lambda>l. if l \<noteq> '''' \<and> last l = CHR 0x0D then butlast l else l) ls)"

text \<open>\<open>readBoxed\<close>: the line and whether there is one, and what is drawn.\<close>

definition readBoxed :: "ui \<Rightarrow> int option \<Rightarrow> string \<times> bool \<Rightarrow> (string \<times> bool) \<times> string" where
  "readBoxed u COLUMNS inp =
     (let w = nat (boxWidth COLUMNS);
          bar = repeat_str (utf8 0x2500) (w + 2);
          side = ui_rule u (utf8 0x2502);
          drawn = ui_rule u (utf8 0x256D @ bar @ utf8 0x256E) @ newline @
            side @ '' '' @ orange u ''>'' @ replicate (w - 1) (CHR '' '') @ '' '' @ side @ newline @
            ui_rule u (utf8 0x2570 @ bar @ utf8 0x256F) @ newline @
            ''  '' @ dim u ''help for commands, exit to quit'' @
            ESC # ''[3A'' @ [CHR 0x0D, ESC] @ ''7'' @ ESC # ''[1B'' @ CHR 0x0D # ESC # ''[4C'';
          (line, eof) = inp;
          drawn = drawn @ ESC # ''8'' @ ESC # ''[J''
      in if eof \<and> line = '''' then (('''', False), drawn)
         else let line = TrimSpace line in
           ((line, True), if line \<noteq> '''' then drawn @ dim u (''> '' @ line) @ newline else drawn))"

section \<open>The shell\<close>

datatype shell_action = Quit | Ignore | Help | Clear | Run "string list"

definition shell_action_of :: "string \<times> bool \<Rightarrow> shell_action" where
  "shell_action_of res =
     (case res of (line, ok) \<Rightarrow>
        if \<not> ok then Quit
        else if line = '''' then Ignore
        else let args = Fields line; cmd = ToLower (args ! 0) in
          if cmd = ''exit'' \<or> cmd = ''quit'' then Quit
          else if cmd = ''help'' \<or> cmd = ''?'' then Help
          else if cmd = ''clear'' then Clear
          else Run args)"

definition shell_help :: "ui \<Rightarrow> string" where
  "shell_help u =
     ''  '' @ dim u (glyphTree u) @ ''  '' @
     concat (map (\<lambda>(i, c). (if 0 < i then ''     '' else '''') @ help_line u c)
       (enumerate 0 (commandHelp @ [(''clear'', ''clear the screen''), (''exit'', ''quit (or Ctrl+D)'')])))"

definition bye :: "ui \<Rightarrow> printed list" where
  "bye u = [Printed cDim (dim u ''Bye.'') [], Plain newline]"

text \<open>
  The loop of \<open>runInteractiveMode\<close> over the lines that will be read; a reader that is at its end
  yields the empty line again.
\<close>

fun run_shell ::
    "url_lib \<Rightarrow> json_lib \<Rightarrow> 'w network \<Rightarrow> ('w \<Rightarrow> string \<Rightarrow> go_error + cli_response) \<Rightarrow> ui \<Rightarrow> int option \<Rightarrow> node_set \<Rightarrow>
     (string \<times> bool) list \<Rightarrow> 'w \<Rightarrow> (printed list \<times> 'w) option" where
  "run_shell U J N get u cols c [] w = Some (Plain (snd (readBoxed u cols ('''', True))) # bye u, w)"
| "run_shell U J N get u cols c (inp # rest) w =
     (case readBoxed u cols inp of (res, drawn) \<Rightarrow>
        (case shell_action_of res of
           Quit \<Rightarrow> Some (Plain drawn # bye u, w)
         | Ignore \<Rightarrow> map_option (\<lambda>(out, w). (Plain drawn # out, w)) (run_shell U J N get u cols c rest w)
         | Help \<Rightarrow>
             map_option (\<lambda>(out, w). (Plain drawn # Printed cOrange ''Commands'' [] # Plain (shell_help u @ newline) # out, w))
               (run_shell U J N get u cols c rest w)
         | Clear \<Rightarrow>
             map_option (\<lambda>(out, w). (Plain (drawn @ ESC # ''[H'' @ ESC # ''[2J'') # out, w))
               (run_shell U J N get u cols c rest w)
         | Run args \<Rightarrow>
             (case runCommand U J N get u c args w of
                None \<Rightarrow> None
              | Some ((_, printed), w) \<Rightarrow>
                  map_option (\<lambda>(out, w). (Plain drawn # printed @ Plain newline # out, w))
                    (run_shell U J N get u cols c rest w))))"

definition runInteractiveMode ::
    "url_lib \<Rightarrow> json_lib \<Rightarrow> 'w network \<Rightarrow> ('w \<Rightarrow> string \<Rightarrow> go_error + cli_response) \<Rightarrow> ui \<Rightarrow> int option \<Rightarrow> node_set \<Rightarrow>
     string \<Rightarrow> 'w \<Rightarrow> (printed list \<times> 'w) option" where
  "runInteractiveMode U J N get u cols c input w =
     (if \<not> stdinTTY u \<or> \<not> stdoutTTY u then
        map_option (\<lambda>(outs, w). (concat (map snd outs), w)) (run_script U J N get u c (scan_lines input) w)
      else
        map_option (\<lambda>(out, w).
            (Plain (newline @ printBanner u True @ newline) #
             Plain (printWelcome u cols c (fetchStatuses U J (get w) c)) # out, w))
          (run_shell U J N get u cols c (read_lines input) w))"

text \<open>
  Ctrl+C in the shell, whose goroutine may run at any time: what has been printed is some beginning
  of the output, and the exit status is 130.
\<close>

definition interrupted :: "ui \<Rightarrow> nat \<Rightarrow> printed list \<Rightarrow> nat \<times> string" where
  "interrupted u k out =
     (130, take k (concat (map (printed_text u) out)) @ showCursor @ ESC # ''[2B'' @ [CHR 0x0D] @ newline)"

text \<open>\<open>main\<close>: the exit status and the output.\<close>

definition cli_main ::
    "url_lib \<Rightarrow> json_lib \<Rightarrow> 'w network \<Rightarrow> ('w \<Rightarrow> string \<Rightarrow> go_error + cli_response) \<Rightarrow> ui \<Rightarrow> int option \<Rightarrow> string \<Rightarrow>
     string list \<Rightarrow> string \<Rightarrow> 'w \<Rightarrow> (nat \<times> printed list \<times> 'w) option" where
  "cli_main U J N get u cols addr args input w =
     (case newCluster U addr of
        Inl err \<Rightarrow> Some (1, [Failed (error_text err) []], w)
      | Inr c \<Rightarrow>
          if length args = 0 then
            map_option (\<lambda>(out, w). (0, out, w)) (runInteractiveMode U J N get u cols c input w)
          else (case runCommand U J N get u c args w of
             None \<Rightarrow> None
           | Some ((ok, out), w) \<Rightarrow> Some (if ok then 0 else 1, out, w)))"

section \<open>Lemmas\<close>

text \<open>No byte of the input is lost or read twice.\<close>

lemma Split_read: "concat (map (\<lambda>p. p @ [c]) (butlast (Split c s))) @ last (Split c s) = s"
proof (induction s)
  case (Cons x s)
  then show ?case by (cases "Split c s") auto
qed simp

lemma read_lines_input: "concat (map fst (read_lines input)) = input"
  by (simp add: read_lines_def Let_def newline_def comp_def Split_read)

text \<open>
  Whether a terminal shows its cursor after it has received a text, and so after Ctrl+C, even
  between the two halves of the animated banner.
\<close>

fun cursor_after :: "bool \<Rightarrow> string \<Rightarrow> bool" where
  "cursor_after b [] = b"
| "cursor_after b (c # s) =
     cursor_after (if HasPrefix (c # s) hideCursor then False else if HasPrefix (c # s) showCursor then True else b) s"

lemma cursor_hidden: "\<not> cursor_after True hideCursor"
  by (simp add: hideCursor_def showCursor_def HasPrefix_def ESC_def)

lemma cursor_shown_last: "cursor_after b (s @ showCursor @ ESC # ''[2B'' @ [CHR 0x0D] @ newline)"
  by (induction s arbitrary: b) (simp_all add: showCursor_def hideCursor_def newline_def HasPrefix_def ESC_def)

lemma interrupted_cursor: "cursor_after True (snd (interrupted u k out))"
  unfolding interrupted_def snd_conv by (rule cursor_shown_last)

text \<open>With a clock that does not go back every command ends, and so do the script and the shell.\<close>

lemma newCluster_delay: "newCluster U addrs = Inr c \<Longrightarrow> 0 < cl_retryDelay c"
  by (auto simp: newCluster_def split: sum.splits)

lemma runCommand_ends:
  assumes "clock_ok N" and "0 < cl_retryDelay c"
  obtains r w' where "runCommand U J N get u c args w = Some (r, w')"
proof -
  have d: "\<exists>r. cluster_do U N c m path body w = Some r" for m path body
    unfolding cluster_do_def using do_loop_returns [OF assms] by blast
  have "\<exists>r. runCommand U J N get u c args w = Some r"
    using d [of "''GET''" "''/api/v1/kv/'' @ url_PathEscape U (args ! 1)" None]
      d [of "''PUT''" "''/api/v1/kv/'' @ url_PathEscape U (args ! 1)" "Some (string_to_bytes (Join '' '' (drop 2 args)))"]
      d [of "''DELETE''" "''/api/v1/kv/'' @ url_PathEscape U (args ! 1)" None]
    by (auto simp: runCommand_def Let_def split: prod.splits)
  then show thesis using that by auto
qed

lemma run_script_ends:
  assumes "clock_ok N" and "0 < cl_retryDelay c"
  shows "\<exists>r. run_script U J N get u c ls w = Some r"
proof (induction ls arbitrary: w)
  case (Cons l ls)
  obtain r w' where "runCommand U J N get u c (Fields l) w = Some (r, w')" by (rule runCommand_ends [OF assms])
  with Cons [of w] Cons [of w'] show ?case by (auto simp: Let_def)
qed simp

lemma run_shell_ends:
  assumes "clock_ok N" and "0 < cl_retryDelay c"
  shows "\<exists>r. run_shell U J N get u cols c ls w = Some r"
proof (induction ls arbitrary: w)
  case (Cons l ls)
  show ?case
  proof (cases "shell_action_of (fst (readBoxed u cols l))")
    case (Run args)
    obtain r w' where "runCommand U J N get u c args w = Some (r, w')" by (rule runCommand_ends [OF assms])
    with Run Cons [of w'] show ?thesis by (auto split: prod.splits)
  qed (use Cons [of w] in \<open>auto split: prod.splits\<close>)
qed simp

end
