(* ===== verification/Metrics_Registry.thy ===== *)
theory Metrics_Registry
  imports Metrics
begin

text \<open>
  The construction of the metrics object, \<open>internal/metrics/metrics.go\<close>: the options of the
  twelve collectors, their registration, and the process-wide default instance.  The registerer
  is a parameter: \<open>MustRegister\<close> yields \<^const>\<open>None\<close> where Prometheus panics.  Buckets are in
  units of 100 microseconds.
\<close>

datatype collector_kind = Gauge | Counter | CounterVec | Histogram | HistogramVec

record collector_opts =
  co_kind :: collector_kind
  co_Name :: string
  co_Help :: string
  co_Buckets :: "nat list"
  co_labels :: "string list"

definition collectors :: "collector_opts list" where
  "collectors =
     [\<lparr>co_kind = Gauge, co_Name = ''raft_current_term'', co_Help = ''Current Raft term of this node.'', co_Buckets = [], co_labels = []\<rparr>,
      \<lparr>co_kind = Gauge, co_Name = ''raft_node_role'', co_Help = ''Current Raft role of this node: 0=Follower, 1=Candidate, 2=Leader.'', co_Buckets = [], co_labels = []\<rparr>,
      \<lparr>co_kind = Counter, co_Name = ''raft_leader_elections_total'', co_Help = ''Total number of Raft leader elections initiated by this node.'', co_Buckets = [], co_labels = []\<rparr>,
      \<lparr>co_kind = Gauge, co_Name = ''raft_commit_index'', co_Help = ''Current Raft log commit index.'', co_Buckets = [], co_labels = []\<rparr>,
      \<lparr>co_kind = Gauge, co_Name = ''raft_last_applied'', co_Help = ''Highest Raft log index applied to the state machine.'', co_Buckets = [], co_labels = []\<rparr>,
      \<lparr>co_kind = Gauge, co_Name = ''raft_log_entries_total'', co_Help = ''Total number of log entries currently stored in the Raft log.'', co_Buckets = [], co_labels = []\<rparr>,
      \<lparr>co_kind = Histogram, co_Name = ''raft_replication_latency_seconds'', co_Help = ''Latency in seconds for a leader proposal to replicate to a majority quorum.'', co_Buckets = [10, 50, 100, 250, 500, 1000, 2500, 5000, 10000, 25000, 50000], co_labels = []\<rparr>,
      \<lparr>co_kind = Counter, co_Name = ''raft_append_entries_total'', co_Help = ''Total number of AppendEntries RPCs sent by this node.'', co_Buckets = [], co_labels = []\<rparr>,
      \<lparr>co_kind = Counter, co_Name = ''raft_request_vote_total'', co_Help = ''Total number of RequestVote RPCs sent by this node.'', co_Buckets = [], co_labels = []\<rparr>,
      \<lparr>co_kind = CounterVec, co_Name = ''kv_requests_total'', co_Help = ''Total number of Key-Value requests processed, partitioned by operation type.'', co_Buckets = [], co_labels = [''type'']\<rparr>,
      \<lparr>co_kind = HistogramVec, co_Name = ''kv_request_duration_seconds'', co_Help = ''Latency distribution of Key-Value requests in seconds, partitioned by operation type.'', co_Buckets = [5, 10, 25, 50, 100, 250, 500, 1000, 2500, 5000, 10000], co_labels = [''type'']\<rparr>,
      \<lparr>co_kind = Gauge, co_Name = ''kv_store_size'', co_Help = ''Number of active keys currently in the replicated in-memory KV store.'', co_Buckets = [], co_labels = []\<rparr>]"

definition newMetricsWithRegisterer ::
    "(collector_opts list \<Rightarrow> 'r \<Rightarrow> 'r option) \<Rightarrow> 'r \<Rightarrow> (metrics \<times> 'r) option" where
  "newMetricsWithRegisterer must reg =
     (case must collectors reg of None \<Rightarrow> None | Some reg \<Rightarrow> Some (newMetrics, reg))"

text \<open>The first argument pair is the package's state: the default instance and the default registerer.\<close>

definition Default_metrics ::
    "(collector_opts list \<Rightarrow> 'r \<Rightarrow> 'r option) \<Rightarrow> metrics option \<times> 'r \<Rightarrow> (metrics \<times> (metrics option \<times> 'r)) option" where
  "Default_metrics must st =
     (case st of
        (Some m, reg) \<Rightarrow> Some (m, st)
      | (None, reg) \<Rightarrow>
          (case newMetricsWithRegisterer must reg of
             None \<Rightarrow> None
           | Some (m, reg) \<Rightarrow> Some (m, (Some m, reg))))"

text \<open>\<open>NewMetrics\<close>: \<^const>\<open>None\<close> stands for a nil or default registerer.\<close>

definition NewMetrics ::
    "(collector_opts list \<Rightarrow> 'r \<Rightarrow> 'r option) \<Rightarrow> 'r option \<Rightarrow> metrics option \<times> 'r \<Rightarrow>
     (metrics \<times> 'r option \<times> (metrics option \<times> 'r)) option" where
  "NewMetrics must reg st =
     (case reg of
        None \<Rightarrow> (case Default_metrics must st of None \<Rightarrow> None | Some (m, st) \<Rightarrow> Some (m, None, st))
      | Some r \<Rightarrow> (case newMetricsWithRegisterer must r of None \<Rightarrow> None | Some (m, r) \<Rightarrow> Some (m, Some r, st)))"

text \<open>The names are distinct, so registration with a fresh registerer does not collide.\<close>

lemma collectors_distinct: "distinct (map co_Name collectors)"
  by (simp add: collectors_def)

text \<open>A second call of \<open>Default\<close> registers nothing and returns the same object.\<close>

lemma Default_metrics_again:
  "Default_metrics must st = Some (m, st') \<Longrightarrow> Default_metrics must st' = Some (m, st')"
  by (auto simp: Default_metrics_def split: prod.splits option.splits)

end
