(* ===== verification/Command_Properties.thy ===== *)
theory Command_Properties
  imports Server_Main Cli_Shell Metrics_Registry Store_Properties
begin

text \<open>
  The two commands: a server dials the peers it is given and comes back from a restart with what it
  promised, and the client's requests end and show the current leader.
\<close>

section \<open>The peers of a server\<close>

definition plain :: "string \<Rightarrow> bool" where
  "plain s \<longleftrightarrow> (\<forall>c\<in>set s. c \<noteq> CHR '':'' \<and> c \<noteq> CHR '','' \<and> \<not> is_space c)"

definition show_peer :: "string \<times> string \<times> string \<Rightarrow> string" where
  "show_peer e = (case e of (i, host, port) \<Rightarrow> i @ '':'' @ host @ '':'' @ port)"

definition address :: "string \<times> string \<times> string \<Rightarrow> string" where
  "address e = (case e of (i, host, port) \<Rightarrow> host @ '':'' @ port)"

lemma plainD:
  assumes "plain s"
  shows "CHR '':'' \<notin> set s" "CHR '','' \<notin> set s" "c \<in> set s \<Longrightarrow> \<not> is_space c"
  using assms unfolding plain_def by blast+

lemma colon: "\<not> is_space (CHR '':'')" "CHR '':'' \<noteq> CHR '',''" "CHR '','' \<noteq> CHR '':''"
  by (simp_all add: is_space_def)

lemma show_peer_comma: "plain i \<Longrightarrow> plain host \<Longrightarrow> plain port \<Longrightarrow> CHR '','' \<notin> set (show_peer (i, host, port))"
  by (simp add: show_peer_def plainD)

lemma parse_show_peer:
  assumes "plain i" and "plain host" and "plain port"
  shows "parse_peer (show_peer (i, host, port)) = Some (i, address (i, host, port))"
proof -
  let ?e = "i @ CHR '':'' # host @ CHR '':'' # port"
  have "\<not> is_space c" if "c \<in> set ?e" for c
  proof -
    from that consider "c \<in> set i" | "c = CHR '':''" | "c \<in> set host" | "c \<in> set port" by auto
    then show ?thesis using plainD(3) [OF assms(1)] plainD(3) [OF assms(2)] plainD(3) [OF assms(3)] colon(1) by cases blast+
  qed
  moreover have ne: "?e \<noteq> []" by simp
  ultimately have t: "TrimSpace ?e = ?e"
    using TrimSpace_id [OF ne] hd_in_set [OF ne] last_in_set [OF ne] by blast
  have "Split (CHR '':'') ?e = [i, host, port]"
    using assms by (simp add: Split_sep Split_absent plainD(1))
  with t show ?thesis by (simp add: show_peer_def address_def)
qed

lemma update_fresh: "k \<notin> fst ` set m \<Longrightarrow> AList.update k v m = m @ [(k, v)]"
  by (induction m) auto

lemma parse_entries:
  "\<forall>(i, host, port) \<in> set es. plain i \<and> plain host \<and> plain port \<Longrightarrow> distinct (map fst m @ map fst es) \<Longrightarrow>
   parse_peer_entries (map show_peer es) (ps, m) =
     (ps @ map (\<lambda>e. \<lparr>pc_ID = fst e, pc_Address = address e\<rparr>) es, m @ map (\<lambda>e. (fst e, address e)) es)"
proof (induction es arbitrary: ps m)
  case (Cons e es)
  obtain i host port where e: "e = (i, host, port)" by (cases e)
  have "parse_peer (show_peer e) = Some (i, address e)" using Cons.prems(1) e parse_show_peer by simp
  moreover have "AList.update i (address e) m = m @ [(i, address e)]"
    using Cons.prems(2) e by (intro update_fresh) auto
  moreover have d: "distinct (map fst (m @ [(i, address e)]) @ map fst es)" using Cons.prems(2) e by auto
  moreover have "\<forall>(i, host, port) \<in> set es. plain i \<and> plain host \<and> plain port" using Cons.prems(1) by simp
  ultimately show ?case using Cons.IH [OF _ d] e by (simp del: parse_peer.simps)
qed simp

lemma Join_ne: "x \<noteq> [] \<Longrightarrow> Join sep (x # xs) \<noteq> []"
  by (cases xs) simp_all

lemma parse_peers_show:
  assumes "\<forall>(i, host, port) \<in> set es. plain i \<and> plain host \<and> plain port" and "distinct (map fst es)"
  shows "parse_peers (Join '','' (map show_peer es)) =
    (map (\<lambda>e. \<lparr>pc_ID = fst e, pc_Address = address e\<rparr>) es, map (\<lambda>e. (fst e, address e)) es)"
proof (cases "es = []")
  case False
  then have ne: "Join '','' (map show_peer es) \<noteq> ''''"
    by (cases es) (simp_all add: Join_ne show_peer_def split: prod.split)
  have "\<forall>p\<in>set (map show_peer es). CHR '','' \<notin> set p" using assms(1) show_peer_comma by fastforce
  then have "Split (CHR '','') (Join '','' (map show_peer es)) = map show_peer es"
    using False by (intro Split_Join) simp_all
  with ne parse_entries [OF assms(1), of "[]" "[]"] assms(2) show ?thesis by (simp add: parse_peers_def)
qed (simp add: parse_peers_def)

lemma peer_map_distinct_keys: "distinct (map pc_ID ps) \<Longrightarrow> keys (peer_map ps) = map pc_ID ps"
proof -
  have "distinct (map fst m @ map pc_ID ps) \<Longrightarrow>
      keys (foldl (\<lambda>m p. AList.update (pc_ID p) p m) m ps) = map fst m @ map pc_ID ps" for m
    by (induction ps arbitrary: m) (auto simp: update_fresh)
  from this [of "[]"] show "distinct (map pc_ID ps) \<Longrightarrow> keys (peer_map ps) = map pc_ID ps"
    by (simp add: peer_map_def)
qed

lemma connect_peers_keep:
  "connect_peers Q peers t = Inr t' \<Longrightarrow> i \<notin> fst ` set peers \<Longrightarrow> map_of (gt_clients t') i = map_of (gt_clients t) i"
  by (induction Q peers t rule: connect_peers.induct) (auto split: sum.splits go_error.splits simp: update_conv')

lemma connect_peers_dials:
  "connect_peers Q peers t = Inr t' \<Longrightarrow> distinct (map fst peers) \<Longrightarrow> (i, addr) \<in> set peers \<Longrightarrow>
   \<exists>conn. grpc_NewClient Q addr peerConnectParams = Inr conn \<and> map_of (gt_clients t') i = Some (NewRaftServiceClient Q conn)"
proof (induction Q peers t rule: connect_peers.induct)
  case (2 Q peerID a peers t)
  obtain conn where conn: "grpc_NewClient Q a peerConnectParams = Inr conn"
    using 2(2) by (auto split: sum.splits go_error.splits)
  with 2(2) have rest: "connect_peers Q peers (t\<lparr>gt_conns := AList.update peerID conn (gt_conns t),
      gt_clients := AList.update peerID (NewRaftServiceClient Q conn) (gt_clients t)\<rparr>) = Inr t'" by simp
  show ?case
  proof (cases "(i, addr) \<in> set peers")
    case True
    from 2(1) [OF conn rest _ True] 2(3) show ?thesis by simp
  next
    case False
    with 2(3,4) have "i = peerID" "addr = a" "i \<notin> fst ` set peers" by auto
    with connect_peers_keep [OF rest] conn show ?thesis by (simp add: update_conv')
  qed
qed simp

text \<open>
  C39: a server dials its peers.  A server started with a \<open>-peers\<close> flag that lists entries
  \<open>id:host:port\<close> has exactly these ids as its peers, in this order, and its transport sends the
  RPCs for each of them over a connection to its \<open>host:port\<close> that was made with
  \<open>peerConnectParams\<close>, with a deadline of 100 milliseconds.
\<close>

theorem server_dials_its_peers:
  assumes es: "\<forall>(i, host, port) \<in> set es. plain i \<and> plain host \<and> plain port" "distinct (map fst es)"
    and fl: "fl_peers fl = Join '','' (map show_peer es)" and r: "main_start A P G Q os e t fl = Inr p"
  shows "map fst (rn_peers (pr_node p)) = map fst es \<and> node_id (pr_node p) = fl_id fl \<and>
    (\<forall>(i, host, port) \<in> set es. \<exists>conn. grpc_NewClient Q (host @ '':'' @ port) peerConnectParams = Inr conn \<and>
       (\<forall>req. SendRequestVote Q (pr_transport p) i req = stub_RequestVote Q (NewRaftServiceClient Q conn) 100000000 req) \<and>
       (\<forall>req. SendAppendEntries Q (pr_transport p) i req = stub_AppendEntries Q (NewRaftServiceClient Q conn) 100000000 req))"
proof -
  let ?peers = "map (\<lambda>e. \<lparr>pc_ID = fst e, pc_Address = address e\<rparr>) es" and ?m = "map (\<lambda>e. (fst e, address e)) es"
  have pp: "parse_peers (fl_peers fl) = (?peers, ?m)" unfolding fl by (rule parse_peers_show [OF es])
  from r obtain store rn0 where n: "NewRaftNode \<lparr>d_backend = bbolt_backend A P, d_gob = G\<rparr> (DefaultConfig (fl_id fl) ?peers) store NewKVStore = Inr rn0"
    and pn: "pr_node p = Start e (SetMetrics \<lparr>d_backend = bbolt_backend A P, d_gob = G\<rparr> (Some (os_metrics os)) rn0)"
    and tp: "NewGRPCTransport Q ?m (100 * millisecond) = Inr (pr_transport p)"
    by (auto simp: main_start_def Let_def pp http_Start_def split: if_splits sum.splits)
  have "rn_peers (pr_node p) = peer_map ?peers" "node_id (pr_node p) = fl_id fl"
    using n by (auto simp: pn Start_def Let_def SetMetrics_def NewRaftNode_def DefaultConfig_def split: sum.splits)
  moreover have "distinct (map pc_ID ?peers)" using es(2) by (simp add: comp_def)
  then have "keys (peer_map ?peers) = map fst es" by (simp add: peer_map_distinct_keys comp_def)
  moreover have "\<exists>conn. grpc_NewClient Q (host @ '':'' @ port) peerConnectParams = Inr conn \<and>
       (\<forall>req. SendRequestVote Q (pr_transport p) i req = stub_RequestVote Q (NewRaftServiceClient Q conn) 100000000 req) \<and>
       (\<forall>req. SendAppendEntries Q (pr_transport p) i req = stub_AppendEntries Q (NewRaftServiceClient Q conn) 100000000 req)"
    if "(i, host, port) \<in> set es" for i host port
  proof -
    have "(i, host @ '':'' @ port) \<in> set ?m" using that by (force simp: address_def)
    moreover have "distinct (map fst ?m)" using es(2) by (simp add: comp_def)
    ultimately obtain conn where "grpc_NewClient Q (host @ '':'' @ port) peerConnectParams = Inr conn"
      "map_of (gt_clients (pr_transport p)) i = Some (NewRaftServiceClient Q conn)"
      using connect_peers_dials [OF tp [unfolded NewGRPCTransport_def]] by blast
    moreover have "gt_timeout (pr_transport p) = 100 * millisecond"
      using connect_peers_clients [OF tp [unfolded NewGRPCTransport_def]] by simp
    ultimately show ?thesis by (simp add: SendRequestVote_def SendAppendEntries_def millisecond_def)
  qed
  ultimately show ?thesis by auto
qed

definition demo_grpc :: "(string, string) grpc" where
  "demo_grpc = \<lparr>grpc_NewClient = (\<lambda>addr params. Inr addr), NewRaftServiceClient = (\<lambda>c. c),
     stub_RequestVote = (\<lambda>c d req. Inr \<lparr>rvr_term = 0, rvr_vote_granted = False\<rparr>),
     stub_AppendEntries = (\<lambda>c d req. Inr \<lparr>aer_term = 0, aer_success = False\<rparr>)\<rparr>"

definition demo_flags :: flags where
  "demo_flags = \<lparr>fl_id = ''n1'', fl_host = ''h'', fl_port = 1, fl_http_port = 2, fl_peers = ''n2:h:9002,n3:h:9003'',
     fl_http_peers = '''', fl_data_dir = ''d'', fl_nosync = False,
     fl_limits = \<lparr>MaxKeyBytes = 0, MaxValueBytes = 0, MaxKeys = 0, WriteRate = Finite 0, WriteBurst = 0,
       TrustProxy = False, CORSOrigin = ''''\<rparr>\<rparr>"

definition demo_main :: "(map_db, map_db) bbolt \<Rightarrow> string + (map_db, string, string, string) process" where
  "demo_main A = main_start A plain_protobuf \<lparr>gob_encode = (\<lambda>c. Inr [1]), gob_decode = (\<lambda>b. Inl (Err ''''))\<rparr> demo_grpc
     \<lparr>os_MkdirAll = (\<lambda>d. None), os_Join = (\<lambda>d f. d @ f), os_Listen = Inr, os_metrics = newMetrics\<rparr>
     \<lparr>now = 0, now_deadline = 0, now_armed = 0, Int63n = (\<lambda>n. 0)\<rparr> 0 demo_flags"

lemma demo_connect: "\<exists>t'. connect_peers demo_grpc ps t = Inr t'"
  by (induction ps arbitrary: t) (auto simp: demo_grpc_def)

text \<open>The demonstration server starts on a store that opens.\<close>

lemma demo_main:
  assumes A: "bbolt_laws A (\<lambda>_. True) (\<lambda>db. db) map_sem"
    and o: "NewBboltStoreWithOptions A plain_protobuf ''dn1.db'' False = Inr db"
    and ok: "bs_ok plain_protobuf (\<lambda>_. True) (\<lambda>db. db) map_sem db"
  shows "\<exists>p. demo_main A = Inr p"
proof -
  let ?G = "\<lparr>gob_encode = (\<lambda>c. Inr [1]), gob_decode = (\<lambda>b. Inl (Err ''''))\<rparr>"
  let ?D = "\<lparr>d_backend = bbolt_backend A plain_protobuf, d_gob = ?G\<rparr>"
  note c = bbolt_meets_contract [OF A plain_protobuf_laws]
  have "\<exists>rn. NewRaftNode ?D cfg db NewKVStore = Inr rn" for cfg
    using storage.LoadTerm_ok [OF c ok] storage.LoadVotedFor_ok [OF c ok] storage.LoadAllEntries_ok [OF c ok]
    by (simp add: NewRaftNode_def)
  then obtain rn where "NewRaftNode ?D (DefaultConfig ''n1'' (fst (parse_peers ''n2:h:9002,n3:h:9003''))) db NewKVStore = Inr rn"
    by blast
  moreover obtain tp where "NewGRPCTransport demo_grpc (snd (parse_peers ''n2:h:9002,n3:h:9003'')) (100 * millisecond) = Inr tp"
    using demo_connect unfolding NewGRPCTransport_def by blast
  ultimately show ?thesis
    using o by (simp add: demo_main_def main_start_def demo_flags_def Let_def NewServer_def Validate_def case_prod_beta http_Start_def)
qed

lemma demo_start: "\<exists>p. demo_main map_bbolt = Inr p"
proof -
  have "bb_Open map_bbolt path opts = Inr []" "map_sem [] = Map.empty" for path opts
    by (simp_all add: map_bbolt_def map_sem_def fun_eq_iff)
  with open_fresh [OF map_bbolt_laws plain_protobuf_laws] obtain db where
    o: "NewBboltStoreWithOptions map_bbolt plain_protobuf ''dn1.db'' False = Inr db"
    and f: "bs_fresh plain_protobuf (\<lambda>_. True) (\<lambda>db. db) map_sem db" by blast
  show ?thesis by (rule demo_main [OF map_bbolt_laws o]) (use bbolt_fresh [OF map_bbolt_laws plain_protobuf_laws f] in simp)
qed

theorem server_dials_its_peers_witness: "\<exists>p. demo_main map_bbolt = Inr p \<and> map fst (rn_peers (pr_node p)) = [''n2'', ''n3'']"
proof -
  from demo_start obtain p where p: "demo_main map_bbolt = Inr p" by blast
  have "fl_peers demo_flags = Join '','' (map show_peer [(''n2'', ''h'', ''9002''), (''n3'', ''h'', ''9003'')])"
    by (simp add: demo_flags_def show_peer_def)
  note d = server_dials_its_peers [OF _ _ this p [unfolded demo_main_def]]
  have "plain ''n2'' \<and> plain ''n3'' \<and> plain ''h'' \<and> plain ''9002'' \<and> plain ''9003''" by code_simp
  then have "map fst (rn_peers (pr_node p)) = map fst [(''n2'', ''h'', ''9002''), (''n3'', ''h'', ''9003'')]"
    by (intro d [THEN conjunct1]) simp_all
  with p show ?thesis by (intro exI [of _ p]) simp
qed

section \<open>Stopping and starting a server\<close>

text \<open>What a server that has started read from its store.\<close>

lemma main_start_node:
  assumes "main_start A P G Q os e t fl = Inr p"
  obtains store where "NewBboltStoreWithOptions A P (os_Join os (fl_data_dir fl) (fl_id fl @ ''.db'')) (fl_nosync fl) = Inr store"
    and "rn_storage (pr_node p) = store" and "bs_LoadTerm A store = Inr (CurrentTerm (pr_node p))"
    and "bs_LoadVotedFor A store = Inr (VotedFor (pr_node p))" and "bs_LoadAllEntries A P store = Inr (Log (pr_node p))"
    and "rn_role (pr_node p) = Follower" and "lastApplied (pr_node p) = 0" and "rn_kvStore (pr_node p) = NewKVStore"
  using assms
  by (auto simp: main_start_def Let_def Start_def SetMetrics_def NewRaftNode_def bbolt_backend_def
      split: prod.splits if_splits sum.splits option.splits)

lemma main_shutdown_node:
  "main_shutdown A sh p = (p', conns) \<Longrightarrow> rn_stopped (pr_node p') \<and> rn_persistent (pr_node p') = rn_persistent (pr_node p) \<and>
     conns = gt_Close (pr_transport p)"
  by (auto simp: main_shutdown_def Let_def Stop_def)

text \<open>
  C38: a restart keeps what the node promised.  When a server whose memory and store agree, as they
  do in every reachable cluster, has shut down, and one is started with the same data directory
  and ID on a file that still holds the two buckets of the store, the new node has the term, the
  vote and the log of the old one, leads nothing, and has applied nothing yet.
\<close>

theorem server_restart:
  assumes A: "bbolt_laws A up state sem" and P: "protobuf_laws P"
    and m: "mirrors (bs_ok P up state sem) (bs_term A) (bs_vote A) (bs_log A P) (pr_node p)"
    and sh: "main_shutdown A shutdown p = (p1, conns)"
    and op: "bb_Open A (os_Join os (fl_data_dir fl) (fl_id fl @ ''.db''))
        \<lparr>oo_mode = 384, oo_Timeout = 1000000000, oo_NoSync = fl_nosync fl\<rparr> = Inr file" "up file"
      "\<forall>b\<in>{bucketLog, bucketMeta}. sem (state file) b = sem (state (rn_storage (pr_node p))) b"
    and st: "main_start A P G Q os e t fl = Inr p2"
  shows "rn_stopped (pr_node p1) \<and> rn_persistent (pr_node p2) = rn_persistent (pr_node p1) \<and>
    rn_role (pr_node p2) = Follower \<and> lastApplied (pr_node p2) = 0 \<and> kv_Size (rn_kvStore (pr_node p2)) = 0"
proof -
  let ?db = "rn_storage (pr_node p)"
  from m have ok: "bs_ok P up state sem ?db" and eq: "CurrentTerm (pr_node p) = bs_term A ?db"
    "VotedFor (pr_node p) = bs_vote A ?db" "Log (pr_node p) = bs_log A P ?db" by (simp_all add: mirrors_def)
  from ok obtain L meta where h: "bs_holds P up state sem L meta ?db" by (auto simp: bs_ok_def)
  then have "bs_holds P up state sem L meta file" using op(2,3) by (simp add: bs_holds_def)
  from open_again [OF A this op(1)] obtain db' where
    o: "NewBboltStoreWithOptions A P (os_Join os (fl_data_dir fl) (fl_id fl @ ''.db'')) (fl_nosync fl) = Inr db'"
    and h': "bs_holds P up state sem L meta db'" by blast
  from main_start_node [OF st] o have
    ld: "bs_LoadTerm A db' = Inr (CurrentTerm (pr_node p2))" "bs_LoadVotedFor A db' = Inr (VotedFor (pr_node p2))"
      "bs_LoadAllEntries A P db' = Inr (Log (pr_node p2))"
    and n: "rn_role (pr_node p2) = Follower" "lastApplied (pr_node p2) = 0" "rn_kvStore (pr_node p2) = NewKVStore"
    by auto
  have "CurrentTerm (pr_node p2) = bs_term A db'" "VotedFor (pr_node p2) = bs_vote A db'" "Log (pr_node p2) = bs_log A P db'"
    using ld by (simp_all add: bs_term_def bs_vote_def bs_log_def)
  then have "rn_persistent (pr_node p2) = rn_persistent (pr_node p)"
    using eq bs_view [OF A P h] bs_view [OF A P h'] by (simp add: persistent_state.equality)
  with main_shutdown_node [OF sh] n show ?thesis by (simp add: kv_Size_def NewKVStore_def)
qed

theorem server_restart_witness:
  "\<exists>p p2. demo_main map_reopened = Inr p \<and> demo_main map_reopened = Inr p2 \<and>
     rn_persistent (pr_node p2) = rn_persistent (pr_node (fst (main_shutdown map_reopened None p)))"
proof -
  have op: "bb_Open map_reopened path opts = Inr map_file" for path opts by (simp add: map_reopened_def)
  have h: "bs_holds plain_protobuf (\<lambda>_. True) (\<lambda>db. db) map_sem [sentinel] [keyTerm \<mapsto> uint64ToBytes 7] map_file"
    by (simp add: bs_holds_def log_ok_def numbered_single command_fits_def map_sem_def map_file_def log_map_sentinel)
  from open_again [OF map_reopened_laws h op] obtain db where
    o: "NewBboltStoreWithOptions map_reopened plain_protobuf ''dn1.db'' False = Inr db"
    and hd: "bs_holds plain_protobuf (\<lambda>_. True) (\<lambda>db. db) map_sem [sentinel] [keyTerm \<mapsto> uint64ToBytes 7] db" by blast
  have ok: "bs_ok plain_protobuf (\<lambda>_. True) (\<lambda>db. db) map_sem db" using hd by (auto simp: bs_ok_def)
  from demo_main [OF map_reopened_laws o ok] obtain p where p: "demo_main map_reopened = Inr p" by blast
  note st = p [unfolded demo_main_def]
  from main_start_node [OF st] o have s: "rn_storage (pr_node p) = db"
    "bs_LoadTerm map_reopened db = Inr (CurrentTerm (pr_node p))" "bs_LoadVotedFor map_reopened db = Inr (VotedFor (pr_node p))"
    "bs_LoadAllEntries map_reopened plain_protobuf db = Inr (Log (pr_node p))" by (auto simp: demo_flags_def)
  have m: "mirrors (bs_ok plain_protobuf (\<lambda>_. True) (\<lambda>db. db) map_sem) (bs_term map_reopened) (bs_vote map_reopened)
      (bs_log map_reopened plain_protobuf) (pr_node p)"
    using ok s by (simp add: mirrors_def bs_term_def bs_vote_def bs_log_def)
  have f: "\<forall>b\<in>{bucketLog, bucketMeta}. map_sem map_file b = map_sem (rn_storage (pr_node p)) b"
    using h hd by (auto simp: bs_holds_def s)
  from server_restart [OF map_reopened_laws plain_protobuf_laws m surjective_pairing op TrueI f st, of None] p
  show ?thesis by auto
qed

section \<open>The client\<close>

lemma executeRequest_final:
  "executeRequest U N m target body init reds w = (Inr (resp, b), reds', w') \<Longrightarrow>
   cr_Status resp \<noteq> 307 \<and> cr_Status resp \<noteq> 308"
  unfolding executeRequest_def by (drule request_loop_final) (simp add: status_defs)

definition last_ok :: "(cli_response \<times> bytes) option \<times> go_error option \<Rightarrow> bool" where
  "last_ok lst \<longleftrightarrow> (\<forall>r. fst lst = Some r \<longrightarrow> cr_Status (fst r) \<noteq> 307 \<and> cr_Status (fst r) \<noteq> 308)"

lemma try_nodes_last:
  "try_nodes U N m path body ns lst reds w = (r, lst', reds', w') \<Longrightarrow> last_ok lst \<Longrightarrow>
   last_ok lst' \<and> last_ok (r, None)"
proof (induction U N m path body ns lst reds w rule: try_nodes.induct)
  case (2 U N m path body node rest lastResp lastErr reds w)
  obtain x reds1 w1 where e: "executeRequest U N m (url_String U node @ path) body node reds w = (x, reds1, w1)"
    by (cases "executeRequest U N m (url_String U node @ path) body node reds w") auto
  show ?case
  proof (cases x)
    case (Inl err)
    have "last_ok (lastResp, Some err)" using 2(4) by (simp add: last_ok_def)
    from 2(1) [OF e [symmetric] Inl refl _ this] 2(3) e Inl show ?thesis by simp
  next
    case (Inr y)
    have ok: "cr_Status (fst y) \<noteq> 307 \<and> cr_Status (fst y) \<noteq> 308"
      using executeRequest_final [of U N m "url_String U node @ path" body node reds w "fst y" "snd y" reds1 w1] e Inr by simp
    show ?thesis
    proof (cases "retryable (cr_Status (fst y))")
      case True
      have "last_ok (Some y, lastErr)" using ok by (simp add: last_ok_def)
      from 2(2) [OF e [symmetric] Inr refl _ _ this] 2(3) e Inr True show ?thesis by simp
    next
      case False
      with 2(3,4) e Inr ok show ?thesis by (auto simp: last_ok_def)
    qed
  qed
qed (simp add: last_ok_def)

lemma do_loop_result:
  assumes N: "clock_ok N" and d: "0 < cl_retryDelay c"
  shows "last_ok lst \<Longrightarrow> start \<le> net_Now N w \<Longrightarrow> \<exists>res reds' w'. do_loop U N c m path body start lst reds w = Some (res, reds', w') \<and>
    (\<forall>resp b. res = Inr (resp, b) \<longrightarrow> cr_Status resp \<noteq> 307 \<and> cr_Status resp \<noteq> 308 \<and>
      (retryable (cr_Status resp) \<longrightarrow> cl_budget c < net_Now N w' - start + cl_retryDelay c)) \<and>
    (\<forall>err. res = Inl err \<longrightarrow> cl_budget c < net_Now N w' - start + cl_retryDelay c)"
proof (induction "nat (cl_budget c - (net_Now N w - start))" arbitrary: lst reds w rule: less_induct)
  case less
  obtain r lst' reds' w' where t: "try_nodes U N m path body (cl_nodes c) lst reds w = (r, lst', reds', w')"
    by (cases "try_nodes U N m path body (cl_nodes c) lst reds w") auto
  have le: "net_Now N w \<le> net_Now N w'" using try_nodes_clock [OF t N] .
  have l: "last_ok lst'" "last_ok (r, None)" using try_nodes_last [OF t less.prems(1)] by simp_all
  consider (again) "r = None" "\<not> cl_budget c < net_Now N w' - start + cl_retryDelay c"
    | (over) "r = None" "cl_budget c < net_Now N w' - start + cl_retryDelay c" | (found) x where "r = Some x" by blast
  then show ?case
  proof cases
    case again
    let ?w = "net_Sleep N (cl_retryDelay c) w'"
    have s: "net_Now N w' + cl_retryDelay c \<le> net_Now N ?w" using N by (simp add: clock_ok_def)
    then have "nat (cl_budget c - (net_Now N ?w - start)) < nat (cl_budget c - (net_Now N w - start))"
      using le d again by linarith
    from less.hyps [OF this l(1)] s le d less.prems(2) again t show ?thesis by (subst do_loop.simps) simp
  next
    case over
    with t l(1) show ?thesis
      by (subst do_loop.simps) (auto simp: last_ok_def split: prod.splits option.splits)
  next
    case (found x)
    then have "\<not> retryable (cr_Status (fst x))" using t by (auto dest: try_nodes_final)
    with found t l(2) show ?thesis by (subst do_loop.simps) (cases x, simp add: last_ok_def)
  qed
qed

text \<open>
  C40: requests end.  With a clock that does not go back, a request over the nodes of a parsed
  address list returns.  A response it returns is no redirect.  One of the statuses that are worth a
  retry, or an error, is returned only when more than 2.7 seconds have passed: the budget of three
  seconds less one pause of 300 ms.
\<close>

theorem requests_end:
  assumes c: "newCluster U addrs = Inr c" and N: "clock_ok N"
  shows "\<exists>res reds w'. cluster_do U N c m path body w = Some (res, reds, w') \<and>
    (case res of
       Inr (resp, b) \<Rightarrow> cr_Status resp \<notin> {307, 308} \<and>
         (cr_Status resp \<in> {502, 503, 504} \<longrightarrow> 2700000000 < net_Now N w' - net_Now N w)
     | Inl err \<Rightarrow> 2700000000 < net_Now N w' - net_Now N w)"
proof -
  have d: "cl_retryDelay c = 300000000" "cl_budget c = 3000000000"
    using c by (auto simp: newCluster_def split: sum.splits)
  then have "0 < cl_retryDelay c" by simp
  moreover have "last_ok (None, None)" by (simp add: last_ok_def)
  ultimately obtain res reds w' where r: "do_loop U N c m path body (net_Now N w) (None, None) [] w = Some (res, reds, w')"
    and q: "\<forall>resp b. res = Inr (resp, b) \<longrightarrow> cr_Status resp \<noteq> 307 \<and> cr_Status resp \<noteq> 308 \<and>
      (retryable (cr_Status resp) \<longrightarrow> cl_budget c < net_Now N w' - net_Now N w + cl_retryDelay c)"
      "\<forall>err. res = Inl err \<longrightarrow> cl_budget c < net_Now N w' - net_Now N w + cl_retryDelay c"
    using do_loop_result [OF N, of c "(None, None)" "net_Now N w" w U m path body "[]"] by auto
  show ?thesis
  proof (cases res)
    case (Inl err)
    with q(2) r d show ?thesis by (intro exI [of _ res] exI [of _ reds] exI [of _ w']) (simp add: cluster_do_def)
  next
    case (Inr x)
    obtain resp b where x: "x = (resp, b)" by (cases x)
    with Inr q(1) have "cr_Status resp \<noteq> 307 \<and> cr_Status resp \<noteq> 308 \<and>
      (retryable (cr_Status resp) \<longrightarrow> cl_budget c < net_Now N w' - net_Now N w + cl_retryDelay c)" by blast
    with Inr x r d show ?thesis
      by (intro exI [of _ res] exI [of _ reds] exI [of _ w']) (auto simp: cluster_do_def retryable_def status_defs)
  qed
qed

definition demo_urls :: url_lib where
  "demo_urls = \<lparr>url_Parse = (\<lambda>s. Inr \<lparr>u_Scheme = ''http'', u_Host = s, u_Rest = ''''\<rparr>), url_String = u_Host,
     url_PathEscape = (\<lambda>s. s)\<rparr>"

text \<open>A network whose world is the clock and in which no node answers.\<close>

definition demo_network :: "int network" where
  "demo_network = \<lparr>net_NewRequest = (\<lambda>m u. None), net_Do = (\<lambda>m u b w. (Inl (Err ''refused''), w + 1)),
     net_Now = (\<lambda>w. w), net_Sleep = (\<lambda>d w. w + d)\<rparr>"

theorem requests_end_witness:
  "\<exists>c res reds w'. newCluster demo_urls ''localhost:8001'' = Inr c \<and>
     cluster_do demo_urls demo_network c ''GET'' ''/status'' None 0 = Some (res, reds, w')"
proof -
  have "isl (newCluster demo_urls ''localhost:8001'') = False" by code_simp
  then obtain c where c: "newCluster demo_urls ''localhost:8001'' = Inr c" by (cases "newCluster demo_urls ''localhost:8001''") simp_all
  have "clock_ok demo_network" by (simp add: clock_ok_def demo_network_def)
  from requests_end [OF c this, of "''GET''" "''/status''" None 0] c show ?thesis by blast
qed

text \<open>
  The leader that is shown.  \<open>leaderOf\<close> finds a leader exactly if some node that answered
  claims to be one, and of several, as during a change of leaders, it picks one of the highest
  term.
\<close>

theorem shown_leader_newest:
  "(leaderOf ns = None \<longleftrightarrow> (\<forall>n \<in> set ns. \<forall>st. ns_st n = Some st \<longrightarrow> \<not> st_IsLeader st)) \<and>
   (\<forall>l. leaderOf ns = Some l \<longrightarrow> l \<in> set ns \<and> (\<exists>st. ns_st l = Some st \<and> st_IsLeader st \<and>
      (\<forall>n \<in> set ns. \<forall>st'. ns_st n = Some st' \<and> st_IsLeader st' \<longrightarrow> st_Term st' \<le> st_Term st)))"
proof -
  have some: "l \<in> set ns \<and> (\<exists>st. ns_st l = Some st \<and> st_IsLeader st \<and>
      (\<forall>n \<in> set ns. \<forall>st'. ns_st n = Some st' \<and> st_IsLeader st' \<longrightarrow> st_Term st' \<le> st_Term st))"
    if "leaderOf ns = Some l" for l
    using leader_from_props [of None ns l] that by (auto simp: leaderOf_def)
  then show ?thesis using leader_from_None [of ns] by (cases "leaderOf ns") (auto simp: leaderOf_def)
qed

definition demo_answers :: "node_status list" where
  "demo_answers = [\<lparr>ns_host = ''a'', ns_st = Some \<lparr>st_Role = ''Leader'', st_Term = 1, st_IsLeader = True, st_LeaderID = ''a'',
       st_CommitIndex = 2, st_LastApplied = 2\<rparr>\<rparr>,
     \<lparr>ns_host = ''b'', ns_st = Some \<lparr>st_Role = ''Leader'', st_Term = 2, st_IsLeader = True, st_LeaderID = ''b'',
       st_CommitIndex = 1, st_LastApplied = 1\<rparr>\<rparr>, \<lparr>ns_host = ''c'', ns_st = None\<rparr>]"

theorem shown_leader_newest_witness: "map_option ns_host (leaderOf demo_answers) = Some ''b''"
proof -
  have "leaderOf demo_answers \<noteq> None"
    using shown_leader_newest [of demo_answers] by (auto simp: demo_answers_def)
  then obtain l where l: "leaderOf demo_answers = Some l" by blast
  with shown_leader_newest [of demo_answers] have "ns_host l = ''b''"
    by (auto simp: demo_answers_def word_le_nat_alt)
  with l show ?thesis by simp
qed

end
