(* ===== verification/Spec2Isabelle.thy ===== *)
theory Spec2Isabelle
  imports Store_Properties Service_Properties Cluster_Election Client_Progress Event_Loop
    Observations Cli_Console Command_Properties
begin

text \<open>
  A verification library for Raftra, a replicated key-value store in Go: a Raft consensus engine
  over a durable log, a key-value state machine, a gRPC and an HTTP interface, a server command
  and a command line client.

  The parts and how they meet.  Clients reach a node through \<open>internal/transport\<close> (HTTP gateway
  or gRPC handler), which turns a write into an encoded command and hands it to
  \<open>RaftNode.ProposeCommand\<close> of \<open>internal/raft\<close>.  The leader appends it to its log in
  \<open>internal/storage\<close>, sends it to its peers, and once a majority has stored it every node applies
  it to its map in \<open>internal/kvstore\<close>; the waiting proposal then returns.  All state of a node is
  behind one mutex, so a handler, a timer fire or the rest of an RPC goroutine is one function on
  the node's state, and a run of a cluster is a sequence of such steps.

  Which theory models what:
  \<^item> Prelude, Go_Strings, Go_Float, Http: what the code uses of Go (integers, maps, strings, \<open>float64\<close>
    with its rounding, requests).
  \<^item> Raft_State, Messages: \<open>raft/state.go\<close>, and the message structs of \<open>proto/raft.pb.go\<close>.
  \<^item> Kvstore: \<open>kvstore/command.go\<close> and \<open>kvstore/kvstore.go\<close>.
  \<^item> Storage, Memory_Store, Byte_Order, Bbolt_Store: \<open>storage/persistence.go\<close> as a record of
    operations with a locale for its contract, and the two backends.
  \<^item> Metrics, Metrics_Registry: \<open>metrics/metrics.go\<close>.
  \<^item> Raft_Node, Term_Check, Replication, Election: \<open>raft/config.go\<close>, \<open>raft/raft.go\<close>,
    \<open>raft/replication.go\<close> and \<open>raft/election.go\<close>, one function per critical section.  Clocks and
    random numbers are arguments; the variables that goroutines share through closures are records
    of the node, addressed by number; a commit channel is a number and its message.
  \<^item> Cluster: nodes on an unreliable network.  An event is one critical section, a lost RPC, or a
    crash.  The critical sections that write to the store more than once are those that begin with a
    change of term (\<open>SaveTerm\<close>, \<open>SaveVotedFor\<close>, then perhaps a vote, entries or a no-op) and the
    resolution of a conflict (\<open>TruncateFrom\<close>, \<open>AppendEntries\<close>); they also crash after any of
    their writes.
  \<^item> Ratelimit, Write_Limits, Kv_Handler, Http_Gateway, Grpc_Transport: \<open>internal/transport\<close>.
  \<^item> Event_Loop: \<open>RaftNode.run\<close> of \<open>raft/raft.go\<close> with the clock, its two timers and their channels,
    as a step relation between the loop and the critical sections that run beside it.
  \<^item> Server_Main: \<open>cmd/raftra-server\<close>, its flags and \<open>main\<close> from the parsed flags to the end of the
    shutdown.  Cli_Ui, Cli_Console, Cli_Spinner, Cli_Client, Cli_Shell: \<open>cmd/raftra-cli\<close>, its output
    blocks, the console modes, the spinner with its goroutine and channels, its requests and
    commands, and its screens and shell down to \<open>main\<close>.

  What the lemmas show:
  \<^item> Raft_Spec, Raft_Steps, Raft_Safety state the protocol over abstract logs, with history
    variables, and prove its invariants: one leader per term, log matching, leader completeness,
    state machine safety.
  \<^item> Node_Sim, Follower_Sim, Leader_Sim, Restart_Sim, Closures and Clients relate a node of the
    code to the protocol and show that every handler, timer, answer, proposal and crash is a
    sequence of protocol steps; Cluster_Refinement lifts this to clusters.  They are proved in the
    locale \<open>engine\<close> over any backend of the locale \<open>storage\<close>, which Memory_Store and
    Bbolt_Safety interpret.  Cluster_Safety turns them into facts about reachable clusters, and
    Demo_Cluster is a concrete run on which the hypotheses hold.
  \<^item> This theory: safety of every reachable cluster (C1 to C4, C9 to C17).  Service_Properties: the
    gateway, the engine and the map together, and the well-formedness of a member (C5, C18).
  \<^item> Catch_Up: rounds of heartbeats between a leader and a lagging follower, with the number of
    rounds after which the follower has caught up.  Waiting_Clients: no round loses a client that
    waits for its entry, and the round that commits the entry answers it.  Cluster_Progress makes
    the rounds events of a cluster: a leader that a majority can follow can always commit its log
    by its heartbeats, deliveries and answers alone (C7).  Cluster_Election does the same for
    elections, so once the leases have run out a majority without a leader can elect its most
    up-to-date member and commit its log, without the other members (C6).  Client_Progress puts a client in front: its PUT can be committed, its proposal
    returned and the value read (C8).  These are statements of what can happen next, from every
    reachable state, not of fairness of a network: the events of a cluster include the fire of a
    timer at any instant.
  \<^item> Event_Loop shows when a timer fires on time, and the one interleaving in which it does not: the
    loop of a node gets the fire of its election timer unless the node has become the leader between
    the loop's reading of its role and \<open>startElection\<close>; then the timer is lost (C23, C24).
  \<^item> Store_Properties: the durable store (C19 to C21).  Election_Properties and
    Replication_Properties: one node, its votes, commit rule, proposals (C22, C25 to C31).
    Limit_Properties and Gateway_Properties: the limiter and the HTTP gateway (C32 to C37).  The
    limiter computes in \<open>float64\<close>, so its answers are compared with exact accounts up to a
    tolerance: the burst over \<open>2 ^ 48\<close> for each write of a client.
    Command_Properties: the two commands, with a restart of the server (C38 to C40).
    Observations: statements about single branches in which the code and its documents differ.

  Bounds.  Terms, indices and lengths are 64-bit words.  A reachable cluster is one whose terms and
  log lengths have not reached the end of the word (\<open>no_wrap\<close>), whose commands fit the store
  (a gigabyte for bbolt) and whose members have distinct, non-empty names.  No loop is cut off by
  fuel: the apply loop, the redirects and the loops over lists are total functions; the retry loop
  of the client is a partial function, and C40 shows that it returns.

  Assumed of code outside the repository, always as a named hypothesis: bbolt and protobuf
  (\<open>bbolt_laws\<close>, \<open>protobuf_laws\<close>), the gob codec (\<open>gob_roundtrip\<close>), the clock and the random
  source (\<open>env_ok\<close>, \<open>clock_ok\<close>).  The address, URL and JSON functions of the standard library and
  gRPC are parameters without laws.

  Not modelled: logging; what listeners and servers do between start and stop beyond the handlers;
  the data of Prometheus collectors beyond their values; UTF-8 outside the width of
  terminal output and letter case outside ASCII; fused multiply-add, which the compiler may
  use for the limiter on processors other than amd64; the pauses of the client's animation; generated
  code, the web site, deployment files, benchmarks and chaos tests.
\<close>

section \<open>Safety of the cluster\<close>

text \<open>
  C1: election safety.  Two different members of a cluster never lead the same term, whatever
  messages are lost, repeated, delayed or reordered and whichever nodes crash, also between the
  writes of a term change.
\<close>

theorem election_safety:
  assumes b: "backend_ok D fresh fits" and N: "members_ok fits N" and r: "cluster_reach D fresh fits N c"
    and n: "n \<in> N" and m: "m \<in> N" and ne: "n \<noteq> m"
    and L: "rn_role (c_nodes c n) = Leader" "rn_role (c_nodes c m) = Leader"
  shows "CurrentTerm (c_nodes c n) \<noteq> CurrentTerm (c_nodes c m)"
proof -
  obtain ok term_of vote_of log_of a where e: "engine (d_backend D) ok term_of vote_of log_of fits D"
    and c: "engine.csim ok term_of vote_of log_of fits D N c a" by (rule cluster_abs [OF b N r])
  from spec_election_safety [OF spec_okD(3) [OF abs_spec [OF e c]], of n m] L ne
  show ?thesis using abs_node [OF e c n] abs_node [OF e c m] by auto
qed

theorem election_safety_witness:
  "CurrentTerm (c_nodes (demo_at 18) ''a'') \<noteq> CurrentTerm (c_nodes (demo_at 18) ''b'')"
  by (rule election_safety [OF demo_setting]) (simp_all add: demo_facts)

text \<open>
  C2: state machine safety.  Two members that have applied different numbers of entries agree on
  every entry both have applied, commands included.
\<close>

theorem state_machine_safety:
  assumes b: "backend_ok D fresh fits" and N: "members_ok fits N" and r: "cluster_reach D fresh fits N c"
    and n: "n \<in> N" and m: "m \<in> N" and le: "lastApplied (c_nodes c n) \<le> lastApplied (c_nodes c m)"
  shows "take (Suc (unat (lastApplied (c_nodes c n)))) (Log (c_nodes c n)) =
    take (Suc (unat (lastApplied (c_nodes c n)))) (Log (c_nodes c m))"
proof -
  obtain ok term_of vote_of log_of a where e: "engine (d_backend D) ok term_of vote_of log_of fits D"
    and c: "engine.csim ok term_of vote_of log_of fits D N c a" by (rule cluster_abs [OF b N r])
  note sp = abs_spec [OF e c] and an = abs_node [OF e c n] and am = abs_node [OF e c m]
  have la: "lastApplied (c_nodes c n) = commitIndex (c_nodes c n)" "lastApplied (c_nodes c m) = commitIndex (c_nodes c m)"
    using an(6) am(6) by (simp_all add: applied_def)
  with le have "a_commit a n \<le> a_commit a m" by (simp add: an(4) am(4) unat_le_u64)
  from spec_state_machine_safety [OF spec_okD(3,1) [OF sp] n m this] show ?thesis
    by (simp add: an(2,4) am(2) la abs_prefix_eq)
qed

theorem state_machine_safety_witness:
  "take 2 (Log (c_nodes (demo_at 18) ''b'')) = take 2 (Log (c_nodes (demo_at 18) ''a''))"
  using state_machine_safety [OF demo_setting, of "''b''" "''a''" 18] by (simp add: demo_facts numeral_2_eq_2)

text \<open>
  C3: the key-value map of a member is exactly the replay of its committed log prefix on an empty
  map, so members that have applied equally many entries hold the same map, and no member has
  applied an entry it does not hold.
\<close>

theorem store_is_replay:
  assumes b: "backend_ok D fresh fits" and N: "members_ok fits N" and r: "cluster_reach D fresh fits N c" and n: "n \<in> N"
  shows "rn_kvStore (c_nodes c n) = replay D (take (Suc (unat (lastApplied (c_nodes c n)))) (Log (c_nodes c n))) \<and>
    lastApplied (c_nodes c n) = commitIndex (c_nodes c n) \<and>
    unat (commitIndex (c_nodes c n)) < length (Log (c_nodes c n))"
  using member_applied [OF assms] by (simp add: applied_def)

theorem store_is_replay_witness:
  "unat (commitIndex (c_nodes (demo_at 18) ''a'')) < length (Log (c_nodes (demo_at 18) ''a''))"
  using store_is_replay [OF demo_setting demo_member(1)] by blast

text \<open>
  C4: acknowledged writes are durable.  Once a proposal has returned success for index \<open>i\<close>, every
  member whose commit index has reached \<open>i\<close> holds the proposed command there, and so does every
  leader whose term is not older than any member's.
\<close>

theorem acked_durable:
  assumes b: "backend_ok D fresh fits" and N: "members_ok fits N" and r: "cluster_reach D fresh fits N c"
    and ack: "(i, cmd) \<in> set (c_acked c)" and m: "m \<in> N"
    and has: "i \<le> commitIndex (c_nodes c m) \<or>
      rn_role (c_nodes c m) = Leader \<and> (\<forall>k\<in>N. CurrentTerm (c_nodes c k) \<le> CurrentTerm (c_nodes c m))"
  shows "unat i < length (Log (c_nodes c m)) \<and> le_command (Log (c_nodes c m) ! unat i) = cmd"
  using acked_entry [OF assms] .

theorem acked_durable_witness:
  "le_command (Log (c_nodes (demo_at 18) ''b'') ! 2) = demo_command"
proof -
  have "(2, demo_command) \<in> set (c_acked (demo_at 18))" by (simp add: demo_facts)
  from acked_durable [OF demo_setting this demo_member(2)] show ?thesis
    by (simp add: demo_facts demo_members_def)
qed

text \<open>
  C9: leader completeness.  A leader holds every entry that any member of a term not newer than
  its own has committed.
\<close>

theorem leader_completeness:
  assumes b: "backend_ok D fresh fits" and N: "members_ok fits N" and r: "cluster_reach D fresh fits N c"
    and n: "n \<in> N" and m: "m \<in> N" and L: "rn_role (c_nodes c m) = Leader"
    and t: "CurrentTerm (c_nodes c n) \<le> CurrentTerm (c_nodes c m)"
  shows "unat (commitIndex (c_nodes c n)) < length (Log (c_nodes c m)) \<and>
    take (Suc (unat (commitIndex (c_nodes c n)))) (Log (c_nodes c n)) =
    take (Suc (unat (commitIndex (c_nodes c n)))) (Log (c_nodes c m))"
proof -
  obtain ok term_of vote_of log_of a where e: "engine (d_backend D) ok term_of vote_of log_of fits D"
    and c: "engine.csim ok term_of vote_of log_of fits D N c a" by (rule cluster_abs [OF b N r])
  note sp = abs_spec [OF e c] and an = abs_node [OF e c n] and am = abs_node [OF e c m]
  have "a_role a m = Leader" "a_term a n \<le> a_term a m" using L t an(1) am(1,3) by (simp_all add: unat_le_u64)
  from spec_leader_has_committed [OF spec_okD(3,1) [OF sp] n this] show ?thesis
    by (simp add: an(2,4) am(2) abs_prefix_eq)
qed

theorem leader_completeness_witness:
  "take 3 (Log (c_nodes (demo_at 18) ''a'')) = take 3 (Log (c_nodes (demo_at 18) ''b''))"
  using leader_completeness [OF demo_setting, of "''a''" "''b''" 18] by (simp add: demo_facts)

text \<open>
  C10: log matching.  If two members hold an entry of the same term at the same index, their logs
  are identical up to that index.
\<close>

theorem log_matching:
  assumes b: "backend_ok D fresh fits" and N: "members_ok fits N" and r: "cluster_reach D fresh fits N c"
    and n: "n \<in> N" and m: "m \<in> N"
    and i: "i < length (Log (c_nodes c n))" "i < length (Log (c_nodes c m))"
    and t: "le_term (Log (c_nodes c n) ! i) = le_term (Log (c_nodes c m) ! i)"
  shows "take (Suc i) (Log (c_nodes c n)) = take (Suc i) (Log (c_nodes c m))"
  using members_log_matching [OF assms] .

theorem log_matching_witness:
  "take 3 (Log (c_nodes (demo_at 18) ''c'')) = take 3 (Log (c_nodes (demo_at 18) ''b''))"
  using log_matching [OF demo_setting, of "''c''" "''b''" 2 18] by (simp add: demo_entries)

section \<open>What one event may change\<close>

text \<open>
  C11: committed entries are never rewritten.  Whatever happens next, a crash or a conflict with a
  new leader included, a member keeps every entry up to its commit index, and the term of the
  entries too.
\<close>

theorem committed_never_rewritten:
  assumes b: "backend_ok D fresh fits" and N: "members_ok fits N" and r: "cluster_reach D fresh fits N c"
    and n: "n \<in> N" and ev: "event_ok fits ev" and x: "exec D N ev c = Some c'"
  shows "take (Suc (unat (commitIndex (c_nodes c n)))) (Log (c_nodes c' n)) =
    take (Suc (unat (commitIndex (c_nodes c n)))) (Log (c_nodes c n))"
proof -
  obtain ok term_of vote_of log_of a a' where e: "engine (d_backend D) ok term_of vote_of log_of fits D"
    and c: "engine.csim ok term_of vote_of log_of fits D N c a"
    and c': "engine.csim ok term_of vote_of log_of fits D N c' a'" and steps: "(spec_step N)\<^sup>*\<^sup>* a a'"
    by (rule event_abs [OF b N r ev x])
  note sp = abs_spec [OF e c] and an = abs_node [OF e c n] and an' = abs_node [OF e c' n]
  from safe_prefix_steps [OF steps spec_okD(3,1) [OF sp] commitD(1) [OF spec_okD(7) [OF sp] n]]
  have "take (Suc (a_commit a n)) (a_log a' n) = take (Suc (a_commit a n)) (a_log a n)" by simp
  then show ?thesis by (simp add: an(2,4) an'(2) abs_prefix_eq)
qed

theorem committed_never_rewritten_witness:
  "take (Suc (unat (commitIndex (c_nodes (demo_at 8) ''a'')))) (Log (c_nodes (demo_at 9) ''a'')) =
   take (Suc (unat (commitIndex (c_nodes (demo_at 8) ''a'')))) (Log (c_nodes (demo_at 8) ''a''))"
  by (rule committed_never_rewritten [OF demo_setting demo_member(1) _ demo_propose]) simp

text \<open>
  C12: leader append-only.  A member that leads a term before and after an event has at most
  appended to its log.
\<close>

theorem leader_append_only:
  assumes b: "backend_ok D fresh fits" and N: "members_ok fits N" and r: "cluster_reach D fresh fits N c"
    and n: "n \<in> N" and ev: "event_ok fits ev" and x: "exec D N ev c = Some c'"
    and L: "rn_role (c_nodes c n) = Leader" "rn_role (c_nodes c' n) = Leader"
    and t: "CurrentTerm (c_nodes c' n) = CurrentTerm (c_nodes c n)"
  shows "\<exists>es. Log (c_nodes c' n) = Log (c_nodes c n) @ es"
proof -
  obtain ok term_of vote_of log_of a a' where e: "engine (d_backend D) ok term_of vote_of log_of fits D"
    and c: "engine.csim ok term_of vote_of log_of fits D N c a"
    and c': "engine.csim ok term_of vote_of log_of fits D N c' a'" and steps: "(spec_step N)\<^sup>*\<^sup>* a a'"
    by (rule event_abs [OF b N r ev x])
  note sp = abs_spec [OF e c] and an = abs_node [OF e c n] and an' = abs_node [OF e c' n]
  have le: "hist_le a a'" using spec_steps_hist [OF steps spec_okD(3,1) [OF sp]] .
  have "a_llog a (a_term a n) = Some (a_log a n)"
    using leaderD(2) [OF spec_okD(10) [OF sp]] L(1) an(3) by simp
  from hist_leD(5) [OF le this] obtain X where "a_llog a' (a_term a n) = Some (a_log a n @ X)" by blast
  moreover have "a_llog a' (a_term a' n) = Some (a_log a' n)"
    using leaderD(2) [OF spec_okD(10) [OF abs_spec [OF e c']]] L(2) an'(3) by simp
  moreover have "a_term a' n = a_term a n" using t an(1) an'(1) by simp
  ultimately have "abs_log (Log (c_nodes c' n)) = abs_log (Log (c_nodes c n)) @ X" using an(2) an'(2) by simp
  then have "abs_log (take (length (Log (c_nodes c n))) (Log (c_nodes c' n))) = abs_log (Log (c_nodes c n))"
    by (simp add: take_map [symmetric])
  then have "take (length (Log (c_nodes c n))) (Log (c_nodes c' n)) = Log (c_nodes c n)" by simp
  then have "Log (c_nodes c' n) = Log (c_nodes c n) @ drop (length (Log (c_nodes c n))) (Log (c_nodes c' n))"
    by (metis append_take_drop_id)
  then show ?thesis by blast
qed

theorem leader_append_only_witness:
  "\<exists>es. Log (c_nodes (demo_at 9) ''a'') = Log (c_nodes (demo_at 8) ''a'') @ es"
  by (rule leader_append_only [OF demo_setting demo_member(1) _ demo_propose])
    (simp_all add: demo_leading_facts)

text \<open>
  C13: terms never go back, neither in memory nor, since a restart reads them from it, on disk.
\<close>

theorem term_monotone:
  assumes b: "backend_ok D fresh fits" and N: "members_ok fits N" and r: "cluster_reach D fresh fits N c"
    and n: "n \<in> N" and ev: "event_ok fits ev" and x: "exec D N ev c = Some c'"
  shows "CurrentTerm (c_nodes c n) \<le> CurrentTerm (c_nodes c' n)"
proof -
  obtain ok term_of vote_of log_of a a' where e: "engine (d_backend D) ok term_of vote_of log_of fits D"
    and c: "engine.csim ok term_of vote_of log_of fits D N c a"
    and c': "engine.csim ok term_of vote_of log_of fits D N c' a'" and steps: "(spec_step N)\<^sup>*\<^sup>* a a'"
    by (rule event_abs [OF b N r ev x])
  from spec_steps_term [OF steps, of n] show ?thesis
    using abs_node(1) [OF e c n] abs_node(1) [OF e c' n] by (simp add: unat_le_u64)
qed

theorem term_monotone_witness:
  "CurrentTerm (c_nodes (demo_at 8) ''c'') \<le> CurrentTerm (c_nodes (demo_at 9) ''c'')"
  by (rule term_monotone [OF demo_setting demo_member(3) _ demo_propose]) simp

section \<open>Votes, goroutines and the disk\<close>

text \<open>
  C14: one vote per term.  All the votes a member has ever granted in a term went to the same
  candidate, crashes and repeated requests included.
\<close>

theorem one_vote_per_term:
  assumes b: "backend_ok D fresh fits" and N: "members_ok fits N" and r: "cluster_reach D fresh fits N c"
    and calls: "map_of (c_calls c) i = Some (n, p, VoteCall k req)" "map_of (c_calls c) j = Some (m, p, VoteCall l req')"
    and replies: "(i, VoteReply res) \<in> set (c_replies c)" "(j, VoteReply res') \<in> set (c_replies c)"
    and granted: "rvr_vote_granted res" "rvr_vote_granted res'" and same: "rv_term req = rv_term req'"
  shows "n = m"
proof -
  obtain ok term_of vote_of log_of a where e: "engine (d_backend D) ok term_of vote_of log_of fits D"
    and c: "engine.csim ok term_of vote_of log_of fits D N c a" by (rule cluster_abs [OF b N r])
  have "(unat (rv_term req), p, n) \<in> a_votes a" "(unat (rv_term req), p, m) \<in> a_votes a"
    using engine.reply_call [OF e c calls(1) replies(1)] engine.reply_call [OF e c calls(2) replies(2)]
      granted same by simp_all
  from votesD(5) [OF spec_okD(8) [OF abs_spec [OF e c]] this] show ?thesis by simp
qed

theorem one_vote_per_term_witness:
  "fst (the (map_of (c_calls (demo_at 4)) 2)) = ''a''"
proof -
  from demo_vote_call obtain p k req where m: "map_of (c_calls (demo_at 4)) 2 = Some (''a'', p, VoteCall k req)"
    and r: "(2, demo_vote 1) \<in> set (c_replies (demo_at 4))" by blast
  from one_vote_per_term [OF demo_setting m m r [unfolded demo_vote_def] r [unfolded demo_vote_def]]
  show ?thesis by (simp add: m)
qed

text \<open>
  C15: the goroutines of an RPC never panic.  When the answer to a call in flight arrives, the
  rest of its goroutine runs to its end: its counters exist, and a node that still leads has its
  leader state.
\<close>

theorem goroutines_never_panic:
  assumes b: "backend_ok D fresh fits" and N: "members_ok fits N" and r: "cluster_reach D fresh fits N c"
    and call: "map_of (c_calls c) i = Some (n, p, call)" and w: "i \<in> set (c_waiting c)"
    and reply: "(i, rep) \<in> set (c_replies c)"
  shows "\<exists>rn cs. continuation D e p call rep (c_nodes c n) = Some (rn, cs)"
proof -
  obtain ok term_of vote_of log_of a where en: "engine (d_backend D) ok term_of vote_of log_of fits D"
    and c: "engine.csim ok term_of vote_of log_of fits D N c a" and nw: "no_wrap N c"
    by (rule cluster_abs [OF b N r])
  from engine.continuation_sim [OF en c nw call w reply] show ?thesis by metis
qed

theorem goroutines_never_panic_witness:
  "\<exists>n p call rn cs. map_of (c_calls (demo_at 4)) 2 = Some (n, p, call) \<and>
     continuation demo_deps (demo_env 1) p call (demo_vote 1) (c_nodes (demo_at 4) n) = Some (rn, cs)"
proof -
  from demo_vote_call obtain p k req where m: "map_of (c_calls (demo_at 4)) 2 = Some (''a'', p, VoteCall k req)"
    and r: "(2, demo_vote 1) \<in> set (c_replies (demo_at 4))" and w: "2 \<in> set (c_waiting (demo_at 4))" by blast
  from goroutines_never_panic [OF demo_setting m w r] m show ?thesis by blast
qed

text \<open>
  C16: memory mirrors the disk.  After every event, what a restart would read from the store,
  through the operations \<open>NewRaftNode\<close> uses, is the term, the vote and the log the node holds in
  memory.
\<close>

theorem memory_mirrors_disk:
  assumes b: "backend_ok D fresh fits" and N: "members_ok fits N" and r: "cluster_reach D fresh fits N c" and n: "n \<in> N"
  shows "LoadTerm (d_backend D) (rn_storage (c_nodes c n)) = Inr (CurrentTerm (c_nodes c n)) \<and>
    LoadVotedFor (d_backend D) (rn_storage (c_nodes c n)) = Inr (VotedFor (c_nodes c n)) \<and>
    LoadAllEntries (d_backend D) (rn_storage (c_nodes c n)) = Inr (Log (c_nodes c n))"
proof -
  obtain ok term_of vote_of log_of a where e: "engine (d_backend D) ok term_of vote_of log_of fits D"
    and c: "engine.csim ok term_of vote_of log_of fits D N c a" by (rule cluster_abs [OF b N r])
  have st: "storage (d_backend D) ok term_of vote_of log_of fits" using e by (simp add: engine_def)
  from abs_node(5) [OF e c n] show ?thesis
    using storage.LoadTerm_ok [OF st] storage.LoadVotedFor_ok [OF st] storage.LoadAllEntries_ok [OF st]
    by (simp add: mirrors_def)
qed

theorem memory_mirrors_disk_witness:
  "LoadTerm memory_backend (rn_storage (c_nodes (demo_at 18) ''b'')) = Inr 2"
  using memory_mirrors_disk [OF demo_setting demo_member(2), of 18]
  by (simp add: demo_facts demo_deps_def memory_deps_def)

text \<open>
  C17: the code refines the abstract Raft protocol.  Every reachable cluster is the image of a
  reachable state of the protocol of \<open>Raft_Spec\<close> over unbounded terms and logs, with the same
  terms, votes, logs, roles and commit indices.
\<close>

theorem refines_raft:
  assumes b: "backend_ok D fresh fits" and N: "members_ok fits N" and r: "cluster_reach D fresh fits N c"
  shows "\<exists>a. spec_reach N sentinel a \<and> (\<forall>n\<in>N. abstracts n (c_nodes c n) a)"
proof -
  obtain ok term_of vote_of log_of a where e: "engine (d_backend D) ok term_of vote_of log_of fits D"
    and c: "engine.csim ok term_of vote_of log_of fits D N c a" and sr: "spec_reach N sentinel a"
    by (rule cluster_abs [OF b N r])
  have "abstracts n (c_nodes c n) a" if "n \<in> N" for n
    using engine.csimD(3) [OF e c that] by (simp add: node_sim_def)
  with sr show ?thesis by blast
qed

theorem refines_raft_witness:
  "\<exists>a. spec_reach demo_members sentinel a \<and> (\<forall>n\<in>demo_members. abstracts n (c_nodes (demo_at 18) n) a)"
  by (rule refines_raft [OF demo_setting])

end
